(* ===== verification/Prelude.thy ===== *)
theory Prelude
  imports Main "HOL-Library.Multiset"
begin

text \<open>
  The library the components share: the containers of JavaScript that the sources use
  (a \<open>Set\<close> read back as a list, a \<open>Map\<close> with its insertion order, the stable
  \<open>Array.prototype.sort\<close>) with the laws their clients rely on.
\<close>

named_theorems js_simps \<open>equations of the container operations\<close>

section \<open>Sets and arrays\<close>

text \<open>\<open>[...new Set(xs)]\<close>: the elements in order of first occurrence.\<close>

fun uniq_from :: "'a list \<Rightarrow> 'a list \<Rightarrow> 'a list" where
  "uniq_from seen [] = []"
| "uniq_from seen (x # xs) =
     (if x \<in> set seen then uniq_from seen xs else x # uniq_from (x # seen) xs)"

definition uniq :: "'a list \<Rightarrow> 'a list" where
  "uniq xs = uniq_from [] xs"

lemma set_uniq_from: "set (uniq_from seen xs) = set xs - set seen"
  by (induction xs arbitrary: seen) auto

lemma set_uniq [simp, js_simps]: "set (uniq xs) = set xs"
  by (simp add: uniq_def set_uniq_from)

lemma distinct_uniq_from: "distinct (uniq_from seen xs)"
  by (induction xs arbitrary: seen) (auto simp: set_uniq_from)

lemma distinct_uniq [simp]: "distinct (uniq xs)"
  by (simp add: uniq_def distinct_uniq_from)

lemma uniq_from_id: "distinct xs \<Longrightarrow> set xs \<inter> set seen = {} \<Longrightarrow> uniq_from seen xs = xs"
  by (induction xs arbitrary: seen) auto

lemma uniq_id: "distinct xs \<Longrightarrow> uniq xs = xs"
  by (simp add: uniq_def uniq_from_id)

lemma uniq_idem [simp]: "uniq (uniq xs) = uniq xs"
  by (simp add: uniq_id)

lemma uniq_Nil [simp]: "uniq [] = []"
  by (simp add: uniq_def)

text \<open>\<open>xs.at(-1)\<close>: the last element, or undefined.\<close>

definition at_last :: "'a list \<Rightarrow> 'a option" where
  "at_last xs = (if xs = [] then None else Some (last xs))"

lemma at_last_simps [simp]:
  "at_last [] = None"
  "at_last (xs @ [x]) = Some x"
  by (simp_all add: at_last_def)

lemma at_last_Some: "at_last xs = Some x \<Longrightarrow> xs = butlast xs @ [x]"
  by (cases xs rule: rev_cases) auto

lemma at_last_SomeD: "at_last xs = Some x \<Longrightarrow> x \<in> set xs"
  by (auto simp: at_last_def split: if_splits)

lemma find_SomeD: "find P xs = Some x \<Longrightarrow> x \<in> set xs \<and> P x"
  by (induction xs) (auto split: if_splits)

lemma find_NoneD: "find P xs = None \<Longrightarrow> x \<in> set xs \<Longrightarrow> \<not> P x"
  by (induction xs) (auto split: if_splits)

lemma find_None_image: "find (\<lambda>x. f x = k) xs = None \<longleftrightarrow> k \<notin> f ` set xs"
  by (induction xs) auto

text \<open>
  \<open>xs.sort(compare)\<close>: a stable sort; \<open>le x y\<close> is \<open>compare(x, y) <= 0\<close>. On a comparison
  that is total and transitive every stable sort gives this result.
\<close>

fun insort_by :: "('a \<Rightarrow> 'a \<Rightarrow> bool) \<Rightarrow> 'a \<Rightarrow> 'a list \<Rightarrow> 'a list" where
  "insort_by le x [] = [x]"
| "insort_by le x (y # ys) = (if le x y then x # y # ys else y # insort_by le x ys)"

definition js_sort :: "('a \<Rightarrow> 'a \<Rightarrow> bool) \<Rightarrow> 'a list \<Rightarrow> 'a list" where
  "js_sort le xs = foldr (insort_by le) xs []"

lemma mset_insort_by [simp]: "mset (insort_by le x ys) = add_mset x (mset ys)"
  by (induction ys) auto

lemma set_insort_by [simp]: "set (insort_by le x ys) = insert x (set ys)"
  by (induction ys) auto

lemma mset_js_sort [simp]: "mset (js_sort le xs) = mset xs"
  by (induction xs) (auto simp: js_sort_def)

lemma set_js_sort [simp]: "set (js_sort le xs) = set xs"
  by (metis mset_js_sort set_mset_mset)

lemma length_js_sort [simp]: "length (js_sort le xs) = length xs"
  by (metis mset_js_sort size_mset)

lemma distinct_js_sort [simp]: "distinct (js_sort le xs) = distinct xs"
  by (metis mset_js_sort mset_eq_imp_distinct_iff)

lemma sorted_insort_by:
  assumes "transp le" and "\<And>x y. le x y \<or> le y x" and "sorted_wrt le ys"
  shows "sorted_wrt le (insort_by le x ys)"
  using assms(3)
proof (induction ys)
  case Nil
  then show ?case by simp
next
  case (Cons y ys)
  have "le y x" if "\<not> le x y" using assms(2) [of x y] that by blast
  with Cons assms(1) show ?case by (auto dest: transpD)
qed

lemma sorted_js_sort:
  assumes "transp le" and "\<And>x y. le x y \<or> le y x"
  shows "sorted_wrt le (js_sort le xs)"
  by (induction xs) (simp_all add: js_sort_def sorted_insort_by assms)

text \<open>A list changed at its first match.\<close>

primrec update_first :: "('a \<Rightarrow> bool) \<Rightarrow> ('a \<Rightarrow> 'a) \<Rightarrow> 'a list \<Rightarrow> 'a list" where
  "update_first p f [] = []"
| "update_first p f (x # xs) = (if p x then f x # xs else x # update_first p f xs)"

lemma set_update_first: "set (update_first q f xs) \<subseteq> set xs \<union> f ` {x \<in> set xs. q x}"
  by (induction xs) auto

lemma map_update_first: "(\<And>x. x \<in> set xs \<Longrightarrow> q x \<Longrightarrow> h (f x) = h x) \<Longrightarrow> map h (update_first q f xs) = map h xs"
  by (induction xs) auto

lemma length_update_first [simp]: "length (update_first q f xs) = length xs"
  by (induction xs) auto

section \<open>Numbers as text\<close>

text \<open>\<open>String(n)\<close> for an integer, and \<open>padStart(width, "0")\<close>.\<close>

fun nat_digits :: "nat \<Rightarrow> string" where
  "nat_digits n =
     (if n < 10 then [char_of (48 + n)] else nat_digits (n div 10) @ [char_of (48 + n mod 10)])"

declare nat_digits.simps [simp del]

definition int_text :: "int \<Rightarrow> string" where
  "int_text n = (if n < 0 then ''-'' @ nat_digits (nat (- n)) else nat_digits (nat n))"

definition pad_start :: "nat \<Rightarrow> string \<Rightarrow> string" where
  "pad_start width s = replicate (width - length s) (CHR ''0'') @ s"

section \<open>Order of strings\<close>

text \<open>\<open>a <= b\<close> and \<open>a < b\<close> on strings: by the first code unit that differs.\<close>

fun str_le :: "string \<Rightarrow> string \<Rightarrow> bool" where
  "str_le [] bs = True"
| "str_le (a # as) [] = False"
| "str_le (a # as) (b # bs) =
     (if (of_char a :: nat) < of_char b then True
      else if (of_char b :: nat) < of_char a then False else str_le as bs)"

definition str_less :: "string \<Rightarrow> string \<Rightarrow> bool" where
  "str_less a b \<longleftrightarrow> \<not> str_le b a"

lemma str_le_refl [simp]: "str_le a a"
  by (induction a) auto

lemma str_le_total: "str_le a b \<or> str_le b a"
  by (induction a b rule: str_le.induct) auto

lemma str_le_antisym: "str_le a b \<Longrightarrow> str_le b a \<Longrightarrow> a = b"
proof (induction a b rule: str_le.induct)
  case (1 bs)
  then show ?case by (cases bs) auto
next
  case (3 a as b bs)
  then have "of_char a = (of_char b :: nat)" by (auto split: if_splits)
  then have "a = b" by (simp add: of_char_eq_iff)
  with 3 show ?case by simp
qed simp

lemma str_le_trans: "str_le a b \<Longrightarrow> str_le b c \<Longrightarrow> str_le a c"
proof (induction a b arbitrary: c rule: str_le.induct)
  case (3 a as b bs)
  then show ?case by (cases c) (auto split: if_splits)
qed auto

lemma str_less_le: "str_less a b \<longleftrightarrow> str_le a b \<and> a \<noteq> b"
  using str_le_total str_le_antisym by (auto simp: str_less_def)

lemma str_less_irrefl [simp]: "\<not> str_less a a"
  by (simp add: str_less_def)

lemma str_less_trans: "str_less a b \<Longrightarrow> str_less b c \<Longrightarrow> str_less a c"
  by (metis str_less_le str_le_trans str_le_antisym)

lemma str_le_less_trans: "str_le a b \<Longrightarrow> str_less b c \<Longrightarrow> str_less a c"
  by (metis str_less_le str_le_trans str_le_antisym)

lemma str_less_le_trans: "str_less a b \<Longrightarrow> str_le b c \<Longrightarrow> str_less a c"
  by (metis str_less_le str_le_trans str_le_antisym)

lemma str_less_append_same [simp]: "str_less (p @ a) (p @ b) = str_less a b"
  by (induction p) (auto simp: str_less_def)

section \<open>Maps with insertion order\<close>

text \<open>
  A JavaScript \<open>Map\<close> is the list of its entries in insertion order: \<open>set\<close> on a key it
  holds replaces the value in place, on a new key appends.
\<close>

type_synonym ('k, 'v) js_map = "('k \<times> 'v) list"

fun js_set :: "'k \<Rightarrow> 'v \<Rightarrow> ('k, 'v) js_map \<Rightarrow> ('k, 'v) js_map" where
  "js_set k v [] = [(k, v)]"
| "js_set k v ((k', v') # m) = (if k' = k then (k, v) # m else (k', v') # js_set k v m)"

definition js_get :: "('k, 'v) js_map \<Rightarrow> 'k \<Rightarrow> 'v option" where
  "js_get m k = map_of m k"

definition js_has :: "('k, 'v) js_map \<Rightarrow> 'k \<Rightarrow> bool" where
  "js_has m k \<longleftrightarrow> js_get m k \<noteq> None"

definition js_delete :: "'k \<Rightarrow> ('k, 'v) js_map \<Rightarrow> ('k, 'v) js_map" where
  "js_delete k m = filter (\<lambda>e. fst e \<noteq> k) m"

definition js_values :: "('k, 'v) js_map \<Rightarrow> 'v list" where
  "js_values m = map snd m"

definition js_keys :: "('k, 'v) js_map \<Rightarrow> 'k list" where
  "js_keys m = map fst m"

text \<open>\<open>new Map(entries)\<close>: a later entry of a key replaces the earlier one in its place.\<close>

definition js_map_of :: "('k \<times> 'v) list \<Rightarrow> ('k, 'v) js_map" where
  "js_map_of es = fold (\<lambda>(k, v). js_set k v) es []"

definition js_wf :: "('k, 'v) js_map \<Rightarrow> bool" where
  "js_wf m \<longleftrightarrow> distinct (js_keys m)"

lemma map_key_unique: "distinct (map fst es) \<Longrightarrow> (k, v) \<in> set es \<Longrightarrow> (k, w) \<in> set es \<Longrightarrow> v = w"
  by (metis map_of_is_SomeI option.inject)

lemma js_get_Nil [simp, js_simps]: "js_get [] k = None"
  by (simp add: js_get_def)

lemma js_get_set [simp, js_simps]: "js_get (js_set k v m) k' = (if k' = k then Some v else js_get m k')"
  by (induction m rule: js_set.induct) (auto simp: js_get_def)

lemma map_of_filter_key: "map_of (filter (\<lambda>e. fst e \<noteq> k) m) k' = (if k' = k then None else map_of m k')"
  by (induction m) auto

lemma js_get_delete [simp, js_simps]: "js_get (js_delete k m) k' = (if k' = k then None else js_get m k')"
  by (simp add: js_get_def js_delete_def map_of_filter_key)

lemma js_keys_Nil [simp]: "js_keys [] = []"
  by (simp add: js_keys_def)

lemma js_values_Nil [simp]: "js_values [] = []"
  by (simp add: js_values_def)

lemma js_keys_set: "js_keys (js_set k v m) = (if k \<in> set (js_keys m) then js_keys m else js_keys m @ [k])"
  by (induction m rule: js_set.induct) (auto simp: js_keys_def)

lemma js_get_None_iff: "js_get m k = None \<longleftrightarrow> k \<notin> set (js_keys m)"
  by (simp add: js_get_def js_keys_def map_of_eq_None_iff)

lemma js_has_iff: "js_has m k \<longleftrightarrow> k \<in> set (js_keys m)"
  by (simp add: js_has_def js_get_None_iff)

lemma js_keys_delete: "js_keys (js_delete k m) = filter (\<lambda>k'. k' \<noteq> k) (js_keys m)"
  by (induction m) (auto simp: js_keys_def js_delete_def)

lemma js_wf_Nil [simp]: "js_wf []"
  by (simp add: js_wf_def)

lemma js_wf_set [simp]: "js_wf m \<Longrightarrow> js_wf (js_set k v m)"
  by (auto simp: js_wf_def js_keys_set)

lemma js_wf_delete [simp]: "js_wf m \<Longrightarrow> js_wf (js_delete k m)"
  by (simp add: js_wf_def js_keys_delete)

lemma js_wf_fold: "js_wf m \<Longrightarrow> js_wf (fold (\<lambda>(k, v). js_set k v) es m)"
  by (induction es arbitrary: m) auto

lemma js_wf_map_of [simp]: "js_wf (js_map_of es)"
  by (simp add: js_map_of_def js_wf_fold)

lemma js_set_fresh: "k \<notin> set (js_keys m) \<Longrightarrow> js_set k v m = m @ [(k, v)]"
  by (induction m rule: js_set.induct) (auto simp: js_keys_def)

lemma js_fold_fresh:
  "distinct (map fst es) \<Longrightarrow> set (map fst es) \<inter> set (js_keys m) = {} \<Longrightarrow>
   fold (\<lambda>(k, v). js_set k v) es m = m @ es"
proof (induction es arbitrary: m)
  case Nil
  then show ?case by simp
next
  case (Cons e es)
  obtain k v where e: "e = (k, v)" by force
  with Cons.prems have "js_set k v m = m @ [e]" by (auto intro: js_set_fresh)
  moreover have "set (map fst es) \<inter> set (js_keys (m @ [e])) = {}"
    using Cons.prems e by (auto simp: js_keys_def)
  ultimately show ?case using Cons e by simp
qed

lemma js_map_of_distinct: "distinct (map fst es) \<Longrightarrow> js_map_of es = es"
  by (simp add: js_map_of_def js_fold_fresh)

lemma js_get_in_values: "js_get m k = Some v \<Longrightarrow> v \<in> set (js_values m)"
  by (force simp: js_get_def js_values_def dest: map_of_SomeD)

lemma js_values_get: "js_wf m \<Longrightarrow> v \<in> set (js_values m) \<Longrightarrow> \<exists>k. js_get m k = Some v"
  by (auto simp: js_wf_def js_keys_def js_values_def js_get_def)

lemma set_js_values: "js_wf m \<Longrightarrow> set (js_values m) = {v. \<exists>k. js_get m k = Some v}"
  by (auto dest: js_values_get js_get_in_values)

text \<open>A loop over \<open>m.values()\<close> that writes to the objects it visits.\<close>

definition js_map_values :: "('v \<Rightarrow> 'v) \<Rightarrow> ('k, 'v) js_map \<Rightarrow> ('k, 'v) js_map" where
  "js_map_values f m = map (\<lambda>(k, v). (k, f v)) m"

lemma js_values_map_values [simp]: "js_values (js_map_values f m) = map f (js_values m)"
  by (induction m) (auto simp: js_values_def js_map_values_def)

lemma js_keys_map_values [simp]: "js_keys (js_map_values f m) = js_keys m"
  by (induction m) (auto simp: js_keys_def js_map_values_def)

lemma those_append:
  "those (xs @ ys) = (case those xs of None \<Rightarrow> None | Some zs \<Rightarrow> map_option (append zs) (those ys))"
  by (induction xs; cases "those ys") (auto split: option.splits)

lemma js_get_sets:
  "js_get (fold (\<lambda>(k, v). js_set k v) es m) k = (case map_of (rev es) k of Some v \<Rightarrow> Some v | None \<Rightarrow> js_get m k)"
  by (induction es arbitrary: m) (auto simp: map_add_def split: option.splits)

lemma js_get_deletes: "js_get (fold js_delete ks m) k = (if k \<in> set ks then None else js_get m k)"
  by (induction ks arbitrary: m) auto

lemma those_Some: "\<forall>x \<in> set xs. \<exists>y. f x = Some y \<Longrightarrow> those (map f xs) = Some (map (the \<circ> f) xs)"
  by (induction xs) auto

subsection \<open>Rows kept under their own identity\<close>

text \<open>\<open>new Map(rows.map((row) => [id(row), row]))\<close>\<close>

definition rows_by :: "('r \<Rightarrow> 'k) \<Rightarrow> 'r list \<Rightarrow> ('k, 'r) js_map" where
  "rows_by ident rs = js_map_of (map (\<lambda>r. (ident r, r)) rs)"

lemma rows_by_distinct: "distinct (map ident rs) \<Longrightarrow> rows_by ident rs = map (\<lambda>r. (ident r, r)) rs"
  by (simp add: rows_by_def js_map_of_distinct comp_def)

lemma js_values_rows_by: "distinct (map ident rs) \<Longrightarrow> js_values (rows_by ident rs) = rs"
  by (simp add: rows_by_distinct js_values_def comp_def)

lemma js_keys_rows_by: "distinct (map ident rs) \<Longrightarrow> js_keys (rows_by ident rs) = map ident rs"
  by (simp add: rows_by_distinct js_keys_def comp_def)

lemma js_get_rows_by:
  "distinct (map ident rs) \<Longrightarrow> js_get (rows_by ident rs) k = find (\<lambda>r. ident r = k) rs"
  unfolding rows_by_distinct js_get_def by (induction rs) auto

lemma js_values_set_row:
  assumes "distinct (map ident rs)" and "js_get (rows_by ident rs) k = Some r"
  shows "js_values (js_set k r' (rows_by ident rs)) = map (\<lambda>x. if ident x = k then r' else x) rs"
proof -
  have "k \<in> ident ` set rs"
    using assms js_get_None_iff [of "rows_by ident rs" k] by (auto simp: js_keys_rows_by)
  with assms(1) show ?thesis
    unfolding rows_by_distinct [OF assms(1)]
  proof (induction rs)
    case Nil
    then show ?case by simp
  next
    case (Cons x xs)
    show ?case
    proof (cases "ident x = k")
      case True
      from Cons.prems(1) have "ident x \<notin> ident ` set xs" by simp
      with True have "\<forall>y \<in> set xs. ident y \<noteq> k" by (metis imageI)
      then have "map (\<lambda>y. if ident y = k then r' else y) xs = xs"
        by (intro map_idI) simp
      with True show ?thesis by (simp add: js_values_def comp_def)
    next
      case False
      with Cons show ?thesis by (auto simp: js_values_def)
    qed
  qed
qed

lemma js_values_delete_row:
  "distinct (map ident rs) \<Longrightarrow>
   js_values (js_delete k (rows_by ident rs)) = filter (\<lambda>x. ident x \<noteq> k) rs"
  unfolding rows_by_distinct by (induction rs) (auto simp: js_values_def js_delete_def)

lemma js_values_set_fresh_row:
  "k \<notin> set (js_keys m) \<Longrightarrow> js_values (js_set k r m) = js_values m @ [r]"
  by (simp add: js_set_fresh js_values_def)

end
