(* ===== verification/Contracts.thy ===== *)
theory Contracts
  imports Prelude
begin

text \<open>
  The interfaces the components are stated against, with the lemmas a client of each
  interface gets once and for all. Every locale is interpreted on the model's own
  definitions in the theory of the component that provides them.
\<close>

section \<open>Stores with keys\<close>

text \<open>What the sources rely on of a \<open>Map\<close>: a lookup after an insertion or a deletion.\<close>

locale keyed_store =
  fixes lookup :: "'m \<Rightarrow> 'k \<Rightarrow> 'v option"
    and store :: "'k \<Rightarrow> 'v \<Rightarrow> 'm \<Rightarrow> 'm"
    and discard :: "'k \<Rightarrow> 'm \<Rightarrow> 'm"
    and valid :: "'m \<Rightarrow> bool"
  assumes lookup_store: "valid m \<Longrightarrow> lookup (store k v m) k' = (if k' = k then Some v else lookup m k')"
    and lookup_discard: "valid m \<Longrightarrow> lookup (discard k m) k' = (if k' = k then None else lookup m k')"
    and valid_store: "valid m \<Longrightarrow> valid (store k v m)"
    and valid_discard: "valid m \<Longrightarrow> valid (discard k m)"
begin

lemma valid_store_all: "valid m \<Longrightarrow> valid (fold (\<lambda>(k, v). store k v) es m)"
  by (induction es arbitrary: m) (auto simp: valid_store)

text \<open>Storing a list of entries: the last entry of a key wins, other keys keep their value.\<close>

lemma lookup_store_all:
  "valid m \<Longrightarrow>
   lookup (fold (\<lambda>(k, v). store k v) es m) k =
     (case map_of (rev es) k of Some v \<Rightarrow> Some v | None \<Rightarrow> lookup m k)"
proof (induction es arbitrary: m)
  case Nil
  then show ?case by simp
next
  case (Cons e es)
  obtain k' v' where e: "e = (k', v')" by force
  from Cons.prems have "valid (store k' v' m)" by (rule valid_store)
  from Cons.IH [OF this] Cons.prems show ?case
    by (auto simp: e lookup_store map_add_def split: option.splits)
qed

lemma store_frame: "valid m \<Longrightarrow> k' \<noteq> k \<Longrightarrow> lookup (store k v m) k' = lookup m k'"
  by (simp add: lookup_store)

end

interpretation jm: keyed_store js_get js_set js_delete js_wf
  by unfold_locales simp_all

section \<open>Machines\<close>

text \<open>
  A component whose operations run one after another: \<open>step\<close> is one operation, \<open>ok\<close> the
  invariant every operation keeps.
\<close>

locale machine =
  fixes step :: "'op \<Rightarrow> 's \<Rightarrow> 's"
    and ok :: "'s \<Rightarrow> bool"
  assumes step_ok: "ok s \<Longrightarrow> ok (step a s)"
begin

lemma run_ok: "ok s \<Longrightarrow> ok (fold step as s)"
  by (induction as arbitrary: s) (auto intro: step_ok)

lemma run_split: "fold step (as @ bs) s = fold step bs (fold step as s)"
  by simp

end

text \<open>
  A machine with a measure of progress that no operation takes back: \<open>within s t\<close> says
  that \<open>t\<close> keeps what \<open>s\<close> has.
\<close>

locale monotone_machine = machine step ok
  for step :: "'op \<Rightarrow> 's \<Rightarrow> 's" and ok :: "'s \<Rightarrow> bool" +
  fixes within :: "'s \<Rightarrow> 's \<Rightarrow> bool"
  assumes within_refl: "within s s"
    and within_trans: "within s t \<Longrightarrow> within t u \<Longrightarrow> within s u"
    and step_within: "ok s \<Longrightarrow> within s (step a s)"
begin

lemma run_within: "ok s \<Longrightarrow> within s (fold step as s)"
proof (induction as arbitrary: s)
  case Nil
  show ?case by (simp add: within_refl)
next
  case (Cons a as)
  then have "within (step a s) (fold step as (step a s))" by (simp add: step_ok)
  with Cons.prems show ?case by (auto intro: within_trans step_within)
qed

lemma run_within_later: "ok s \<Longrightarrow> within (fold step as s) (fold step (as @ bs) s)"
  by (simp add: run_ok run_within)

end

section \<open>Step relations\<close>

text \<open>
  A component whose next state is not a function of the state alone: time, the caller and
  fresh identities choose among the steps.
\<close>

locale step_system =
  fixes next_state :: "'s \<Rightarrow> 's \<Rightarrow> bool"
    and good :: "'s \<Rightarrow> bool"
    and onwards :: "'s \<Rightarrow> 's \<Rightarrow> bool"
  assumes next_good: "good s \<Longrightarrow> next_state s t \<Longrightarrow> good t"
    and onwards_refl: "good s \<Longrightarrow> onwards s s"
    and onwards_trans: "onwards s t \<Longrightarrow> onwards t u \<Longrightarrow> onwards s u"
    and next_onwards: "good s \<Longrightarrow> next_state s t \<Longrightarrow> onwards s t"
begin

lemma reach_good: "next_state\<^sup>*\<^sup>* s t \<Longrightarrow> good s \<Longrightarrow> good t"
  by (induction rule: rtranclp_induct) (auto intro: next_good)

lemma reach_onwards: "next_state\<^sup>*\<^sup>* s t \<Longrightarrow> good s \<Longrightarrow> onwards s t"
proof (induction rule: rtranclp_induct)
  case base
  then show ?case by (rule onwards_refl)
next
  case (step t u)
  then have "good t" by (blast intro: reach_good)
  with step show ?case by (blast intro: onwards_trans next_onwards)
qed

end

section \<open>Deltas\<close>

text \<open>
  A server that sends the change between two representations and a client that applies it to
  what it holds: the same document, though not the same bytes.
\<close>

text \<open>The client of a sequence of revisions, each sent as the delta from the one before.\<close>

fun follow_deltas ::
  "('v \<Rightarrow> 'v \<Rightarrow> 'd) \<Rightarrow> ('v \<Rightarrow> 'd \<Rightarrow> 'v option) \<Rightarrow> 'v option \<Rightarrow> 'v \<Rightarrow> 'v list \<Rightarrow> 'v option" where
  "follow_deltas diff patch y b [] = y"
| "follow_deltas diff patch y b (a # revs) =
     follow_deltas diff patch (case y of None \<Rightarrow> None | Some v \<Rightarrow> patch v (diff b a)) a revs"

locale delta_codec =
  fixes diff :: "'v \<Rightarrow> 'v \<Rightarrow> 'd"
    and patch :: "'v \<Rightarrow> 'd \<Rightarrow> 'v option"
    and same :: "'v \<Rightarrow> 'v \<Rightarrow> bool"
    and valid :: "'v \<Rightarrow> bool"
  assumes patch_diff: "valid b \<Longrightarrow> valid a \<Longrightarrow> same y b \<Longrightarrow> \<exists>r. patch y (diff b a) = Some r \<and> same r a"
begin

lemma follow_same:
  "valid b \<Longrightarrow> \<forall>a \<in> set revs. valid a \<Longrightarrow> same y b \<Longrightarrow>
     \<exists>r. follow_deltas diff patch (Some y) b revs = Some r \<and> same r (last (b # revs))"
proof (induction revs arbitrary: y b)
  case Nil
  then show ?case by simp
next
  case (Cons a revs)
  then obtain r where r: "patch y (diff b a) = Some r" "same r a" using patch_diff [of b a y] by auto
  from Cons.IH [OF _ _ r(2)] Cons.prems r(1) show ?case by simp
qed

end

end
