(* ===== verification/Handoff_Queue.thy ===== *)
theory Handoff_Queue
  imports Contracts
begin

text \<open>
  The blue-green handoff queue, \<open>src/lib/runtime/handoffQueue.ts\<close>: the durable ownership
  rows that carry conversations from one runtime generation to the next, over the in-memory
  store of the same file. An operation takes the store's state and returns its result and
  the state it saves; \<open>now\<close> is what the injected clock returns.
\<close>

section \<open>Rows\<close>

datatype handoff_kind = Root | EngineNativeChild
datatype handoff_status = Pending | Draining | Claimed | Terminal | Failed
datatype turn_state = TurnBusy | TurnIdle | TurnTerminal | TurnUnknown
datatype interruption_outcome = Completed | Interrupted
datatype engine = Claude | Codex | Copilot

record handoff_delivery =
  deliveryId :: string
  clientMessageId :: "string option"
  seq :: int

record handoff_row_input =
  operationId :: string
  conversationId :: string
  engine :: engine
  engineSessionId :: string
  kind :: handoff_kind
  parentConversationId :: "string option"
  hostGeneration :: string
  accountId :: "string option"
  turnState :: turn_state
  pendingDeliveries :: "handoff_delivery list"

record handoff_row = handoff_row_input +
  status :: handoff_status
  predecessorGeneration :: "string option"
  successorGeneration :: "string option"
  replayedDeliveryIds :: "string list"
  interruptionOutcome :: "interruption_outcome option"
  lastError :: "string option"
  enqueuedAt :: string
  updatedAt :: string

record claim_fence =
  fromGeneration :: string
  toGeneration :: string

datatype claim_reason = NotFound | GenerationFence

record claim_result =
  ok :: bool
  claimed_row :: "handoff_row option"
  replay :: "handoff_delivery list"
  reason :: "claim_reason option"

record handoff_state =
  rows :: "handoff_row list"
  history :: "handoff_row list"
  drainingGenerations :: "string list"

section \<open>Helpers\<close>

definition orderedDeliveries :: "handoff_delivery list \<Rightarrow> handoff_delivery list" where
  "orderedDeliveries ds = sort_key seq ds"

definition replacementDeliveries ::
  "handoff_row \<Rightarrow> handoff_delivery list \<Rightarrow> handoff_delivery list" where
  "replacementDeliveries previous incoming =
     (let acknowledgedIds = set (replayedDeliveryIds previous);
          pendingIncoming = filter (\<lambda>d. deliveryId d \<notin> acknowledgedIds) (orderedDeliveries incoming);
          incomingIds = set (map deliveryId pendingIncoming);
          unacknowledged = filter (\<lambda>d. deliveryId d \<notin> incomingIds)
            (filter (\<lambda>d. deliveryId d \<notin> acknowledgedIds) (orderedDeliveries (pendingDeliveries previous)))
      in map (\<lambda>(index, d). d\<lparr>seq := int index + 1\<rparr>)
           (enumerate 0 (unacknowledged @ pendingIncoming)))"

definition acknowledgedDeliveryIds :: "handoff_row list \<Rightarrow> string \<Rightarrow> string list" where
  "acknowledgedDeliveryIds hist conv =
     uniq (concat (map replayedDeliveryIds (filter (\<lambda>row. conversationId row = conv) hist)))"

definition terminalStatusFor :: "turn_state \<Rightarrow> handoff_status" where
  "terminalStatusFor t = (if t = TurnTerminal then Terminal else Claimed)"

fun outcomeFor :: "turn_state \<Rightarrow> interruption_outcome option" where
  "outcomeFor TurnTerminal = Some Completed"
| "outcomeFor TurnBusy = Some Interrupted"
| "outcomeFor _ = None"

section \<open>The store and its read-modify-write cycle\<close>

text \<open>
  The in-memory store clones what it loads and saves, and keeps each draining generation
  once. One transaction loads the state, runs the mutation and saves what it left.
\<close>

definition transaction :: "(handoff_state \<Rightarrow> 'r \<times> handoff_state) \<Rightarrow> handoff_state \<Rightarrow> 'r \<times> handoff_state" where
  "transaction mutation q =
     (let (result, state) = mutation q
      in (result, state\<lparr>drainingGenerations := uniq (drainingGenerations state)\<rparr>))"

type_synonym row_map = "(string, handoff_row) js_map"

definition mutate ::
  "(row_map \<Rightarrow> handoff_state \<Rightarrow> 'r \<times> row_map \<times> handoff_state) \<Rightarrow> handoff_state \<Rightarrow> 'r \<times> handoff_state" where
  "mutate mutation q =
     transaction (\<lambda>state.
       let (result, rowsById, state') = mutation (rows_by operationId (rows state)) state
       in (result, state'\<lparr>rows := js_values rowsById\<rparr>)) q"

definition row :: "string \<Rightarrow> handoff_state \<Rightarrow> handoff_row option" where
  "row oid q = find (\<lambda>candidate. operationId candidate = oid) (rows q @ history q)"

section \<open>Operations\<close>

definition fresh_row :: "string \<Rightarrow> handoff_row_input \<Rightarrow> handoff_delivery list \<Rightarrow> handoff_row list \<Rightarrow> handoff_row" where
  "fresh_row now input deliveries hist =
     \<lparr>operationId = operationId input, conversationId = conversationId input, engine = engine input,
      engineSessionId = engineSessionId input, kind = kind input,
      parentConversationId = parentConversationId input, hostGeneration = hostGeneration input,
      accountId = accountId input, turnState = turnState input,
      pendingDeliveries = deliveries,
      status = Pending, predecessorGeneration = None, successorGeneration = None,
      replayedDeliveryIds = acknowledgedDeliveryIds hist (conversationId input),
      interruptionOutcome = None, lastError = None, enqueuedAt = now, updatedAt = now\<rparr>"

text \<open>The body of the loop of \<open>enqueue\<close>: one input against the rows and the history so far.\<close>

definition enqueue_one ::
  "string \<Rightarrow> handoff_row_input \<Rightarrow> row_map \<times> handoff_row list \<Rightarrow> row_map \<times> handoff_row list" where
  "enqueue_one now input s =
     (let (rowsById, hist) = s in
      if js_has rowsById (operationId input) \<or> (\<exists>r \<in> set hist. operationId r = operationId input) then s
      else
        (case find (\<lambda>r. conversationId r = conversationId input) (js_values rowsById) of
          Some active \<Rightarrow>
            if status active = Pending \<or> status active = Draining then s
            else
              (let hist' = hist @ [active];
                   fresh = fresh_row now input (replacementDeliveries active (pendingDeliveries input)) hist'
               in (js_set (operationId input) fresh (js_delete (operationId active) rowsById), hist'))
        | None \<Rightarrow>
            (js_set (operationId input)
               (fresh_row now input (orderedDeliveries (pendingDeliveries input)) hist) rowsById, hist)))"

definition enqueue :: "string \<Rightarrow> handoff_row_input list \<Rightarrow> handoff_state \<Rightarrow> handoff_state" where
  "enqueue now inputs q =
     snd (mutate (\<lambda>rowsById state.
       let (rowsById', hist) = fold (enqueue_one now) inputs (rowsById, history state)
       in ((), rowsById', state\<lparr>history := hist\<rparr>)) q)"

definition drain_row :: "string \<Rightarrow> string \<Rightarrow> handoff_row \<Rightarrow> handoff_row" where
  "drain_row now generation r =
     (if hostGeneration r \<noteq> generation then r
      else if status r \<noteq> Pending \<and> status r \<noteq> Claimed then r
      else r\<lparr>status := Draining, updatedAt := now\<rparr>)"

definition beginDrain :: "string \<Rightarrow> string \<Rightarrow> handoff_state \<Rightarrow> handoff_state" where
  "beginDrain now generation q =
     snd (mutate (\<lambda>rowsById state.
       ((), js_map_values (drain_row now generation) rowsById,
        (if generation \<in> set (drainingGenerations state) then state
         else state\<lparr>drainingGenerations := drainingGenerations state @ [generation]\<rparr>))) q)"

definition isAdmittingNewHosts :: "string \<Rightarrow> handoff_state \<Rightarrow> bool" where
  "isAdmittingNewHosts generation q \<longleftrightarrow> generation \<notin> set (drainingGenerations q)"

definition admitMessage :: "string \<Rightarrow> string \<Rightarrow> handoff_delivery \<Rightarrow> handoff_state \<Rightarrow> bool \<times> handoff_state" where
  "admitMessage now oid delivery q =
     mutate (\<lambda>rowsById state.
       (case js_get rowsById oid of
          None \<Rightarrow> (False, rowsById, state)
        | Some r \<Rightarrow>
            if status r = Terminal then (False, rowsById, state)
            else if \<exists>existing \<in> set (pendingDeliveries r). deliveryId existing = deliveryId delivery
              then (True, rowsById, state)
            else (True,
              js_set oid (r\<lparr>pendingDeliveries := orderedDeliveries (pendingDeliveries r @ [delivery]),
                            updatedAt := now\<rparr>) rowsById, state))) q"

definition refreshTurnState :: "string \<Rightarrow> string \<Rightarrow> string \<Rightarrow> turn_state \<Rightarrow> handoff_state \<Rightarrow> bool \<times> handoff_state" where
  "refreshTurnState now oid generation turn q =
     mutate (\<lambda>rowsById state.
       (case js_get rowsById oid of
          None \<Rightarrow> (False, rowsById, state)
        | Some r \<Rightarrow>
            if hostGeneration r \<noteq> generation \<or> (status r \<noteq> Pending \<and> status r \<noteq> Draining)
              then (False, rowsById, state)
            else if turnState r = TurnTerminal \<and> turn \<noteq> TurnTerminal then (False, rowsById, state)
            else (True, js_set oid (r\<lparr>turnState := turn, updatedAt := now\<rparr>) rowsById, state))) q"

definition unacknowledged_replay :: "handoff_row \<Rightarrow> handoff_delivery list" where
  "unacknowledged_replay r =
     filter (\<lambda>d. deliveryId d \<notin> set (replayedDeliveryIds r)) (orderedDeliveries (pendingDeliveries r))"

definition claim :: "string \<Rightarrow> string \<Rightarrow> claim_fence \<Rightarrow> handoff_state \<Rightarrow> claim_result \<times> handoff_state" where
  "claim now oid fence q =
     mutate (\<lambda>rowsById state.
       (case js_get rowsById oid of
          None \<Rightarrow> (\<lparr>ok = False, claimed_row = None, replay = [], reason = Some NotFound\<rparr>, rowsById, state)
        | Some r \<Rightarrow>
            let replayed = unacknowledged_replay r in
            if successorGeneration r = Some (toGeneration fence) \<and> (status r = Claimed \<or> status r = Terminal)
              then (\<lparr>ok = True, claimed_row = Some r, replay = replayed, reason = None\<rparr>, rowsById, state)
            else if hostGeneration r \<noteq> fromGeneration fence
              then (\<lparr>ok = False, claimed_row = Some r, replay = [], reason = Some GenerationFence\<rparr>, rowsById, state)
            else
              (let r' = r\<lparr>predecessorGeneration := Some (fromGeneration fence),
                          successorGeneration := Some (toGeneration fence),
                          hostGeneration := toGeneration fence,
                          status := terminalStatusFor (turnState r),
                          interruptionOutcome := outcomeFor (turnState r),
                          updatedAt := now\<rparr>
               in (\<lparr>ok = True, claimed_row = Some r', replay = replayed, reason = None\<rparr>,
                   js_set oid r' rowsById, state)))) q"

definition acknowledgeReplay ::
  "string \<Rightarrow> string \<Rightarrow> string \<Rightarrow> string list \<Rightarrow> handoff_state \<Rightarrow> bool \<times> handoff_state" where
  "acknowledgeReplay now oid successor deliveryIds q =
     mutate (\<lambda>rowsById state.
       (case js_get rowsById oid of
          None \<Rightarrow> (False, rowsById, state)
        | Some r \<Rightarrow>
            if successorGeneration r \<noteq> Some successor \<or> (status r \<noteq> Claimed \<and> status r \<noteq> Terminal)
              then (False, rowsById, state)
            else if \<exists>d \<in> set deliveryIds. d \<notin> set (map deliveryId (pendingDeliveries r))
              then (False, rowsById, state)
            else (True,
              js_set oid (r\<lparr>replayedDeliveryIds := uniq (replayedDeliveryIds r @ deliveryIds),
                            updatedAt := now\<rparr>) rowsById, state))) q"

definition release_row :: "string \<Rightarrow> string \<Rightarrow> string list \<Rightarrow> handoff_row list \<Rightarrow> handoff_row \<Rightarrow> handoff_row" where
  "release_row now candidate draining hist r =
     (if successorGeneration r \<noteq> Some candidate then r
      else
        (let predecessor = predecessorGeneration r in
         r\<lparr>hostGeneration := (case predecessor of None \<Rightarrow> hostGeneration r | Some g \<Rightarrow> g),
           status := (case predecessor of
               None \<Rightarrow> Pending
             | Some g \<Rightarrow> if g \<noteq> [] \<and> g \<in> set draining then Draining else Pending),
           predecessorGeneration := None,
           successorGeneration := None,
           replayedDeliveryIds := acknowledgedDeliveryIds hist (conversationId r),
           interruptionOutcome := None,
           updatedAt := now\<rparr>))"

definition failCandidate :: "string \<Rightarrow> string \<Rightarrow> handoff_state \<Rightarrow> handoff_state" where
  "failCandidate now candidate q =
     snd (mutate (\<lambda>rowsById state.
       ((), js_map_values (release_row now candidate (drainingGenerations state) (history state)) rowsById,
        state)) q)"

definition markRetryableFailure :: "string \<Rightarrow> string \<Rightarrow> string \<Rightarrow> handoff_state \<Rightarrow> handoff_state" where
  "markRetryableFailure now oid err q =
     snd (mutate (\<lambda>rowsById state.
       (case js_get rowsById oid of
          None \<Rightarrow> ((), rowsById, state)
        | Some r \<Rightarrow> ((), js_set oid (r\<lparr>status := Failed, lastError := Some err, updatedAt := now\<rparr>) rowsById,
            state))) q)"

definition retirable :: "string \<Rightarrow> handoff_state \<Rightarrow> bool" where
  "retirable outgoing q \<longleftrightarrow>
     (\<forall>r \<in> set (rows q). hostGeneration r = outgoing \<longrightarrow> status r \<noteq> Pending \<and> status r \<noteq> Draining)"

text \<open>Every operation that changes the store, as one step.\<close>

datatype handoff_op =
    Enqueue string "handoff_row_input list"
  | BeginDrain string string
  | AdmitMessage string string handoff_delivery
  | RefreshTurnState string string string turn_state
  | Claim string string claim_fence
  | AcknowledgeReplay string string string "string list"
  | FailCandidate string string
  | MarkRetryableFailure string string string

fun handoff_step :: "handoff_op \<Rightarrow> handoff_state \<Rightarrow> handoff_state" where
  "handoff_step (Enqueue now inputs) q = enqueue now inputs q"
| "handoff_step (BeginDrain now g) q = beginDrain now g q"
| "handoff_step (AdmitMessage now oid d) q = snd (admitMessage now oid d q)"
| "handoff_step (RefreshTurnState now oid g t) q = snd (refreshTurnState now oid g t q)"
| "handoff_step (Claim now oid fence) q = snd (claim now oid fence q)"
| "handoff_step (AcknowledgeReplay now oid g ids) q = snd (acknowledgeReplay now oid g ids q)"
| "handoff_step (FailCandidate now g) q = failCandidate now g q"
| "handoff_step (MarkRetryableFailure now oid e) q = markRetryableFailure now oid e q"

definition empty_queue :: handoff_state where
  "empty_queue = \<lparr>rows = [], history = [], drainingGenerations = []\<rparr>"

end
