(* ===== verification/Handoff_Rows.thy ===== *)
theory Handoff_Rows
  imports Handoff_Queue
begin

text \<open>
  The operations of the handoff queue seen row by row, and the invariant its rows keep:
  one active row per conversation, operation ids used once, deliveries in durable order,
  acknowledgements inherited from the earlier rows of the conversation.
\<close>

section \<open>The operations row by row\<close>

text \<open>
  Every operation but \<open>enqueue\<close> changes the store by one function of a row, applied to
  all the rows; these are those functions, with the guards of the code.
\<close>

definition row_op :: "string \<Rightarrow> (handoff_row \<Rightarrow> bool) \<Rightarrow> (handoff_row \<Rightarrow> handoff_row) \<Rightarrow> handoff_row \<Rightarrow> handoff_row" where
  "row_op oid c upd r = (if operationId r = oid \<and> c r then upd r else r)"

definition admit_row :: "string \<Rightarrow> string \<Rightarrow> handoff_delivery \<Rightarrow> handoff_row \<Rightarrow> handoff_row" where
  "admit_row now oid d = row_op oid
     (\<lambda>r. status r \<noteq> Terminal \<and> \<not> (\<exists>existing \<in> set (pendingDeliveries r). deliveryId existing = deliveryId d))
     (\<lambda>r. r\<lparr>pendingDeliveries := orderedDeliveries (pendingDeliveries r @ [d]), updatedAt := now\<rparr>)"

definition refresh_row :: "string \<Rightarrow> string \<Rightarrow> string \<Rightarrow> turn_state \<Rightarrow> handoff_row \<Rightarrow> handoff_row" where
  "refresh_row now oid g t = row_op oid
     (\<lambda>r. hostGeneration r = g \<and> (status r = Pending \<or> status r = Draining)
        \<and> (turnState r = TurnTerminal \<longrightarrow> t = TurnTerminal))
     (\<lambda>r. r\<lparr>turnState := t, updatedAt := now\<rparr>)"

definition reclaims :: "claim_fence \<Rightarrow> handoff_row \<Rightarrow> bool" where
  "reclaims fence r \<longleftrightarrow>
     successorGeneration r = Some (toGeneration fence) \<and> (status r = Claimed \<or> status r = Terminal)"

definition transfer :: "string \<Rightarrow> claim_fence \<Rightarrow> handoff_row \<Rightarrow> handoff_row" where
  "transfer now fence r =
     r\<lparr>predecessorGeneration := Some (fromGeneration fence),
       successorGeneration := Some (toGeneration fence),
       hostGeneration := toGeneration fence,
       status := terminalStatusFor (turnState r),
       interruptionOutcome := outcomeFor (turnState r),
       updatedAt := now\<rparr>"

definition claim_row :: "string \<Rightarrow> string \<Rightarrow> claim_fence \<Rightarrow> handoff_row \<Rightarrow> handoff_row" where
  "claim_row now oid fence = row_op oid
     (\<lambda>r. \<not> reclaims fence r \<and> hostGeneration r = fromGeneration fence) (transfer now fence)"

definition acknowledges :: "string \<Rightarrow> string list \<Rightarrow> handoff_row \<Rightarrow> bool" where
  "acknowledges g ids r \<longleftrightarrow>
     successorGeneration r = Some g \<and> (status r = Claimed \<or> status r = Terminal)
       \<and> set ids \<subseteq> deliveryId ` set (pendingDeliveries r)"

definition ack_row :: "string \<Rightarrow> string \<Rightarrow> string \<Rightarrow> string list \<Rightarrow> handoff_row \<Rightarrow> handoff_row" where
  "ack_row now oid g ids = row_op oid (acknowledges g ids)
     (\<lambda>r. r\<lparr>replayedDeliveryIds := uniq (replayedDeliveryIds r @ ids), updatedAt := now\<rparr>)"

definition fail_row :: "string \<Rightarrow> string \<Rightarrow> string \<Rightarrow> handoff_row \<Rightarrow> handoff_row" where
  "fail_row now oid e = row_op oid (\<lambda>r. True)
     (\<lambda>r. r\<lparr>status := Failed, lastError := Some e, updatedAt := now\<rparr>)"

lemmas row_function_defs = row_op_def
  drain_row_def admit_row_def refresh_row_def claim_row_def transfer_def ack_row_def release_row_def fail_row_def

definition ids_distinct :: "handoff_state \<Rightarrow> bool" where
  "ids_distinct q \<longleftrightarrow> distinct (map operationId (rows q))"

lemma find_row_unique:
  assumes "ids_distinct q" and "find (\<lambda>r. operationId r = oid) (rows q) = Some r0"
    and "r \<in> set (rows q)" and "operationId r = oid"
  shows "r = r0"
proof -
  from find_SomeD [OF assms(2)] have "r0 \<in> set (rows q)" and "operationId r0 = oid" by auto
  moreover have "inj_on operationId (set (rows q))"
    using assms(1) by (simp add: ids_distinct_def distinct_map)
  ultimately show ?thesis using assms(3,4) by (auto dest: inj_onD)
qed

text \<open>
  Writing one row back under its key, when the row function does nothing to the others:
  the shape of every single-row operation.
\<close>

lemma single_row_none:
  assumes "\<And>r. operationId r \<noteq> oid \<Longrightarrow> g r = r"
    and "find (\<lambda>r. operationId r = oid) (rows q) = None"
  shows "map g (rows q) = rows q"
proof (rule map_idI)
  fix r assume "r \<in> set (rows q)"
  then have "operationId r \<noteq> oid" using find_NoneD [OF assms(2)] by blast
  then show "g r = r" by (rule assms(1))
qed

lemma single_row_same:
  assumes "ids_distinct q" and "\<And>r. operationId r \<noteq> oid \<Longrightarrow> g r = r"
    and "find (\<lambda>r. operationId r = oid) (rows q) = Some r0" and "g r0 = r0"
  shows "map g (rows q) = rows q"
proof (rule map_idI)
  fix r assume "r \<in> set (rows q)"
  then show "g r = r"
    using find_row_unique [OF assms(1,3)] assms(2,4) by (cases "operationId r = oid") auto
qed

lemma single_row_set:
  assumes "ids_distinct q" and "\<And>r. operationId r \<noteq> oid \<Longrightarrow> g r = r"
    and f: "find (\<lambda>r. operationId r = oid) (rows q) = Some r0"
  shows "js_values (js_set oid (g r0) (rows_by operationId (rows q))) = map g (rows q)"
proof -
  have d: "distinct (map operationId (rows q))" using assms(1) by (simp add: ids_distinct_def)
  from f have "js_get (rows_by operationId (rows q)) oid = Some r0"
    by (simp add: js_get_rows_by [OF d])
  then have "js_values (js_set oid (g r0) (rows_by operationId (rows q)))
      = map (\<lambda>x. if operationId x = oid then g r0 else x) (rows q)"
    by (rule js_values_set_row [OF d])
  also have "\<dots> = map g (rows q)"
  proof (rule map_cong [OF refl])
    fix x assume "x \<in> set (rows q)"
    then show "(if operationId x = oid then g r0 else x) = g x"
      using find_row_unique [OF assms(1) f, of x] assms(2) [of x] by (cases "operationId x = oid") auto
  qed
  finally show ?thesis .
qed

definition row_of :: "string \<Rightarrow> handoff_state \<Rightarrow> handoff_row option" where
  "row_of oid q = find (\<lambda>r. operationId r = oid) (rows q)"

lemma get_row: "ids_distinct q \<Longrightarrow>
  js_get (rows_by operationId (rows q)) oid = find (\<lambda>r. operationId r = oid) (rows q)"
  by (simp add: ids_distinct_def js_get_rows_by)

lemma values_rows: "ids_distinct q \<Longrightarrow> js_values (rows_by operationId (rows q)) = rows q"
  by (simp add: ids_distinct_def js_values_rows_by)

lemmas mutate_simps = mutate_def transaction_def get_row values_rows Let_def

text \<open>The rows an operation leaves, and the generations it leaves draining.\<close>

abbreviation with_rows :: "handoff_state \<Rightarrow> (handoff_row \<Rightarrow> handoff_row) \<Rightarrow> handoff_state" where
  "with_rows q g \<equiv> q\<lparr>rows := map g (rows q), drainingGenerations := uniq (drainingGenerations q)\<rparr>"

lemma mutate_row:
  assumes "ids_distinct q"
  shows "mutate (\<lambda>m st. case js_get m oid of None \<Rightarrow> (x0, m, st)
      | Some r \<Rightarrow> (res r, (if c r then js_set oid (upd r) m else m), st)) q
    = ((case row_of oid q of None \<Rightarrow> x0 | Some r \<Rightarrow> res r), with_rows q (row_op oid c upd))"
proof -
  have miss: "\<And>r. operationId r \<noteq> oid \<Longrightarrow> row_op oid c upd r = r" by (simp add: row_op_def)
  show ?thesis
  proof (cases "row_of oid q")
    case None
    with single_row_none [OF miss, of oid q] assms show ?thesis
      by (simp add: mutate_simps row_of_def)
  next
    case (Some r)
    then have f: "find (\<lambda>r. operationId r = oid) (rows q) = Some r" by (simp add: row_of_def)
    from find_SomeD [OF this] have g: "row_op oid c upd r = (if c r then upd r else r)"
      by (simp add: row_op_def)
    from single_row_same [OF assms miss f] single_row_set [OF assms miss f] f assms show ?thesis
      by (cases "c r") (simp_all add: mutate_simps row_of_def g)
  qed
qed

lemma admitMessage_eq:
  assumes "ids_distinct q"
  shows "admitMessage now oid d q =
    ((case row_of oid q of None \<Rightarrow> False | Some r \<Rightarrow> status r \<noteq> Terminal), with_rows q (admit_row now oid d))"
  unfolding admit_row_def mutate_row [OF assms, symmetric] admitMessage_def
  by (rule arg_cong [where f = "\<lambda>f. mutate f q"]) (auto intro!: ext split: option.splits)

lemma refreshTurnState_eq:
  assumes "ids_distinct q"
  shows "refreshTurnState now oid g t q =
    ((case row_of oid q of None \<Rightarrow> False
      | Some r \<Rightarrow> hostGeneration r = g \<and> (status r = Pending \<or> status r = Draining)
          \<and> (turnState r = TurnTerminal \<longrightarrow> t = TurnTerminal)),
     with_rows q (refresh_row now oid g t))"
  unfolding refresh_row_def mutate_row [OF assms, symmetric] refreshTurnState_def
  by (rule arg_cong [where f = "\<lambda>f. mutate f q"]) (auto intro!: ext split: option.splits)

lemma claim_eq:
  assumes "ids_distinct q"
  shows "claim now oid fence q =
    ((case row_of oid q of
        None \<Rightarrow> \<lparr>ok = False, claimed_row = None, replay = [], reason = Some NotFound\<rparr>
      | Some r \<Rightarrow>
          if reclaims fence r
            then \<lparr>ok = True, claimed_row = Some r, replay = unacknowledged_replay r, reason = None\<rparr>
          else if hostGeneration r \<noteq> fromGeneration fence
            then \<lparr>ok = False, claimed_row = Some r, replay = [], reason = Some GenerationFence\<rparr>
          else \<lparr>ok = True, claimed_row = Some (transfer now fence r),
                 replay = unacknowledged_replay r, reason = None\<rparr>),
     with_rows q (claim_row now oid fence))"
  unfolding claim_row_def mutate_row [OF assms, symmetric] claim_def
  by (rule arg_cong [where f = "\<lambda>f. mutate f q"])
     (auto intro!: ext split: option.splits simp: Let_def reclaims_def transfer_def)

lemma acknowledgeReplay_eq:
  assumes "ids_distinct q"
  shows "acknowledgeReplay now oid g ids q =
    ((case row_of oid q of None \<Rightarrow> False | Some r \<Rightarrow> acknowledges g ids r), with_rows q (ack_row now oid g ids))"
  unfolding ack_row_def mutate_row [OF assms, symmetric] acknowledgeReplay_def
  by (rule arg_cong [where f = "\<lambda>f. mutate f q"])
     (auto intro!: ext split: option.splits simp: acknowledges_def)

lemma markRetryableFailure_eq:
  assumes "ids_distinct q"
  shows "markRetryableFailure now oid e q = with_rows q (fail_row now oid e)"
proof -
  have "markRetryableFailure now oid e q =
      snd (mutate (\<lambda>m st. case js_get m oid of None \<Rightarrow> ((), m, st)
        | Some r \<Rightarrow> ((), (if True then js_set oid (r\<lparr>status := Failed, lastError := Some e, updatedAt := now\<rparr>) m
                         else m), st)) q)"
    unfolding markRetryableFailure_def
    by (rule arg_cong [where f = "\<lambda>f. snd (mutate f q)"]) (auto intro!: ext split: option.splits)
  then show ?thesis by (simp only: mutate_row [OF assms] fail_row_def snd_conv)
qed

lemma beginDrain_eq:
  assumes "ids_distinct q"
  shows "beginDrain now g q =
    q\<lparr>rows := map (drain_row now g) (rows q),
      drainingGenerations := uniq (if g \<in> set (drainingGenerations q) then drainingGenerations q
                                   else drainingGenerations q @ [g])\<rparr>"
  using assms by (simp add: beginDrain_def mutate_simps)

lemma failCandidate_eq:
  assumes "ids_distinct q"
  shows "failCandidate now g q = with_rows q (release_row now g (drainingGenerations q) (history q))"
  using assms by (simp add: failCandidate_def mutate_simps)

text \<open>One input of \<open>enqueue\<close> on the list of rows.\<close>

definition enqueue_rows ::
  "string \<Rightarrow> handoff_row_input \<Rightarrow> handoff_row list \<times> handoff_row list \<Rightarrow> handoff_row list \<times> handoff_row list" where
  "enqueue_rows now input s =
     (let (rs, hist) = s in
      if operationId input \<in> operationId ` set (rs @ hist) then s
      else
        (case find (\<lambda>r. conversationId r = conversationId input) rs of
          Some active \<Rightarrow>
            if status active = Pending \<or> status active = Draining then s
            else (filter (\<lambda>r. operationId r \<noteq> operationId active) rs
                    @ [fresh_row now input (replacementDeliveries active (pendingDeliveries input)) (hist @ [active])],
                  hist @ [active])
        | None \<Rightarrow> (rs @ [fresh_row now input (orderedDeliveries (pendingDeliveries input)) hist], hist)))"

lemma fresh_row_ident [simp]:
  "operationId (fresh_row now input ds hist) = operationId input"
  "conversationId (fresh_row now input ds hist) = conversationId input"
  by (simp_all add: fresh_row_def)

lemma enqueue_rows_distinct:
  assumes "distinct (map operationId rs)"
  shows "distinct (map operationId (fst (enqueue_rows now input (rs, hist))))"
  using assms
  by (auto simp: enqueue_rows_def distinct_map_filter split: option.splits)

lemma enqueue_one_rows:
  assumes d: "distinct (map operationId rs)"
  shows "enqueue_one now input (rows_by operationId rs, hist) =
    (let (rs', hist') = enqueue_rows now input (rs, hist) in (rows_by operationId rs', hist'))"
proof -
  have keys: "set (js_keys (rows_by operationId rs)) = operationId ` set rs"
    by (simp add: js_keys_rows_by [OF d])
  show ?thesis
  proof (cases "operationId input \<in> operationId ` set (rs @ hist)")
    case True
    then have "js_has (rows_by operationId rs) (operationId input)
        \<or> (\<exists>r \<in> set hist. operationId r = operationId input)"
      by (auto simp: js_has_iff keys)
    with True show ?thesis by (simp add: enqueue_one_def enqueue_rows_def)
  next
    case False
    then have new: "\<not> js_has (rows_by operationId rs) (operationId input)"
      by (simp add: js_has_iff keys image_Un)
    have new_hist: "\<not> (\<exists>r \<in> set hist. operationId r = operationId input)"
      using False by (metis Un_iff imageI set_append)
    have del: "js_delete k (rows_by operationId rs) = rows_by operationId (filter (\<lambda>r. operationId r \<noteq> k) rs)" for k
      using d by (simp add: rows_by_distinct distinct_map_filter js_delete_def filter_map comp_def)
    have app: "js_set (operationId input) (fresh_row now input ds h) (rows_by operationId rs')
        = rows_by operationId (rs' @ [fresh_row now input ds h])"
      if "set rs' \<subseteq> set rs" and "distinct (map operationId rs')" for rs' ds h
    proof -
      from that False have "operationId input \<notin> operationId ` set rs'" by auto
      with that(2) show ?thesis
        by (simp add: rows_by_distinct js_set_fresh js_keys_def comp_def)
    qed
    from False new new_hist d show ?thesis
      by (auto simp: enqueue_one_def enqueue_rows_def js_values_rows_by [OF d] Let_def del app
            distinct_map_filter split: option.splits)
  qed
qed

lemma enqueue_fold_rows:
  "distinct (map operationId rs) \<Longrightarrow>
   fold (enqueue_one now) inputs (rows_by operationId rs, hist) =
     (let (rs', hist') = fold (enqueue_rows now) inputs (rs, hist) in (rows_by operationId rs', hist'))
   \<and> distinct (map operationId (fst (fold (enqueue_rows now) inputs (rs, hist))))"
proof (induction inputs arbitrary: rs hist)
  case Nil
  then show ?case by simp
next
  case (Cons input inputs)
  obtain rs' hist' where e: "enqueue_rows now input (rs, hist) = (rs', hist')" by force
  with enqueue_rows_distinct [OF Cons.prems, of now input hist] have "distinct (map operationId rs')" by simp
  from Cons.IH [OF this] enqueue_one_rows [OF Cons.prems, of now input hist] e
  show ?case by simp
qed

lemma enqueue_eq:
  assumes "ids_distinct q"
  shows "enqueue now inputs q =
    q\<lparr>rows := fst (fold (enqueue_rows now) inputs (rows q, history q)),
      history := snd (fold (enqueue_rows now) inputs (rows q, history q)),
      drainingGenerations := uniq (drainingGenerations q)\<rparr>"
proof -
  from assms have d: "distinct (map operationId (rows q))" by (simp add: ids_distinct_def)
  obtain rs' hist' where e: "fold (enqueue_rows now) inputs (rows q, history q) = (rs', hist')" by force
  from enqueue_fold_rows [OF d, of now inputs "history q"] e have
    "fold (enqueue_one now) inputs (rows_by operationId (rows q), history q) = (rows_by operationId rs', hist')"
    "distinct (map operationId rs')" by auto
  with e show ?thesis
    by (simp add: enqueue_def mutate_def transaction_def js_values_rows_by)
qed

section \<open>The invariant\<close>

abbreviation pending_ids :: "handoff_row \<Rightarrow> string set" where
  "pending_ids r \<equiv> deliveryId ` set (pendingDeliveries r)"

abbreviation acked_before :: "handoff_row list \<Rightarrow> string \<Rightarrow> string set" where
  "acked_before hist c \<equiv> set (acknowledgedDeliveryIds hist c)"

lemma acked_before_iff:
  "d \<in> acked_before hist c \<longleftrightarrow> (\<exists>r \<in> set hist. conversationId r = c \<and> d \<in> set (replayedDeliveryIds r))"
  by (auto simp: acknowledgedDeliveryIds_def)

text \<open>
  A row keeps its deliveries in durable order, has inherited every acknowledgement its
  conversation ever got, acknowledges nothing else but deliveries it holds (and those only
  once a successor has claimed it), and names as its host the generation that claimed it last.
\<close>

definition row_ok :: "handoff_row list \<Rightarrow> handoff_row \<Rightarrow> bool" where
  "row_ok hist r \<longleftrightarrow>
     sorted (map seq (pendingDeliveries r))
     \<and> acked_before hist (conversationId r) \<subseteq> set (replayedDeliveryIds r)
     \<and> set (replayedDeliveryIds r) \<subseteq> pending_ids r \<union> acked_before hist (conversationId r)
     \<and> (successorGeneration r = None \<longrightarrow>
            set (replayedDeliveryIds r) \<subseteq> acked_before hist (conversationId r))
     \<and> (predecessorGeneration r = None \<longleftrightarrow> successorGeneration r = None)
     \<and> (\<forall>g. successorGeneration r = Some g \<longrightarrow> hostGeneration r = g)
     \<and> (status r = Claimed \<or> status r = Terminal \<longrightarrow> successorGeneration r \<noteq> None)"

text \<open>
  One active row per conversation, every operation id used once over the active rows and
  the history, every row in order.
\<close>

definition queue_ok :: "handoff_state \<Rightarrow> bool" where
  "queue_ok q \<longleftrightarrow>
     distinct (map operationId (rows q @ history q))
     \<and> distinct (map conversationId (rows q))
     \<and> (\<forall>r \<in> set (rows q). row_ok (history q) r)"

lemma queue_ok_ids: "queue_ok q \<Longrightarrow> ids_distinct q"
  by (simp add: queue_ok_def ids_distinct_def)

lemma row_ok_drain: "row_ok hist r \<Longrightarrow> row_ok hist (drain_row now g r)"
  by (auto simp: row_ok_def drain_row_def)

lemma set_orderedDeliveries [simp]: "set (orderedDeliveries ds) = set ds"
  by (simp add: orderedDeliveries_def)

lemma sorted_orderedDeliveries [simp]: "sorted (map seq (orderedDeliveries ds))"
  by (simp add: orderedDeliveries_def)

lemma row_ok_admit: "row_ok hist r \<Longrightarrow> row_ok hist (admit_row now oid d r)"
  by (auto simp: row_ok_def admit_row_def row_op_def)

lemma row_ok_refresh: "row_ok hist r \<Longrightarrow> row_ok hist (refresh_row now oid g t r)"
  by (auto simp: row_ok_def refresh_row_def row_op_def)

lemma row_ok_claim: "row_ok hist r \<Longrightarrow> row_ok hist (claim_row now oid fence r)"
  by (auto simp: row_ok_def claim_row_def row_op_def transfer_def)

lemma row_ok_ack: "row_ok hist r \<Longrightarrow> row_ok hist (ack_row now oid g ids r)"
  by (auto simp: row_ok_def ack_row_def row_op_def acknowledges_def)

lemma row_ok_fail: "row_ok hist r \<Longrightarrow> row_ok hist (fail_row now oid e r)"
  by (auto simp: row_ok_def fail_row_def row_op_def)

lemma row_ok_release: "row_ok hist r \<Longrightarrow> row_ok hist (release_row now g dg hist r)"
  by (auto simp: row_ok_def release_row_def Let_def split: option.splits)

lemma row_function_ident:
  "operationId (drain_row now g r) = operationId r" "conversationId (drain_row now g r) = conversationId r"
  "operationId (admit_row now oid d r) = operationId r" "conversationId (admit_row now oid d r) = conversationId r"
  "operationId (refresh_row now oid g t r) = operationId r" "conversationId (refresh_row now oid g t r) = conversationId r"
  "operationId (claim_row now oid fence r) = operationId r" "conversationId (claim_row now oid fence r) = conversationId r"
  "operationId (ack_row now oid g ids r) = operationId r" "conversationId (ack_row now oid g ids r) = conversationId r"
  "operationId (fail_row now oid e r) = operationId r" "conversationId (fail_row now oid e r) = conversationId r"
  "operationId (release_row now g dg hist r) = operationId r" "conversationId (release_row now g dg hist r) = conversationId r"
  by (simp_all add: row_function_defs Let_def)

lemmas row_ok_functions =
  row_ok_drain row_ok_admit row_ok_refresh row_ok_claim row_ok_ack row_ok_fail row_ok_release

lemma queue_ok_map:
  assumes "queue_ok q"
    and "\<And>r. operationId (g r) = operationId r" and "\<And>r. conversationId (g r) = conversationId r"
    and "\<And>r. row_ok (history q) r \<Longrightarrow> row_ok (history q) (g r)"
  shows "queue_ok (q\<lparr>rows := map g (rows q), drainingGenerations := dg\<rparr>)"
  using assms by (simp add: queue_ok_def comp_def)

lemma seq_enumerate:
  "map seq (map (\<lambda>(i, d). d\<lparr>seq := int i + 1\<rparr>) (enumerate n ds)) = map (\<lambda>i. int i + 1) [n..<n + length ds]"
  by (induction ds arbitrary: n) (simp_all add: upt_conv_Cons del: upt_Suc)

lemma ids_enumerate: "deliveryId ` set (map (\<lambda>(i, d). d\<lparr>seq := int i + 1\<rparr>) (enumerate n ds)) = deliveryId ` set ds"
proof (induction ds arbitrary: n)
  case Nil
  then show ?case by simp
next
  case (Cons d ds)
  then show ?case by simp
qed

lemma ids_filter: "deliveryId ` {d \<in> S. deliveryId d \<notin> A} = deliveryId ` S - A"
  by auto

lemma replacement_sorted: "sorted (map seq (replacementDeliveries previous incoming))"
  unfolding replacementDeliveries_def Let_def seq_enumerate
  by (simp add: sorted_iff_nth_mono)

lemma replacement_ids:
  "deliveryId ` set (replacementDeliveries previous incoming) =
     (pending_ids previous \<union> deliveryId ` set incoming) - set (replayedDeliveryIds previous)"
  unfolding replacementDeliveries_def Let_def ids_enumerate
  by (simp add: image_Un ids_filter) blast

lemma row_ok_fresh:
  "sorted (map seq ds) \<Longrightarrow> row_ok hist (fresh_row now input ds hist)"
  by (simp add: row_ok_def fresh_row_def)

end
