(* ===== verification/Handoff_Safety.thy ===== *)
theory Handoff_Safety
  imports Handoff_Rows
begin

text \<open>
  What the handoff queue promises: the invariant holds in every state it reaches, no
  delivery is lost between generations, a claim succeeds only behind its generation fence,
  a promotion leaves nothing on the outgoing generation, and a rollback hands it back.
\<close>

abbreviation state_of :: "handoff_row list \<times> handoff_row list \<Rightarrow> handoff_state" where
  "state_of s \<equiv> \<lparr>rows = fst s, history = snd s, drainingGenerations = []\<rparr>"

lemma acked_before_snoc:
  "acked_before (hist @ [active]) c =
     acked_before hist c \<union> (if conversationId active = c then set (replayedDeliveryIds active) else {})"
  by (auto simp: acknowledgedDeliveryIds_def)

lemma row_ok_more_history:
  assumes "row_ok hist r" and "conversationId active \<noteq> conversationId r"
  shows "row_ok (hist @ [active]) r"
  using assms by (simp add: row_ok_def acked_before_snoc)

lemma queue_ok_row: "queue_ok q \<Longrightarrow> r \<in> set (rows q) \<Longrightarrow> row_ok (history q) r"
  by (simp add: queue_ok_def)

lemma queue_ok_same_operation:
  "queue_ok q \<Longrightarrow> r \<in> set (rows q) \<Longrightarrow> r' \<in> set (rows q) \<Longrightarrow> operationId r = operationId r' \<Longrightarrow> r = r'"
  unfolding queue_ok_def map_append distinct_append distinct_map by (blast dest: inj_onD)

lemma queue_ok_same_conversation:
  "queue_ok q \<Longrightarrow> r \<in> set (rows q) \<Longrightarrow> r' \<in> set (rows q) \<Longrightarrow> conversationId r = conversationId r' \<Longrightarrow> r = r'"
  unfolding queue_ok_def distinct_map by (blast dest: inj_onD)

text \<open>
  Two outcomes: the input is skipped, or a fresh row replaces the settled row of its
  conversation, which goes to the history.
\<close>

lemma enqueue_rows_cases [case_names skip replace add]:
  assumes "enqueue_rows now input (rs, hist) = (rs', hist')"
  obtains "rs' = rs" and "hist' = hist"
  | active where "operationId input \<notin> operationId ` set (rs @ hist)"
      and "find (\<lambda>r. conversationId r = conversationId input) rs = Some active"
      and "status active \<noteq> Pending" and "status active \<noteq> Draining"
      and "rs' = filter (\<lambda>r. operationId r \<noteq> operationId active) rs
             @ [fresh_row now input (replacementDeliveries active (pendingDeliveries input)) (hist @ [active])]"
      and "hist' = hist @ [active]"
  | "operationId input \<notin> operationId ` set (rs @ hist)"
      and "find (\<lambda>r. conversationId r = conversationId input) rs = None"
      and "rs' = rs @ [fresh_row now input (orderedDeliveries (pendingDeliveries input)) hist]"
      and "hist' = hist"
proof (cases "operationId input \<in> operationId ` set (rs @ hist)")
  case True
  with assms have "rs' = rs" and "hist' = hist" unfolding enqueue_rows_def by auto
  then show thesis by (rule that(1))
next
  case new: False
  show thesis
  proof (cases "find (\<lambda>r. conversationId r = conversationId input) rs")
    case None
    with assms new have "rs' = rs @ [fresh_row now input (orderedDeliveries (pendingDeliveries input)) hist]"
        and "hist' = hist"
      unfolding enqueue_rows_def by auto
    with new None show thesis by (rule that(3))
  next
    case (Some active)
    show thesis
    proof (cases "status active = Pending \<or> status active = Draining")
      case True
      with assms new Some have "rs' = rs" and "hist' = hist" unfolding enqueue_rows_def by auto
      then show thesis by (rule that(1))
    next
      case False
      from assms new Some False have "rs' = filter (\<lambda>r. operationId r \<noteq> operationId active) rs
             @ [fresh_row now input (replacementDeliveries active (pendingDeliveries input)) (hist @ [active])]"
          and "hist' = hist @ [active]"
        unfolding enqueue_rows_def by auto
      with new Some False show thesis using that(2) by blast
    qed
  qed
qed

lemma enqueue_rows_ok:
  assumes ok: "queue_ok (state_of (rs, hist))"
    and e: "enqueue_rows now input (rs, hist) = (rs', hist')"
  shows "queue_ok (state_of (rs', hist'))"
  using e
proof (cases rule: enqueue_rows_cases)
  case skip
  with ok show ?thesis by simp
next
  case (replace active)
  from find_SomeD [OF replace(2)] have a: "active \<in> set rs" "conversationId active = conversationId input" by auto
  have rest: "\<forall>r \<in> set rs. operationId r \<noteq> operationId active \<longrightarrow> conversationId r \<noteq> conversationId input"
  proof (intro ballI impI notI)
    fix r assume "r \<in> set rs" and "operationId r \<noteq> operationId active"
      and "conversationId r = conversationId input"
    with queue_ok_same_conversation [OF ok, of r active] a show False by simp
  qed
  let ?kept = "filter (\<lambda>r. operationId r \<noteq> operationId active) rs"
  let ?hist = "hist @ [active]"
  let ?fresh = "fresh_row now input (replacementDeliveries active (pendingDeliveries input)) ?hist"
  have conv: "conversationId input \<notin> conversationId ` set ?kept"
  proof
    assume "conversationId input \<in> conversationId ` set ?kept"
    then obtain r where "r \<in> set ?kept" and "conversationId r = conversationId input" by force
    with rest show False by simp
  qed
  have kept: "row_ok ?hist r" if "r \<in> set ?kept" for r
  proof (rule row_ok_more_history)
    from that have r: "r \<in> set rs" "operationId r \<noteq> operationId active" by auto
    then show "row_ok hist r" using queue_ok_row [OF ok, of r] by simp
    show "conversationId active \<noteq> conversationId r" using rest r a(2) by metis
  qed
  have ids: "distinct (map operationId (?kept @ [?fresh] @ ?hist))"
    using ok a(1) replace(1) by (auto simp: queue_ok_def distinct_map_filter)
  have "distinct (map conversationId (?kept @ [?fresh]))"
    using ok conv by (simp add: queue_ok_def distinct_map_filter)
  with ids kept show ?thesis
    unfolding replace(5,6) by (simp add: queue_ok_def row_ok_fresh replacement_sorted)
next
  case add
  then have "conversationId input \<notin> conversationId ` set rs"
    by (simp add: find_None_image)
  with ok add show ?thesis
    by (auto simp: queue_ok_def row_ok_fresh)
qed

lemma enqueue_fold_ok:
  "queue_ok (state_of s) \<Longrightarrow> queue_ok (state_of (fold (enqueue_rows now) inputs s))"
proof (induction inputs arbitrary: s)
  case Nil
  then show ?case by simp
next
  case (Cons input inputs)
  have "queue_ok (state_of (enqueue_rows now input s))"
    using enqueue_rows_ok [of "fst s" "snd s" now input] Cons.prems by simp
  then show ?case by (simp add: Cons.IH)
qed

lemma queue_ok_enqueue:
  assumes "queue_ok q"
  shows "queue_ok (enqueue now inputs q)"
proof -
  from assms have "queue_ok (state_of (rows q, history q))" by (simp add: queue_ok_def)
  from enqueue_fold_ok [OF this, of now inputs] show ?thesis
    by (simp add: enqueue_eq [OF queue_ok_ids [OF assms]] queue_ok_def)
qed

lemma queue_ok_with_rows:
  assumes "queue_ok q"
  shows "queue_ok (with_rows q (admit_row now oid d))"
    and "queue_ok (with_rows q (refresh_row now oid g t))"
    and "queue_ok (with_rows q (claim_row now oid fence))"
    and "queue_ok (with_rows q (ack_row now oid g ids))"
    and "queue_ok (with_rows q (fail_row now oid e))"
    and "queue_ok (with_rows q (release_row now g dg (history q)))"
    and "queue_ok (q\<lparr>rows := map (drain_row now g) (rows q), drainingGenerations := dg\<rparr>)"
  by (rule queue_ok_map [OF assms]; simp add: row_function_ident row_ok_functions)+

lemmas op_eqs = admitMessage_eq refreshTurnState_eq claim_eq acknowledgeReplay_eq
  markRetryableFailure_eq beginDrain_eq failCandidate_eq

lemma queue_ok_step: "queue_ok q \<Longrightarrow> queue_ok (handoff_step a q)"
  by (cases a) (simp_all only: handoff_step.simps op_eqs [OF queue_ok_ids] snd_conv
      queue_ok_with_rows queue_ok_enqueue)

lemma queue_ok_empty: "queue_ok empty_queue"
  by (simp add: queue_ok_def empty_queue_def)

section \<open>No delivery is lost\<close>

text \<open>The deliveries a conversation still waits for: pending in its active row, not acknowledged there.\<close>

definition outstanding :: "handoff_state \<Rightarrow> string \<Rightarrow> string set" where
  "outstanding q c =
     {d. \<exists>r \<in> set (rows q). conversationId r = c \<and> d \<in> pending_ids r \<and> d \<notin> set (replayedDeliveryIds r)}"

text \<open>The deliveries the queue can answer for: still outstanding, or acknowledged by some successor.\<close>

definition accounted :: "handoff_state \<Rightarrow> string \<Rightarrow> string set" where
  "accounted q c =
     {d. \<exists>r \<in> set (rows q). conversationId r = c \<and> d \<in> pending_ids r}
     \<union> {d. \<exists>r \<in> set (rows q @ history q). conversationId r = c \<and> d \<in> set (replayedDeliveryIds r)}"

lemma outstanding_map:
  assumes "\<And>r. conversationId (g r) = conversationId r"
    and "\<And>r. r \<in> set (rows q) \<Longrightarrow> pending_ids r - set (replayedDeliveryIds r)
            \<subseteq> pending_ids (g r) - set (replayedDeliveryIds (g r))"
  shows "outstanding q c \<subseteq> outstanding (q\<lparr>rows := map g (rows q), drainingGenerations := dg\<rparr>) c"
  using assms by (fastforce simp: outstanding_def)

lemma enqueue_rows_outstanding:
  assumes ok: "queue_ok (state_of (rs, hist))"
    and e: "enqueue_rows now input (rs, hist) = (rs', hist')"
  shows "outstanding (state_of (rs, hist)) c \<subseteq> outstanding (state_of (rs', hist')) c"
  using e
proof (cases rule: enqueue_rows_cases)
  case skip
  then show ?thesis by simp
next
  case (replace active)
  from find_SomeD [OF replace(2)] have a: "active \<in> set rs" "conversationId active = conversationId input" by auto
  let ?fresh = "fresh_row now input (replacementDeliveries active (pendingDeliveries input)) (hist @ [active])"
  have same: "r = active" if "r \<in> set rs" "operationId r = operationId active" for r
    using queue_ok_same_operation [OF ok, of r active] a that by simp
  have "acked_before hist (conversationId active) \<subseteq> set (replayedDeliveryIds active)"
    using queue_ok_row [OF ok, of active] a by (simp add: row_ok_def)
  then have fresh: "pending_ids active - set (replayedDeliveryIds active)
      \<subseteq> pending_ids ?fresh - set (replayedDeliveryIds ?fresh)"
    using a by (auto simp: fresh_row_def replacement_ids acked_before_snoc)
  show ?thesis
  proof
    fix d assume "d \<in> outstanding (state_of (rs, hist)) c"
    then obtain r where r: "r \<in> set rs" "conversationId r = c" "d \<in> pending_ids r - set (replayedDeliveryIds r)"
      by (auto simp: outstanding_def)
    show "d \<in> outstanding (state_of (rs', hist')) c"
    proof (cases "operationId r = operationId active")
      case True
      with same [OF r(1)] have "r = active" by simp
      with r fresh a have "d \<in> pending_ids ?fresh - set (replayedDeliveryIds ?fresh)"
        and "conversationId ?fresh = c" by auto
      then show ?thesis unfolding replace(5) by (auto simp: outstanding_def)
    next
      case False
      with r show ?thesis unfolding replace(5) by (auto simp: outstanding_def)
    qed
  qed
next
  case add
  then show ?thesis by (auto simp: outstanding_def)
qed

lemma enqueue_fold_outstanding:
  "queue_ok (state_of s) \<Longrightarrow>
   outstanding (state_of s) c \<subseteq> outstanding (state_of (fold (enqueue_rows now) inputs s)) c"
proof (induction inputs arbitrary: s)
  case Nil
  then show ?case by simp
next
  case (Cons input inputs)
  have ok: "queue_ok (state_of (enqueue_rows now input s))"
    using enqueue_rows_ok [of "fst s" "snd s" now input] Cons.prems by simp
  have "outstanding (state_of s) c \<subseteq> outstanding (state_of (enqueue_rows now input s)) c"
    using enqueue_rows_outstanding [of "fst s" "snd s" now input] Cons.prems by simp
  with Cons.IH [OF ok] show ?case by simp
qed

lemma outstanding_enqueue:
  assumes "queue_ok q"
  shows "outstanding q c \<subseteq> outstanding (enqueue now inputs q) c"
proof -
  from assms have ok: "queue_ok (state_of (rows q, history q))" by (simp add: queue_ok_def)
  from enqueue_fold_outstanding [OF ok, of c now inputs] show ?thesis
    by (simp add: enqueue_eq [OF queue_ok_ids [OF assms]] outstanding_def)
qed

text \<open>What an operation acknowledges: nothing, unless it is an acknowledgement.\<close>

fun acknowledged_by :: "handoff_op \<Rightarrow> string set" where
  "acknowledged_by (AcknowledgeReplay now oid g ids) = set ids"
| "acknowledged_by _ = {}"

lemma outstanding_ack:
  "outstanding q c \<subseteq> outstanding (with_rows q (ack_row now oid g ids)) c \<union> set ids"
proof
  fix d assume "d \<in> outstanding q c"
  then obtain r where r: "r \<in> set (rows q)" "conversationId r = c" "d \<in> pending_ids r"
      "d \<notin> set (replayedDeliveryIds r)"
    by (auto simp: outstanding_def)
  let ?r = "ack_row now oid g ids r"
  have "conversationId ?r = c" and "d \<in> pending_ids ?r"
      and "d \<in> set (replayedDeliveryIds ?r) \<Longrightarrow> d \<in> set ids"
    using r by (simp_all add: ack_row_def row_op_def split: if_splits)
  with r(1) show "d \<in> outstanding (with_rows q (ack_row now oid g ids)) c \<union> set ids"
    by (auto simp: outstanding_def)
qed

lemma row_functions_keep_outstanding:
  assumes "row_ok hist r"
  shows "pending_ids r - set (replayedDeliveryIds r)
      \<subseteq> pending_ids (admit_row now oid d r) - set (replayedDeliveryIds (admit_row now oid d r))"
    and "pending_ids r - set (replayedDeliveryIds r)
      \<subseteq> pending_ids (refresh_row now oid g t r) - set (replayedDeliveryIds (refresh_row now oid g t r))"
    and "pending_ids r - set (replayedDeliveryIds r)
      \<subseteq> pending_ids (claim_row now oid fence r) - set (replayedDeliveryIds (claim_row now oid fence r))"
    and "pending_ids r - set (replayedDeliveryIds r)
      \<subseteq> pending_ids (fail_row now oid e r) - set (replayedDeliveryIds (fail_row now oid e r))"
    and "pending_ids r - set (replayedDeliveryIds r)
      \<subseteq> pending_ids (drain_row now g r) - set (replayedDeliveryIds (drain_row now g r))"
    and "pending_ids r - set (replayedDeliveryIds r)
      \<subseteq> pending_ids (release_row now g dg hist r) - set (replayedDeliveryIds (release_row now g dg hist r))"
  using assms
  by (auto simp: admit_row_def refresh_row_def claim_row_def transfer_def fail_row_def drain_row_def
      release_row_def row_op_def row_ok_def Let_def)

lemma outstanding_step:
  assumes "queue_ok q"
  shows "outstanding q c \<subseteq> outstanding (handoff_step a q) c \<union> acknowledged_by a"
proof (cases a)
  case (Enqueue now inputs)
  with outstanding_enqueue [OF assms] show ?thesis by simp
next
  case (AcknowledgeReplay now oid g ids)
  with outstanding_ack show ?thesis by (simp add: op_eqs [OF queue_ok_ids [OF assms]])
qed (simp_all only: handoff_step.simps op_eqs [OF queue_ok_ids [OF assms]] snd_conv acknowledged_by.simps
      Un_empty_right,
     (rule outstanding_map, simp add: row_function_ident,
      rule row_functions_keep_outstanding, erule queue_ok_row [OF assms])+)

section \<open>Claims\<close>

lemma row_of_SomeD:
  "row_of oid q = Some r \<Longrightarrow> r \<in> set (rows q) \<and> operationId r = oid"
  by (auto simp: row_of_def dest: find_SomeD)

lemma row_of_unique:
  assumes "queue_ok q" and "r \<in> set (rows q)" and "operationId r = oid"
  shows "row_of oid q = Some r"
proof (cases "row_of oid q")
  case None
  with assms(2,3) show ?thesis by (auto simp: row_of_def find_None_image)
next
  case (Some r')
  with row_of_SomeD [OF Some] queue_ok_same_operation [OF assms(1)] assms(2,3) show ?thesis by auto
qed

lemma row_of_map:
  assumes "\<And>r. operationId (g r) = operationId r"
  shows "row_of oid (with_rows q g) = map_option g (row_of oid q)"
proof -
  have "find (\<lambda>r. operationId r = oid) (map g rs) = map_option g (find (\<lambda>r. operationId r = oid) rs)" for rs
    by (induction rs) (simp_all add: assms)
  then show ?thesis by (simp add: row_of_def)
qed

lemma claim_row_ident:
  "operationId (claim_row now oid fence r) = operationId r"
  "conversationId (claim_row now oid fence r) = conversationId r"
  "engineSessionId (claim_row now oid fence r) = engineSessionId r"
  "accountId (claim_row now oid fence r) = accountId r"
  "parentConversationId (claim_row now oid fence r) = parentConversationId r"
  "kind (claim_row now oid fence r) = kind r"
  "pendingDeliveries (claim_row now oid fence r) = pendingDeliveries r"
  by (simp_all add: claim_row_def row_op_def transfer_def)

lemma replay_sorted: "sorted (map seq (unacknowledged_replay r))"
  unfolding unacknowledged_replay_def by (simp add: orderedDeliveries_def sorted_filter)

lemma replay_ids: "deliveryId ` set (unacknowledged_replay r) = pending_ids r - set (replayedDeliveryIds r)"
  by (auto simp: unacknowledged_replay_def)

lemma outstanding_row:
  assumes "queue_ok q" and "r \<in> set (rows q)"
  shows "outstanding q (conversationId r) = pending_ids r - set (replayedDeliveryIds r)"
  using queue_ok_same_conversation [OF assms(1) _ assms(2)] assms(2) by (auto simp: outstanding_def)

text \<open>The claims a successor makes, one operation id after another.\<close>

definition claim_all :: "string \<Rightarrow> claim_fence \<Rightarrow> string list \<Rightarrow> handoff_state \<Rightarrow> handoff_state" where
  "claim_all now fence oids q = fold (\<lambda>oid s. snd (claim now oid fence s)) oids q"

lemma claim_row_host:
  assumes "row_ok hist r" and "toGeneration fence \<noteq> fromGeneration fence"
    and "hostGeneration (claim_row now oid fence r) = fromGeneration fence"
  shows "hostGeneration r = fromGeneration fence \<and> operationId r \<noteq> oid"
  using assms by (auto simp: claim_row_def row_op_def transfer_def reclaims_def row_ok_def split: if_splits)

lemma claim_all_host:
  assumes "queue_ok q" and "toGeneration fence \<noteq> fromGeneration fence"
    and "r \<in> set (rows (claim_all now fence oids q))" and "hostGeneration r = fromGeneration fence"
  shows "operationId r \<notin> set oids \<and>
    (\<exists>r0 \<in> set (rows q). operationId r0 = operationId r \<and> hostGeneration r0 = fromGeneration fence)"
  using assms
proof (induction oids arbitrary: q)
  case Nil
  then show ?case by (auto simp: claim_all_def)
next
  case (Cons oid oids)
  let ?q = "snd (claim now oid fence q)"
  have q: "?q = with_rows q (claim_row now oid fence)"
    by (simp add: claim_eq [OF queue_ok_ids [OF Cons.prems(1)]])
  have ok: "queue_ok ?q" by (simp add: q queue_ok_with_rows Cons.prems(1))
  from Cons.prems(3) have "r \<in> set (rows (claim_all now fence oids ?q))" by (simp add: claim_all_def)
  from Cons.IH [OF ok Cons.prems(2) this Cons.prems(4)] obtain r1 where
    later: "operationId r \<notin> set oids"
      and r1: "r1 \<in> set (rows ?q)" "operationId r1 = operationId r" "hostGeneration r1 = fromGeneration fence"
    by auto
  from r1(1) obtain r0 where r0: "r0 \<in> set (rows q)" "r1 = claim_row now oid fence r0"
    by (auto simp: q)
  from claim_row_host [OF queue_ok_row [OF Cons.prems(1) r0(1)] Cons.prems(2)] r0(2) r1(3)
  have "hostGeneration r0 = fromGeneration fence" "operationId r0 \<noteq> oid" by auto
  with later r0 r1(2) show ?case by (auto simp: claim_row_ident)
qed

lemma claim_all_ids:
  "queue_ok q \<Longrightarrow> map operationId (rows (claim_all now fence oids q)) = map operationId (rows q)
     \<and> queue_ok (claim_all now fence oids q)"
proof (induction oids arbitrary: q)
  case Nil
  then show ?case by (simp add: claim_all_def)
next
  case (Cons oid oids)
  have q: "snd (claim now oid fence q) = with_rows q (claim_row now oid fence)"
    by (simp add: claim_eq [OF queue_ok_ids [OF Cons.prems]])
  have "queue_ok (snd (claim now oid fence q))" by (simp add: q queue_ok_with_rows Cons.prems)
  from Cons.IH [OF this] show ?case by (simp add: claim_all_def q claim_row_ident comp_def)
qed

section \<open>The queue as a machine\<close>

definition keeps_accounts :: "handoff_state \<Rightarrow> handoff_state \<Rightarrow> bool" where
  "keeps_accounts q q' \<longleftrightarrow> (\<forall>c. accounted q c \<subseteq> accounted q' c)"

lemma accounted_alt:
  "accounted q c = outstanding q c
     \<union> {d. \<exists>r \<in> set (rows q @ history q). conversationId r = c \<and> d \<in> set (replayedDeliveryIds r)}"
  by (auto simp: accounted_def outstanding_def)

lemma accounted_map:
  assumes conv: "\<And>r. conversationId (g r) = conversationId r"
    and pend: "\<And>r. r \<in> set (rows q) \<Longrightarrow> pending_ids r \<subseteq> pending_ids (g r)"
    and ack: "\<And>r. r \<in> set (rows q) \<Longrightarrow> set (replayedDeliveryIds r)
         \<subseteq> set (replayedDeliveryIds (g r)) \<union> pending_ids (g r) \<union> acked_before (history q) (conversationId r)"
  shows "accounted q c \<subseteq> accounted (q\<lparr>rows := map g (rows q), drainingGenerations := dg\<rparr>) c"
proof
  fix d assume "d \<in> accounted q c"
  then consider r where "r \<in> set (rows q)" "conversationId r = c" "d \<in> pending_ids r \<union> set (replayedDeliveryIds r)"
    | r where "r \<in> set (history q)" "conversationId r = c" "d \<in> set (replayedDeliveryIds r)"
    by (auto simp: accounted_def)
  then show "d \<in> accounted (q\<lparr>rows := map g (rows q), drainingGenerations := dg\<rparr>) c"
  proof cases
    case (1 r)
    with pend [OF 1(1)] ack [OF 1(1)]
    have "d \<in> pending_ids (g r) \<union> set (replayedDeliveryIds (g r)) \<union> acked_before (history q) c" by auto
    with 1 conv show ?thesis by (auto simp: accounted_def acked_before_iff)
  next
    case (2 r)
    then show ?thesis by (auto simp: accounted_def)
  qed
qed

lemma row_functions_keep_accounts:
  assumes "row_ok hist r"
  shows "pending_ids r \<subseteq> pending_ids (admit_row now oid d r)"
    and "pending_ids r \<subseteq> pending_ids (refresh_row now oid g t r)"
    and "pending_ids r \<subseteq> pending_ids (claim_row now oid fence r)"
    and "pending_ids r \<subseteq> pending_ids (ack_row now oid g ids r)"
    and "pending_ids r \<subseteq> pending_ids (fail_row now oid e r)"
    and "pending_ids r \<subseteq> pending_ids (drain_row now g r)"
    and "pending_ids r \<subseteq> pending_ids (release_row now g dg hist r)"
    and "set (replayedDeliveryIds (admit_row now oid d r)) = set (replayedDeliveryIds r)"
    and "set (replayedDeliveryIds (refresh_row now oid g t r)) = set (replayedDeliveryIds r)"
    and "set (replayedDeliveryIds (claim_row now oid fence r)) = set (replayedDeliveryIds r)"
    and "set (replayedDeliveryIds r) \<subseteq> set (replayedDeliveryIds (ack_row now oid g ids r))"
    and "set (replayedDeliveryIds (fail_row now oid e r)) = set (replayedDeliveryIds r)"
    and "set (replayedDeliveryIds (drain_row now g r)) = set (replayedDeliveryIds r)"
    and "set (replayedDeliveryIds r) \<subseteq> set (replayedDeliveryIds (release_row now g dg hist r))
           \<union> pending_ids (release_row now g dg hist r) \<union> acked_before hist (conversationId r)"
  using assms
  by (auto simp: row_function_defs row_ok_def Let_def)

lemma enqueue_rows_accounted:
  assumes ok: "queue_ok (state_of (rs, hist))"
    and e: "enqueue_rows now input (rs, hist) = (rs', hist')"
  shows "accounted (state_of (rs, hist)) c \<subseteq> accounted (state_of (rs', hist')) c"
proof -
  have out: "outstanding (state_of (rs, hist)) c \<subseteq> outstanding (state_of (rs', hist')) c"
    by (rule enqueue_rows_outstanding [OF ok e])
  from e have "{d. \<exists>r \<in> set (rs @ hist). conversationId r = c \<and> d \<in> set (replayedDeliveryIds r)}
    \<subseteq> {d. \<exists>r \<in> set (rs' @ hist'). conversationId r = c \<and> d \<in> set (replayedDeliveryIds r)}"
  proof (cases rule: enqueue_rows_cases)
    case (replace active)
    from find_SomeD [OF replace(2)] have "active \<in> set rs" by auto
    then have "set (rs @ hist) \<subseteq> set (rs' @ hist')"
      using queue_ok_same_operation [OF ok, of _ active] unfolding replace(5,6) by auto
    then show ?thesis by blast
  qed auto
  with out show ?thesis unfolding accounted_alt by auto
qed

lemma enqueue_fold_accounted:
  "queue_ok (state_of s) \<Longrightarrow>
   accounted (state_of s) c \<subseteq> accounted (state_of (fold (enqueue_rows now) inputs s)) c"
proof (induction inputs arbitrary: s)
  case Nil
  then show ?case by simp
next
  case (Cons input inputs)
  have ok: "queue_ok (state_of (enqueue_rows now input s))"
    using enqueue_rows_ok [of "fst s" "snd s" now input] Cons.prems by simp
  have "accounted (state_of s) c \<subseteq> accounted (state_of (enqueue_rows now input s)) c"
    using enqueue_rows_accounted [of "fst s" "snd s" now input] Cons.prems by simp
  with Cons.IH [OF ok] show ?case by simp
qed

lemma accounted_enqueue:
  assumes "queue_ok q"
  shows "accounted q c \<subseteq> accounted (enqueue now inputs q) c"
proof -
  from assms have ok: "queue_ok (state_of (rows q, history q))" by (simp add: queue_ok_def)
  from enqueue_fold_accounted [OF ok, of c now inputs] show ?thesis
    by (simp add: enqueue_eq [OF queue_ok_ids [OF assms]] accounted_def)
qed

lemma accounted_with_rows:
  assumes "queue_ok q"
  shows "accounted q c \<subseteq> accounted (with_rows q (admit_row now oid d)) c"
    and "accounted q c \<subseteq> accounted (with_rows q (refresh_row now oid g t)) c"
    and "accounted q c \<subseteq> accounted (with_rows q (claim_row now oid fence)) c"
    and "accounted q c \<subseteq> accounted (with_rows q (ack_row now oid g ids)) c"
    and "accounted q c \<subseteq> accounted (with_rows q (fail_row now oid e)) c"
    and "accounted q c \<subseteq> accounted (with_rows q (release_row now g dg (history q))) c"
    and "accounted q c \<subseteq> accounted (q\<lparr>rows := map (drain_row now g) (rows q), drainingGenerations := dg\<rparr>) c"
  by (rule accounted_map;
      simp add: row_function_ident row_functions_keep_accounts [OF queue_ok_row [OF assms]] le_supI1)+

lemma accounted_step:
  assumes "queue_ok q"
  shows "accounted q c \<subseteq> accounted (handoff_step a q) c"
  by (cases a) (simp_all only: handoff_step.simps op_eqs [OF queue_ok_ids [OF assms]] snd_conv
      accounted_with_rows [OF assms] accounted_enqueue [OF assms])

interpretation hq: monotone_machine handoff_step queue_ok keeps_accounts
  by unfold_locales (auto simp: keeps_accounts_def queue_ok_step dest: accounted_step)

section \<open>Properties\<close>

text \<open>C2. Whatever operations run on the queue, in any order: every operation id is used once over the
  rows and the history, a conversation has one active row, the pending deliveries of a row are
  in sequence, its successor and predecessor are set together, a row with a successor is hosted
  by it, and what it counts as replayed is what earlier generations acknowledged and deliveries
  of its own.\<close>

theorem handoff_reachable_ok: "queue_ok (fold handoff_step ops empty_queue)"
  by (rule hq.run_ok [OF queue_ok_empty])

text \<open>C1. No operation drops a delivery that is still to be replayed: what was outstanding for a
  conversation before an operation is outstanding after it, unless the operation acknowledged
  that very delivery. This covers a re-enqueue under a new operation id, a claim, a rollback and
  a failure.\<close>

theorem handoff_outstanding_kept:
  "outstanding (fold handoff_step ops empty_queue) c
     \<subseteq> outstanding (fold handoff_step (ops @ [op]) empty_queue) c \<union> acknowledged_by op"
  using outstanding_step [OF hq.run_ok [OF queue_ok_empty], of ops c op] by simp

text \<open>C3. The queue answers for every delivery for ever: a delivery once pending or acknowledged for a
  conversation is pending or acknowledged, in a row or in the history, after any later
  operations.\<close>

theorem handoff_deliveries_accounted:
  "accounted (fold handoff_step ops empty_queue) c \<subseteq> accounted (fold handoff_step (ops @ later) empty_queue) c"
  using hq.run_within_later [OF queue_ok_empty, of ops later] by (simp add: keeps_accounts_def)

lemma claim_outcome:
  assumes ok: "queue_ok q" and r: "row_of oid q = Some r" and c: "claim now oid fence q = (res, q')"
  shows "ok res \<longleftrightarrow> reclaims fence r \<or> hostGeneration r = fromGeneration fence"
    and "\<not> ok res \<Longrightarrow> rows q' = rows q \<and> replay res = [] \<and> reason res = Some GenerationFence"
    and "row_of oid q' = Some (claim_row now oid fence r)"
    and "ok res \<Longrightarrow> claimed_row res = Some (claim_row now oid fence r)
           \<and> hostGeneration (claim_row now oid fence r) = toGeneration fence
           \<and> replay res = unacknowledged_replay r"
proof -
  note ids = queue_ok_ids [OF ok]
  from r have oid: "operationId r = oid" by (auto dest: row_of_SomeD)
  have rok: "row_ok (history q) r" using queue_ok_row [OF ok] row_of_SomeD [OF r] by blast
  from c have q': "q' = with_rows q (claim_row now oid fence)" by (simp add: claim_eq [OF ids])
  show "row_of oid q' = Some (claim_row now oid fence r)"
    by (simp add: q' row_of_map claim_row_ident r)
  show "ok res \<longleftrightarrow> reclaims fence r \<or> hostGeneration r = fromGeneration fence"
    using c r by (auto simp: claim_eq [OF ids] split: if_splits)
  show "ok res \<Longrightarrow> claimed_row res = Some (claim_row now oid fence r)
      \<and> hostGeneration (claim_row now oid fence r) = toGeneration fence \<and> replay res = unacknowledged_replay r"
    using c r oid rok
    by (auto simp: claim_eq [OF ids] claim_row_def row_op_def transfer_def reclaims_def row_ok_def split: if_splits)
  assume no: "\<not> ok res"
  have "claim_row now oid fence x = x" if "x \<in> set (rows q)" for x
    using no c r queue_ok_same_operation [OF ok that, of r] row_of_SomeD [OF r]
    by (auto simp: claim_eq [OF ids] claim_row_def row_op_def split: if_splits)
  then have "map (claim_row now oid fence) (rows q) = rows q" by (rule map_idI)
  with no c r show "rows q' = rows q \<and> replay res = [] \<and> reason res = Some GenerationFence"
    by (auto simp: claim_eq [OF ids] split: if_splits)
qed

text \<open>A claim succeeds exactly when the row is hosted by the generation the caller names, or when
  that successor claimed it before; a refused claim changes no row and replays nothing. A claim
  that succeeds moves the row to the successor and nothing else of its identity, and replays, in
  sequence, exactly the outstanding deliveries of the conversation.\<close>

theorem handoff_claim_fence:
  assumes "row_of oid (fold handoff_step ops empty_queue) = Some r"
    and "claim now oid fence (fold handoff_step ops empty_queue) = (res, q')"
  shows "(ok res \<longleftrightarrow> reclaims fence r \<or> hostGeneration r = fromGeneration fence)
    \<and> (\<not> ok res \<longrightarrow> rows q' = rows (fold handoff_step ops empty_queue) \<and> replay res = []
         \<and> reason res = Some GenerationFence)
    \<and> (ok res \<longrightarrow> (\<exists>r'. row_of oid q' = Some r' \<and> claimed_row res = Some r'
         \<and> hostGeneration r' = toGeneration fence
         \<and> conversationId r' = conversationId r \<and> engineSessionId r' = engineSessionId r
         \<and> accountId r' = accountId r \<and> parentConversationId r' = parentConversationId r
         \<and> pendingDeliveries r' = pendingDeliveries r)
       \<and> sorted (map seq (replay res))
       \<and> deliveryId ` set (replay res) = outstanding (fold handoff_step ops empty_queue) (conversationId r))"
proof -
  note ok = hq.run_ok [OF queue_ok_empty, of ops]
  note out = claim_outcome [OF ok assms]
  have "outstanding (fold handoff_step ops empty_queue) (conversationId r)
      = deliveryId ` set (unacknowledged_replay r)"
    using outstanding_row [OF ok] row_of_SomeD [OF assms(1)] by (simp add: replay_ids)
  with out show ?thesis by (auto simp: claim_row_ident replay_sorted)
qed

text \<open>Of two successors that race for one row of an outgoing generation, the second is refused and
  changes no row.\<close>

theorem handoff_single_successor:
  assumes "h1 \<noteq> h2" and "h1 \<noteq> g"
    and "claim now oid \<lparr>fromGeneration = g, toGeneration = h1\<rparr> (fold handoff_step ops empty_queue) = (res, q')"
    and "ok res"
  shows "\<not> ok (fst (claim now' oid \<lparr>fromGeneration = g, toGeneration = h2\<rparr> q'))
    \<and> rows (snd (claim now' oid \<lparr>fromGeneration = g, toGeneration = h2\<rparr> q')) = rows q'"
proof -
  let ?q = "fold handoff_step ops empty_queue"
  note ok = hq.run_ok [OF queue_ok_empty, of ops]
  from assms(3,4) obtain r where r: "row_of oid ?q = Some r"
    by (auto simp: claim_eq [OF queue_ok_ids [OF ok]] split: option.splits)
  note first = claim_outcome [OF ok r assms(3)]
  let ?r = "claim_row now oid \<lparr>fromGeneration = g, toGeneration = h1\<rparr> r"
  have q': "q' = handoff_step (Claim now oid \<lparr>fromGeneration = g, toGeneration = h1\<rparr>) ?q" using assms(3) by simp
  have ok': "queue_ok q'" unfolding q' by (rule queue_ok_step [OF ok])
  have r': "row_of oid q' = Some ?r" by (rule first(3))
  have host: "hostGeneration ?r = h1" using first(4) assms(4) by simp
  have "row_ok (history q') ?r" using queue_ok_row [OF ok'] row_of_SomeD [OF r'] by blast
  then have "\<not> reclaims \<lparr>fromGeneration = g, toGeneration = h2\<rparr> ?r"
    using host assms(1) by (auto simp: reclaims_def row_ok_def)
  with claim_outcome(1,2) [OF ok' r' prod.collapse [symmetric]] host assms(2) show ?thesis by simp
qed

text \<open>C4. A promotion that drains the outgoing generation and claims every row leaves none hosted by
  it: the generation may be retired, and the rows are the same ones, in order.\<close>

theorem handoff_promotion_complete:
  assumes "h \<noteq> g"
  shows "let q = fold handoff_step ops empty_queue; q1 = beginDrain now g q;
             q2 = claim_all now \<lparr>fromGeneration = g, toGeneration = h\<rparr> (map operationId (rows q1)) q1
         in retirable g q2 \<and> (\<forall>r \<in> set (rows q2). hostGeneration r \<noteq> g)
            \<and> map operationId (rows q2) = map operationId (rows q) \<and> queue_ok q2"
proof -
  let ?q = "fold handoff_step ops empty_queue" and ?f = "\<lparr>fromGeneration = g, toGeneration = h\<rparr>"
  let ?q1 = "beginDrain now g ?q"
  let ?q2 = "claim_all now ?f (map operationId (rows ?q1)) ?q1"
  note ok = hq.run_ok [OF queue_ok_empty, of ops]
  have ok1: "queue_ok ?q1" using queue_ok_step [OF ok, of "BeginDrain now g"] by simp
  have ids1: "map operationId (rows ?q1) = map operationId (rows ?q)"
    by (simp add: beginDrain_eq [OF queue_ok_ids [OF ok]] comp_def row_function_ident)
  note all = claim_all_ids [OF ok1, of now ?f "map operationId (rows ?q1)"]
  have none: "\<forall>r \<in> set (rows ?q2). hostGeneration r \<noteq> g"
  proof (intro ballI notI)
    fix r assume r: "r \<in> set (rows ?q2)" "hostGeneration r = g"
    from all have "operationId ` set (rows ?q2) = operationId ` set (rows ?q1)" by (metis list.set_map)
    with r(1) have "operationId r \<in> set (map operationId (rows ?q1))" by auto
    with claim_all_host [OF ok1, of ?f r now "map operationId (rows ?q1)"] r assms show False by simp
  qed
  then have "retirable g ?q2" by (simp add: retirable_def)
  with none all ids1 show ?thesis by (simp add: Let_def)
qed

text \<open>Failing a candidate undoes its first claim: the row is hosted by the outgoing generation
  again, draining if that generation still drains, with the same deliveries to replay.\<close>

theorem handoff_rollback_restores:
  assumes "row_of oid (fold handoff_step ops empty_queue) = Some r"
    and "successorGeneration r = None" and "hostGeneration r = g"
  shows "let q = fold handoff_step ops empty_queue;
             q1 = snd (claim now oid \<lparr>fromGeneration = g, toGeneration = h\<rparr> q);
             q2 = failCandidate now' h q1
         in \<exists>r2. row_of oid q2 = Some r2 \<and> hostGeneration r2 = g
              \<and> successorGeneration r2 = None \<and> predecessorGeneration r2 = None
              \<and> status r2 = (if g \<noteq> [] \<and> \<not> isAdmittingNewHosts g q then Draining else Pending)
              \<and> pendingDeliveries r2 = pendingDeliveries r
              \<and> unacknowledged_replay r2 = unacknowledged_replay r
              \<and> conversationId r2 = conversationId r \<and> accountId r2 = accountId r"
proof -
  let ?q = "fold handoff_step ops empty_queue" and ?f = "\<lparr>fromGeneration = g, toGeneration = h\<rparr>"
  let ?q1 = "snd (claim now oid ?f ?q)"
  note ok = hq.run_ok [OF queue_ok_empty, of ops]
  have ok1: "queue_ok ?q1" using queue_ok_step [OF ok, of "Claim now oid ?f"] by simp
  from assms(1) have oid: "operationId r = oid" by (auto dest: row_of_SomeD)
  have rok: "row_ok (history ?q) r" using queue_ok_row [OF ok] row_of_SomeD [OF assms(1)] by blast
  have q1: "?q1 = with_rows ?q (claim_row now oid ?f)" by (simp add: claim_eq [OF queue_ok_ids [OF ok]])
  have r1: "row_of oid ?q1 = Some (transfer now ?f r)"
    unfolding q1 by (simp add: row_of_map claim_row_ident assms(1))
      (simp add: claim_row_def row_op_def oid reclaims_def assms(2,3))
  have "row_of oid (failCandidate now' h ?q1)
      = Some (release_row now' h (drainingGenerations ?q1) (history ?q1) (transfer now ?f r))"
    by (simp add: failCandidate_eq [OF queue_ok_ids [OF ok1]] row_of_map row_function_ident r1)
  moreover have "acked_before (history ?q) (conversationId r) = set (replayedDeliveryIds r)"
    using rok assms(2) by (auto simp: row_ok_def)
  ultimately show ?thesis
    by (simp add: Let_def q1 release_row_def transfer_def assms(3) isAdmittingNewHosts_def
        unacknowledged_replay_def)
qed

definition demo_input :: handoff_row_input where
  "demo_input = \<lparr>operationId = ''h1'', conversationId = ''c1'', engine = Codex, engineSessionId = ''s1'',
     kind = Root, parentConversationId = None, hostGeneration = ''blue'', accountId = Some ''a'',
     turnState = TurnBusy, pendingDeliveries = [\<lparr>deliveryId = ''d2'', clientMessageId = None, seq = 2\<rparr>,
       \<lparr>deliveryId = ''d1'', clientMessageId = None, seq = 1\<rparr>]\<rparr>"

definition demo_row :: handoff_row where
  "demo_row = fresh_row ''t0'' demo_input [\<lparr>deliveryId = ''d1'', clientMessageId = None, seq = 1\<rparr>,
     \<lparr>deliveryId = ''d2'', clientMessageId = None, seq = 2\<rparr>] []"

definition demo_ops :: "handoff_op list" where
  "demo_ops = [Enqueue ''t0'' [demo_input]]"

lemma demo_row_of: "row_of ''h1'' (fold handoff_step demo_ops empty_queue) = Some demo_row"
  by code_simp

lemma demo_row_host: "hostGeneration demo_row = ''blue''" "successorGeneration demo_row = None"
  by (simp_all add: demo_row_def demo_input_def fresh_row_def)

theorem handoff_claim_fence_witness:
  "ok (fst (claim ''t1'' ''h1'' \<lparr>fromGeneration = ''blue'', toGeneration = ''green''\<rparr>
       (fold handoff_step demo_ops empty_queue)))"
  using handoff_claim_fence [OF demo_row_of prod.collapse [symmetric]] demo_row_host by simp

theorem handoff_single_successor_witness:
  "\<not> ok (fst (claim ''t2'' ''h1'' \<lparr>fromGeneration = ''blue'', toGeneration = ''teal''\<rparr>
     (snd (claim ''t1'' ''h1'' \<lparr>fromGeneration = ''blue'', toGeneration = ''green''\<rparr>
       (fold handoff_step demo_ops empty_queue)))))"
proof -
  have "ok (fst (claim ''t1'' ''h1'' \<lparr>fromGeneration = ''blue'', toGeneration = ''green''\<rparr>
       (fold handoff_step demo_ops empty_queue)))" by code_simp
  from handoff_single_successor [OF _ _ prod.collapse [symmetric] this, of "''teal''"]
  show ?thesis by simp
qed

theorem handoff_promotion_complete_witness:
  "''green'' \<noteq> ''blue'' \<and>
   retirable ''blue'' (claim_all ''t1'' \<lparr>fromGeneration = ''blue'', toGeneration = ''green''\<rparr> [''h1'']
     (beginDrain ''t1'' ''blue'' (fold handoff_step demo_ops empty_queue)))"
proof -
  have "map operationId (rows (beginDrain ''t1'' ''blue'' (fold handoff_step demo_ops empty_queue))) = [''h1'']"
    by code_simp
  with handoff_promotion_complete [of "''green''" "''blue''", where ops = demo_ops and now = "''t1''"]
  show ?thesis
    by (simp add: Let_def)
qed

theorem handoff_rollback_restores_witness:
  "map_option unacknowledged_replay (row_of ''h1'' (failCandidate ''t2'' ''green''
     (snd (claim ''t1'' ''h1'' \<lparr>fromGeneration = ''blue'', toGeneration = ''green''\<rparr>
       (fold handoff_step demo_ops empty_queue))))) = Some (unacknowledged_replay demo_row)"
  using handoff_rollback_restores [OF demo_row_of demo_row_host(2,1), of "''t1''" "''green''" "''t2''"]
  by (auto simp: Let_def)

text \<open>
  A second promotion that claims the same row and is rolled back: the delivery the first
  successor acknowledged is outstanding again.
\<close>

definition chained_ops :: "handoff_op list" where
  "chained_ops = demo_ops @ [BeginDrain ''t1'' ''blue'',
     Claim ''t2'' ''h1'' \<lparr>fromGeneration = ''blue'', toGeneration = ''green''\<rparr>,
     AcknowledgeReplay ''t3'' ''h1'' ''green'' [''d1'', ''d2''],
     BeginDrain ''t4'' ''green'']"

definition chained_rollback :: "handoff_op list" where
  "chained_rollback = chained_ops @
     [Claim ''t5'' ''h1'' \<lparr>fromGeneration = ''green'', toGeneration = ''teal''\<rparr>, FailCandidate ''t6'' ''teal'']"

theorem handoff_second_rollback_forgets_acknowledgement:
  "map_option unacknowledged_replay (row_of ''h1'' (fold handoff_step chained_ops empty_queue)) = Some []
   \<and> map_option (map deliveryId \<circ> unacknowledged_replay)
       (row_of ''h1'' (fold handoff_step chained_rollback empty_queue)) = Some [''d1'', ''d2'']
   \<and> map_option hostGeneration (row_of ''h1'' (fold handoff_step chained_rollback empty_queue)) = Some ''green''"
  by code_simp

end
