(* ===== verification/Handoff_Collect.thy ===== *)
theory Handoff_Collect
  imports Handoff_Queue
begin

text \<open>
  The pre-promotion projection of the agent registry, \<open>collectHandoffCandidates\<close> of
  \<open>src/lib/runtime/handoffQueue.ts\<close>. A \<open>Record\<close> of the snapshot is the list of its
  entries in enumeration order. \<open>locale_le\<close> is \<open>a.localeCompare(b) <= 0\<close>, which the
  runtime's collation decides.
\<close>

record generation_view =
  generation_id :: string
  generation_account :: "string option"
  generation_host :: "(string \<times> int) option"
  launch_parent :: "string option"

record conversation_view =
  view_id :: string
  view_engine :: engine
  supersededBy :: bool
  turn_of :: turn_state
  generations :: "generation_view list"

record entry_view =
  structuredHost :: bool
  entry_account :: "string option"

datatype lineage_source = ViewerSpawn | EngineNative

record lineage_edge =
  childConversationId :: string
  edge_parent :: string
  source :: lineage_source

record held_delivery =
  held_conversation :: string
  held_state :: string
  createdAt :: string

record handoff_snapshot =
  conversations :: "(string \<times> conversation_view) list"
  entries :: "(string \<times> entry_view) list"
  lineageEdges :: "(string \<times> lineage_edge) list"
  heldDeliveries :: "(string \<times> held_delivery) list"

definition handoff_delivery_states :: "string list" where
  "handoff_delivery_states = [''held'', ''assigned'', ''delivery-uncertain'']"

fun engine_name :: "engine \<Rightarrow> string" where
  "engine_name Claude = ''claude''"
| "engine_name Codex = ''codex''"
| "engine_name Copilot = ''copilot''"

definition sessionEntryKey :: "engine \<Rightarrow> string \<Rightarrow> string" where
  "sessionEntryKey e sessionId = engine_name e @ '':'' @ sessionId"

definition generationFence :: "(string \<times> int) option \<Rightarrow> string \<Rightarrow> string" where
  "generationFence host sessionId =
     (case host of Some (identity, epoch) \<Rightarrow> identity @ '':'' @ int_text epoch
      | None \<Rightarrow> ''session:'' @ sessionId)"

text \<open>
  Who a child belongs to: an engine-native lineage edge, else the parent the conversation
  was launched with, for a conversation no edge names as a child.
\<close>

definition edge_parents :: "(string \<times> lineage_edge) list \<Rightarrow> (string, string) js_map" where
  "edge_parents edges = fold (\<lambda>(_, e) m.
     if source e = EngineNative then js_set (childConversationId e) (edge_parent e) m else m) edges []"

definition native_parents :: "handoff_snapshot \<Rightarrow> (string, string) js_map" where
  "native_parents s =
     fold (\<lambda>(_, c) m.
         if view_id c \<in> childConversationId ` snd ` set (lineageEdges s) then m
         else (case Option.bind (at_last (generations c)) launch_parent of
                 Some p \<Rightarrow> if p \<noteq> [] then js_set (view_id c) p m else m
               | None \<Rightarrow> m))
       (conversations s) (edge_parents (lineageEdges s))"

text \<open>
  The nearest conversation up the parent chain with a structured host; the set of visited
  ids ends the walk on a cycle.
\<close>

definition hosted_at :: "handoff_snapshot \<Rightarrow> string \<Rightarrow> (generation_view \<times> entry_view) option" where
  "hosted_at s cid =
     (case map_of (conversations s) cid of
        None \<Rightarrow> None
      | Some c \<Rightarrow>
          (case at_last (generations c) of
             None \<Rightarrow> None
           | Some g \<Rightarrow>
               (case map_of (entries s) (sessionEntryKey (view_engine c) (generation_id g)) of
                  None \<Rightarrow> None
                | Some e \<Rightarrow> if structuredHost e then Some (g, e) else None)))"

function hosted_owner ::
  "handoff_snapshot \<Rightarrow> (string, string) js_map \<Rightarrow> string list \<Rightarrow> string \<Rightarrow> (generation_view \<times> entry_view) option" where
  "hosted_owner s parents seen cid =
     (if cid = [] \<or> cid \<in> set seen then None
      else
        (case hosted_at s cid of
           Some owner \<Rightarrow> Some owner
         | None \<Rightarrow>
             (case js_get parents cid of
                None \<Rightarrow> None
              | Some p \<Rightarrow> hosted_owner s parents (cid # seen) p)))"
  by pat_completeness auto
termination
proof (relation "measure (\<lambda>(s, parents, seen, cid). card (set (js_keys parents) - set seen))")
  show "wf (measure (\<lambda>(s, parents, seen, cid). card (set (js_keys parents) - set seen)))" by simp
next
  fix s :: handoff_snapshot and parents :: "(string, string) js_map" and seen :: "string list"
    and cid p :: string
  assume "\<not> (cid = [] \<or> cid \<in> set seen)" and "js_get parents cid = Some p"
  then have "cid \<in> set (js_keys parents) - set seen"
    using js_get_None_iff [of parents cid] by auto
  then have "set (js_keys parents) - set (cid # seen) \<subset> set (js_keys parents) - set seen" by auto
  then show "((s, parents, cid # seen, p), s, parents, seen, cid)
      \<in> measure (\<lambda>(s, parents, seen, cid). card (set (js_keys parents) - set seen))"
    by (simp add: psubset_card_mono)
qed

declare hosted_owner.simps [simp del]

text \<open>The held deliveries a successor must replay, oldest first, numbered per conversation.\<close>

definition held_le ::
  "(string \<Rightarrow> string \<Rightarrow> bool) \<Rightarrow> string \<times> held_delivery \<Rightarrow> string \<times> held_delivery \<Rightarrow> bool" where
  "held_le locale_le l r =
     (if createdAt (snd l) = createdAt (snd r) then locale_le (fst l) (fst r)
      else locale_le (createdAt (snd l)) (createdAt (snd r)))"

definition ordered_held :: "(string \<Rightarrow> string \<Rightarrow> bool) \<Rightarrow> handoff_snapshot \<Rightarrow> (string \<times> held_delivery) list" where
  "ordered_held locale_le s =
     js_sort (held_le locale_le)
       (filter (\<lambda>(_, h). held_state h \<in> set handoff_delivery_states) (heldDeliveries s))"

definition add_held ::
  "string \<times> held_delivery \<Rightarrow> (string, handoff_delivery list) js_map \<Rightarrow> (string, handoff_delivery list) js_map" where
  "add_held d m =
     (let ds = (case js_get m (held_conversation (snd d)) of None \<Rightarrow> [] | Some ds \<Rightarrow> ds)
      in js_set (held_conversation (snd d))
           (ds @ [\<lparr>deliveryId = fst d, clientMessageId = None, seq = int (length ds) + 1\<rparr>]) m)"

definition deliveries_by_conversation ::
  "(string \<Rightarrow> string \<Rightarrow> bool) \<Rightarrow> handoff_snapshot \<Rightarrow> (string, handoff_delivery list) js_map" where
  "deliveries_by_conversation locale_le s = fold add_held (ordered_held locale_le s) []"

text \<open>The row of one conversation, or none when it needs no handoff.\<close>

definition candidate_row ::
  "handoff_snapshot \<Rightarrow> (string, string) js_map \<Rightarrow> (string, handoff_delivery list) js_map \<Rightarrow>
   conversation_view \<Rightarrow> handoff_row_input option" where
  "candidate_row s parents deliveries c =
     (if supersededBy c \<or> turn_of c = TurnTerminal then None
      else
        (case at_last (generations c) of
           None \<Rightarrow> None
         | Some g \<Rightarrow>
             (let parent = js_get parents (view_id c) in
              case hosted_owner s parents [] (view_id c) of
                None \<Rightarrow> None
              | Some (og, oe) \<Rightarrow>
                  (let fence = generationFence (generation_host og) (generation_id og)
                   in Some \<lparr>operationId = ''handoff_'' @ view_id c @ ''_'' @ fence,
                            conversationId = view_id c,
                            engine = view_engine c,
                            engineSessionId = generation_id g,
                            kind = (case parent of Some p \<Rightarrow> if p \<noteq> [] then EngineNativeChild else Root
                                    | None \<Rightarrow> Root),
                            parentConversationId = parent,
                            hostGeneration = fence,
                            accountId = (case generation_account g of Some a \<Rightarrow> Some a | None \<Rightarrow> entry_account oe),
                            turnState = turn_of c,
                            pendingDeliveries =
                              (case js_get deliveries (view_id c) of None \<Rightarrow> [] | Some ds \<Rightarrow> ds)\<rparr>))))"

definition collectHandoffCandidates ::
  "(string \<Rightarrow> string \<Rightarrow> bool) \<Rightarrow> handoff_snapshot \<Rightarrow> handoff_row_input list" where
  "collectHandoffCandidates locale_le s =
     (let parents = native_parents s; deliveries = deliveries_by_conversation locale_le s
      in List.map_filter (candidate_row s parents deliveries) (map snd (conversations s)))"

section \<open>What the projection carries\<close>

lemma add_held_get:
  "js_get (add_held d m) c =
     (if held_conversation (snd d) = c
      then Some (let ds = (case js_get m c of None \<Rightarrow> [] | Some ds \<Rightarrow> ds)
                 in ds @ [\<lparr>deliveryId = fst d, clientMessageId = None, seq = int (length ds) + 1\<rparr>])
      else js_get m c)"
  by (auto simp: add_held_def Let_def)

definition numbered :: "(string \<times> held_delivery) list \<Rightarrow> handoff_delivery list" where
  "numbered ds = map (\<lambda>(i, d). \<lparr>deliveryId = fst d, clientMessageId = None, seq = int i + 1\<rparr>) (enumerate 0 ds)"

lemma numbered_snoc:
  "numbered (ds @ [d]) = numbered ds @ [\<lparr>deliveryId = fst d, clientMessageId = None, seq = int (length ds) + 1\<rparr>]"
  by (simp add: numbered_def enumerate_append_eq)

lemma length_numbered [simp]: "length (numbered ds) = length ds"
  by (simp add: numbered_def)

lemma add_held_fold:
  "(case js_get (fold add_held ds []) c of None \<Rightarrow> [] | Some xs \<Rightarrow> xs)
     = numbered (filter (\<lambda>d. held_conversation (snd d) = c) ds)"
proof (induction ds rule: rev_induct)
  case Nil
  then show ?case by (simp add: numbered_def)
next
  case (snoc d ds)
  then show ?case by (simp add: add_held_get numbered_snoc Let_def)
qed

lemma candidate_rowD:
  assumes "candidate_row s parents deliveries c = Some r"
  shows "\<not> supersededBy c" "turn_of c \<noteq> TurnTerminal" "conversationId r = view_id c" "turnState r = turn_of c"
    "\<exists>g. at_last (generations c) = Some g \<and> engineSessionId r = generation_id g"
    "\<exists>owner. hosted_owner s parents [] (view_id c) = Some owner
       \<and> hostGeneration r = generationFence (generation_host (fst owner)) (generation_id (fst owner))"
    "pendingDeliveries r = (case js_get deliveries (view_id c) of None \<Rightarrow> [] | Some ds \<Rightarrow> ds)"
  using assms by (auto simp: candidate_row_def Let_def split: if_splits option.splits prod.splits)

text \<open>The owner found is a conversation with a structured host, reached through the parents.\<close>

inductive ancestor :: "(string, string) js_map \<Rightarrow> string \<Rightarrow> string \<Rightarrow> bool" for parents where
  itself: "ancestor parents c c"
| parent: "js_get parents c = Some p \<Longrightarrow> ancestor parents p a \<Longrightarrow> ancestor parents c a"

lemma hosted_owner_ancestor:
  "hosted_owner s parents seen c = Some owner \<Longrightarrow> \<exists>a. ancestor parents c a \<and> hosted_at s a = Some owner"
proof (induction s parents seen c rule: hosted_owner.induct)
  case (1 s parents seen c)
  from "1.prems" have live: "\<not> (c = [] \<or> c \<in> set seen)" by (subst (asm) hosted_owner.simps) (auto split: if_splits)
  show ?case
  proof (cases "hosted_at s c")
    case (Some o')
    with "1.prems" live show ?thesis by (subst (asm) hosted_owner.simps) (auto intro: ancestor.itself)
  next
    case None
    with "1.prems" live obtain p where p: "js_get parents c = Some p"
        and "hosted_owner s parents (c # seen) p = Some owner"
      by (subst (asm) hosted_owner.simps) (auto split: option.splits)
    from "1.IH" [OF live None p this(2)] p show ?thesis by (auto intro: ancestor.parent)
  qed
qed

text \<open>A row is collected only for a conversation that is neither superseded nor over; its fence is
  the generation of a structured host found at the conversation or at one of its ancestors, and it
  carries the deliveries held for that conversation, in order of creation, numbered from 1.\<close>

theorem collect_candidate:
  assumes "r \<in> set (collectHandoffCandidates locale_le s)"
  shows "\<exists>c owner a. c \<in> snd ` set (conversations s) \<and> \<not> supersededBy c \<and> turn_of c \<noteq> TurnTerminal
     \<and> conversationId r = view_id c
     \<and> ancestor (native_parents s) (view_id c) a \<and> hosted_at s a = Some owner
     \<and> hostGeneration r = generationFence (generation_host (fst owner)) (generation_id (fst owner))
     \<and> pendingDeliveries r =
         numbered (filter (\<lambda>d. held_conversation (snd d) = view_id c) (ordered_held locale_le s))"
proof -
  from assms obtain k c where "(k, c) \<in> set (conversations s)"
      and r: "candidate_row s (native_parents s) (deliveries_by_conversation locale_le s) c = Some r"
    by (auto simp: collectHandoffCandidates_def List.map_filter_def Let_def)
  then have c: "c \<in> snd ` set (conversations s)" by force
  note d = candidate_rowD [OF r]
  from d(6) obtain owner where o: "hosted_owner s (native_parents s) [] (view_id c) = Some owner"
      and host: "hostGeneration r = generationFence (generation_host (fst owner)) (generation_id (fst owner))"
    by blast
  from hosted_owner_ancestor [OF o] obtain a where "ancestor (native_parents s) (view_id c) a"
      and "hosted_at s a = Some owner" by blast
  moreover have "pendingDeliveries r =
      numbered (filter (\<lambda>d. held_conversation (snd d) = view_id c) (ordered_held locale_le s))"
    using d(7) by (simp add: deliveries_by_conversation_def add_held_fold)
  ultimately show ?thesis using c d(1-3) host by blast
qed

definition demo_snapshot :: handoff_snapshot where
  "demo_snapshot =
     \<lparr>conversations =
        [(''root'', \<lparr>view_id = ''root'', view_engine = Codex, supersededBy = False, turn_of = TurnBusy,
           generations = [\<lparr>generation_id = ''s1'', generation_account = None,
             generation_host = Some (''blue'', 3), launch_parent = None\<rparr>]\<rparr>),
         (''child'', \<lparr>view_id = ''child'', view_engine = Codex, supersededBy = False, turn_of = TurnIdle,
           generations = [\<lparr>generation_id = ''s2'', generation_account = None,
             generation_host = None, launch_parent = Some ''root''\<rparr>]\<rparr>)],
      entries = [(''codex:s1'', \<lparr>structuredHost = True, entry_account = Some ''acct''\<rparr>)],
      lineageEdges = [],
      heldDeliveries =
        [(''d2'', \<lparr>held_conversation = ''child'', held_state = ''held'', createdAt = ''2026-02''\<rparr>),
         (''d1'', \<lparr>held_conversation = ''child'', held_state = ''assigned'', createdAt = ''2026-01''\<rparr>),
         (''d0'', \<lparr>held_conversation = ''child'', held_state = ''delivered'', createdAt = ''2026-01''\<rparr>)]\<rparr>"

definition demo_candidates :: "handoff_row_input list" where
  "demo_candidates = collectHandoffCandidates str_le demo_snapshot"

lemma demo_candidates_hosts:
  "map (\<lambda>r. (conversationId r, hostGeneration r, map deliveryId (pendingDeliveries r))) demo_candidates
     = [(''root'', ''blue:3'', []), (''child'', ''blue:3'', [''d1'', ''d2''])]"
  by code_simp

theorem collect_candidate_witness:
  "\<exists>r c owner a. r \<in> set (collectHandoffCandidates str_le demo_snapshot)
     \<and> c \<in> snd ` set (conversations demo_snapshot) \<and> conversationId r = view_id c \<and> view_id c = ''child''
     \<and> ancestor (native_parents demo_snapshot) (view_id c) a \<and> hosted_at demo_snapshot a = Some owner"
proof -
  have "''child'' \<in> set (map conversationId demo_candidates)"
    using arg_cong [OF demo_candidates_hosts, of "map fst"] by (simp add: comp_def)
  then obtain r where r: "r \<in> set (collectHandoffCandidates str_le demo_snapshot)" "conversationId r = ''child''"
    by (auto simp: demo_candidates_def)
  from collect_candidate [OF r(1)] r show ?thesis by metis
qed

end
