(* ===== verification/Attention_Machine.thy ===== *)
theory Attention_Machine
  imports Complex_Main Contracts
begin

text \<open>
  The attention request of \<open>src/lib/attention/types.ts\<close> and its life cycle,
  \<open>src/lib/attention/machine.ts\<close>: one function decides every change of state.

  An ISO time stamp is the number \<open>Date.parse\<close> reads from it, in milliseconds; \<open>None\<close> is the
  stamp that does not parse, whose comparisons are all false. \<open>new Date(n).toISOString()\<close> is
  then \<open>Some n\<close>. Coordinates are rational numbers.
\<close>

section \<open>The record\<close>

type_synonym stamp = "int option"

definition OFFER_TTL_MS :: int where "OFFER_TTL_MS = 10 * 60000"

definition RETURN_WINDOW_MS :: int where "RETURN_WINDOW_MS = 60000"

definition ACCEPTED_LANDING_GRACE_MS :: int where "ACCEPTED_LANDING_GRACE_MS = 60000"

definition FOLLOW_HOLD_MS :: int where "FOLLOW_HOLD_MS = 10 * 60000"

definition QUEUE_CAP :: nat where "QUEUE_CAP = 3"

definition MAX_REASON_LENGTH :: nat where "MAX_REASON_LENGTH = 240"

definition MAX_CONTEXT_LABEL_LENGTH :: nat where "MAX_CONTEXT_LABEL_LENGTH = 120"

definition MAX_JOURNAL_CANDIDATES :: nat where "MAX_JOURNAL_CANDIDATES = 8"

lemmas attention_limits = OFFER_TTL_MS_def RETURN_WINDOW_MS_def ACCEPTED_LANDING_GRACE_MS_def
  FOLLOW_HOLD_MS_def

record focus_rect =
  rect_x :: rat
  rect_y :: rat
  rect_w :: rat
  rect_h :: rat

datatype focus_target =
    ConversationTarget string
  | PipelineTarget string
  | StageTarget string string
  | FlowRoundTarget string int
  | TaskTarget string
  | DraftTarget string
  | RegionTarget string focus_rect
  | PointTarget string rat rat "rat option"

record focus_frame =
  frame_project :: string
  frame_rect :: focus_rect
  boardRevision :: "int option"

datatype focus_resolution = Exact | Approximate | ReaderArrival | LostTarget

datatype expiry_cause = TtlElapsed | LandingLost | QueueEvicted | FollowElapsed

datatype focus_intent = ShowIntent | OpenIntent

datatype zoom_intent = Inspect | Situate

datatype attention_state =
  Pending | Offered | Previewing | Accepted | Following | Returned | Declined | Expired | Superseded

definition TERMINAL_ATTENTION_STATES :: "attention_state list" where
  "TERMINAL_ATTENTION_STATES = [Returned, Declined, Expired, Superseded]"

definition isTerminalAttentionState :: "attention_state \<Rightarrow> bool" where
  "isTerminalAttentionState s = (s \<in> set TERMINAL_ATTENTION_STATES)"

datatype attention_origin = RootAgent | Operator

record journal_event_ref =
  event_ref_id :: string
  event_ref_kind :: "string option"

datatype raiser_kind = Manager | Agent | Gateway | Unidentified

record attention_raised_by =
  raiser :: raiser_kind
  raiser_conversation :: "string option"
  raiser_role :: "string option"
  raiser_deputy :: "string option"

record return_point =
  point_device :: string
  point_mode :: string
  point_camera :: "(rat \<times> rat \<times> rat) option"
  point_focused :: "string option"
  capturedAt :: stamp

record desktop_window_ref =
  windowId :: string
  application :: "string option"
  window_title :: "string option"

datatype accepted_via = ByOperator | ByAutoFollow

datatype returned_via = ByControl | ByManualMove

record attention_request =
  request_id :: string
  createdAt :: stamp
  requestedBy :: string
  origin :: attention_origin
  raisedBy :: "attention_raised_by option"
  target :: focus_target
  frameAtCreation :: focus_frame
  intent :: focus_intent
  zoom :: zoom_intent
  reason :: string
  contextLabel :: "string option"
  candidates :: "journal_event_ref list option"
  state :: attention_state
  stateChangedAt :: stamp
  expiresAt :: stamp
  offeredTo :: "string list"
  acknowledgedBy :: "string option"
  directedSessionId :: "string option"
  operationKey :: "string option"
  acceptedVia :: "accepted_via option"
  delivery_notice :: bool
  returnPoints :: "return_point list"
  resolution :: "focus_resolution option"
  expiredCause :: "expiry_cause option"
  returnedVia :: "returned_via option"
  supersededBy :: "string option"
  desktopTarget :: "desktop_window_ref option"
  revision :: int

section \<open>The machine\<close>

datatype attention_event =
    OfferEvent string
  | PreviewEvent string
  | AcceptEvent string "accepted_via option"
  | ArriveEvent string return_point focus_resolution
  | AbandonEvent string
  | DeclineEvent string
  | DismissEvent string
  | ReturnEvent string returned_via
  | ExpireEvent expiry_cause
  | SupersedeEvent string

datatype attention_rejection =
  InvalidTransition | NotOffered | NotAcknowledger | StaleRevision | LostTargetRefused

datatype attention_transition =
    Moved attention_request bool
  | Refused attention_rejection attention_state

definition PRE_ACCEPTANCE :: "attention_state list" where
  "PRE_ACCEPTANCE = [Pending, Offered, Previewing]"

definition refuse :: "attention_request \<Rightarrow> attention_rejection \<Rightarrow> attention_transition" where
  "refuse r why = Refused why (state r)"

text \<open>\<open>advance\<close>: the patch first, then the new state, its time and the next revision.\<close>

definition advance ::
  "attention_request \<Rightarrow> attention_state \<Rightarrow> int \<Rightarrow> (attention_request \<Rightarrow> attention_request)
     \<Rightarrow> attention_transition" where
  "advance r s now patch =
     Moved ((patch r)\<lparr>state := s, stateChangedAt := Some now, revision := revision r + 1\<rparr>) True"

text \<open>\<open>now - Date.parse(at) >= limit\<close>, which is false for a stamp that does not parse.\<close>

definition elapsed :: "stamp \<Rightarrow> int \<Rightarrow> int \<Rightarrow> bool" where
  "elapsed since now limit = (case since of None \<Rightarrow> False | Some t \<Rightarrow> now - t \<ge> limit)"

definition within_span :: "stamp \<Rightarrow> int \<Rightarrow> int \<Rightarrow> bool" where
  "within_span since now limit = (case since of None \<Rightarrow> False | Some t \<Rightarrow> now - t < limit)"

definition expiryCauseByClock :: "attention_request \<Rightarrow> int \<Rightarrow> expiry_cause option" where
  "expiryCauseByClock r now =
     (if state r \<in> set PRE_ACCEPTANCE then
        (case expiresAt r of
           None \<Rightarrow> None
         | Some t \<Rightarrow> if t \<le> now then Some TtlElapsed else None)
      else if state r = Accepted then
        (if elapsed (stateChangedAt r) now ACCEPTED_LANDING_GRACE_MS then Some LandingLost else None)
      else if state r = Following then
        (if elapsed (stateChangedAt r) now FOLLOW_HOLD_MS then Some FollowElapsed else None)
      else None)"

definition followReturnWindowOpen :: "attention_request \<Rightarrow> int \<Rightarrow> bool" where
  "followReturnWindowOpen r now =
     (state r = Following \<and> within_span (stateChangedAt r) now RETURN_WINDOW_MS)"

definition isExpiredByClock :: "attention_request \<Rightarrow> int \<Rightarrow> bool" where
  "isExpiredByClock r now = (expiryCauseByClock r now \<noteq> None)"

definition returnControlIsLive :: "attention_request \<Rightarrow> string \<Rightarrow> int \<Rightarrow> bool" where
  "returnControlIsLive r device now =
     (if state r \<noteq> Following \<or> acknowledgedBy r \<noteq> Some device then False
      else case find (\<lambda>p. point_device p = device) (returnPoints r) of
        None \<Rightarrow> False
      | Some p \<Rightarrow> within_span (capturedAt p) now RETURN_WINDOW_MS)"

definition offerStillActionable :: "attention_request \<Rightarrow> int \<Rightarrow> bool" where
  "offerStillActionable r now = (state r \<noteq> Following \<or> followReturnWindowOpen r now)"

datatype device_offer_status =
  OfferActionable | OfferFollowing | OfferWithdrawn | OfferClosed | OfferNone

definition offerStatusForDevice :: "attention_request \<Rightarrow> string \<Rightarrow> device_offer_status" where
  "offerStatusForDevice r device =
     (if isTerminalAttentionState (state r) then OfferClosed
      else if state r = Accepted \<or> state r = Following then
        (if acknowledgedBy r = Some device then OfferFollowing else OfferWithdrawn)
      else if state r = Pending then OfferNone
      else if device \<in> set (offeredTo r) then OfferActionable else OfferNone)"

definition expiryFrom :: "int \<Rightarrow> stamp" where
  "expiryFrom created = Some (created + OFFER_TTL_MS)"

fun attention_case :: "attention_request \<Rightarrow> int \<Rightarrow> attention_event \<Rightarrow> attention_transition" where
  "attention_case r now (OfferEvent d) =
     (if state r \<noteq> Pending \<and> state r \<noteq> Offered then refuse r InvalidTransition
      else if state r = Offered \<and> d \<in> set (offeredTo r) then Moved r False
      else advance r Offered now
        (\<lambda>r. r\<lparr>offeredTo := (if d \<in> set (offeredTo r) then offeredTo r else offeredTo r @ [d])\<rparr>))"
| "attention_case r now (PreviewEvent d) =
     (if state r \<noteq> Offered then refuse r InvalidTransition
      else if d \<notin> set (offeredTo r) then refuse r NotOffered
      else advance r Previewing now id)"
| "attention_case r now (AcceptEvent d via) =
     (if state r \<noteq> Offered \<and> state r \<noteq> Previewing then refuse r InvalidTransition
      else if d \<notin> set (offeredTo r) then refuse r NotOffered
      else advance r Accepted now
        (\<lambda>r. r\<lparr>acknowledgedBy := Some d,
               acceptedVia := Some (case via of None \<Rightarrow> ByOperator | Some v \<Rightarrow> v)\<rparr>))"
| "attention_case r now (ArriveEvent d point kind) =
     (if state r \<noteq> Accepted then refuse r InvalidTransition
      else if acknowledgedBy r \<noteq> Some d then refuse r NotAcknowledger
      else if kind = LostTarget then refuse r LostTargetRefused
      else advance r Following now
        (\<lambda>r. r\<lparr>returnPoints := filter (\<lambda>p. point_device p \<noteq> d) (returnPoints r) @ [point],
               resolution := Some kind\<rparr>))"
| "attention_case r now (AbandonEvent d) =
     (if state r \<noteq> Accepted then refuse r InvalidTransition
      else if acknowledgedBy r \<noteq> Some d then refuse r NotAcknowledger
      else advance r Expired now (\<lambda>r. r\<lparr>expiredCause := Some LandingLost\<rparr>))"
| "attention_case r now (DeclineEvent d) =
     (if state r \<noteq> Offered then refuse r InvalidTransition
      else if d \<notin> set (offeredTo r) then refuse r NotOffered
      else advance r Declined now id)"
| "attention_case r now (DismissEvent d) =
     (if state r \<noteq> Previewing then refuse r InvalidTransition
      else if d \<notin> set (offeredTo r) then refuse r NotOffered
      else advance r Declined now id)"
| "attention_case r now (ReturnEvent d via) =
     (if state r \<noteq> Following then refuse r InvalidTransition
      else if acknowledgedBy r \<noteq> Some d then refuse r NotAcknowledger
      else advance r Returned now (\<lambda>r. r\<lparr>returnedVia := Some via\<rparr>))"
| "attention_case r now (ExpireEvent cause) =
     (if state r \<notin> set PRE_ACCEPTANCE \<and> \<not> (state r = Accepted \<and> cause = LandingLost)
         \<and> \<not> (state r = Following \<and> cause = FollowElapsed)
      then refuse r InvalidTransition
      else advance r Expired now (\<lambda>r. r\<lparr>expiredCause := Some cause\<rparr>))"
| "attention_case r now (SupersedeEvent by_id) =
     (if state r \<in> set PRE_ACCEPTANCE \<or> (state r = Following \<and> \<not> followReturnWindowOpen r now)
      then advance r Superseded now (\<lambda>r. r\<lparr>supersededBy := Some by_id\<rparr>)
      else refuse r InvalidTransition)"

definition applyAttentionEvent ::
  "attention_request \<Rightarrow> attention_event \<Rightarrow> int \<Rightarrow> int option \<Rightarrow> attention_transition" where
  "applyAttentionEvent r ev now expectedRevision =
     (if expectedRevision \<noteq> None \<and> expectedRevision \<noteq> Some (revision r) then refuse r StaleRevision
      else if isTerminalAttentionState (state r) then refuse r InvalidTransition
      else attention_case r now ev)"

section \<open>The graph the machine draws\<close>

text \<open>
  The abstract life cycle: which event may take a request from which state to which, on
  whose word. The implementation takes an edge of this graph or none.
\<close>

inductive attention_edge :: "attention_request \<Rightarrow> int \<Rightarrow> attention_event \<Rightarrow> attention_state \<Rightarrow> bool" for r now where
  offer: "state r = Pending \<or> (state r = Offered \<and> d \<notin> set (offeredTo r))
    \<Longrightarrow> attention_edge r now (OfferEvent d) Offered"
| preview: "state r = Offered \<Longrightarrow> d \<in> set (offeredTo r) \<Longrightarrow> attention_edge r now (PreviewEvent d) Previewing"
| accept: "state r \<in> {Offered, Previewing} \<Longrightarrow> d \<in> set (offeredTo r)
    \<Longrightarrow> attention_edge r now (AcceptEvent d via) Accepted"
| arrive: "state r = Accepted \<Longrightarrow> acknowledgedBy r = Some d \<Longrightarrow> kind \<noteq> LostTarget
    \<Longrightarrow> attention_edge r now (ArriveEvent d point kind) Following"
| abandon: "state r = Accepted \<Longrightarrow> acknowledgedBy r = Some d \<Longrightarrow> attention_edge r now (AbandonEvent d) Expired"
| decline: "state r = Offered \<Longrightarrow> d \<in> set (offeredTo r) \<Longrightarrow> attention_edge r now (DeclineEvent d) Declined"
| dismiss: "state r = Previewing \<Longrightarrow> d \<in> set (offeredTo r) \<Longrightarrow> attention_edge r now (DismissEvent d) Declined"
| go_back: "state r = Following \<Longrightarrow> acknowledgedBy r = Some d \<Longrightarrow> attention_edge r now (ReturnEvent d via) Returned"
| expire: "state r \<in> {Pending, Offered, Previewing} \<or> (state r = Accepted \<and> cause = LandingLost)
      \<or> (state r = Following \<and> cause = FollowElapsed)
    \<Longrightarrow> attention_edge r now (ExpireEvent cause) Expired"
| supersede: "state r \<in> {Pending, Offered, Previewing} \<or> (state r = Following \<and> \<not> followReturnWindowOpen r now)
    \<Longrightarrow> attention_edge r now (SupersedeEvent by_id) Superseded"

inductive_cases attention_edgeE: "attention_edge r now ev s"

inductive_simps attention_edge_simps [simp]:
  "attention_edge r now (OfferEvent d) s" "attention_edge r now (PreviewEvent d) s"
  "attention_edge r now (AcceptEvent d via) s" "attention_edge r now (ArriveEvent d p k) s"
  "attention_edge r now (AbandonEvent d) s" "attention_edge r now (DeclineEvent d) s"
  "attention_edge r now (DismissEvent d) s" "attention_edge r now (ReturnEvent d v) s"
  "attention_edge r now (ExpireEvent c) s" "attention_edge r now (SupersedeEvent i) s"

section \<open>Facts about one event\<close>

lemmas attention_defs = applyAttentionEvent_def refuse_def advance_def isTerminalAttentionState_def
  TERMINAL_ATTENTION_STATES_def PRE_ACCEPTANCE_def

lemma terminal_iff:
  "isTerminalAttentionState s \<longleftrightarrow> s \<in> {Returned, Declined, Expired, Superseded}"
  by (simp add: attention_defs)

lemma live_iff:
  "\<not> isTerminalAttentionState s \<longleftrightarrow> s \<in> {Pending, Offered, Previewing, Accepted, Following}"
  by (cases s) (simp_all add: terminal_iff)

lemma apply_terminal:
  "isTerminalAttentionState (state r) \<Longrightarrow> \<exists>why. applyAttentionEvent r ev now expected = Refused why (state r)"
  by (simp add: attention_defs)

lemma apply_unchanged:
  "applyAttentionEvent r ev now expected = Moved r' False \<Longrightarrow> r' = r"
  by (cases ev) (auto simp: attention_defs split: if_splits)

lemma apply_moved:
  assumes "applyAttentionEvent r ev now expected = Moved r' c"
  shows "\<not> isTerminalAttentionState (state r)" "expected = None \<or> expected = Some (revision r)"
    "attention_case r now ev = Moved r' c"
  using assms by (auto simp: applyAttentionEvent_def refuse_def split: if_splits)

lemma case_changed:
  assumes "attention_case r now ev = Moved r' True"
  shows "revision r' = revision r + 1" "stateChangedAt r' = Some now"
    "request_id r' = request_id r" "requestedBy r' = requestedBy r" "origin r' = origin r"
    "target r' = target r" "frameAtCreation r' = frameAtCreation r" "intent r' = intent r"
    "reason r' = reason r" "operationKey r' = operationKey r" "expiresAt r' = expiresAt r"
    "createdAt r' = createdAt r" "set (offeredTo r) \<subseteq> set (offeredTo r')"
  using assms by (cases ev; force simp: refuse_def advance_def split: if_splits)+

lemma case_edge:
  "attention_case r now ev = Moved r' True \<Longrightarrow> attention_edge r now ev (state r')"
  by (cases ev) (auto simp: refuse_def advance_def PRE_ACCEPTANCE_def split: if_splits)

lemma edge_case:
  "attention_edge r now ev s \<Longrightarrow> \<exists>r'. attention_case r now ev = Moved r' True \<and> state r' = s"
  by (erule attention_edgeE) (auto simp: advance_def PRE_ACCEPTANCE_def)

lemma edge_live: "attention_edge r now ev s \<Longrightarrow> \<not> isTerminalAttentionState (state r)"
  by (erule attention_edgeE) (auto simp: terminal_iff)

lemma expiry_edge:
  "expiryCauseByClock r now = Some cause \<Longrightarrow> attention_edge r now (ExpireEvent cause) Expired"
  by (auto simp: expiryCauseByClock_def PRE_ACCEPTANCE_def split: if_splits option.splits)

lemma expiry_applies:
  assumes "expiryCauseByClock r now = Some cause"
  obtains r' where "applyAttentionEvent r (ExpireEvent cause) now None = Moved r' True"
    "state r' = Expired" "expiredCause r' = Some cause"
proof -
  from assms have e: "attention_edge r now (ExpireEvent cause) Expired" by (rule expiry_edge)
  from edge_case [OF e] obtain r' where r': "attention_case r now (ExpireEvent cause) = Moved r' True"
      and s: "state r' = Expired" by blast
  from r' have "expiredCause r' = Some cause" by (auto simp: refuse_def advance_def split: if_splits)
  with r' s edge_live [OF e] that [of r'] show thesis by (simp add: applyAttentionEvent_def)
qed

text \<open>The clock ends every live request whose stamps parse, within ten minutes of them.\<close>

lemma expiry_due:
  assumes "\<not> isTerminalAttentionState (state r)"
    and "expiresAt r = Some e" "e \<le> now" "stateChangedAt r = Some t" "t + FOLLOW_HOLD_MS \<le> now"
  shows "expiryCauseByClock r now \<noteq> None"
  using assms by (cases "state r") (auto simp: expiryCauseByClock_def live_iff terminal_iff PRE_ACCEPTANCE_def
      elapsed_def attention_limits)

section \<open>The invariant of one request\<close>

text \<open>What the evidence on a record says, in each state.\<close>

definition unended :: "attention_request \<Rightarrow> bool" where
  "unended r \<longleftrightarrow> expiredCause r = None \<and> supersededBy r = None \<and> returnedVia r = None"

definition unanswered :: "attention_request \<Rightarrow> bool" where
  "unanswered r \<longleftrightarrow> acknowledgedBy r = None \<and> resolution r = None"

definition landed :: "attention_request \<Rightarrow> bool" where
  "landed r \<longleftrightarrow> acknowledgedBy r \<noteq> None \<and> acceptedVia r \<noteq> None \<and> returnPoints r \<noteq> []
     \<and> resolution r \<noteq> None \<and> resolution r \<noteq> Some LostTarget"

definition request_ok :: "attention_request \<Rightarrow> bool" where
  "request_ok r =
     (case state r of
        Pending \<Rightarrow> unended r \<and> unanswered r
      | Offered \<Rightarrow> unended r \<and> unanswered r \<and> offeredTo r \<noteq> []
      | Previewing \<Rightarrow> unended r \<and> unanswered r \<and> offeredTo r \<noteq> []
      | Accepted \<Rightarrow> unended r \<and> resolution r = None \<and> (acknowledgedBy r = None \<or> acceptedVia r \<noteq> None)
      | Following \<Rightarrow> unended r \<and> landed r
      | Returned \<Rightarrow> landed r \<and> returnedVia r \<noteq> None \<and> expiredCause r = None \<and> supersededBy r = None
      | Declined \<Rightarrow> unended r \<and> unanswered r \<and> offeredTo r \<noteq> []
      | Expired \<Rightarrow> returnedVia r = None \<and> supersededBy r = None
          \<and> (case expiredCause r of
                None \<Rightarrow> False
              | Some TtlElapsed \<Rightarrow> unanswered r
              | Some QueueEvicted \<Rightarrow> unanswered r
              | Some LandingLost \<Rightarrow> resolution r = None
              | Some FollowElapsed \<Rightarrow> landed r \<or> unanswered r)
      | Superseded \<Rightarrow> returnedVia r = None \<and> expiredCause r = None \<and> supersededBy r \<noteq> None
          \<and> (landed r \<or> unanswered r))"

lemmas request_ok_defs = request_ok_def unended_def unanswered_def landed_def

lemma request_ok_case:
  assumes "request_ok r" "attention_case r now ev = Moved r' True"
  shows "request_ok r'"
proof -
  from assms(2) have "attention_edge r now ev (state r')" by (rule case_edge)
  then show ?thesis
    by (rule attention_edgeE; use assms in
      \<open>auto simp: request_ok_defs refuse_def advance_def PRE_ACCEPTANCE_def split: if_splits
         expiry_cause.splits focus_resolution.splits\<close>)
qed

lemma request_ok_apply:
  assumes "request_ok r" "applyAttentionEvent r ev now expected = Moved r' c"
  shows "request_ok r'"
  using assms apply_moved(3) [OF assms(2)] apply_unchanged [of r ev now expected r']
  by (cases c) (auto intro: request_ok_case)

end
