(* ===== verification/Json.thy ===== *)
theory Json
  imports Complex_Main Contracts
begin

text \<open>
  JSON values as the delta codecs see them. An object is the list of its fields in order;
  the codecs compare the strings \<open>JSON.stringify\<close> writes, so order is part of a value, and
  they promise the same document, which is \<open>same_json\<close>: equal up to the order of fields.
\<close>

datatype json =
    JNull
  | JBool bool
  | JNum rat
  | JStr string
  | JArr "json list"
  | JObj "(string \<times> json) list"

lemma size_field [termination_simp]: "(k, v) \<in> set fields \<Longrightarrow> size v < Suc (size_list (size_prod (\<lambda>x. 0) size) fields)"
  by (induction fields) auto

lemma size_element [termination_simp]: "v \<in> set vs \<Longrightarrow> size v < Suc (size_list size vs)"
  by (induction vs) auto

lemma size_zipped [termination_simp]:
  "(k, v) \<in> set (zip ks vs) \<Longrightarrow> size v < Suc (size_list size vs)"
  "(k, v) \<in> set (zip ks vs) \<Longrightarrow> size v \<le> Suc (size_list size vs)"
  using size_element [of v vs] by (auto dest!: set_zip_rightD intro: less_imp_le)

text \<open>No object has a field twice.\<close>

fun json_wf :: "json \<Rightarrow> bool" where
  "json_wf (JArr vs) \<longleftrightarrow> list_all json_wf vs"
| "json_wf (JObj fields) \<longleftrightarrow> js_wf fields \<and> list_all (\<lambda>(k, v). json_wf v) fields"
| "json_wf _ \<longleftrightarrow> True"

lemma json_wf_field: "json_wf (JObj fields) \<Longrightarrow> js_get fields k = Some v \<Longrightarrow> json_wf v"
  by (auto simp: list_all_iff js_get_def dest: map_of_SomeD)

lemma json_wf_element: "json_wf (JArr vs) \<Longrightarrow> v \<in> set vs \<Longrightarrow> json_wf v"
  by (simp add: list_all_iff)

inductive same_json :: "json \<Rightarrow> json \<Rightarrow> bool" where
  null: "same_json JNull JNull"
| bool: "same_json (JBool b) (JBool b)"
| num: "same_json (JNum n) (JNum n)"
| str: "same_json (JStr s) (JStr s)"
| arr: "list_all2 same_json vs ws \<Longrightarrow> same_json (JArr vs) (JArr ws)"
| obj: "(\<And>k. rel_option same_json (js_get fs k) (js_get gs k)) \<Longrightarrow> same_json (JObj fs) (JObj gs)"

inductive_simps same_json_simps [simp]:
  "same_json JNull v" "same_json v JNull" "same_json (JBool b) v" "same_json v (JBool b)"
  "same_json (JNum n) v" "same_json v (JNum n)" "same_json (JStr s) v" "same_json v (JStr s)"
  "same_json (JArr vs) v" "same_json v (JArr vs)" "same_json (JObj fs) v" "same_json v (JObj fs)"

lemma same_json_refl [simp]: "same_json v v"
proof (induction v)
  case (JArr vs)
  then show ?case by (auto intro!: same_json.arr simp: list_all2_same)
next
  case (JObj fs)
  have "rel_option same_json (js_get fs k) (js_get fs k)" for k
    using JObj by (cases "js_get fs k") (auto simp: js_get_def dest!: map_of_SomeD)
  then show ?case by (auto intro!: same_json.obj)
qed (auto intro: same_json.intros)

lemma same_json_refl_list [simp]: "list_all2 same_json vs vs" "rel_option same_json x x"
  by (simp_all add: list_all2_same option.rel_refl)

lemma same_json_sym: "same_json v w \<Longrightarrow> same_json w v"
proof (induction rule: same_json.induct)
  case (arr vs ws)
  then have "list_all2 same_json ws vs"
    by (simp add: list_all2_conv_all_nth)
  then show ?case by (rule same_json.arr)
next
  case (obj fs gs)
  have "rel_option same_json (js_get gs k) (js_get fs k)" for k
    using obj(1) [of k] by (cases "js_get fs k"; cases "js_get gs k") auto
  then show ?case by (rule same_json.obj)
qed (auto intro: same_json.intros)

lemma same_json_trans: "same_json u v \<Longrightarrow> same_json v w \<Longrightarrow> same_json u w"
proof (induction arbitrary: w rule: same_json.induct)
  case (arr us vs)
  then obtain ws where w: "w = JArr ws" "list_all2 same_json vs ws" by auto
  have "list_all2 same_json us ws"
    using arr.IH w(2) by (auto simp: list_all2_conv_all_nth)
  then show ?case unfolding w by (rule same_json.arr)
next
  case (obj fs gs)
  then obtain hs where w: "w = JObj hs" "\<And>k. rel_option same_json (js_get gs k) (js_get hs k)" by auto
  have "rel_option same_json (js_get fs k) (js_get hs k)" for k
    using obj(1) [of k] w(2) [of k]
    by (cases "js_get fs k"; cases "js_get gs k"; cases "js_get hs k") auto
  then show ?case unfolding w by (rule same_json.obj)
qed auto

lemma same_fields:
  "same_json (JObj fs) (JObj gs) \<longleftrightarrow> (\<forall>k. rel_option same_json (js_get fs k) (js_get gs k))"
  by auto

lemma same_field_has: "same_json (JObj fs) (JObj gs) \<Longrightarrow> js_has fs k = js_has gs k"
  by (simp add: js_has_def) (metis option.rel_distinct(1,2) option.exhaust)

text \<open>Row keys: a string, or a safe integer.\<close>

datatype row_key = StrKey string | NumKey int

definition MAX_SAFE_INTEGER :: int where "MAX_SAFE_INTEGER = 2 ^ 53 - 1"

fun row_key_of :: "json option \<Rightarrow> row_key option" where
  "row_key_of (Some (JStr s)) = Some (StrKey s)"
| "row_key_of (Some (JNum n)) =
     (if of_int \<lfloor>n\<rfloor> = n \<and> \<bar>\<lfloor>n\<rfloor>\<bar> \<le> MAX_SAFE_INTEGER then Some (NumKey \<lfloor>n\<rfloor>) else None)"
| "row_key_of _ = None"

fun field_of :: "string \<Rightarrow> json \<Rightarrow> json option" where
  "field_of key (JObj fields) = js_get fields key"
| "field_of key _ = None"

fun is_object :: "json \<Rightarrow> bool" where
  "is_object (JObj _) = True"
| "is_object _ = False"

lemma same_field_of: "same_json v w \<Longrightarrow> rel_option same_json (field_of key v) (field_of key w)"
  by (cases v) auto

lemma same_row_key: "same_json v w \<Longrightarrow> row_key_of (field_of key v) = row_key_of (field_of key w)"
proof -
  assume "same_json v w"
  from same_field_of [OF this, of key] show ?thesis
    by (cases "field_of key v"; cases "field_of key w") (auto elim!: same_json.cases)
qed

end
