(* ===== verification/Js_Text.thy ===== *)
theory Js_Text
  imports Json
begin

text \<open>
  What the sources use of strings and of parsed JSON records: trimming, searching, lower case,
  and the readers of \<open>src/lib/scanner/json.ts\<close> that give \<open>null\<close> for a field of another type.
\<close>

section \<open>White space\<close>

text \<open>The white space \<open>trim\<close> removes, of the characters up to 255.\<close>

definition js_space :: "char \<Rightarrow> bool" where
  "js_space c = (of_char c \<in> set [9, 10, 11, 12, 13, 32, 160 :: nat])"

definition js_trim :: "string \<Rightarrow> string" where
  "js_trim s = rev (dropWhile js_space (rev (dropWhile js_space s)))"

lemma js_trim_empty [simp]: "js_trim [] = []"
  by (simp add: js_trim_def)

section \<open>Searching\<close>

fun js_starts_with :: "string \<Rightarrow> string \<Rightarrow> bool" where
  "js_starts_with [] s = True"
| "js_starts_with (p # ps) [] = False"
| "js_starts_with (p # ps) (c # s) = (p = c \<and> js_starts_with ps s)"

definition js_ends_with :: "string \<Rightarrow> string \<Rightarrow> bool" where
  "js_ends_with p s = js_starts_with (rev p) (rev s)"

fun js_includes :: "string \<Rightarrow> string \<Rightarrow> bool" where
  "js_includes p [] = js_starts_with p []"
| "js_includes p (c # s) = (js_starts_with p (c # s) \<or> js_includes p s)"

definition ascii_lower :: "char \<Rightarrow> char" where
  "ascii_lower c = (let n = of_char c :: nat in if n \<in> {65..90} then char_of (n + 32) else c)"

definition ascii_upper :: "char \<Rightarrow> char" where
  "ascii_upper c = (let n = of_char c :: nat in if n \<in> {97..122} then char_of (n - 32) else c)"

fun js_join :: "string \<Rightarrow> string list \<Rightarrow> string" where
  "js_join sep [] = []"
| "js_join sep [s] = s"
| "js_join sep (s # t # ss) = s @ sep @ js_join sep (t # ss)"

section \<open>Fields of a parsed record\<close>

type_synonym fields = "(string \<times> json) list"

fun stringValue :: "json option \<Rightarrow> string option" where
  "stringValue (Some (JStr s)) = Some s"
| "stringValue _ = None"

fun recordValue :: "json option \<Rightarrow> fields option" where
  "recordValue (Some (JObj held)) = Some held"
| "recordValue _ = None"

fun recordsValue :: "json option \<Rightarrow> fields list" where
  "recordsValue (Some (JArr vs)) = concat (map (\<lambda>v. case recordValue (Some v) of Some held \<Rightarrow> [held] | None \<Rightarrow> []) vs)"
| "recordsValue _ = []"

definition record_or_empty :: "json option \<Rightarrow> fields" where
  "record_or_empty v = (case recordValue v of Some held \<Rightarrow> held | None \<Rightarrow> [])"

text \<open>\<open>a ?? b\<close> on optional values, and whether an optional string is truthy.\<close>

definition or_else :: "'a option \<Rightarrow> 'a option \<Rightarrow> 'a option" where
  "or_else a b = (case a of Some v \<Rightarrow> Some v | None \<Rightarrow> b)"

definition truthy_text :: "string option \<Rightarrow> bool" where
  "truthy_text t \<longleftrightarrow> t \<noteq> None \<and> t \<noteq> Some []"

end
