(* ===== verification/Attention_Store.thy ===== *)
theory Attention_Store
  imports Attention_Machine Js_Text
begin

text \<open>
  The attention record as a file of requests, \<open>src/lib/attention/store.ts\<close>, with the
  target model it validates against, \<open>src/lib/attention/targets.ts\<close>. An operation reads
  the file, decides, and returns the next one; an operation that writes nothing returns the
  file it read. A time of writing is a number of milliseconds.
\<close>

section \<open>Targets\<close>

fun isGeometricTarget :: "focus_target \<Rightarrow> bool" where
  "isGeometricTarget (RegionTarget _ _) = True"
| "isGeometricTarget (PointTarget _ _ _ _) = True"
| "isGeometricTarget _ = False"

definition POINT_FRAME_SIZE :: rat where "POINT_FRAME_SIZE = 600"

fun focusTargetProject :: "focus_target \<Rightarrow> string option" where
  "focusTargetProject (RegionTarget project _) = Some project"
| "focusTargetProject (PointTarget project _ _ _) = Some project"
| "focusTargetProject _ = None"

fun focusTargetAnchorKeys :: "focus_target \<Rightarrow> string list" where
  "focusTargetAnchorKeys (ConversationTarget path) = [path]"
| "focusTargetAnchorKeys (PipelineTarget p) = [''group::pipeline::'' @ p]"
| "focusTargetAnchorKeys (StageTarget p s) = [''slot::'' @ p @ ''::'' @ s]"
| "focusTargetAnchorKeys (FlowRoundTarget f _) = [''deck::'' @ f]"
| "focusTargetAnchorKeys (TaskTarget t) = [''task::'' @ t]"
| "focusTargetAnchorKeys (DraftTarget d) = [''draft::'' @ d]"
| "focusTargetAnchorKeys (RegionTarget _ _) = []"
| "focusTargetAnchorKeys (PointTarget _ _ _ _) = []"

fun geometricFrameRect :: "focus_target \<Rightarrow> focus_rect option" where
  "geometricFrameRect (RegionTarget _ rect) = Some rect"
| "geometricFrameRect (PointTarget _ x y _) =
     Some \<lparr>rect_x = x - POINT_FRAME_SIZE / 2, rect_y = y - POINT_FRAME_SIZE / 2,
           rect_w = POINT_FRAME_SIZE, rect_h = POINT_FRAME_SIZE\<rparr>"
| "geometricFrameRect _ = None"

definition defaultZoomIntent :: "focus_target \<Rightarrow> focus_intent \<Rightarrow> zoom_intent" where
  "defaultZoomIntent t i = (if i = OpenIntent then Inspect else Situate)"

definition isRect :: "focus_rect \<Rightarrow> bool" where
  "isRect r = (rect_w r \<ge> 0 \<and> rect_h r \<ge> 0)"

definition nonEmpty :: "string \<Rightarrow> bool" where
  "nonEmpty s = (length s > 0 \<and> length s \<le> 4096)"

fun isFocusTarget :: "focus_target \<Rightarrow> bool" where
  "isFocusTarget (ConversationTarget path) = nonEmpty path"
| "isFocusTarget (PipelineTarget p) = nonEmpty p"
| "isFocusTarget (StageTarget p s) = (nonEmpty p \<and> nonEmpty s)"
| "isFocusTarget (FlowRoundTarget f n) = (nonEmpty f \<and> n \<ge> 0)"
| "isFocusTarget (TaskTarget t) = nonEmpty t"
| "isFocusTarget (DraftTarget d) = nonEmpty d"
| "isFocusTarget (RegionTarget project rect) = (nonEmpty project \<and> isRect rect)"
| "isFocusTarget (PointTarget project x y z) =
     (nonEmpty project \<and> (case z of None \<Rightarrow> True | Some v \<Rightarrow> v > 0))"

definition targetAcceptsIntent :: "focus_target \<Rightarrow> focus_intent \<Rightarrow> bool" where
  "targetAcceptsIntent t i = (i = ShowIntent \<or> \<not> isGeometricTarget t)"

section \<open>Validation of a new request\<close>

record attention_create =
  in_root :: string
  in_origin :: attention_origin
  in_raisedBy :: "attention_raised_by option"
  in_target :: focus_target
  in_frame :: focus_frame
  in_intent :: focus_intent
  in_reason :: string
  in_zoom :: "zoom_intent option"
  in_contextLabel :: "string option"
  in_candidates :: "journal_event_ref list option"
  in_offeredTo :: "string list option"
  in_directedAt :: "string option"
  in_directedAtSession :: "string option"
  in_notice :: bool
  in_operationKey :: "string option"
  in_desktopTarget :: "desktop_window_ref option"

datatype attention_invalid =
    INVALID_ROOT | INVALID_TARGET | INTENT_NOT_AVAILABLE | INVALID_REASON | INVALID_CONTEXT_LABEL
  | INVALID_CANDIDATES | INVALID_FRAME | INVALID_DIRECTED_AT | INVALID_DIRECTED_SESSION
  | INVALID_OPERATION_KEY

definition validate :: "attention_create \<Rightarrow> attention_invalid option" where
  "validate i =
     (if in_root i = [] then Some INVALID_ROOT
      else if \<not> isFocusTarget (in_target i) then Some INVALID_TARGET
      else if \<not> targetAcceptsIntent (in_target i) (in_intent i) then Some INTENT_NOT_AVAILABLE
      else if js_trim (in_reason i) = [] \<or> length (in_reason i) > MAX_REASON_LENGTH then Some INVALID_REASON
      else if (case in_contextLabel i of None \<Rightarrow> False | Some l \<Rightarrow> length l > MAX_CONTEXT_LABEL_LENGTH)
        then Some INVALID_CONTEXT_LABEL
      else if (case in_candidates i of None \<Rightarrow> False | Some cs \<Rightarrow> length cs > MAX_JOURNAL_CANDIDATES)
        then Some INVALID_CANDIDATES
      else if frame_project (in_frame i) = [] then Some INVALID_FRAME
      else if in_directedAt i = Some [] then Some INVALID_DIRECTED_AT
      else if (case in_directedAtSession i of None \<Rightarrow> False | Some s \<Rightarrow> s = [] \<or> in_directedAt i = None)
        then Some INVALID_DIRECTED_SESSION
      else if in_operationKey i = Some [] then Some INVALID_OPERATION_KEY
      else None)"

section \<open>The file\<close>

record attention_file =
  file_revision :: int
  updatedAt :: int
  requests :: "attention_request list"

definition emptyFile :: "int \<Rightarrow> attention_file" where
  "emptyFile now = \<lparr>file_revision = 0, updatedAt = now, requests = []\<rparr>"

definition MAX_RETAINED_TERMINAL :: nat where "MAX_RETAINED_TERMINAL = 50"

definition QUEUEABLE :: "attention_state list" where
  "QUEUEABLE = [Pending, Offered, Previewing]"

definition retain :: "attention_request list \<Rightarrow> attention_request list" where
  "retain rs =
     (let live = filter (\<lambda>r. \<not> isTerminalAttentionState (state r)) rs;
          terminal = filter (\<lambda>r. isTerminalAttentionState (state r)) rs;
          kept = (if length terminal > MAX_RETAINED_TERMINAL
                  then drop (length terminal - MAX_RETAINED_TERMINAL) terminal else terminal)
      in filter (\<lambda>r. r \<in> set live \<or> r \<in> set kept) rs)"

text \<open>\<open>mutateAttention\<close>: no requests, no write; otherwise the next revision of the file.\<close>

definition mutateAttention ::
  "(attention_file \<Rightarrow> attention_request list option \<times> 'r) \<Rightarrow> int \<Rightarrow> attention_file
     \<Rightarrow> attention_file \<times> 'r" where
  "mutateAttention decide now f =
     (case decide f of
        (None, res) \<Rightarrow> (f, res)
      | (Some rs, res) \<Rightarrow>
          (\<lparr>file_revision = file_revision f + 1, updatedAt = now, requests = retain rs\<rparr>, res))"

definition liveAttentionRequests :: "attention_file \<Rightarrow> attention_request list" where
  "liveAttentionRequests f = filter (\<lambda>r. \<not> isTerminalAttentionState (state r)) (requests f)"

section \<open>Creating a request\<close>

record attention_created =
  created :: attention_request
  superseded_ids :: "string list"
  dropped_ids :: "string list"
  adopted :: bool

definition new_request :: "attention_create \<Rightarrow> string \<Rightarrow> int \<Rightarrow> attention_request" where
  "new_request i new_id now =
     \<lparr>request_id = new_id, createdAt = Some now, requestedBy = in_root i, origin = in_origin i,
      raisedBy = in_raisedBy i, target = in_target i, frameAtCreation = in_frame i,
      intent = in_intent i,
      zoom = (case in_zoom i of None \<Rightarrow> defaultZoomIntent (in_target i) (in_intent i) | Some z \<Rightarrow> z),
      reason = js_trim (in_reason i), contextLabel = in_contextLabel i, candidates = in_candidates i,
      state = (if in_origin i = Operator \<or> in_directedAt i \<noteq> None then Accepted else Pending),
      stateChangedAt = Some now, expiresAt = expiryFrom now,
      offeredTo = (case in_directedAt i of
          Some d \<Rightarrow> [d]
        | None \<Rightarrow> (case in_offeredTo i of None \<Rightarrow> [] | Some ds \<Rightarrow> ds)),
      acknowledgedBy = (case in_directedAt i of
          Some d \<Rightarrow> Some d
        | None \<Rightarrow> (if in_origin i = Operator
                   then (case in_offeredTo i of Some (d # _) \<Rightarrow> Some d | _ \<Rightarrow> None) else None)),
      directedSessionId = in_directedAtSession i, operationKey = in_operationKey i,
      acceptedVia = (case in_directedAt i of
          Some d \<Rightarrow> Some (if in_origin i = Operator then ByOperator else ByAutoFollow)
        | None \<Rightarrow> (if in_origin i = Operator
                   then (case in_offeredTo i of Some (d # _) \<Rightarrow> Some ByOperator | _ \<Rightarrow> None) else None)),
      delivery_notice = in_notice i, returnPoints = [], resolution = None, expiredCause = None,
      returnedVia = None, supersededBy = None, desktopTarget = in_desktopTarget i, revision = 0\<rparr>"

text \<open>What a newer request of the same root does to an older one, and whether it ended it.\<close>

definition supersede_one ::
  "attention_create \<Rightarrow> string \<Rightarrow> int \<Rightarrow> attention_request \<Rightarrow> attention_request \<times> bool" where
  "supersede_one i new_id now r =
     (if in_origin i \<noteq> RootAgent then (r, False)
      else if requestedBy r \<noteq> in_root i then (r, False)
      else case applyAttentionEvent r (SupersedeEvent new_id) now None of
          Refused _ _ \<Rightarrow> (r, False)
        | Moved r' _ \<Rightarrow> (r', True))"

definition queued :: "string \<Rightarrow> attention_request list \<Rightarrow> attention_request list" where
  "queued new_id rs = filter (\<lambda>r. state r \<in> set QUEUEABLE \<and> request_id r \<noteq> new_id) rs"

definition victim_of :: "attention_request list \<Rightarrow> attention_request option" where
  "victim_of waiting =
     (case find (\<lambda>r. origin r = RootAgent) waiting of
        Some r \<Rightarrow> Some r
      | None \<Rightarrow> (case waiting of [] \<Rightarrow> None | r # _ \<Rightarrow> Some r))"

definition put_request :: "string \<Rightarrow> attention_request \<Rightarrow> attention_request list \<Rightarrow> attention_request list" where
  "put_request k r' rs = map (\<lambda>r. if request_id r = k then r' else r) rs"

lemma victim_of_in: "victim_of waiting = Some v \<Longrightarrow> v \<in> set waiting"
  by (auto simp: victim_of_def dest: find_SomeD split: option.splits list.splits)

lemma evicted_state:
  "applyAttentionEvent v (ExpireEvent c) now None = Moved v' b \<Longrightarrow> state v' = Expired \<and> request_id v' = request_id v"
  by (auto simp: attention_defs split: if_splits)

lemma queued_put_less:
  assumes "v \<in> set (queued k rs)" "state v' = Expired"
  shows "length (queued k (put_request (request_id v) v' rs)) < length (queued k rs)"
  using assms
proof (induction rs)
  case Nil
  then show ?case by (simp add: queued_def)
next
  case (Cons r rs)
  have le: "length (queued k (put_request (request_id v) v' rs)) \<le> length (queued k rs)"
    using Cons.prems(2) by (induction rs) (auto simp: queued_def put_request_def QUEUEABLE_def)
  show ?case
  proof (cases "v \<in> set (queued k rs)")
    case True
    with Cons show ?thesis by (auto simp: queued_def put_request_def QUEUEABLE_def)
  next
    case False
    with Cons.prems(1) have "v = r" by (auto simp: queued_def split: if_splits)
    with Cons.prems le show ?thesis by (auto simp: queued_def put_request_def QUEUEABLE_def)
  qed
qed

text \<open>The loop that makes room: it ends because every turn takes one request off the queue.\<close>

function make_room ::
  "string \<Rightarrow> int \<Rightarrow> attention_request list \<Rightarrow> string list \<Rightarrow> attention_request list \<times> string list" where
  "make_room new_id now rs dropped =
     (let waiting = queued new_id rs in
      if length waiting < QUEUE_CAP then (rs, dropped)
      else case victim_of waiting of
          None \<Rightarrow> (rs, dropped)
        | Some v \<Rightarrow>
            (case applyAttentionEvent v (ExpireEvent QueueEvicted) now None of
               Refused _ _ \<Rightarrow> (rs, dropped)
             | Moved v' _ \<Rightarrow>
                 make_room new_id now (put_request (request_id v) v' rs) (dropped @ [request_id v])))"
  by pat_completeness auto

termination
  by (relation "measure (\<lambda>(k, now, rs, dropped). length (queued k rs))")
     (auto intro!: queued_put_less dest: victim_of_in evicted_state)

declare make_room.simps [simp del]

definition createAttentionRequest ::
  "attention_create \<Rightarrow> int \<Rightarrow> string \<Rightarrow> attention_file
     \<Rightarrow> attention_invalid + (attention_file \<times> attention_created)" where
  "createAttentionRequest i now new_id f =
     (case validate i of
        Some code \<Rightarrow> Inl code
      | None \<Rightarrow> Inr (mutateAttention (\<lambda>file.
          let request = new_request i new_id now;
              outcomes = map (supersede_one i new_id now) (requests file);
              superseded = map fst (filter snd (zip (map request_id (requests file)) (map snd outcomes)));
              (rs, dropped) = make_room new_id now (map fst outcomes) []
          in case (if in_operationKey i = None then None
                   else find (\<lambda>r. operationKey r = in_operationKey i) (requests file)) of
              Some existing \<Rightarrow>
                (None, \<lparr>created = existing, superseded_ids = [], dropped_ids = [], adopted = True\<rparr>)
            | None \<Rightarrow>
                (Some (rs @ [request]),
                 \<lparr>created = request, superseded_ids = superseded, dropped_ids = dropped, adopted = False\<rparr>))
          now f))"

section \<open>Moving and sweeping requests\<close>

datatype transition_result = NotFound | Transition attention_transition

definition transitionAttentionRequest ::
  "string \<Rightarrow> attention_event \<Rightarrow> int \<Rightarrow> int option \<Rightarrow> attention_file
     \<Rightarrow> attention_file \<times> transition_result" where
  "transitionAttentionRequest k ev now expected =
     mutateAttention (\<lambda>file.
       case find (\<lambda>r. request_id r = k) (requests file) of
         None \<Rightarrow> (None, NotFound)
       | Some current \<Rightarrow>
           let t = applyAttentionEvent current ev now expected in
           (case t of
              Refused _ _ \<Rightarrow> (None, Transition t)
            | Moved r' changed \<Rightarrow>
                if \<not> changed then (None, Transition t)
                else (Some (put_request k r' (requests file)), Transition t))) now"

definition sweep_one :: "int \<Rightarrow> attention_request \<Rightarrow> attention_request \<times> bool" where
  "sweep_one now r =
     (case expiryCauseByClock r now of
        None \<Rightarrow> (r, False)
      | Some cause \<Rightarrow>
          (case applyAttentionEvent r (ExpireEvent cause) now None of
             Refused _ _ \<Rightarrow> (r, False)
           | Moved r' _ \<Rightarrow> (r', True)))"

definition sweepExpiredAttention :: "int \<Rightarrow> attention_file \<Rightarrow> attention_file \<times> string list" where
  "sweepExpiredAttention now =
     mutateAttention (\<lambda>file.
       let outcomes = map (sweep_one now) (requests file);
           expired = map fst (filter snd (zip (map request_id (requests file)) (map snd outcomes)))
       in (if expired = [] then None else Some (map fst outcomes), expired)) now"

end
