(* ===== verification/Attention_Safety.thy ===== *)
theory Attention_Safety
  imports Attention_Store
begin

text \<open>
  What the attention record keeps: the invariant of the file under every operation, in any
  order and at any later time, and the properties of its single operations.
\<close>

section \<open>What an operation leaves of a request\<close>

definition same_request :: "attention_request \<Rightarrow> attention_request \<Rightarrow> bool" where
  "same_request r r' \<longleftrightarrow> request_id r' = request_id r \<and> requestedBy r' = requestedBy r
     \<and> origin r' = origin r \<and> target r' = target r \<and> frameAtCreation r' = frameAtCreation r
     \<and> intent r' = intent r \<and> reason r' = reason r \<and> operationKey r' = operationKey r
     \<and> expiresAt r' = expiresAt r \<and> createdAt r' = createdAt r"

definition onward :: "attention_request \<Rightarrow> attention_request \<Rightarrow> bool" where
  "onward r r' \<longleftrightarrow> same_request r r'
     \<and> (r' = r \<or> \<not> isTerminalAttentionState (state r) \<and> revision r < revision r')"

definition kept :: "int \<Rightarrow> attention_request \<Rightarrow> attention_request \<Rightarrow> bool" where
  "kept now r r' \<longleftrightarrow> onward r r' \<and> (r' = r \<or> stateChangedAt r' = Some now)
     \<and> (request_ok r \<longrightarrow> request_ok r') \<and> (state r \<notin> set QUEUEABLE \<longrightarrow> state r' \<notin> set QUEUEABLE)"

lemma onward_refl [simp]: "onward r r"
  by (simp add: onward_def same_request_def)

lemma onward_trans: "onward r s \<Longrightarrow> onward s t \<Longrightarrow> onward r t"
  by (auto simp: onward_def same_request_def)

lemma onward_id: "onward r r' \<Longrightarrow> request_id r' = request_id r"
  by (simp add: onward_def same_request_def)

lemma kept_refl [simp]: "kept now r r"
  by (simp add: kept_def)

lemma kept_trans: "kept now r s \<Longrightarrow> kept now s t \<Longrightarrow> kept now r t"
  by (auto simp: kept_def intro: onward_trans)

lemma apply_kept:
  assumes "applyAttentionEvent r ev now expected = Moved r' c"
  shows "kept now r r'"
proof (cases c)
  case False
  with assms show ?thesis using apply_unchanged [of r ev now expected r'] by simp
next
  case True
  note m = apply_moved [OF assms]
  have moved: "attention_case r now ev = Moved r' True" using m(3) True by simp
  note e = case_edge [OF moved]
  note f = case_changed [OF moved]
  have "state r \<notin> set QUEUEABLE \<Longrightarrow> state r' \<notin> set QUEUEABLE"
    using e by (auto simp: QUEUEABLE_def elim!: attention_edgeE)
  with m(1) f request_ok_case [OF _ moved] show ?thesis
    by (simp add: kept_def onward_def same_request_def)
qed

lemma supersede_one_kept: "kept now r (fst (supersede_one i k now r))"
  by (auto simp: supersede_one_def split: attention_transition.splits dest: apply_kept)

lemma sweep_one_kept: "kept now r (fst (sweep_one now r))"
  by (auto simp: sweep_one_def split: attention_transition.splits option.splits dest: apply_kept)

lemma sweep_one_idle: "\<not> snd (sweep_one now r) \<Longrightarrow> fst (sweep_one now r) = r"
  by (auto simp: sweep_one_def split: attention_transition.splits option.splits)

lemma put_request_kept:
  assumes "distinct (map request_id rs)" "v \<in> set rs" "kept now v v'"
  shows "list_all2 (kept now) rs (put_request (request_id v) v' rs)"
proof -
  from assms(1,2) have "\<forall>r \<in> set rs. request_id r = request_id v \<longrightarrow> r = v"
    by (auto simp: distinct_map dest: inj_onD)
  with assms(3) have "\<forall>r \<in> set rs. kept now r (if request_id r = request_id v then v' else r)" by auto
  then show ?thesis by (simp add: put_request_def list_all2_conv_all_nth)
qed

lemma list_all2_kept_ids:
  "list_all2 (kept now) rs rs' \<Longrightarrow> map request_id rs' = map request_id rs"
  by (induction rule: list_all2_induct) (auto simp: kept_def onward_id)

lemma list_all2_kept_refl: "list_all2 (kept now) rs rs"
  by (simp add: list_all2_refl)

lemma list_all2_kept_trans:
  "list_all2 (kept now) rs ss \<Longrightarrow> list_all2 (kept now) ss ts \<Longrightarrow> list_all2 (kept now) rs ts"
  by (rule list_all2_trans [OF kept_trans])

lemma list_all2_kept_map:
  "(\<And>r. kept now r (g r)) \<Longrightarrow> list_all2 (kept now) rs (map g rs)"
  by (induction rs) simp_all

lemma expire_queued:
  assumes "state v \<in> set QUEUEABLE"
  obtains v' where "applyAttentionEvent v (ExpireEvent c) now None = Moved v' True" "state v' = Expired"
  using assms by (auto simp: attention_defs QUEUEABLE_def)

lemma victim_exists: "waiting \<noteq> [] \<Longrightarrow> \<exists>v. victim_of waiting = Some v"
  by (auto simp: victim_of_def split: option.splits list.splits)

lemma make_room_spec:
  assumes "distinct (map request_id rs)"
  shows "list_all2 (kept now) rs (fst (make_room k now rs dropped))
    \<and> length (queued k (fst (make_room k now rs dropped))) < QUEUE_CAP"
  using assms
proof (induction k now rs dropped rule: make_room.induct)
  case (1 k now rs dropped)
  show ?case
  proof (cases "length (queued k rs) < QUEUE_CAP")
    case True
    then show ?thesis by (simp add: make_room.simps [of k now rs dropped] Let_def list_all2_kept_refl)
  next
    case False
    then have "queued k rs \<noteq> []" by (auto simp: QUEUE_CAP_def)
    from victim_exists [OF this] obtain v where v: "victim_of (queued k rs) = Some v" by blast
    from victim_of_in [OF v] have q: "state v \<in> set QUEUEABLE" "v \<in> set rs" by (auto simp: queued_def)
    from expire_queued [OF q(1), of QueueEvicted now] obtain v' where
      v': "applyAttentionEvent v (ExpireEvent QueueEvicted) now None = Moved v' True" by blast
    note keeps = put_request_kept [OF "1.prems" q(2) apply_kept [OF v']]
    have d: "distinct (map request_id (put_request (request_id v) v' rs))"
      using "1.prems" list_all2_kept_ids [OF keeps] by simp
    have "make_room k now rs dropped = make_room k now (put_request (request_id v) v' rs) (dropped @ [request_id v])"
      using False v v' by (simp add: make_room.simps [of k now rs dropped] Let_def)
    with "1.IH" [OF refl False v v' d] show ?thesis
      by (auto intro: list_all2_kept_trans [OF keeps])
  qed
qed

section \<open>The invariant of the file\<close>

type_synonym attention_world = "attention_file \<times> int \<times> string set"

definition operation_keys :: "attention_request list \<Rightarrow> string list" where
  "operation_keys rs = List.map_filter operationKey rs"

definition entry_ok :: "int \<Rightarrow> attention_request \<Rightarrow> bool" where
  "entry_ok now r \<longleftrightarrow> request_ok r \<and> (origin r = Operator \<longrightarrow> state r \<notin> set QUEUEABLE)
     \<and> (\<exists>t. stateChangedAt r = Some t \<and> t \<le> now)
     \<and> (\<exists>e. expiresAt r = Some e \<and> e \<le> now + OFFER_TTL_MS)"

fun attention_ok :: "attention_world \<Rightarrow> bool" where
  "attention_ok (f, now, used) \<longleftrightarrow>
     distinct (map request_id (requests f)) \<and> set (map request_id (requests f)) \<subseteq> used
   \<and> (\<forall>r \<in> set (requests f). entry_ok now r)
   \<and> distinct (operation_keys (requests f))
   \<and> length (filter (\<lambda>r. state r \<in> set QUEUEABLE) (requests f)) \<le> QUEUE_CAP"

fun attention_within :: "attention_world \<Rightarrow> attention_world \<Rightarrow> bool" where
  "attention_within (f, now, used) (f', now', used') \<longleftrightarrow>
     file_revision f \<le> file_revision f' \<and> now \<le> now' \<and> used \<subseteq> used'
   \<and> (\<forall>r' \<in> set (requests f'). request_id r' \<in> used \<longrightarrow> (\<exists>r \<in> set (requests f). onward r r'))"

text \<open>
  One operation, at a time no earlier than the last one. The identity of a new request was
  never used before, as \<open>crypto.randomUUID\<close> provides.
\<close>

inductive attention_step :: "attention_world \<Rightarrow> attention_world \<Rightarrow> bool" where
  create: "now \<le> now' \<Longrightarrow> new_id \<notin> used \<Longrightarrow> createAttentionRequest i now' new_id f = Inr (f', res)
    \<Longrightarrow> attention_step (f, now, used) (f', now', insert new_id used)"
| transition: "now \<le> now' \<Longrightarrow> transitionAttentionRequest k ev now' expected f = (f', res')
    \<Longrightarrow> attention_step (f, now, used) (f', now', used)"
| sweep: "now \<le> now' \<Longrightarrow> sweepExpiredAttention now' f = (f', ids)
    \<Longrightarrow> attention_step (f, now, used) (f', now', used)"

inductive_cases attention_stepE: "attention_step s t"

lemma retain_filter: "\<exists>P. retain rs = filter P rs"
  unfolding retain_def Let_def by blast

lemma retain_live: "r \<in> set rs \<Longrightarrow> \<not> isTerminalAttentionState (state r) \<Longrightarrow> r \<in> set (retain rs)"
  by (auto simp: retain_def Let_def)

lemma set_retain: "r \<in> set (retain rs) \<Longrightarrow> r \<in> set rs"
  by (auto simp: retain_def Let_def)

lemma distinct_map_filterI: "distinct (map f rs) \<Longrightarrow> distinct (map f (filter P rs))"
  by (rule distinct_map_filter)

lemma operation_keys_filter:
  "distinct (operation_keys rs) \<Longrightarrow> distinct (operation_keys (filter P rs))"
proof (induction rs)
  case (Cons r rs)
  have "set (operation_keys (filter P rs)) \<subseteq> set (operation_keys rs)"
    by (auto simp: operation_keys_def List.map_filter_def)
  with Cons show ?case
    by (auto simp: operation_keys_def List.map_filter_simps split: option.splits)
qed (simp add: operation_keys_def)

lemma operation_keys_append: "operation_keys (rs @ ss) = operation_keys rs @ operation_keys ss"
  by (simp add: operation_keys_def List.map_filter_def)

lemma operation_keys_kept:
  "list_all2 (kept now) rs rs' \<Longrightarrow> operation_keys rs' = operation_keys rs"
proof (induction rule: list_all2_induct)
  case (Cons r rs r' rs')
  then have "operationKey r' = operationKey r" by (simp add: kept_def onward_def same_request_def)
  with Cons show ?case by (simp add: operation_keys_def List.map_filter_simps split: option.splits)
qed simp

lemma queueable_kept:
  "list_all2 (kept now) rs rs' \<Longrightarrow>
     length (filter (\<lambda>r. state r \<in> set QUEUEABLE) rs') \<le> length (filter (\<lambda>r. state r \<in> set QUEUEABLE) rs)"
  by (induction rule: list_all2_induct) (auto simp: kept_def)

lemma length_filter_filter: "length (filter P (filter Q rs)) \<le> length (filter P rs)"
  by (induction rs) auto

lemma entry_ok_later: "entry_ok now r \<Longrightarrow> now \<le> now' \<Longrightarrow> entry_ok now' r"
  by (force simp: entry_ok_def)

lemma entry_ok_kept:
  assumes "entry_ok now r" "now \<le> now'" "kept now' r r'"
  shows "entry_ok now' r'"
proof -
  from assms(3) have "expiresAt r' = expiresAt r" "origin r' = origin r"
    by (auto simp: kept_def onward_def same_request_def)
  with assms entry_ok_later [OF assms(1,2)] show ?thesis by (auto simp: kept_def entry_ok_def)
qed

lemma list_all2_from:
  "list_all2 (kept now) rs rs' \<Longrightarrow> r' \<in> set rs' \<Longrightarrow> \<exists>r \<in> set rs. kept now r r'"
  by (induction rule: list_all2_induct) auto

text \<open>The general form of a write: the requests moved, maybe one appended, then trimmed.\<close>

lemma write_ok:
  assumes ok: "attention_ok (f, now, used)" and later: "now \<le> now'"
    and moved: "list_all2 (kept now') (requests f) rs"
    and fresh: "\<forall>r \<in> set news. request_id r \<notin> used \<and> entry_ok now' r" "distinct (map request_id news)"
    and keys: "distinct (operation_keys (requests f @ news))"
    and room: "length (filter (\<lambda>r. state r \<in> set QUEUEABLE) (rs @ news)) \<le> QUEUE_CAP"
  shows "attention_ok (\<lparr>file_revision = file_revision f + 1, updatedAt = now', requests = retain (rs @ news)\<rparr>,
      now', used \<union> set (map request_id news))" (is "attention_ok (?f, _, ?used)")
    and "attention_within (f, now, used)
      (\<lparr>file_revision = file_revision f + 1, updatedAt = now', requests = retain (rs @ news)\<rparr>,
      now', used \<union> set (map request_id news))"
proof -
  obtain P where P: "retain (rs @ news) = filter P (rs @ news)" using retain_filter by blast
  note ids = list_all2_kept_ids [OF moved]
  have ids_used: "set (map request_id rs) \<subseteq> used" using ok ids by simp
  then have "distinct (map request_id (rs @ news))" using ok fresh ids by auto
  then have "distinct (map request_id (requests ?f))" by (simp add: P distinct_map_filter del: filter_append map_append)
  moreover have "set (map request_id (requests ?f)) \<subseteq> ?used" using ids_used by (auto simp: P)
  moreover have entries: "\<forall>r \<in> set (rs @ news). entry_ok now' r"
    using ok fresh(1) later list_all2_from [OF moved] by simp (metis Un_iff entry_ok_kept)
  then have "\<forall>r \<in> set (requests ?f). entry_ok now' r" by (auto simp: P)
  moreover have "distinct (operation_keys (requests ?f))"
    using keys operation_keys_kept [OF moved]
    by (simp add: P operation_keys_filter operation_keys_append del: filter_append)
  moreover have "length (filter (\<lambda>r. state r \<in> set QUEUEABLE) (requests ?f)) \<le> QUEUE_CAP"
    using room length_filter_filter [of "\<lambda>r. state r \<in> set QUEUEABLE" P "rs @ news"]
    by (simp add: P del: filter_append filter_filter)
  ultimately show "attention_ok (?f, now', ?used)" by simp
  have "\<exists>r \<in> set (requests f). onward r r'"
    if "r' \<in> set (retain (rs @ news))" "request_id r' \<in> used" for r'
  proof -
    from that fresh(1) have "r' \<in> set rs" by (auto simp: P)
    from list_all2_from [OF moved this] show ?thesis by (auto simp: kept_def)
  qed
  with later show "attention_within (f, now, used) (?f, now', ?used)" by auto
qed

lemma attention_same:
  assumes "attention_ok (f, now, used)" "now \<le> now'" "used \<subseteq> used'"
  shows "attention_ok (f, now', used')" "attention_within (f, now, used) (f, now', used')"
  using assms by (auto intro: entry_ok_later onward_refl)

lemma new_request_ok:
  "entry_ok now (new_request i k now)" "request_id (new_request i k now) = k"
  "operationKey (new_request i k now) = in_operationKey i"
  by (auto simp: new_request_def entry_ok_def request_ok_defs expiryFrom_def QUEUEABLE_def
      attention_limits split: option.splits list.splits)

lemma create_fresh_file:
  assumes "createAttentionRequest i now k f = Inr (f', res)"
    and "in_operationKey i = None \<or> in_operationKey i \<notin> operationKey ` set (requests f)"
  shows "f' = \<lparr>file_revision = file_revision f + 1, updatedAt = now,
      requests = retain (fst (make_room k now (map (fst \<circ> supersede_one i k now) (requests f)) [])
        @ [new_request i k now])\<rparr>"
    "created res = new_request i k now" "adopted res = False"
proof -
  have none: "(if in_operationKey i = None then None
      else find (\<lambda>r. operationKey r = in_operationKey i) (requests f)) = None"
    using assms(2) by (auto simp: find_None_image)
  show "f' = \<lparr>file_revision = file_revision f + 1, updatedAt = now,
      requests = retain (fst (make_room k now (map (fst \<circ> supersede_one i k now) (requests f)) [])
        @ [new_request i k now])\<rparr>"
    "created res = new_request i k now" "adopted res = False"
    using assms(1) unfolding createAttentionRequest_def mutateAttention_def Let_def none
    by (auto simp: comp_def split: option.splits prod.splits)
qed

lemma create_adopts:
  assumes "createAttentionRequest i now k f = Inr (f', res)"
    and "in_operationKey i \<noteq> None" "in_operationKey i \<in> operationKey ` set (requests f)"
  shows "f' = f" "created res \<in> set (requests f)" "operationKey (created res) = in_operationKey i"
    "adopted res" "superseded_ids res = []" "dropped_ids res = []"
proof -
  from assms(3) obtain r where r: "find (\<lambda>r. operationKey r = in_operationKey i) (requests f) = Some r"
    by (cases "find (\<lambda>r. operationKey r = in_operationKey i) (requests f)") (auto simp: find_None_image)
  from find_SomeD [OF r] assms(1,2) r
  show "f' = f" "created res \<in> set (requests f)" "operationKey (created res) = in_operationKey i"
    "adopted res" "superseded_ids res = []" "dropped_ids res = []"
    by (auto simp: createAttentionRequest_def mutateAttention_def Let_def
        split: option.splits prod.splits)
qed

lemma create_moves:
  assumes "distinct (map request_id (requests f))"
  shows "list_all2 (kept now) (requests f)
      (fst (make_room k now (map (fst \<circ> supersede_one i k now) (requests f)) []))"
    and "length (queued k (fst (make_room k now (map (fst \<circ> supersede_one i k now) (requests f)) []))) < QUEUE_CAP"
proof -
  have m: "list_all2 (kept now) (requests f) (map (fst \<circ> supersede_one i k now) (requests f))"
    by (rule list_all2_kept_map) (simp add: supersede_one_kept)
  have "distinct (map request_id (map (fst \<circ> supersede_one i k now) (requests f)))"
    using assms list_all2_kept_ids [OF m] by metis
  from make_room_spec [OF this] m
  show "list_all2 (kept now) (requests f)
      (fst (make_room k now (map (fst \<circ> supersede_one i k now) (requests f)) []))"
    "length (queued k (fst (make_room k now (map (fst \<circ> supersede_one i k now) (requests f)) []))) < QUEUE_CAP"
    by (auto intro: list_all2_kept_trans)
qed

lemma queued_fresh:
  "k \<notin> set (map request_id rs) \<Longrightarrow> queued k rs = filter (\<lambda>r. state r \<in> set QUEUEABLE) rs"
  by (auto simp: queued_def intro!: filter_cong)

lemma create_step:
  assumes ok: "attention_ok (f, now, used)" and later: "now \<le> now'" "k \<notin> used"
    and c: "createAttentionRequest i now' k f = Inr (f', res)"
  shows "attention_ok (f', now', insert k used) \<and> attention_within (f, now, used) (f', now', insert k used)"
proof (cases "in_operationKey i = None \<or> in_operationKey i \<notin> operationKey ` set (requests f)")
  case True
  let ?rs = "fst (make_room k now' (map (fst \<circ> supersede_one i k now') (requests f)) [])"
  from ok have "distinct (map request_id (requests f))" by simp
  note m = create_moves [OF this, where k = k and i = i and now = now']
  have "k \<notin> set (map request_id ?rs)" using ok later(2) list_all2_kept_ids [OF m(1)] by auto
  with m(2) have room: "length (filter (\<lambda>r. state r \<in> set QUEUEABLE) (?rs @ [new_request i k now'])) \<le> QUEUE_CAP"
    by (simp add: queued_fresh)
  have keys: "distinct (operation_keys (requests f @ [new_request i k now']))"
    using ok True by (force simp: operation_keys_append operation_keys_def List.map_filter_def new_request_ok)
  from write_ok [OF ok later(1) m(1), of "[new_request i k now']"] keys room later(2)
  show ?thesis by (simp add: create_fresh_file(1) [OF c True] new_request_ok Un_commute)
next
  case False
  then have "f' = f" by (intro create_adopts(1) [OF c]) auto
  with attention_same [OF ok later(1), of "insert k used"] show ?thesis by auto
qed

lemma moved_step:
  assumes ok: "attention_ok (f, now, used)" and later: "now \<le> now'"
    and moved: "list_all2 (kept now') (requests f) rs"
  shows "attention_ok (\<lparr>file_revision = file_revision f + 1, updatedAt = now', requests = retain rs\<rparr>, now', used)
    \<and> attention_within (f, now, used)
        (\<lparr>file_revision = file_revision f + 1, updatedAt = now', requests = retain rs\<rparr>, now', used)"
proof -
  have "length (filter (\<lambda>r. state r \<in> set QUEUEABLE) rs) \<le> QUEUE_CAP"
    using ok queueable_kept [OF moved] by simp
  with write_ok [OF ok later moved, of "[]"] ok show ?thesis by simp
qed

lemma transition_step:
  assumes ok: "attention_ok (f, now, used)" and later: "now \<le> now'"
    and t: "transitionAttentionRequest k ev now' expected f = (f', res)"
  shows "attention_ok (f', now', used) \<and> attention_within (f, now, used) (f', now', used)"
proof (cases "\<exists>r r'. find (\<lambda>r. request_id r = k) (requests f) = Some r
    \<and> applyAttentionEvent r ev now' expected = Moved r' True")
  case True
  then obtain r r' where r: "find (\<lambda>r. request_id r = k) (requests f) = Some r"
      and r': "applyAttentionEvent r ev now' expected = Moved r' True" by blast
  from find_SomeD [OF r] have "r \<in> set (requests f)" "request_id r = k" by auto
  with ok put_request_kept [OF _ _ apply_kept [OF r']]
  have "list_all2 (kept now') (requests f) (put_request k r' (requests f))" by auto
  from moved_step [OF ok later this] t r r' show ?thesis
    by (auto simp: transitionAttentionRequest_def mutateAttention_def Let_def)
next
  case False
  with t have "f' = f"
    by (auto simp: transitionAttentionRequest_def mutateAttention_def Let_def
        split: option.splits attention_transition.splits if_splits)
  with attention_same [OF ok later, of used] show ?thesis by auto
qed

lemma marked_ids: "map fst (filter snd (zip (map f xs) (map g xs))) = map f (filter g xs)"
  by (induction xs) auto

lemma sweep_file:
  "fst (sweepExpiredAttention now f) =
     (if \<exists>r \<in> set (requests f). snd (sweep_one now r)
      then \<lparr>file_revision = file_revision f + 1, updatedAt = now,
        requests = retain (map (fst \<circ> sweep_one now) (requests f))\<rparr>
      else f)"
  unfolding sweepExpiredAttention_def mutateAttention_def Let_def map_map comp_def marked_ids
  by (auto simp: filter_empty_conv)

lemma sweep_step:
  assumes "attention_ok (f, now, used)" "now \<le> now'" "sweepExpiredAttention now' f = (f', ids)"
  shows "attention_ok (f', now', used) \<and> attention_within (f, now, used) (f', now', used)"
proof -
  have "list_all2 (kept now') (requests f) (map (fst \<circ> sweep_one now') (requests f))"
    by (rule list_all2_kept_map) (simp add: sweep_one_kept)
  note written = moved_step [OF assms(1,2) this]
  from assms(3) have "fst (sweepExpiredAttention now' f) = f'" by simp
  with sweep_file [of now' f] consider "f' = f" | "f' = \<lparr>file_revision = file_revision f + 1,
      updatedAt = now', requests = retain (map (fst \<circ> sweep_one now') (requests f))\<rparr>" by metis
  then show ?thesis
    by cases (use written attention_same [OF assms(1,2) order_refl] in blast)+
qed

lemma attention_next:
  assumes "attention_ok s" "attention_step s t"
  shows "attention_ok t \<and> attention_within s t"
  using assms(2)
proof cases
  case create
  with assms(1) show ?thesis by (simp only:) (rule create_step)
next
  case transition
  with assms(1) show ?thesis by (simp only:) (rule transition_step)
next
  case sweep
  with assms(1) show ?thesis by (simp only:) (rule sweep_step)
qed

lemma attention_within_trans: "attention_within s t \<Longrightarrow> attention_within t u \<Longrightarrow> attention_within s u"
proof (cases s; cases t; cases u)
  fix f now used g now' used' h now'' used''
  assume within: "attention_within s t" "attention_within t u"
    and e: "s = (f, now, used)" "t = (g, now', used')" "u = (h, now'', used'')"
  have "\<exists>r \<in> set (requests f). onward r r''" if "r'' \<in> set (requests h)" "request_id r'' \<in> used" for r''
  proof -
    from within that e obtain r' where r': "r' \<in> set (requests g)" "onward r' r''" by auto
    with that within e obtain r where "r \<in> set (requests f)" "onward r r'" by (auto simp: onward_id)
    with r' show ?thesis by (auto intro: onward_trans)
  qed
  with within show "attention_within s u" by (auto simp: e)
qed

interpretation attention: step_system attention_step attention_ok attention_within
proof
  fix s t u
  show "attention_ok s \<Longrightarrow> attention_within s s" by (cases s) (auto intro: onward_refl)
  show "attention_ok s \<Longrightarrow> attention_step s t \<Longrightarrow> attention_ok t" by (simp add: attention_next)
  show "attention_ok s \<Longrightarrow> attention_step s t \<Longrightarrow> attention_within s t" by (simp add: attention_next)
  show "attention_within s t \<Longrightarrow> attention_within t u \<Longrightarrow> attention_within s u" by (rule attention_within_trans)
qed

lemma empty_file_ok: "attention_ok (emptyFile t, t, {})"
  by (simp add: emptyFile_def operation_keys_def)

section \<open>What making room and superseding leave alone\<close>

definition evicted :: "attention_request \<Rightarrow> attention_request \<Rightarrow> bool" where
  "evicted r r' \<longleftrightarrow> r' = r
     \<or> state r \<in> set QUEUEABLE \<and> state r' = Expired \<and> expiredCause r' = Some QueueEvicted"

lemma evicted_refl [simp]: "evicted r r"
  by (simp add: evicted_def)

lemma evicted_trans: "evicted r s \<Longrightarrow> evicted s t \<Longrightarrow> evicted r t"
  by (auto simp: evicted_def QUEUEABLE_def)

lemma evicted_cause:
  "applyAttentionEvent v (ExpireEvent c) now None = Moved v' b \<Longrightarrow> state v' = Expired \<and> expiredCause v' = Some c"
  by (auto simp: attention_defs split: if_splits)

lemma make_room_evicts:
  assumes "distinct (map request_id rs)"
  shows "list_all2 evicted rs (fst (make_room k now rs dropped))"
  using assms
proof (induction k now rs dropped rule: make_room.induct)
  case (1 k now rs dropped)
  show ?case
  proof (cases "length (queued k rs) < QUEUE_CAP")
    case True
    then show ?thesis by (simp add: make_room.simps [of k now rs dropped] Let_def list_all2_refl evicted_def)
  next
    case False
    then have "queued k rs \<noteq> []" by (auto simp: QUEUE_CAP_def)
    from victim_exists [OF this] obtain v where v: "victim_of (queued k rs) = Some v" by blast
    from victim_of_in [OF v] have q: "state v \<in> set QUEUEABLE" "v \<in> set rs" by (auto simp: queued_def)
    from expire_queued [OF q(1), of QueueEvicted now] obtain v' where
      v': "applyAttentionEvent v (ExpireEvent QueueEvicted) now None = Moved v' True" by blast
    note keeps = put_request_kept [OF "1.prems" q(2) apply_kept [OF v']]
    have "\<forall>r \<in> set rs. request_id r = request_id v \<longrightarrow> r = v"
      using "1.prems" q(2) by (auto simp: distinct_map dest: inj_onD)
    moreover have "evicted v v'"
      using evicted_cause [OF v'] q(1) by (simp add: evicted_def)
    ultimately have "\<forall>r \<in> set rs. evicted r (if request_id r = request_id v then v' else r)"
      by (metis evicted_refl)
    then have now: "list_all2 evicted rs (put_request (request_id v) v' rs)"
      by (simp add: put_request_def list_all2_conv_all_nth)
    have d: "distinct (map request_id (put_request (request_id v) v' rs))"
      using "1.prems" list_all2_kept_ids [OF keeps] by simp
    have "make_room k now rs dropped = make_room k now (put_request (request_id v) v' rs) (dropped @ [request_id v])"
      using False v v' by (simp add: make_room.simps [of k now rs dropped] Let_def)
    with "1.IH" [OF refl False v v' d] show ?thesis
      by (auto intro: list_all2_trans [OF evicted_trans now])
  qed
qed

lemma list_all2_partner:
  "list_all2 R xs ys \<Longrightarrow> y \<in> set ys \<Longrightarrow> \<exists>x \<in> set xs. R x y"
  "list_all2 R xs ys \<Longrightarrow> x \<in> set xs \<Longrightarrow> \<exists>y \<in> set ys. R x y"
  by (induction rule: list_all2_induct) auto

text \<open>Requests whose move is in flight or whose way back is open are not superseded.\<close>

definition held_open :: "attention_request \<Rightarrow> int \<Rightarrow> bool" where
  "held_open r now \<longleftrightarrow> state r = Accepted \<or> followReturnWindowOpen r now"

lemma held_open_live: "held_open r now \<Longrightarrow> state r \<in> {Accepted, Following}"
  by (auto simp: held_open_def followReturnWindowOpen_def)

lemma supersede_edge:
  "attention_edge r now (SupersedeEvent k) Superseded
     \<longleftrightarrow> \<not> isTerminalAttentionState (state r) \<and> \<not> held_open r now"
  by (cases "state r") (simp_all add: terminal_iff held_open_def followReturnWindowOpen_def)

lemma supersede_one_spec:
  assumes "in_origin i = RootAgent" "requestedBy r = in_root i"
  shows "isTerminalAttentionState (state (fst (supersede_one i k now r)))
     \<or> fst (supersede_one i k now r) = r \<and> held_open r now"
proof (cases "attention_edge r now (SupersedeEvent k) Superseded")
  case True
  from edge_case [OF True] edge_live [OF True] assms show ?thesis
    by (auto simp: supersede_one_def applyAttentionEvent_def terminal_iff)
next
  case False
  then have "isTerminalAttentionState (state r) \<or> held_open r now" unfolding supersede_edge by blast
  then show ?thesis
  proof
    assume "isTerminalAttentionState (state r)"
    with apply_terminal [OF this, of "SupersedeEvent k" now None] show ?thesis
      by (auto simp: supersede_one_def)
  next
    assume h: "held_open r now"
    have "applyAttentionEvent r (SupersedeEvent k) now None = Refused InvalidTransition (state r)"
      using h held_open_live [OF h] by (auto simp: attention_defs held_open_def)
    with h show ?thesis by (simp add: supersede_one_def)
  qed
qed

lemma supersede_one_holds:
  assumes "held_open r now"
  shows "fst (supersede_one i k now r) = r" "state r \<notin> set QUEUEABLE" "\<not> isTerminalAttentionState (state r)"
proof -
  note h = held_open_live [OF assms]
  have "applyAttentionEvent r (SupersedeEvent k) now None = Refused InvalidTransition (state r)"
    using assms h by (auto simp: attention_defs held_open_def)
  then show "fst (supersede_one i k now r) = r" by (simp add: supersede_one_def)
  show "state r \<notin> set QUEUEABLE" "\<not> isTerminalAttentionState (state r)"
    using h by (auto simp: QUEUEABLE_def terminal_iff)
qed

lemma supersede_ids:
  "map request_id (map (fst \<circ> supersede_one i k now) rs) = map request_id rs"
  by (rule list_all2_kept_ids [where now = now]) (rule list_all2_kept_map, simp add: supersede_one_kept)

end
