(* ===== verification/Attention_Properties.thy ===== *)
theory Attention_Properties
  imports Attention_Safety
begin

text \<open>
  The properties of the attention record, over the invariant and the step system of
  \<^theory_text>\<open>Attention_Safety\<close>, with concrete requests that meet their hypotheses.
\<close>

section \<open>A concrete request\<close>

definition demo_create :: attention_create where
  "demo_create =
     \<lparr>in_root = ''root'', in_origin = RootAgent, in_raisedBy = None, in_target = TaskTarget ''t'',
      in_frame = \<lparr>frame_project = ''p'', frame_rect = \<lparr>rect_x = 0, rect_y = 0, rect_w = 1, rect_h = 1\<rparr>,
        boardRevision = None\<rparr>,
      in_intent = ShowIntent, in_reason = ''see this'', in_zoom = None, in_contextLabel = None,
      in_candidates = None, in_offeredTo = None, in_directedAt = None, in_directedAtSession = None,
      in_notice = False, in_operationKey = Some ''op'', in_desktopTarget = None\<rparr>"

definition demo_file :: attention_file where
  "demo_file = \<lparr>file_revision = 1, updatedAt = 0, requests = [new_request demo_create ''a'' 0]\<rparr>"

lemma demo_valid: "validate demo_create = None"
  by code_simp

lemma demo_state: "state (new_request demo_create k n) = Pending"
  by (simp add: new_request_def demo_create_def)

lemma demo_created:
  "createAttentionRequest demo_create 0 ''a'' (emptyFile 0) =
     Inr (demo_file, \<lparr>created = new_request demo_create ''a'' 0, superseded_ids = [], dropped_ids = [], adopted = False\<rparr>)"
proof -
  have "retain [new_request demo_create ''a'' 0] = [new_request demo_create ''a'' 0]"
    by (simp add: retain_def terminal_iff demo_state)
  then show ?thesis
    by (simp add: createAttentionRequest_def demo_valid mutateAttention_def emptyFile_def Let_def
        make_room.simps queued_def QUEUE_CAP_def demo_file_def)
qed

lemma demo_reach: "attention_step\<^sup>*\<^sup>* (emptyFile 0, 0, {}) (demo_file, 0, {''a''})"
  using attention_step.create [OF order_refl _ demo_created] by blast

definition demo_offered :: attention_file where
  "demo_offered = fst (transitionAttentionRequest ''a'' (OfferEvent ''desk'') 5 None demo_file)"

lemma demo_offered_step: "attention_step (demo_file, 0, {''a''}) (demo_offered, 5, {''a''})"
  by (rule attention_step.transition [where k = "''a''" and ev = "OfferEvent ''desk''" and expected = None])
     (simp_all add: demo_offered_def prod_eq_iff)

lemma demo_offered_requests:
  "map (\<lambda>r. (request_id r, state r, revision r)) (requests demo_offered) = [(''a'', Offered, 1)]"
  by code_simp

section \<open>Properties\<close>

text \<open>C5. From an empty file, whatever operations run in whatever order, each at a time no
  earlier than the one before: every record carries the evidence its state claims (a follow
  has an accepting device, a return point and a resolution that is not lost; an expiry has its
  cause, and one called ttl or queue-evicted was never accepted), identities and operation
  keys are unique, and at most QUEUE_CAP requests wait to be answered.\<close>

theorem attention_reachable_ok:
  assumes "attention_step\<^sup>*\<^sup>* (emptyFile t, t, {}) (f, now, used)"
  shows "attention_ok (f, now, used)"
  by (rule attention.reach_good [OF assms empty_file_ok])

theorem attention_reachable_ok_witness:
  "attention_ok (demo_offered, 5, {''a''}) \<and> length (requests demo_offered) = 1"
proof -
  have "attention_step\<^sup>*\<^sup>* (emptyFile 0, 0, {}) (demo_offered, 5, {''a''})"
    using demo_reach demo_offered_step by (rule rtranclp.rtrancl_into_rtrancl)
  from attention_reachable_ok [OF this] arg_cong [OF demo_offered_requests, of length]
  show ?thesis by simp
qed

text \<open>C6. A record never goes back: between two points of any history a request keeps who
  asked, its target, frame, reason, deadline and operation key; it is either unchanged or was
  live and has a higher revision. In particular an ended request is never revived or edited.\<close>

theorem attention_history:
  assumes "attention_step\<^sup>*\<^sup>* (emptyFile t, t, {}) (f, now, used)"
    and "attention_step\<^sup>*\<^sup>* (f, now, used) (g, now', used')"
    and "r \<in> set (requests f)" "r' \<in> set (requests g)" "request_id r' = request_id r"
  shows "same_request r r'
    \<and> (r' = r \<or> \<not> isTerminalAttentionState (state r) \<and> revision r < revision r')"
proof -
  have ok: "attention_ok (f, now, used)" by (rule attention.reach_good [OF assms(1) empty_file_ok])
  from attention.reach_onwards [OF assms(2) ok] have
    "\<forall>r' \<in> set (requests g). request_id r' \<in> used \<longrightarrow> (\<exists>r \<in> set (requests f). onward r r')" by simp
  moreover have "request_id r' \<in> used" using assms(3,5) ok by auto
  ultimately obtain q where q: "q \<in> set (requests f)" "onward q r'" using assms(4) by blast
  with assms(3,5) ok have "q = r" by (auto simp: onward_id distinct_map dest: inj_onD)
  with q show ?thesis by (simp add: onward_def)
qed

theorem attention_history_witness:
  "\<exists>r r'. r \<in> set (requests demo_file) \<and> r' \<in> set (requests demo_offered) \<and> r' \<noteq> r
     \<and> same_request r r' \<and> revision r < revision r'"
proof -
  obtain r' where r': "r' \<in> set (requests demo_offered)" "request_id r' = ''a''" "state r' = Offered"
    using demo_offered_requests by (cases "requests demo_offered") auto
  let ?r = "new_request demo_create ''a'' 0"
  have r: "?r \<in> set (requests demo_file)" "request_id ?r = ''a''" "state ?r = Pending"
    by (simp_all add: demo_file_def new_request_def demo_create_def)
  have later: "attention_step\<^sup>*\<^sup>* (demo_file, 0, {''a''}) (demo_offered, 5, {''a''})"
    using demo_offered_step by blast
  have "request_id r' = request_id ?r" using r(2) r'(2) by (rule trans [OF _ sym, rotated])
  from attention_history [OF demo_reach later r(1) r'(1) this] have h: "same_request ?r r'"
      "r' = ?r \<or> revision ?r < revision r'" by auto
  have "r' \<noteq> ?r" using r(3) r'(3) by auto
  with h r(1) r'(1) show ?thesis by blast
qed

text \<open>C7. The machine implements its graph: an event changes a request exactly when the
  revision the caller read is still current and the life cycle has that edge, on the word of a
  device the request was offered to, or of the device that accepted; and it then lands in the
  state of the edge.\<close>

theorem attention_machine_refines:
  "(\<exists>r'. applyAttentionEvent r ev now expected = Moved r' True \<and> state r' = s)
     = ((expected = None \<or> expected = Some (revision r)) \<and> attention_edge r now ev s)"
proof
  assume "\<exists>r'. applyAttentionEvent r ev now expected = Moved r' True \<and> state r' = s"
  then obtain r' where r': "applyAttentionEvent r ev now expected = Moved r' True" "state r' = s" by blast
  from apply_moved(2) [OF r'(1)] case_edge [OF apply_moved(3) [OF r'(1)]] r'(2)
  show "(expected = None \<or> expected = Some (revision r)) \<and> attention_edge r now ev s" by simp
next
  assume h: "(expected = None \<or> expected = Some (revision r)) \<and> attention_edge r now ev s"
  with edge_case [of r now ev s] edge_live [of r now ev s] show
    "\<exists>r'. applyAttentionEvent r ev now expected = Moved r' True \<and> state r' = s"
    by (auto simp: applyAttentionEvent_def)
qed

text \<open>C8. Nothing is left live for ever: a sweep ten minutes after the last operation of any
  history ends every request that was still pending, offered, previewed, accepted or followed.\<close>

theorem attention_sweep_ends_all:
  assumes "attention_step\<^sup>*\<^sup>* (emptyFile t, t, {}) (f, now, used)" "now + OFFER_TTL_MS \<le> later"
  shows "liveAttentionRequests (fst (sweepExpiredAttention later f)) = []"
proof -
  have ok: "attention_ok (f, now, used)" by (rule attention.reach_good [OF assms(1) empty_file_ok])
  have swept: "isTerminalAttentionState (state (fst (sweep_one later r)))" if "r \<in> set (requests f)" for r
  proof (cases "isTerminalAttentionState (state r)")
    case True
    then show ?thesis using sweep_one_kept [of later r] by (auto simp: kept_def onward_def)
  next
    case False
    from ok that have "entry_ok now r" by simp
    then obtain t e where "stateChangedAt r = Some t" "t \<le> now" "expiresAt r = Some e" "e \<le> now + OFFER_TTL_MS"
      by (auto simp: entry_ok_def)
    with assms(2) False have "expiryCauseByClock r later \<noteq> None"
      by (intro expiry_due [of r e later t]) (simp_all add: attention_limits)
    then obtain cause where c: "expiryCauseByClock r later = Some cause" by blast
    obtain r' where "applyAttentionEvent r (ExpireEvent cause) later None = Moved r' True" "state r' = Expired"
      by (rule expiry_applies [OF c])
    with c show ?thesis by (simp add: sweep_one_def terminal_iff)
  qed
  have idle: "isTerminalAttentionState (state r)"
    if "r \<in> set (requests f)" "\<not> snd (sweep_one later r)" for r
    using swept [OF that(1)] sweep_one_idle [OF that(2)] by simp
  from swept idle show ?thesis
    by (simp add: liveAttentionRequests_def sweep_file filter_empty_conv) (auto dest!: set_retain)
qed

theorem attention_sweep_ends_all_witness:
  "liveAttentionRequests (fst (sweepExpiredAttention 600005 demo_offered)) = []
   \<and> liveAttentionRequests demo_offered \<noteq> []"
proof -
  have "attention_step\<^sup>*\<^sup>* (emptyFile 0, 0, {}) (demo_offered, 5, {''a''})"
    using demo_reach demo_offered_step by (rule rtranclp.rtrancl_into_rtrancl)
  from attention_sweep_ends_all [OF this, of 600005] demo_offered_requests show ?thesis
    by (cases "requests demo_offered") (auto simp: OFFER_TTL_MS_def liveAttentionRequests_def terminal_iff)
qed

text \<open>One writer wins: of two events sent against the same revision of a request, once the
  first has changed it the second is refused as stale, whatever it was.\<close>

theorem attention_stale_writer_refused:
  assumes "applyAttentionEvent r ev now (Some v) = Moved r' True"
  shows "applyAttentionEvent r' ev' now' (Some v) = Refused StaleRevision (state r')"
  using apply_moved [OF assms] case_changed(1) [of r now ev r']
  by (simp add: applyAttentionEvent_def refuse_def)

theorem attention_stale_writer_refused_witness:
  "\<exists>r'. applyAttentionEvent (new_request demo_create ''a'' 0) (OfferEvent ''desk'') 5 (Some 0) = Moved r' True
     \<and> applyAttentionEvent r' (ExpireEvent TtlElapsed) 6 (Some 0) = Refused StaleRevision (state r')"
proof -
  have "\<exists>r'. applyAttentionEvent (new_request demo_create ''a'' 0) (OfferEvent ''desk'') 5 (Some 0) = Moved r' True"
    by (simp add: attention_defs demo_state new_request_def demo_create_def)
  with attention_stale_writer_refused show ?thesis by blast
qed

text \<open>One speaker: after the root agent raises a new request, every other request of that
  root is over, unless its move is in flight or its operator can still press Return; and those
  two are kept exactly as they were, neither superseded nor evicted nor trimmed.\<close>

theorem attention_one_speaker:
  assumes "distinct (map request_id (requests f))" "in_origin i = RootAgent"
    and "createAttentionRequest i now k f = Inr (f', res)" "\<not> adopted res"
  shows "(\<forall>r \<in> set (requests f'). requestedBy r = in_root i \<and> r \<noteq> created res \<longrightarrow>
       isTerminalAttentionState (state r) \<or> state r = Accepted \<or> followReturnWindowOpen r now)
   \<and> (\<forall>r \<in> set (requests f). state r = Accepted \<or> followReturnWindowOpen r now \<longrightarrow> r \<in> set (requests f'))"
proof -
  let ?ss = "map (fst \<circ> supersede_one i k now) (requests f)"
  let ?rs = "fst (make_room k now ?ss [])"
  have fresh: "in_operationKey i = None \<or> in_operationKey i \<notin> operationKey ` set (requests f)"
    using create_adopts(4) [OF assms(3)] assms(4) by blast
  note f' = create_fresh_file [OF assms(3) fresh]
  have "distinct (map request_id ?ss)" using assms(1) unfolding supersede_ids .
  note room = make_room_evicts [OF this, of k now "[]"]
  show ?thesis
  proof (intro conjI ballI impI)
    fix r assume r: "r \<in> set (requests f')" "requestedBy r = in_root i \<and> r \<noteq> created res"
    with f' have "r \<in> set ?rs" by (auto dest!: set_retain)
    with list_all2_partner(1) [OF room] obtain q where q: "q \<in> set (requests f)"
        "evicted (fst (supersede_one i k now q)) r" by fastforce
    show "isTerminalAttentionState (state r) \<or> state r = Accepted \<or> followReturnWindowOpen r now"
    proof (cases "r = fst (supersede_one i k now q)")
      case True
      with supersede_one_kept [of now q i k] r have "requestedBy q = in_root i"
        by (simp add: kept_def onward_def same_request_def)
      from supersede_one_spec [OF assms(2) this, of k now] True show ?thesis by (auto simp: held_open_def)
    next
      case False
      with q(2) show ?thesis by (simp add: evicted_def terminal_iff)
    qed
  next
    fix r assume r: "r \<in> set (requests f)" "state r = Accepted \<or> followReturnWindowOpen r now"
    note h = supersede_one_holds [OF r(2) [folded held_open_def]]
    have "(fst \<circ> supersede_one i k now) r \<in> set ?ss" using r(1) unfolding set_map by (rule imageI)
    then have "r \<in> set ?ss" using h(1) by simp
    with list_all2_partner(2) [OF room] h(2) have "r \<in> set ?rs" by (force simp: evicted_def)
    with h(3) show "r \<in> set (requests f')" by (simp add: f' retain_live)
  qed
qed

definition demo_second :: attention_create where
  "demo_second = demo_create\<lparr>in_operationKey := Some ''op2''\<rparr>"

theorem attention_one_speaker_witness:
  "\<exists>f' res. createAttentionRequest demo_second 9 ''b'' demo_offered = Inr (f', res)
     \<and> request_id (created res) = ''b''
     \<and> (\<forall>r \<in> set (requests f'). requestedBy r = ''root'' \<and> r \<noteq> created res \<longrightarrow>
         isTerminalAttentionState (state r) \<or> state r = Accepted \<or> followReturnWindowOpen r 9)"
proof -
  have v: "validate demo_second = None" by code_simp
  have ids: "map request_id (requests demo_offered) = [''a'']" by code_simp
  have keys: "map operationKey (requests demo_offered) = [Some ''op'']" by code_simp
  obtain f' res where c: "createAttentionRequest demo_second 9 ''b'' demo_offered = Inr (f', res)"
    by (cases "createAttentionRequest demo_second 9 ''b'' demo_offered")
       (auto simp: createAttentionRequest_def v)
  have "operationKey ` set (requests demo_offered) = {Some ''op''}"
    using arg_cong [OF keys, of set] by simp
  then have fresh: "in_operationKey demo_second = None
      \<or> in_operationKey demo_second \<notin> operationKey ` set (requests demo_offered)"
    by (simp add: demo_second_def)
  note f = create_fresh_file [OF c fresh]
  have "distinct (map request_id (requests demo_offered))" by (simp add: ids)
  from attention_one_speaker [OF this _ c] f c show ?thesis
    by (auto simp: demo_second_def demo_create_def new_request_ok)
qed

text \<open>One record for one operation: once a request was raised under an operation key,
  raising it again under that key, with whatever other input and however much later, adopts
  the first record and writes nothing.\<close>

theorem attention_operation_key_idempotent:
  assumes "distinct (operation_keys (requests f))" "in_operationKey i = Some key"
    and "createAttentionRequest i now k f = Inr (f', res)"
    and "in_operationKey j = Some key" "createAttentionRequest j now' k' f' = Inr (f'', res')"
  shows "f'' = f' \<and> adopted res' \<and> operationKey (created res') = Some key
    \<and> (\<not> adopted res \<longrightarrow> created res \<in> set (requests f') \<and> request_id (created res) = k)"
proof (cases "Some key \<in> operationKey ` set (requests f)")
  case True
  with create_adopts [OF assms(3)] assms(2) have "f' = f" "adopted res" by auto
  with create_adopts [OF assms(5)] assms(4) True show ?thesis by auto
next
  case False
  with assms(2) have fresh: "in_operationKey i = None \<or> in_operationKey i \<notin> operationKey ` set (requests f)" by simp
  note f' = create_fresh_file [OF assms(3) fresh]
  have "created res \<in> set (requests f')"
    by (simp add: f' retain_live, rule retain_live) (auto simp: new_request_def terminal_iff)
  moreover have "operationKey (created res) = Some key" using assms(2) by (simp add: f' new_request_ok)
  ultimately have "Some key \<in> operationKey ` set (requests f')" by force
  with create_adopts [OF assms(5)] assms(4) \<open>created res \<in> set (requests f')\<close> show ?thesis
    by (auto simp: f'(2) new_request_ok)
qed

theorem attention_operation_key_idempotent_witness:
  "createAttentionRequest demo_create 7 ''c'' demo_file = Inr (demo_file,
     \<lparr>created = new_request demo_create ''a'' 0, superseded_ids = [], dropped_ids = [], adopted = True\<rparr>)"
proof -
  obtain g res where c: "createAttentionRequest demo_create 7 ''c'' demo_file = Inr (g, res)"
    by (cases "createAttentionRequest demo_create 7 ''c'' demo_file")
       (auto simp: createAttentionRequest_def demo_valid)
  have key: "in_operationKey demo_create = Some ''op''" by (simp add: demo_create_def)
  have "distinct (operation_keys (requests (emptyFile 0)))" by (simp add: emptyFile_def operation_keys_def)
  from attention_operation_key_idempotent [OF this key demo_created key c]
  have "g = demo_file" "adopted res" by auto
  moreover have "in_operationKey demo_create \<in> operationKey ` set (requests demo_file)"
    by (simp add: demo_file_def new_request_ok)
  moreover have "in_operationKey demo_create \<noteq> None" by (simp add: key)
  ultimately have "created res \<in> set (requests demo_file)" "superseded_ids res = []" "dropped_ids res = []"
    using create_adopts [OF c] by auto
  then have "res = \<lparr>created = new_request demo_create ''a'' 0, superseded_ids = [], dropped_ids = [], adopted = True\<rparr>"
    using \<open>adopted res\<close> by (cases res) (simp add: demo_file_def)
  with c \<open>g = demo_file\<close> show ?thesis by simp
qed

end
