(* ===== verification/Board_Mutations.thy ===== *)
theory Board_Mutations
  imports Complex_Main Contracts "HOL-Library.Monad_Syntax"
begin

text \<open>
  The reducer of a project's board, \<open>src/lib/board/mutations.ts\<close>, over the board state of
  \<open>src/lib/view/types.ts\<close>. The one error the reducer throws, a cycle of path aliases, is
  \<open>None\<close>. A plain object with string keys is an insertion-ordered map; a field that may be
  absent is an option, and one that may also be null an option of an option.
\<close>

section \<open>The board\<close>

datatype view_mode = SchemeView | ListView

record board_prefs =
  manual :: "string list"
  hidden :: "string list"
  expanded :: "string list"
  favorites :: "string list option"
  foldedEngineChildIds :: "string list option"
  expandedEngineTrayParentIds :: "string list option"
  seenAt :: "(string, rat) js_map option"
  idleCollapseMinutes :: "int option option"
  viewMode :: "view_mode option"
  desktopBoard :: "string option option"
  taskPanelOpen :: bool

record board_state =
  board_revision :: int
  board_updatedAt :: string
  pathAliases :: "(string, string) js_map option"
  explicitManual :: "string list option"
  keyRevisions :: "(string, int) js_map option"
  keyRevisionFloor :: "int option"
  prefs :: board_prefs

definition DEFAULT_BOARD_IDLE_COLLAPSE_MINUTES :: int where
  "DEFAULT_BOARD_IDLE_COLLAPSE_MINUTES = 120"

datatype placement = AutoPlacement | ManualPlacement | ExpandedPlacement

datatype board_mutation =
    Close string
  | Restore string placement
  | ReconcileRoots "string list" "string list"
  | RemapPaths "(string \<times> string) list" bool
  | SetPresentation "view_mode option option" "string option option" "bool option" "int option option"
  | SetFavorite string bool
  | SetEngineChildFold string string bool
  | SetEngineTrayExpanded string bool
  | MarkSeen string rat

section \<open>Aliases\<close>

definition MAX_SEEN_STAMPS :: nat where "MAX_SEEN_STAMPS = 512"

definition boundedSeenAt :: "(string, rat) js_map \<Rightarrow> (string, rat) js_map" where
  "boundedSeenAt stamps =
     js_map_of (take MAX_SEEN_STAMPS (js_sort (\<lambda>left right. snd right \<le> snd left) stamps))"

definition aliasesOf :: "board_state \<Rightarrow> (string, string) js_map" where
  "aliasesOf b = (case pathAliases b of None \<Rightarrow> [] | Some m \<Rightarrow> m)"

text \<open>The loop that follows aliases; the paths seen are all keys, so it ends.\<close>

function resolve_from :: "(string, string) js_map \<Rightarrow> string list \<Rightarrow> string \<Rightarrow> string option" where
  "resolve_from aliases seen resolved =
     (case js_get aliases resolved of
        None \<Rightarrow> Some resolved
      | Some target \<Rightarrow>
          if resolved \<in> set seen then None else resolve_from aliases (resolved # seen) target)"
  by pat_completeness auto

termination
proof (relation "measure (\<lambda>(aliases, seen, resolved). card (set (js_keys aliases) - set seen))", goal_cases)
  case 1
  show ?case by simp
next
  case (2 aliases seen resolved target)
  then have "resolved \<in> set (js_keys aliases)" by (metis js_get_None_iff option.distinct(1))
  with 2 have "set (js_keys aliases) - set (resolved # seen) \<subset> set (js_keys aliases) - set seen" by auto
  then have "card (set (js_keys aliases) - set (resolved # seen)) < card (set (js_keys aliases) - set seen)"
    by (intro psubset_card_mono) simp_all
  then show ?case by simp
qed

declare resolve_from.simps [simp del]

definition resolvePath :: "string \<Rightarrow> (string, string) js_map \<Rightarrow> string option" where
  "resolvePath path aliases = resolve_from aliases [] path"

definition resolve_all :: "(string, string) js_map \<Rightarrow> string list \<Rightarrow> string list option" where
  "resolve_all aliases paths = those (map (\<lambda>path. resolvePath path aliases) paths)"

definition normalizedAliases :: "(string, string) js_map \<Rightarrow> (string, string) js_map option" where
  "normalizedAliases aliases = do {
     targets \<leftarrow> resolve_all aliases (js_keys aliases);
     Some (filter (\<lambda>(source, target). source \<noteq> target) (zip (js_keys aliases) targets))
   }"

definition visible_paths ::
  "(string, string) js_map \<Rightarrow> string list \<Rightarrow> string list \<Rightarrow> string list option" where
  "visible_paths aliases hiddenSet paths = do {
     resolved \<leftarrow> resolve_all aliases paths;
     Some (uniq (filter (\<lambda>item. item \<notin> set hiddenSet) resolved))
   }"

definition or_empty :: "'a list option \<Rightarrow> 'a list" where
  "or_empty xs = (case xs of None \<Rightarrow> [] | Some ys \<Rightarrow> ys)"

definition normalize_with :: "board_state \<Rightarrow> (string, string) js_map \<Rightarrow> board_state option" where
  "normalize_with b aliases = do {
     canonicalAliases \<leftarrow> normalizedAliases aliases;
     hs \<leftarrow> resolve_all canonicalAliases (hidden (prefs b));
     let hiddens = uniq hs;
     manuals \<leftarrow> visible_paths canonicalAliases hiddens (manual (prefs b));
     explicits \<leftarrow> visible_paths canonicalAliases hiddens (or_empty (explicitManual b));
     expandeds \<leftarrow> visible_paths canonicalAliases hiddens (expanded (prefs b));
     Some (b\<lparr>pathAliases := Some canonicalAliases,
       explicitManual := Some (filter (\<lambda>item. item \<in> set manuals) explicits),
       prefs := (prefs b)\<lparr>
         manual := manuals,
         hidden := hiddens,
         expanded := expandeds,
         favorites := Some (uniq (or_empty (favorites (prefs b)))),
         foldedEngineChildIds := Some (uniq (or_empty (foldedEngineChildIds (prefs b)))),
         expandedEngineTrayParentIds := Some (uniq (or_empty (expandedEngineTrayParentIds (prefs b)))),
         seenAt := Some (boundedSeenAt (or_empty (seenAt (prefs b)))),
         idleCollapseMinutes := (case idleCollapseMinutes (prefs b) of
             None \<Rightarrow> Some (Some DEFAULT_BOARD_IDLE_COLLAPSE_MINUTES)
           | Some minutes \<Rightarrow> Some minutes)\<rparr>\<rparr>)
   }"

definition normalize :: "board_state \<Rightarrow> board_state option" where
  "normalize b = normalize_with b (aliasesOf b)"

definition preserveDurableHiddenSpellings :: "board_state \<Rightarrow> board_state \<Rightarrow> board_state option" where
  "preserveDurableHiddenSpellings previous b = do {
     let aliases = aliasesOf b;
     hiddenCanonicalPaths \<leftarrow> resolve_all aliases (hidden (prefs b));
     previousCanonical \<leftarrow> resolve_all aliases (hidden (prefs previous));
     let preserved = map fst (filter (\<lambda>(item, canonical). canonical \<in> set hiddenCanonicalPaths)
           (zip (hidden (prefs previous)) previousCanonical));
     Some (b\<lparr>prefs := (prefs b)\<lparr>hidden := uniq (preserved @ hidden (prefs b))\<rparr>\<rparr>)
   }"

section \<open>The reducers\<close>

definition remapPaths :: "board_state \<Rightarrow> (string \<times> string) list \<Rightarrow> bool \<Rightarrow> board_state option" where
  "remapPaths b pairs targetPlacementAuthoritative = do {
     let currentAliases = aliasesOf b;
     froms \<leftarrow> resolve_all currentAliases (map fst pairs);
     tos \<leftarrow> resolve_all currentAliases (map snd pairs);
     let activePairs = map fst (filter (\<lambda>(pair, f, t). f \<noteq> t) (zip pairs (zip froms tos)));
     if activePairs = [] then normalize b
     else do {
       targets \<leftarrow> resolve_all currentAliases (map snd activePairs);
       manualTargets \<leftarrow> resolve_all currentAliases (manual (prefs b));
       explicitTargets \<leftarrow> resolve_all currentAliases (or_empty (explicitManual b));
       let keepsPlacement = (\<lambda>resolved. targetPlacementAuthoritative
             \<or> resolved \<notin> set targets \<or> resolved \<in> set froms);
       let manuals = map fst (filter (\<lambda>(item, resolved). keepsPlacement resolved)
             (zip (manual (prefs b)) manualTargets));
       let explicits = map fst (filter (\<lambda>(item, resolved). keepsPlacement resolved)
             (zip (or_empty (explicitManual b)) explicitTargets));
       let aliases = fold (\<lambda>(f, t) m. js_set f t m) activePairs currentAliases;
       normalize_with (b\<lparr>explicitManual := Some explicits, prefs := (prefs b)\<lparr>manual := manuals\<rparr>\<rparr>) aliases
     }
   }"

text \<open>The loop that appends the roots nothing places yet.\<close>

fun append_roots :: "string list \<Rightarrow> string list \<Rightarrow> string list \<Rightarrow> string list" where
  "append_roots present manuals [] = manuals"
| "append_roots present manuals (path # paths) =
     (if path \<in> set present then append_roots present manuals paths
      else append_roots (path # present) (manuals @ [path]) paths)"

definition reconcileRoots :: "board_state \<Rightarrow> string list \<Rightarrow> string list \<Rightarrow> board_state option" where
  "reconcileRoots b roots removeManual = do {
     let aliases = aliasesOf b;
     removed \<leftarrow> resolve_all aliases removeManual;
     let manuals = filter (\<lambda>item. item \<notin> set removed) (manual (prefs b));
     let explicits = filter (\<lambda>item. item \<notin> set removed) (or_empty (explicitManual b));
     aliasTargets \<leftarrow> resolve_all aliases (js_values aliases);
     let present = manuals @ hidden (prefs b) @ aliasTargets;
     resolvedRoots \<leftarrow> resolve_all aliases roots;
     normalize (b\<lparr>explicitManual := Some explicits,
       prefs := (prefs b)\<lparr>manual := append_roots present manuals resolvedRoots\<rparr>\<rparr>)
   }"

definition without :: "string \<Rightarrow> string list \<Rightarrow> string list" where
  "without path paths = filter (\<lambda>item. item \<noteq> path) paths"

definition restore :: "board_state \<Rightarrow> string \<Rightarrow> placement \<Rightarrow> board_state option" where
  "restore b path where_to =
     (let visible = (prefs b)\<lparr>hidden := without path (hidden (prefs b))\<rparr>;
          withoutExplicitManual = without path (or_empty (explicitManual b));
          withoutExplicitRole = visible\<lparr>manual := without path (manual visible),
            expanded := without path (expanded visible)\<rparr>
      in case where_to of
          AutoPlacement \<Rightarrow>
            normalize (b\<lparr>explicitManual := Some withoutExplicitManual, prefs := visible\<rparr>)
        | ManualPlacement \<Rightarrow>
            normalize (b\<lparr>explicitManual := Some (withoutExplicitManual @ [path]),
              prefs := withoutExplicitRole\<lparr>manual := manual withoutExplicitRole @ [path]\<rparr>\<rparr>)
        | ExpandedPlacement \<Rightarrow>
            normalize (b\<lparr>explicitManual := Some withoutExplicitManual,
              prefs := withoutExplicitRole\<lparr>expanded := expanded withoutExplicitRole @ [path]\<rparr>\<rparr>))"

text \<open>\<open>given ? [...list, id] : list.filter(...)\<close> over a list of identities.\<close>

definition set_member :: "bool \<Rightarrow> string \<Rightarrow> string list \<Rightarrow> string list" where
  "set_member present member xs = (if present then uniq (xs @ [member]) else without member xs)"

definition close_path :: "board_state \<Rightarrow> string \<Rightarrow> board_state option" where
  "close_path b path =
     normalize (b\<lparr>explicitManual := Some (without path (or_empty (explicitManual b))),
       prefs := (prefs b)\<lparr>manual := without path (manual (prefs b)),
         expanded := without path (expanded (prefs b)),
         hidden := uniq (hidden (prefs b) @ [path])\<rparr>\<rparr>)"

definition mark_seen :: "board_state \<Rightarrow> string \<Rightarrow> rat \<Rightarrow> board_state option" where
  "mark_seen b i seen =
     (let current = or_empty (seenAt (prefs b));
          stamp = max (case js_get current i of None \<Rightarrow> 0 | Some v \<Rightarrow> v) (of_int \<lfloor>seen\<rfloor>)
      in normalize (b\<lparr>prefs := (prefs b)\<lparr>seenAt := Some (js_set i stamp current)\<rparr>\<rparr>))"

definition fold_child :: "board_state \<Rightarrow> string \<Rightarrow> string \<Rightarrow> bool \<Rightarrow> board_state option" where
  "fold_child b i path folded =
     normalize (b\<lparr>
       explicitManual := (if folded then Some (without path (or_empty (explicitManual b))) else explicitManual b),
       prefs := (prefs b)\<lparr>
         foldedEngineChildIds := Some (set_member folded i (or_empty (foldedEngineChildIds (prefs b)))),
         manual := (if folded then without path (manual (prefs b)) else manual (prefs b)),
         expanded := (if folded then without path (expanded (prefs b)) else expanded (prefs b))\<rparr>\<rparr>)"

definition given :: "'a option \<Rightarrow> 'a \<Rightarrow> 'a" where
  "given new old = (case new of None \<Rightarrow> old | Some v \<Rightarrow> v)"

definition set_presentation ::
  "board_state \<Rightarrow> view_mode option option \<Rightarrow> string option option \<Rightarrow> bool option \<Rightarrow> int option option
     \<Rightarrow> board_state option" where
  "set_presentation b mode desktop panel idle =
     normalize (b\<lparr>prefs := (prefs b)\<lparr>
       viewMode := given mode (viewMode (prefs b)),
       desktopBoard := (case desktop of None \<Rightarrow> desktopBoard (prefs b) | Some d \<Rightarrow> Some d),
       taskPanelOpen := given panel (taskPanelOpen (prefs b)),
       idleCollapseMinutes := (case idle of None \<Rightarrow> idleCollapseMinutes (prefs b) | Some m \<Rightarrow> Some m)\<rparr>\<rparr>)"

fun apply_mutation :: "board_mutation \<Rightarrow> board_state \<Rightarrow> board_state option" where
  "apply_mutation (RemapPaths pairs authoritative) b = remapPaths b pairs authoritative"
| "apply_mutation (ReconcileRoots roots removeManual) b = reconcileRoots b roots removeManual"
| "apply_mutation (Restore path where_to) b = do {
     resolved \<leftarrow> resolvePath path (aliasesOf b);
     restore b resolved where_to
   }"
| "apply_mutation (SetFavorite i favorite) b =
     normalize (b\<lparr>prefs := (prefs b)\<lparr>favorites := Some (set_member favorite i (or_empty (favorites (prefs b))))\<rparr>\<rparr>)"
| "apply_mutation (MarkSeen i seen) b = mark_seen b i seen"
| "apply_mutation (SetEngineChildFold i path folded) b = do {
     resolved \<leftarrow> resolvePath path (aliasesOf b);
     fold_child b i resolved folded
   }"
| "apply_mutation (SetEngineTrayExpanded parent open_tray) b =
     normalize (b\<lparr>prefs := (prefs b)\<lparr>expandedEngineTrayParentIds :=
       Some (set_member open_tray parent (or_empty (expandedEngineTrayParentIds (prefs b))))\<rparr>\<rparr>)"
| "apply_mutation (SetPresentation mode desktop panel idle) b = set_presentation b mode desktop panel idle"
| "apply_mutation (Close path) b = do {
     resolved \<leftarrow> resolvePath path (aliasesOf b);
     close_path b resolved
   }"

fun apply_all :: "board_mutation list \<Rightarrow> board_state \<Rightarrow> board_state option" where
  "apply_all [] b = Some b"
| "apply_all (m # ms) b = do { b' \<leftarrow> apply_mutation m b; apply_all ms b' }"

definition applyBoardMutations :: "board_state \<Rightarrow> board_mutation list \<Rightarrow> board_state option" where
  "applyBoardMutations b mutations = do {
     start \<leftarrow> normalize b;
     result \<leftarrow> apply_all mutations start;
     preserveDurableHiddenSpellings b result
   }"

end
