(* ===== verification/Board_Normal.thy ===== *)
theory Board_Normal
  imports Board_Mutations
begin

text \<open>
  Aliases and normal boards: what resolving a path means, and what every reduction leaves of
  the board's lists.
\<close>

section \<open>Chains of aliases\<close>

inductive leads :: "(string, string) js_map \<Rightarrow> string \<Rightarrow> string \<Rightarrow> bool" for m where
  ends: "js_get m p = None \<Longrightarrow> leads m p p"
| goes_on: "js_get m p = Some t \<Longrightarrow> leads m t q \<Longrightarrow> leads m p q"

inductive_cases leadsE: "leads m p q"

lemma leads_end: "leads m p q \<Longrightarrow> js_get m q = None"
  by (induction rule: leads.induct)

lemma leads_unique: "leads m p q \<Longrightarrow> leads m p q' \<Longrightarrow> q = q'"
proof (induction arbitrary: q' rule: leads.induct)
  case (ends p)
  from ends.prems ends.hyps show ?case by cases simp_all
next
  case (goes_on p t q)
  from goes_on.prems goes_on.hyps(1) have "leads m t q'" by cases simp_all
  then show ?case by (rule goes_on.IH)
qed

lemma leads_trans: "leads m p q \<Longrightarrow> leads m q r \<Longrightarrow> leads m p r"
  by (induction rule: leads.induct) (auto intro: leads.intros)

lemma resolve_from_leads: "resolve_from m seen p = Some q \<Longrightarrow> leads m p q"
proof (induction m seen p rule: resolve_from.induct)
  case (1 m seen p)
  then show ?case
    by (subst (asm) (2) resolve_from.simps) (auto intro: leads.intros split: option.splits if_splits)
qed

lemma resolvePath_leads: "resolvePath p m = Some q \<Longrightarrow> leads m p q"
  by (simp add: resolvePath_def resolve_from_leads)

lemma resolvePath_end: "resolvePath p m = Some q \<Longrightarrow> js_get m q = None"
  by (blast dest: resolvePath_leads leads_end)

lemma resolvePath_canonical [simp]: "js_get m p = None \<Longrightarrow> resolvePath p m = Some p"
  by (simp add: resolvePath_def resolve_from.simps [of m])

definition flat :: "(string, string) js_map \<Rightarrow> bool" where
  "flat m \<longleftrightarrow> (\<forall>p t. js_get m p = Some t \<longrightarrow> js_get m t = None)"

definition canonical :: "(string, string) js_map \<Rightarrow> string \<Rightarrow> string" where
  "canonical m p = (case js_get m p of None \<Rightarrow> p | Some t \<Rightarrow> t)"

lemma resolvePath_flat: "flat m \<Longrightarrow> resolvePath p m = Some (canonical m p)"
  by (auto simp: resolvePath_def resolve_from.simps [of m] flat_def canonical_def split: option.splits)

lemma canonical_end: "flat m \<Longrightarrow> js_get m (canonical m p) = None"
  by (auto simp: canonical_def flat_def split: option.splits)

lemma canonical_idem [simp]: "flat m \<Longrightarrow> canonical m (canonical m p) = canonical m p"
  using canonical_end [of m p] by (simp add: canonical_def)

lemma canonical_None [simp]: "js_get m p = None \<Longrightarrow> canonical m p = p"
  by (simp add: canonical_def)

section \<open>Lists of results\<close>

lemma those_map_Some: "those (map f xs) = Some ys \<longleftrightarrow> list_all2 (\<lambda>x y. f x = Some y) xs ys"
  by (induction xs arbitrary: ys) (auto simp: list_all2_Cons1 split: option.splits)

lemma resolve_all_flat: "flat m \<Longrightarrow> resolve_all m paths = Some (map (canonical m) paths)"
  by (simp add: resolve_all_def those_map_Some resolvePath_flat list.rel_map list_all2_refl)

lemma resolve_all_length: "resolve_all m paths = Some qs \<Longrightarrow> length qs = length paths"
  by (auto simp: resolve_all_def those_map_Some dest: list_all2_lengthD)

lemma visible_paths_flat:
  "flat m \<Longrightarrow> visible_paths m hs paths = Some (uniq (filter (\<lambda>p. p \<notin> set hs) (map (canonical m) paths)))"
  by (simp add: visible_paths_def resolve_all_flat)

lemma js_get_map_key:
  "js_get (filter (\<lambda>(s, t). s \<noteq> t) (map (\<lambda>k. (k, f k)) ks)) p
     = (if p \<in> set ks \<and> f p \<noteq> p then Some (f p) else None)"
  by (induction ks) (auto simp: js_get_def)

lemma normalizedAliases_spec:
  assumes "normalizedAliases m = Some c"
  shows "flat c" "\<And>p. resolvePath p m = Some (canonical c p)"
proof -
  from assms obtain ts where ts: "resolve_all m (js_keys m) = Some ts"
      and c: "c = filter (\<lambda>(s, t). s \<noteq> t) (zip (js_keys m) ts)"
    by (auto simp: normalizedAliases_def bind_eq_Some_conv)
  let ?f = "\<lambda>p. the (resolvePath p m)"
  have all: "list_all2 (\<lambda>x y. resolvePath x m = Some y) (js_keys m) ts"
    using ts by (simp add: resolve_all_def those_map_Some)
  then have "ts = map ?f (js_keys m)"
    by (induction rule: list_all2_induct) auto
  then have c': "c = filter (\<lambda>(s, t). s \<noteq> t) (map (\<lambda>k. (k, ?f k)) (js_keys m))"
    by (simp add: c zip_map2 zip_same_conv_map comp_def)
  have res: "resolvePath p m = Some (?f p)" for p
  proof (cases "p \<in> set (js_keys m)")
    case True
    with all show ?thesis by (auto simp: list_all2_conv_all_nth in_set_conv_nth)
  next
    case False
    then show ?thesis by (simp add: js_get_None_iff)
  qed
  have get: "js_get c p = (if p \<in> set (js_keys m) \<and> ?f p \<noteq> p then Some (?f p) else None)" for p
    by (simp add: c' js_get_map_key)
  have last: "?f p \<notin> set (js_keys m)" for p
    using resolvePath_end [OF res] by (simp add: js_get_None_iff)
  show "flat c" using last by (auto simp: flat_def get split: if_splits)
  have "?f p = p" if "p \<notin> set (js_keys m)" for p using that by (simp add: js_get_None_iff)
  then show "resolvePath p m = Some (canonical c p)" for p
    using res [of p] by (cases "p \<in> set (js_keys m)"; cases "resolvePath p m")
      (simp_all add: canonical_def get js_get_None_iff)
qed

lemma normalizedAliases_flat:
  assumes "flat m"
  shows "\<exists>c. normalizedAliases m = Some c \<and> (\<forall>p. js_get c p = js_get m p)"
proof -
  have c: "normalizedAliases m = Some (filter (\<lambda>(s, t). s \<noteq> t) (map (\<lambda>k. (k, canonical m k)) (js_keys m)))"
    using assms by (simp add: normalizedAliases_def resolve_all_flat zip_map2 zip_same_conv_map comp_def)
  have "canonical m p \<noteq> p" if "p \<in> set (js_keys m)" for p
    using that canonical_end [OF assms, of p] by (auto simp: js_get_None_iff)
  moreover have "js_get m p = Some (canonical m p)" if "p \<in> set (js_keys m)" for p
    using that by (cases "js_get m p") (auto simp: canonical_def js_get_None_iff)
  moreover have "js_get m p = None" if "p \<notin> set (js_keys m)" for p
    using that by (simp add: js_get_None_iff)
  ultimately show ?thesis using c by (simp add: js_get_map_key)
qed

section \<open>Normal boards\<close>

definition stamps_of :: "board_state \<Rightarrow> (string, rat) js_map" where
  "stamps_of b = or_empty (seenAt (prefs b))"

definition explicits_of :: "board_state \<Rightarrow> string list" where
  "explicits_of b = or_empty (explicitManual b)"

text \<open>
  Aliases are flat; a placed path is canonical and its class is not hidden; a pinned path is
  placed by hand; every list holds each entry once, and the stamps are bounded.
\<close>

definition board_normal :: "board_state \<Rightarrow> bool" where
  "board_normal b \<longleftrightarrow>
     flat (aliasesOf b)
   \<and> (\<forall>p \<in> set (manual (prefs b)) \<union> set (expanded (prefs b)).
        js_get (aliasesOf b) p = None \<and> p \<notin> canonical (aliasesOf b) ` set (hidden (prefs b)))
   \<and> set (explicits_of b) \<subseteq> set (manual (prefs b))
   \<and> distinct (manual (prefs b)) \<and> distinct (hidden (prefs b)) \<and> distinct (expanded (prefs b))
   \<and> distinct (or_empty (favorites (prefs b))) \<and> distinct (or_empty (foldedEngineChildIds (prefs b)))
   \<and> distinct (or_empty (expandedEngineTrayParentIds (prefs b)))
   \<and> distinct (explicits_of b)
   \<and> length (stamps_of b) \<le> MAX_SEEN_STAMPS"

text \<open>What a reduction leaves before the old spellings are put back: hidden paths canonical too.\<close>

definition board_reduced :: "board_state \<Rightarrow> bool" where
  "board_reduced b \<longleftrightarrow> board_normal b \<and> (\<forall>p \<in> set (hidden (prefs b)). js_get (aliasesOf b) p = None)"

lemma aliasesOf_update [simp]:
  "aliasesOf (b\<lparr>explicitManual := e\<rparr>) = aliasesOf b" "aliasesOf (b\<lparr>prefs := p\<rparr>) = aliasesOf b"
  "aliasesOf (b\<lparr>pathAliases := Some m\<rparr>) = m"
  by (simp_all add: aliasesOf_def)

lemma or_empty_Some [simp]: "or_empty (Some xs) = xs"
  by (simp add: or_empty_def)

lemma length_js_set: "length (js_set k v m) \<le> Suc (length m)"
  by (induction m) auto

lemma length_js_fold: "length (fold (\<lambda>(k, v). js_set k v) es m) \<le> length m + length es"
proof (induction es arbitrary: m)
  case (Cons e es)
  obtain k v where e: "e = (k, v)" by force
  from Cons [of "js_set k v m"] length_js_set [of k v m] show ?case by (simp add: e)
qed simp

lemma length_js_map_of: "length (js_map_of es) \<le> length es"
  using length_js_fold [of es "[]"] by (simp add: js_map_of_def)

lemma length_boundedSeenAt: "length (boundedSeenAt m) \<le> MAX_SEEN_STAMPS"
  unfolding boundedSeenAt_def by (rule le_trans [OF length_js_map_of]) simp

lemma explicits_of_update [simp]:
  "explicits_of (b\<lparr>explicitManual := Some e\<rparr>) = e" "explicits_of (b\<lparr>prefs := p\<rparr>) = explicits_of b"
  by (simp_all add: explicits_of_def)

text \<open>A reduction in one equation: flat aliases, and every list mapped onto canonical paths.\<close>

definition reduced :: "board_state \<Rightarrow> (string, string) js_map \<Rightarrow> board_state" where
  "reduced b c =
     (let hs = uniq (map (canonical c) (hidden (prefs b)));
          shown = (\<lambda>paths. uniq (filter (\<lambda>p. p \<notin> set hs) (map (canonical c) paths)));
          ms = shown (manual (prefs b))
      in b\<lparr>pathAliases := Some c,
        explicitManual := Some (filter (\<lambda>p. p \<in> set ms) (shown (explicits_of b))),
        prefs := (prefs b)\<lparr>
          manual := ms, hidden := hs, expanded := shown (expanded (prefs b)),
          favorites := Some (uniq (or_empty (favorites (prefs b)))),
          foldedEngineChildIds := Some (uniq (or_empty (foldedEngineChildIds (prefs b)))),
          expandedEngineTrayParentIds := Some (uniq (or_empty (expandedEngineTrayParentIds (prefs b)))),
          seenAt := Some (boundedSeenAt (stamps_of b)),
          idleCollapseMinutes := (case idleCollapseMinutes (prefs b) of
              None \<Rightarrow> Some (Some DEFAULT_BOARD_IDLE_COLLAPSE_MINUTES)
            | Some minutes \<Rightarrow> Some minutes)\<rparr>\<rparr>)"

lemma normalize_with_eq: "normalize_with b m = map_option (reduced b) (normalizedAliases m)"
proof (cases "normalizedAliases m")
  case None
  then show ?thesis by (simp add: normalize_with_def)
next
  case (Some c)
  note flat = normalizedAliases_spec(1) [OF Some]
  show ?thesis
    by (simp add: normalize_with_def Some resolve_all_flat [OF flat] visible_paths_flat [OF flat]
        reduced_def Let_def explicits_of_def stamps_of_def)
qed

lemma reduced_simps:
  "aliasesOf (reduced b c) = c"
  "set (hidden (prefs (reduced b c))) = canonical c ` set (hidden (prefs b))"
  "set (manual (prefs (reduced b c))) = canonical c ` set (manual (prefs b)) - canonical c ` set (hidden (prefs b))"
  "set (expanded (prefs (reduced b c))) = canonical c ` set (expanded (prefs b)) - canonical c ` set (hidden (prefs b))"
  "set (explicits_of (reduced b c)) = canonical c ` set (explicits_of b) \<inter> set (manual (prefs (reduced b c)))"
  "stamps_of (reduced b c) = boundedSeenAt (stamps_of b)"
  by (auto simp: reduced_def Let_def aliasesOf_def explicits_of_def stamps_of_def)

lemma reduced_lists:
  "distinct (manual (prefs (reduced b c)))" "distinct (hidden (prefs (reduced b c)))"
  "distinct (expanded (prefs (reduced b c)))" "distinct (explicits_of (reduced b c))"
  "distinct (or_empty (favorites (prefs (reduced b c))))"
  "distinct (or_empty (foldedEngineChildIds (prefs (reduced b c))))"
  "distinct (or_empty (expandedEngineTrayParentIds (prefs (reduced b c))))"
  by (simp_all add: reduced_def Let_def explicits_of_def)

lemma board_reduced_reduced: "flat c \<Longrightarrow> board_reduced (reduced b c)"
  by (auto simp: board_reduced_def board_normal_def reduced_simps reduced_lists canonical_end
      length_boundedSeenAt)

lemma normalize_reduced:
  assumes "normalize b = Some b'"
  obtains c where "normalizedAliases (aliasesOf b) = Some c" "flat c" "b' = reduced b c"
  using assms normalizedAliases_spec(1) by (auto simp: normalize_def normalize_with_eq)

text \<open>A board with flat aliases is always normalized, and resolves as before.\<close>

lemma normalize_flat:
  assumes "flat (aliasesOf b)"
  obtains c where "normalize b = Some (reduced b c)" "flat c" "\<And>p. canonical c p = canonical (aliasesOf b) p"
    "\<And>p. js_get c p = js_get (aliasesOf b) p"
proof -
  from normalizedAliases_flat [OF assms] obtain c where c: "normalizedAliases (aliasesOf b) = Some c"
      "\<forall>p. js_get c p = js_get (aliasesOf b) p" by blast
  then have "canonical c p = canonical (aliasesOf b) p" for p by (simp add: canonical_def)
  with c normalizedAliases_spec(1) [OF c(1)] show thesis
    by (intro that [of c]) (simp_all add: normalize_def normalize_with_eq)
qed

lemma normalize_ok: "normalize b = Some b' \<Longrightarrow> board_reduced b'"
  by (elim normalize_reduced) (simp add: board_reduced_reduced)

lemma remapPaths_ok: "remapPaths b pairs auth = Some b' \<Longrightarrow> board_reduced b'"
  by (auto simp: remapPaths_def bind_eq_Some_conv Let_def normalize_with_eq normalizedAliases_spec(1)
      board_reduced_reduced dest: normalize_ok split: if_splits)

lemma reconcileRoots_ok: "reconcileRoots b roots gone = Some b' \<Longrightarrow> board_reduced b'"
  by (auto simp: reconcileRoots_def bind_eq_Some_conv Let_def dest: normalize_ok)

lemma restore_ok: "restore b path where_to = Some b' \<Longrightarrow> board_reduced b'"
  by (cases where_to) (auto simp: restore_def Let_def dest: normalize_ok)

lemma apply_mutation_ok:
  assumes "apply_mutation m b = Some b'"
  shows "board_reduced b'"
proof (cases m)
  case (RemapPaths pairs auth)
  with assms show ?thesis by (simp add: remapPaths_ok)
next
  case (ReconcileRoots roots gone)
  with assms show ?thesis by (simp add: reconcileRoots_ok)
next
  case (Restore path where_to)
  with assms show ?thesis by (auto simp: bind_eq_Some_conv dest: restore_ok)
qed (insert assms, auto simp: bind_eq_Some_conv close_path_def mark_seen_def fold_child_def
  set_presentation_def Let_def dest: normalize_ok)

lemma apply_all_ok: "apply_all ms b = Some b' \<Longrightarrow> board_reduced b \<Longrightarrow> board_reduced b'"
  by (induction ms arbitrary: b) (auto simp: bind_eq_Some_conv dest: apply_mutation_ok)

lemma filter_zip_map: "map fst (filter (\<lambda>(x, y). P y) (zip xs (map f xs))) = filter (\<lambda>x. P (f x)) xs"
  by (induction xs) auto

lemma preserve_eq:
  assumes "board_reduced b"
  shows "preserveDurableHiddenSpellings previous b =
    Some (b\<lparr>prefs := (prefs b)\<lparr>hidden := uniq (filter (\<lambda>p. canonical (aliasesOf b) p \<in> set (hidden (prefs b)))
      (hidden (prefs previous)) @ hidden (prefs b))\<rparr>\<rparr>)"
proof -
  have flat: "flat (aliasesOf b)" using assms by (simp add: board_reduced_def board_normal_def)
  have "map (canonical (aliasesOf b)) (hidden (prefs b)) = hidden (prefs b)"
    using assms by (intro map_idI) (simp add: board_reduced_def)
  then show ?thesis
    by (simp add: preserveDurableHiddenSpellings_def resolve_all_flat [OF flat] Let_def filter_zip_map)
qed

lemma preserve_normal:
  assumes "board_reduced b" "preserveDurableHiddenSpellings previous b = Some b'"
  shows "board_normal b'" "aliasesOf b' = aliasesOf b" "manual (prefs b') = manual (prefs b)"
    "expanded (prefs b') = expanded (prefs b)" "explicits_of b' = explicits_of b" "stamps_of b' = stamps_of b"
    "canonical (aliasesOf b) ` set (hidden (prefs b')) = set (hidden (prefs b))"
    "set (hidden (prefs b)) \<subseteq> set (hidden (prefs b'))"
    "set (hidden (prefs b')) = {p \<in> set (hidden (prefs previous)). canonical (aliasesOf b) p \<in> set (hidden (prefs b))}
       \<union> set (hidden (prefs b))"
proof -
  from assms(2) have b': "b' = b\<lparr>prefs := (prefs b)\<lparr>hidden := uniq (filter (\<lambda>p. canonical (aliasesOf b) p \<in> set (hidden (prefs b)))
      (hidden (prefs previous)) @ hidden (prefs b))\<rparr>\<rparr>" by (simp add: preserve_eq [OF assms(1)])
  show same: "aliasesOf b' = aliasesOf b" "manual (prefs b') = manual (prefs b)"
    "expanded (prefs b') = expanded (prefs b)" "explicits_of b' = explicits_of b" "stamps_of b' = stamps_of b"
    by (simp_all add: b' aliasesOf_def explicits_of_def stamps_of_def)
  show hid: "set (hidden (prefs b')) = {p \<in> set (hidden (prefs previous)). canonical (aliasesOf b) p \<in> set (hidden (prefs b))}
       \<union> set (hidden (prefs b))" by (auto simp: b')
  have can: "\<forall>p \<in> set (hidden (prefs b)). canonical (aliasesOf b) p = p"
    using assms(1) by (simp add: board_reduced_def)
  show im: "canonical (aliasesOf b) ` set (hidden (prefs b')) = set (hidden (prefs b))"
    using can by (force simp: hid)
  show "set (hidden (prefs b)) \<subseteq> set (hidden (prefs b'))" by (auto simp: hid)
  have "canonical (aliasesOf b) ` set (hidden (prefs b)) = set (hidden (prefs b))" using can by force
  with assms(1) im show "board_normal b'"
    unfolding board_normal_def board_reduced_def same by (simp add: b')
qed

end
