(* ===== verification/Board_Keys.thy ===== *)
theory Board_Keys
  imports Board_Normal
begin

text \<open>
  The causal clocks of a board, \<open>src/lib/board/keys.ts\<close>: one key per independently written
  thing, the keys a write changed, and the stamping of their revisions with a floor that
  answers for the keys that were forgotten. \<open>locale_le\<close> is \<open>localeCompare\<close> as an order.
\<close>

section \<open>Keys\<close>

definition VIEW_MODE_KEY :: string where "VIEW_MODE_KEY = ''viewMode''"
definition DESKTOP_BOARD_KEY :: string where "DESKTOP_BOARD_KEY = ''desktopBoard''"
definition TASK_PANEL_KEY :: string where "TASK_PANEL_KEY = ''taskPanelOpen''"
definition IDLE_COLLAPSE_KEY :: string where "IDLE_COLLAPSE_KEY = ''idleCollapseMinutes''"
definition PATH_PREFIX :: string where "PATH_PREFIX = ''path:''"

definition pathKey :: "string \<Rightarrow> string" where "pathKey pathname = PATH_PREFIX @ pathname"
definition favoriteKey :: "string \<Rightarrow> string" where "favoriteKey i = ''favorite:'' @ i"
definition foldKey :: "string \<Rightarrow> string" where "foldKey i = ''fold:'' @ i"
definition trayKey :: "string \<Rightarrow> string" where "trayKey parent = ''tray:'' @ parent"

text \<open>Following aliases without an error: a cycle stops where it closes.\<close>

function through_from :: "(string, string) js_map \<Rightarrow> string list \<Rightarrow> string \<Rightarrow> string" where
  "through_from aliases seen resolved =
     (case js_get aliases resolved of
        None \<Rightarrow> resolved
      | Some target \<Rightarrow>
          if resolved \<in> set seen then resolved else through_from aliases (resolved # seen) target)"
  by pat_completeness auto

termination
proof (relation "measure (\<lambda>(aliases, seen, resolved). card (set (js_keys aliases) - set seen))", goal_cases)
  case 1
  show ?case by simp
next
  case (2 aliases seen resolved target)
  then have "resolved \<in> set (js_keys aliases)" by (metis js_get_None_iff option.distinct(1))
  with 2 have "set (js_keys aliases) - set (resolved # seen) \<subset> set (js_keys aliases) - set seen" by auto
  then have "card (set (js_keys aliases) - set (resolved # seen)) < card (set (js_keys aliases) - set seen)"
    by (intro psubset_card_mono) simp_all
  then show ?case by simp
qed

declare through_from.simps [simp del]

definition resolveThrough :: "string \<Rightarrow> (string, string) js_map \<Rightarrow> string" where
  "resolveThrough pathname aliases = through_from aliases [] pathname"

definition canonicalKey :: "string \<Rightarrow> (string, string) js_map \<Rightarrow> string" where
  "canonicalKey key aliases =
     (if take (length PATH_PREFIX) key = PATH_PREFIX
      then pathKey (resolveThrough (drop (length PATH_PREFIX) key) aliases) else key)"

section \<open>What a write changed\<close>

datatype board_role = Absent | ManualRole | Pinned | ExpandedRole | HiddenRole

fun ROLE_RANK :: "board_role \<Rightarrow> nat" where
  "ROLE_RANK Absent = 0"
| "ROLE_RANK ManualRole = 1"
| "ROLE_RANK Pinned = 2"
| "ROLE_RANK ExpandedRole = 3"
| "ROLE_RANK HiddenRole = 4"

definition put_role ::
  "(string, string) js_map \<Rightarrow> string \<times> board_role \<Rightarrow> (string, board_role) js_map \<Rightarrow> (string, board_role) js_map" where
  "put_role aliases entry placements =
     (let canon = resolveThrough (fst entry) aliases in
      case js_get placements canon of
        None \<Rightarrow> js_set canon (snd entry) placements
      | Some existing \<Rightarrow>
          if ROLE_RANK (snd entry) > ROLE_RANK existing then js_set canon (snd entry) placements
          else placements)"

definition board_roles :: "board_state \<Rightarrow> (string \<times> board_role) list" where
  "board_roles b =
     map (\<lambda>p. (p, HiddenRole)) (hidden (prefs b))
     @ map (\<lambda>p. (p, ExpandedRole)) (expanded (prefs b))
     @ map (\<lambda>p. (p, if p \<in> set (or_empty (explicitManual b)) then Pinned else ManualRole)) (manual (prefs b))"

definition canonicalPlacements ::
  "board_state \<Rightarrow> (string, string) js_map \<Rightarrow> (string, board_role) js_map" where
  "canonicalPlacements b aliases = fold (put_role aliases) (board_roles b) []"

definition symmetricDifference :: "string list option \<Rightarrow> string list option \<Rightarrow> string list" where
  "symmetricDifference old new =
     filter (\<lambda>item. (item \<in> set (or_empty old)) \<noteq> (item \<in> set (or_empty new)))
       (uniq (or_empty old @ or_empty new))"

definition role_of :: "(string, board_role) js_map \<Rightarrow> string \<Rightarrow> board_role" where
  "role_of placements canon = (case js_get placements canon of None \<Rightarrow> Absent | Some r \<Rightarrow> r)"

definition idle_minutes :: "board_state \<Rightarrow> int option" where
  "idle_minutes b = (case idleCollapseMinutes (prefs b) of
      None \<Rightarrow> Some DEFAULT_BOARD_IDLE_COLLAPSE_MINUTES | Some minutes \<Rightarrow> minutes)"

definition or_null :: "'a option option \<Rightarrow> 'a option" where
  "or_null x = (case x of None \<Rightarrow> None | Some y \<Rightarrow> y)"

definition boardKeysChanged :: "board_state \<Rightarrow> board_state \<Rightarrow> string list" where
  "boardKeysChanged old new =
     (let aliases = aliasesOf new;
          was = canonicalPlacements old aliases;
          is_now = canonicalPlacements new aliases
      in uniq (
        map pathKey (filter (\<lambda>c. role_of was c \<noteq> role_of is_now c) (uniq (js_keys was @ js_keys is_now)))
        @ map favoriteKey (symmetricDifference (favorites (prefs old)) (favorites (prefs new)))
        @ map foldKey (symmetricDifference (foldedEngineChildIds (prefs old)) (foldedEngineChildIds (prefs new)))
        @ map trayKey (symmetricDifference (expandedEngineTrayParentIds (prefs old)) (expandedEngineTrayParentIds (prefs new)))
        @ (if viewMode (prefs old) \<noteq> viewMode (prefs new) then [VIEW_MODE_KEY] else [])
        @ (if or_null (desktopBoard (prefs old)) \<noteq> or_null (desktopBoard (prefs new)) then [DESKTOP_BOARD_KEY] else [])
        @ (if taskPanelOpen (prefs old) \<noteq> taskPanelOpen (prefs new) then [TASK_PANEL_KEY] else [])
        @ (if idle_minutes old \<noteq> idle_minutes new then [IDLE_COLLAPSE_KEY] else [])))"

fun mutationKeys :: "(string, string) js_map \<Rightarrow> board_mutation \<Rightarrow> string list" where
  "mutationKeys aliases (Close path) = [pathKey (resolveThrough path aliases)]"
| "mutationKeys aliases (Restore path where_to) = [pathKey (resolveThrough path aliases)]"
| "mutationKeys aliases (ReconcileRoots roots removeManual) =
     map (\<lambda>p. pathKey (resolveThrough p aliases)) (roots @ removeManual)"
| "mutationKeys aliases (RemapPaths pairs authoritative) =
     concat (map (\<lambda>(f, t). [pathKey (resolveThrough f aliases), pathKey (resolveThrough t aliases)]) pairs)"
| "mutationKeys aliases (SetFavorite i favorite) = [favoriteKey i]"
| "mutationKeys aliases (SetEngineChildFold i path folded) = [foldKey i, pathKey (resolveThrough path aliases)]"
| "mutationKeys aliases (SetEngineTrayExpanded parent open_tray) = [trayKey parent]"
| "mutationKeys aliases (MarkSeen i seen) = []"
| "mutationKeys aliases (SetPresentation mode desktop panel idle) =
     (if mode = None then [] else [VIEW_MODE_KEY]) @ (if desktop = None then [] else [DESKTOP_BOARD_KEY])
     @ (if panel = None then [] else [TASK_PANEL_KEY]) @ (if idle = None then [] else [IDLE_COLLAPSE_KEY])"

section \<open>Clocks\<close>

definition MAX_RETIRED_KEY_REVISIONS :: nat where "MAX_RETIRED_KEY_REVISIONS = 512"

definition liveBoardKeys :: "board_state \<Rightarrow> string list" where
  "liveBoardKeys b = uniq ([VIEW_MODE_KEY, TASK_PANEL_KEY, IDLE_COLLAPSE_KEY]
     @ map pathKey (js_keys (canonicalPlacements b (aliasesOf b)))
     @ map favoriteKey (or_empty (favorites (prefs b)))
     @ map foldKey (or_empty (foldedEngineChildIds (prefs b)))
     @ map trayKey (or_empty (expandedEngineTrayParentIds (prefs b))))"

type_synonym key_clocks = "(string, int) js_map"

text \<open>\<open>canonical[name] = Math.max(canonical[name] ?? 0, at)\<close> for every entry of a map.\<close>

definition merge_clock :: "(string, string) js_map \<Rightarrow> string \<times> int \<Rightarrow> key_clocks \<Rightarrow> key_clocks" where
  "merge_clock aliases entry clocks =
     (let name = canonicalKey (fst entry) aliases in
      js_set name (max (case js_get clocks name of None \<Rightarrow> 0 | Some v \<Rightarrow> v) (snd entry)) clocks)"

definition canonicalizeKeyRevisions :: "key_clocks \<Rightarrow> (string, string) js_map \<Rightarrow> key_clocks" where
  "canonicalizeKeyRevisions revisions aliases = fold (merge_clock aliases) revisions []"

definition keyRevisionAt :: "board_state \<Rightarrow> string \<Rightarrow> int" where
  "keyRevisionAt b key =
     (case js_get (or_empty (keyRevisions b)) (canonicalKey key (aliasesOf b)) of
        Some v \<Rightarrow> v
      | None \<Rightarrow> (case keyRevisionFloor b of None \<Rightarrow> 0 | Some f \<Rightarrow> f))"

record causal_history =
  past_revisions :: "key_clocks option"
  past_floor :: "int option"

definition or_zero :: "int option \<Rightarrow> int" where
  "or_zero x = (case x of None \<Rightarrow> 0 | Some v \<Rightarrow> v)"

definition merged_clocks ::
  "board_state \<Rightarrow> board_state \<Rightarrow> int \<Rightarrow> causal_history list \<Rightarrow> key_clocks" where
  "merged_clocks old new rev_no inherited =
     (let carried = fold (merge_clock (aliasesOf new))
            (concat (map or_empty (keyRevisions old # map past_revisions inherited))) []
      in fold (\<lambda>key m. js_set key rev_no m) (boardKeysChanged old new) carried)"

definition retired_order :: "(string \<Rightarrow> string \<Rightarrow> bool) \<Rightarrow> string \<times> int \<Rightarrow> string \<times> int \<Rightarrow> bool" where
  "retired_order locale_le left right =
     (if snd right \<noteq> snd left then snd right < snd left else locale_le (fst left) (fst right))"

definition stampKeyRevisions ::
  "(string \<Rightarrow> string \<Rightarrow> bool) \<Rightarrow> board_state \<Rightarrow> board_state \<Rightarrow> int \<Rightarrow> causal_history list \<Rightarrow> key_clocks \<times> int" where
  "stampKeyRevisions locale_le old new rev_no inherited =
     (let merged = merged_clocks old new rev_no inherited;
          live = liveBoardKeys new;
          kept = filter (\<lambda>e. fst e \<in> set live) merged;
          retired = js_sort (retired_order locale_le) (filter (\<lambda>e. fst e \<notin> set live) merged);
          base = foldl max (or_zero (keyRevisionFloor old)) (map (or_zero \<circ> past_floor) inherited);
          held = fold (\<lambda>(key, v) m. js_set key v m) (take MAX_RETIRED_KEY_REVISIONS retired) kept;
          key_floor = foldl max base (map snd (drop MAX_RETIRED_KEY_REVISIONS retired))
      in (filter (\<lambda>(key, v). key \<in> set live \<or> \<not> v \<le> key_floor) held, key_floor))"

text \<open>The board with the clocks a write gives it.\<close>

definition stamped ::
  "(string \<Rightarrow> string \<Rightarrow> bool) \<Rightarrow> board_state \<Rightarrow> board_state \<Rightarrow> int \<Rightarrow> causal_history list \<Rightarrow> board_state" where
  "stamped locale_le old new rev_no inherited =
     (let (clocks, key_floor) = stampKeyRevisions locale_le old new rev_no inherited
      in new\<lparr>keyRevisions := Some clocks, keyRevisionFloor := Some key_floor\<rparr>)"

section \<open>Clocks never run backward\<close>

lemma resolveThrough_flat: "flat m \<Longrightarrow> resolveThrough p m = canonical m p"
  by (auto simp: resolveThrough_def through_from.simps [of m] flat_def canonical_def split: option.splits)

lemma canonicalKey_path: "canonicalKey (pathKey p) m = pathKey (resolveThrough p m)"
  by (simp add: canonicalKey_def pathKey_def PATH_PREFIX_def)

lemma canonicalKey_other:
  "canonicalKey (favoriteKey i) m = favoriteKey i" "canonicalKey (foldKey i) m = foldKey i"
  "canonicalKey (trayKey i) m = trayKey i" "canonicalKey VIEW_MODE_KEY m = VIEW_MODE_KEY"
  "canonicalKey DESKTOP_BOARD_KEY m = DESKTOP_BOARD_KEY" "canonicalKey TASK_PANEL_KEY m = TASK_PANEL_KEY"
  "canonicalKey IDLE_COLLAPSE_KEY m = IDLE_COLLAPSE_KEY"
  by (simp_all add: canonicalKey_def PATH_PREFIX_def favoriteKey_def foldKey_def trayKey_def
      VIEW_MODE_KEY_def DESKTOP_BOARD_KEY_def TASK_PANEL_KEY_def IDLE_COLLAPSE_KEY_def)

definition clock :: "key_clocks \<Rightarrow> string \<Rightarrow> int" where
  "clock m key = or_zero (js_get m key)"

lemma merge_clock_get:
  "js_get (merge_clock a e m) key =
     (if key = canonicalKey (fst e) a then Some (max (clock m key) (snd e)) else js_get m key)"
  by (simp add: merge_clock_def Let_def clock_def or_zero_def)

lemma merge_clocks_grow:
  "js_get m key = Some v \<Longrightarrow> \<exists>w. js_get (fold (merge_clock a) es m) key = Some w \<and> v \<le> w"
proof (induction es arbitrary: m v)
  case (Cons e es)
  have "\<exists>u. js_get (merge_clock a e m) key = Some u \<and> v \<le> u"
    using Cons.prems by (auto simp: merge_clock_get clock_def or_zero_def)
  then obtain u where u: "js_get (merge_clock a e m) key = Some u" "v \<le> u" by blast
  from Cons.IH [OF u(1)] u(2) show ?case by auto
qed simp

lemma merge_clocks_entry:
  "(key, v) \<in> set es \<Longrightarrow> \<exists>w. js_get (fold (merge_clock a) es m) (canonicalKey key a) = Some w \<and> v \<le> w"
proof (induction es arbitrary: m)
  case (Cons e es)
  show ?case
  proof (cases "e = (key, v)")
    case True
    then have "js_get (merge_clock a e m) (canonicalKey key a) = Some (max (clock m (canonicalKey key a)) v)"
      by (simp add: merge_clock_get)
    from merge_clocks_grow [OF this, of a es] show ?thesis by auto
  next
    case False
    with Cons show ?thesis by auto
  qed
qed simp

lemma merge_clocks_bound:
  "(\<And>k v. js_get m k = Some v \<Longrightarrow> v \<le> n) \<Longrightarrow> 0 \<le> n \<Longrightarrow> (\<And>k v. (k, v) \<in> set es \<Longrightarrow> v \<le> n) \<Longrightarrow>
     js_get (fold (merge_clock a) es m) key = Some w \<Longrightarrow> w \<le> n"
proof (induction es arbitrary: m)
  case (Cons e es)
  show ?case
  proof (rule Cons.IH [of "merge_clock a e m"])
    show "v \<le> n" if "js_get (merge_clock a e m) k = Some v" for k v
      using that Cons.prems(1,2) Cons.prems(3) [of "fst e" "snd e"]
      by (auto simp: merge_clock_get clock_def or_zero_def split: if_splits option.splits)
    show "js_get (fold (merge_clock a) es (merge_clock a e m)) key = Some w" using Cons.prems(4) by simp
  qed (use Cons.prems in auto)
qed simp

lemma stamp_keys_get:
  "js_get (fold (\<lambda>key m. js_set key n m) ks m) k = (if k \<in> set ks then Some n else js_get m k)"
  by (induction ks arbitrary: m) auto

lemma js_wf_stamp_keys: "js_wf m \<Longrightarrow> js_wf (fold (\<lambda>key m. js_set key n m) ks m)"
  by (induction ks arbitrary: m) auto

lemma js_wf_merge: "js_wf m \<Longrightarrow> js_wf (fold (merge_clock a) es m)"
  by (induction es arbitrary: m) (auto simp: merge_clock_def Let_def)

lemma merged_wf: "js_wf (merged_clocks old new n inh)"
  by (simp add: merged_clocks_def Let_def js_wf_stamp_keys js_wf_merge)

lemma foldl_max_ge: "(b::int) \<le> foldl max b xs" "x \<in> set xs \<Longrightarrow> x \<le> foldl max b xs"
proof (induction xs arbitrary: b)
  case (Cons y ys)
  { case 1 show ?case using Cons.IH(1) [of "max b y"] by simp }
  { case 2 then show ?case using Cons.IH [of "max b y"] by auto }
qed simp_all

text \<open>What the compaction keeps: an entry of the merged clocks, or a floor at least as high.\<close>

lemma stamp_spec:
  assumes s: "stampKeyRevisions locale_le old new n inh = (clocks, fl)"
  shows "js_get (merged_clocks old new n inh) k = Some v \<Longrightarrow>
      js_get clocks k = Some v \<or> js_get clocks k = None \<and> v \<le> fl"
    and "js_get (merged_clocks old new n inh) k = None \<Longrightarrow> js_get clocks k = None"
    and "or_zero (keyRevisionFloor old) \<le> fl"
    and "length clocks \<le> length (filter (\<lambda>e. fst e \<in> set (liveBoardKeys new)) (merged_clocks old new n inh))
           + MAX_RETIRED_KEY_REVISIONS"
proof -
  let ?m = "merged_clocks old new n inh" and ?live = "set (liveBoardKeys new)"
  define kept where "kept = filter (\<lambda>e. fst e \<in> ?live) ?m"
  define retired where "retired = js_sort (retired_order locale_le) (filter (\<lambda>e. fst e \<notin> ?live) ?m)"
  define N where "N = MAX_RETIRED_KEY_REVISIONS"
  define base where "base = foldl max (or_zero (keyRevisionFloor old)) (map (or_zero \<circ> past_floor) inh)"
  have wf: "distinct (map fst ?m)" using merged_wf [of old new n inh] by (simp add: js_wf_def js_keys_def)
  have ks: "set retired = {e \<in> set ?m. fst e \<notin> ?live}" "set kept = {e \<in> set ?m. fst e \<in> ?live}"
    by (auto simp: retired_def kept_def)
  have dk: "distinct (map fst kept)" using wf by (simp add: kept_def distinct_map_filter)
  have "mset (map fst retired) = mset (map fst (filter (\<lambda>e. fst e \<notin> ?live) ?m))"
    by (simp add: retired_def)
  then have dr: "distinct (map fst retired)"
    using wf mset_eq_imp_distinct_iff by (metis distinct_map_filter)
  have dt: "distinct (map fst (take N retired))" using dr by (simp add: take_map [symmetric])
  have fresh: "set (map fst (take N retired)) \<inter> set (js_keys kept) = {}"
    using ks by (auto simp: js_keys_def dest!: in_set_takeD)
  have held: "fold (\<lambda>(key, v) m. js_set key v m) (take N retired) kept = kept @ take N retired"
    by (rule js_fold_fresh [OF dt fresh])
  have fl: "fl = foldl max base (map snd (drop N retired))"
    using s unfolding stampKeyRevisions_def Let_def
    by (simp add: kept_def [symmetric] retired_def [symmetric] N_def [symmetric] base_def [symmetric])
  have clocks: "clocks = filter (\<lambda>(key, v). key \<in> ?live \<or> \<not> v \<le> fl) (kept @ take N retired)"
    using s held unfolding stampKeyRevisions_def Let_def fl
    by (simp add: kept_def [symmetric] retired_def [symmetric] N_def [symmetric] base_def [symmetric])
  have dh: "distinct (map fst (kept @ take N retired))"
    using dk dt fresh by (auto simp: js_keys_def)
  then have dc: "distinct (map fst clocks)" unfolding clocks by (rule distinct_map_filter)
  have sub: "set clocks \<subseteq> set ?m" using ks by (auto simp: clocks dest!: in_set_takeD)
  have get: "js_get clocks k = Some v \<longleftrightarrow> (k, v) \<in> set clocks" for k v
    using dc by (simp add: js_get_def)
  { assume "js_get ?m k = Some v"
    then have m: "(k, v) \<in> set ?m" by (simp add: js_get_def map_of_SomeD)
    show "js_get clocks k = Some v \<or> js_get clocks k = None \<and> v \<le> fl"
    proof (cases "(k, v) \<in> set clocks")
      case True
      then show ?thesis by (simp add: get)
    next
      case False
      have none: "js_get clocks k = None"
      proof (cases "js_get clocks k")
        case (Some w)
        then have "(k, w) \<in> set clocks" by (simp add: get)
        with sub m wf have "w = v" by (blast dest: map_key_unique)
        with Some False show ?thesis by (simp add: get)
      qed simp
      have "v \<le> fl"
      proof (cases "(k, v) \<in> set kept \<or> (k, v) \<in> set (take N retired)")
        case True
        with False show ?thesis by (auto simp: clocks)
      next
        case other: False
        with m ks have "(k, v) \<in> set retired" by auto
        then have "(k, v) \<in> set (take N retired) \<union> set (drop N retired)" by (metis append_take_drop_id set_append)
        with other have "(k, v) \<in> set (drop N retired)" by blast
        then have "v \<in> set (map snd (drop N retired))" by force
        then show ?thesis unfolding fl by (rule foldl_max_ge(2))
      qed
      with none show ?thesis by blast
    qed }
  show "js_get clocks k = None" if "js_get ?m k = None"
  proof -
    from that have "k \<notin> fst ` set ?m" by (simp add: js_get_def map_of_eq_None_iff)
    with sub show ?thesis by (auto simp: js_get_def map_of_eq_None_iff)
  qed
  have "or_zero (keyRevisionFloor old) \<le> base" unfolding base_def by (rule foldl_max_ge(1))
  also have "base \<le> fl" unfolding fl by (rule foldl_max_ge(1))
  finally show "or_zero (keyRevisionFloor old) \<le> fl" .
  have "length clocks \<le> length kept + min (length retired) N"
    unfolding clocks by (rule le_trans [OF length_filter_le]) simp
  then show "length clocks \<le> length (filter (\<lambda>e. fst e \<in> ?live) ?m) + MAX_RETIRED_KEY_REVISIONS"
    by (simp add: kept_def N_def)
qed

text \<open>Every clock a write could carry: its own board's and the inherited ones.\<close>

definition recorded :: "board_state \<Rightarrow> causal_history list \<Rightarrow> (string \<times> int) list" where
  "recorded old inh = concat (map or_empty (keyRevisions old # map past_revisions inh))"

lemma merged_get:
  "js_get (merged_clocks old new n inh) k =
     (if k \<in> set (boardKeysChanged old new) then Some n
      else js_get (fold (merge_clock (aliasesOf new)) (recorded old inh) []) k)"
  by (simp add: merged_clocks_def Let_def stamp_keys_get recorded_def)

lemma stamped_reads:
  assumes "stampKeyRevisions locale_le old new n inh = (clocks, fl)"
  shows "keyRevisionAt (stamped locale_le old new n inh) key
    = (case js_get clocks (canonicalKey key (aliasesOf new)) of Some v \<Rightarrow> v | None \<Rightarrow> fl)"
  by (simp add: keyRevisionAt_def stamped_def assms aliasesOf_def split: option.split)

lemma stamped_at_least:
  assumes "js_get (merged_clocks old new n inh) (canonicalKey key (aliasesOf new)) = Some v"
  shows "v \<le> keyRevisionAt (stamped locale_le old new n inh) key"
proof -
  obtain clocks fl where s: "stampKeyRevisions locale_le old new n inh = (clocks, fl)" by force
  from stamp_spec(1) [OF s assms] show ?thesis by (auto simp: stamped_reads [OF s])
qed

lemma changed_canonical:
  assumes "flat (aliasesOf new)" "key \<in> set (boardKeysChanged old new)"
  shows "canonicalKey key (aliasesOf new) = key"
proof -
  have keys: "resolveThrough c (aliasesOf new) = c" if "c \<in> set (js_keys (canonicalPlacements b (aliasesOf new)))" for b c
  proof -
    have "set (js_keys (fold (put_role (aliasesOf new)) es m)) \<subseteq> set (js_keys m) \<union> range (\<lambda>p. resolveThrough p (aliasesOf new))"
      for es :: "(string \<times> board_role) list" and m
    proof (induction es arbitrary: m)
      case (Cons e es)
      have "set (js_keys (put_role (aliasesOf new) e m)) \<subseteq> set (js_keys m) \<union> range (\<lambda>p. resolveThrough p (aliasesOf new))"
        by (auto simp: put_role_def Let_def js_keys_set split: option.splits)
      with Cons [of "put_role (aliasesOf new) e m"] show ?case by auto
    qed simp
    with that have "c \<in> range (\<lambda>p. resolveThrough p (aliasesOf new))"
      by (fastforce simp: canonicalPlacements_def)
    then show ?thesis using assms(1) by (auto simp: resolveThrough_flat)
  qed
  from assms(2) show ?thesis
    by (auto simp: boardKeysChanged_def Let_def canonicalKey_path canonicalKey_other keys split: if_splits)
qed

end
