(* ===== verification/Board_Properties.thy ===== *)
theory Board_Properties
  imports Board_Keys
begin

text \<open>
  The properties of the board's reducer and of its causal clocks, with concrete boards that
  meet their hypotheses, and two runs that show where the code departs from its comments.
\<close>

section \<open>Running mutations\<close>

lemma apply_all_append: "apply_all (ms @ ms') b = apply_all ms b \<bind> apply_all ms'"
proof (induction ms arbitrary: b)
  case (Cons m ms)
  then show ?case by (cases "apply_mutation m b") auto
qed simp

lemma applyBoardMutations_Some:
  assumes "applyBoardMutations b ms = Some b'"
  obtains start r where "normalize b = Some start" "board_reduced start" "apply_all ms start = Some r"
    "board_reduced r" "preserveDurableHiddenSpellings b r = Some b'"
  using assms by (auto simp: applyBoardMutations_def bind_eq_Some_conv dest: normalize_ok apply_all_ok)

lemma board_reduced_flat: "board_reduced b \<Longrightarrow> flat (aliasesOf b)"
  by (simp add: board_reduced_def board_normal_def)

text \<open>A reduced board normalizes to one that resolves every path as it did.\<close>

lemma normalize_like:
  assumes "flat (aliasesOf s)" "aliasesOf b = aliasesOf s" "normalize b = Some r"
  obtains c where "r = reduced b c" "flat c" "canonical c = canonical (aliasesOf s)"
proof -
  obtain c where "normalize b = Some (reduced b c)" "flat c" "\<And>p. canonical c p = canonical (aliasesOf b) p"
    using assms(1,2) by (metis normalize_flat)
  with assms show thesis by (intro that [of c]) auto
qed

fun is_remap :: "board_mutation \<Rightarrow> bool" where
  "is_remap (RemapPaths pairs auth) = True"
| "is_remap _ = False"

fun is_restore :: "board_mutation \<Rightarrow> bool" where
  "is_restore (Restore p w) = True"
| "is_restore _ = False"

fun remap_sources :: "board_mutation \<Rightarrow> string list" where
  "remap_sources (RemapPaths pairs auth) = map fst pairs"
| "remap_sources _ = []"

lemma normalize_some: "flat (aliasesOf b) \<Longrightarrow> \<exists>r. normalize b = Some r"
  by (metis normalize_flat)

lemma apply_total:
  assumes "flat (aliasesOf b)" "\<not> is_remap m"
  shows "\<exists>r. apply_mutation m b = Some r"
proof (cases m)
  case (RemapPaths pairs auth)
  with assms show ?thesis by simp
next
  case (ReconcileRoots roots gone)
  with assms show ?thesis
    by (simp add: reconcileRoots_def resolve_all_flat Let_def) (rule normalize_some, simp)
next
  case (Restore p w)
  with assms show ?thesis
    by (cases w) (simp_all add: resolvePath_flat restore_def Let_def normalize_some)
qed (use assms in \<open>simp_all add: resolvePath_flat close_path_def mark_seen_def fold_child_def
  set_presentation_def Let_def normalize_some\<close>)

lemma apply_all_total:
  "board_reduced b \<Longrightarrow> \<forall>m \<in> set ms. \<not> is_remap m \<Longrightarrow> \<exists>r. apply_all ms b = Some r"
proof (induction ms arbitrary: b)
  case (Cons m ms)
  then obtain b' where b': "apply_mutation m b = Some b'"
    using apply_total [OF board_reduced_flat] by fastforce
  from Cons.IH [OF apply_mutation_ok [OF b']] Cons.prems(2) b' show ?case by simp
qed simp

section \<open>Properties of the reducer\<close>

definition demo_board :: board_state where
  "demo_board =
     \<lparr>board_revision = 3, board_updatedAt = ''2026'', pathAliases = Some [(''old'', ''a'')],
      explicitManual = Some [''a''], keyRevisions = Some [(''path:a'', 2), (''path:b'', 1)],
      keyRevisionFloor = Some 0,
      prefs = \<lparr>manual = [''old'', ''b''], hidden = [''h''], expanded = [], favorites = None,
        foldedEngineChildIds = None, expandedEngineTrayParentIds = None, seenAt = Some [(''x'', 5)],
        idleCollapseMinutes = None, viewMode = None, desktopBoard = None, taskPanelOpen = False\<rparr>\<rparr>"

lemma demo_board_reduces:
  "map_option (\<lambda>b. (manual (prefs b), hidden (prefs b))) (applyBoardMutations demo_board [Close ''old''])
     = Some ([''b''], [''h'', ''a''])"
  by code_simp

lemma demo_board_flat: "flat (aliasesOf demo_board)"
  by (auto simp: flat_def aliasesOf_def demo_board_def js_get_def)

text \<open>C11. Whatever mutations run, a board that comes out has flat aliases, canonical placements,
  no placed path whose class is hidden (so no path is both shown and archived), pins only among the
  hand-placed paths, no duplicate in any list, and at most MAX_SEEN_STAMPS acknowledgements.\<close>

theorem board_reduction_normal:
  assumes "applyBoardMutations b ms = Some b'"
  shows "board_normal b'"
  using assms by (elim applyBoardMutations_Some) (rule preserve_normal(1))

theorem board_reduction_normal_witness:
  "\<exists>b'. applyBoardMutations demo_board [Close ''old''] = Some b' \<and> board_normal b'"
proof -
  obtain b' where "applyBoardMutations demo_board [Close ''old''] = Some b'"
    using demo_board_reduces by (cases "applyBoardMutations demo_board [Close ''old'']") auto
  with board_reduction_normal show ?thesis by blast
qed

text \<open>C13. The reducer throws only over a cycle of aliases: on a board whose own aliases resolve,
  no mutation other than a remap can make it throw.\<close>

theorem board_reduction_total:
  assumes "normalizedAliases (aliasesOf b) \<noteq> None" "\<forall>m \<in> set ms. \<not> is_remap m"
  shows "applyBoardMutations b ms \<noteq> None"
proof -
  from assms(1) obtain start where n: "normalize b = Some start"
    by (auto simp: normalize_def normalize_with_eq)
  from apply_all_total [OF normalize_ok [OF n] assms(2)] obtain r where r: "apply_all ms start = Some r" by blast
  from preserve_eq [OF apply_all_ok [OF r normalize_ok [OF n]]] n r show ?thesis
    by (simp add: applyBoardMutations_def)
qed

theorem board_reduction_total_witness:
  "applyBoardMutations demo_board [Close ''old'', ReconcileRoots [''r''] [''b''], MarkSeen ''x'' 9] \<noteq> None"
  by (rule board_reduction_total) (use normalizedAliases_flat [OF demo_board_flat] in auto)

lemma hidden_class_kept:
  assumes s: "board_reduced s" and h: "h \<in> set (hidden (prefs s))" "canonical (aliasesOf s) p = h"
    and m: "apply_mutation m s = Some r" "\<not> is_restore m" "\<forall>f \<in> set (remap_sources m). js_get (aliasesOf s) f = None"
  shows "canonical (aliasesOf r) p \<in> set (hidden (prefs r))"
proof -
  note flat = board_reduced_flat [OF s]
  have plain: "canonical (aliasesOf r) p \<in> set (hidden (prefs r))"
    if n: "normalize b = Some r" "aliasesOf b = aliasesOf s" "set (hidden (prefs s)) \<subseteq> set (hidden (prefs b))" for b
  proof -
    obtain c where c: "r = reduced b c" "flat c" "canonical c = canonical (aliasesOf s)"
      using normalize_like [OF flat n(2,1)] .
    have "canonical c p = canonical c h" using h(2) c(3) flat by auto
    with h(1) n(3) show ?thesis by (auto simp: c(1) reduced_simps)
  qed
  show ?thesis
  proof (cases m)
    case (RemapPaths pairs auth)
    note remap = m(1) [unfolded RemapPaths apply_mutation.simps remapPaths_def Let_def bind_eq_Some_conv resolve_all_flat [OF flat]]
    show ?thesis
    proof (cases "map fst (filter (\<lambda>(pair, f, t). f \<noteq> t) (zip pairs (zip (map (canonical (aliasesOf s)) (map fst pairs))
        (map (canonical (aliasesOf s)) (map snd pairs))))) = []")
      case True
      with remap show ?thesis by (auto intro!: plain)
    next
      case False
      define active where "active = map fst (filter (\<lambda>(pair, f, t). f \<noteq> t) (zip pairs (zip (map (canonical (aliasesOf s)) (map fst pairs))
        (map (canonical (aliasesOf s)) (map snd pairs)))))"
      define al where "al = fold (\<lambda>(f, t) m. js_set f t m) active (aliasesOf s)"
      from remap False obtain b c where r: "normalizedAliases al = Some c" "r = reduced b c"
          and hb: "hidden (prefs b) = hidden (prefs s)"
        by (auto simp: normalize_with_eq al_def active_def)
      note al' = normalizedAliases_spec [OF r(1)]
      have "set active \<subseteq> set pairs" by (auto simp: active_def dest: set_zip_leftD)
      then have src: "fst ` set active \<subseteq> set (remap_sources m)" using RemapPaths by auto
      have get: "js_get al q = js_get (aliasesOf s) q" if "q \<notin> fst ` set active" for q
        using that unfolding al_def by (induction active rule: rev_induct) auto
      have "canonical c p = canonical c h"
      proof (cases "js_get (aliasesOf s) p")
        case None
        with h(2) show ?thesis by simp
      next
        case (Some t)
        then have t: "t = h" using h(2) by (simp add: canonical_def)
        from Some m(3) src have "p \<notin> fst ` set active" by auto
        from get [OF this] Some t have "js_get al p = Some h" by simp
        then have "leads al p (canonical c h)"
          using resolvePath_leads [OF al'(2)] by (rule leads.goes_on)
        then show ?thesis by (rule leads_unique [OF resolvePath_leads [OF al'(2)]])
      qed
      with h(1) show ?thesis by (auto simp: r(2) reduced_simps hb)
    qed
  next
    case (Restore q w)
    with m(2) show ?thesis by simp
  qed (use m(1) flat in \<open>auto simp: resolvePath_flat reconcileRoots_def resolve_all_flat Let_def
    close_path_def mark_seen_def fold_child_def set_presentation_def intro!: plain\<close>)
qed

text \<open>C12. An archived path stays archived: no mutation but a restore takes a path off the hidden
  list, whatever spelling of the conversation the list holds; for a remap this asks that it
  renames paths that are not aliases already.\<close>

theorem board_archive_survives:
  assumes "applyBoardMutations b [m] = Some b'" "\<not> is_restore m"
    and "\<forall>f \<in> set (remap_sources m). resolvePath f (aliasesOf b) = Some f"
    and "p \<in> set (hidden (prefs b))"
  shows "p \<in> set (hidden (prefs b'))"
proof -
  obtain s r where n: "normalize b = Some s" "board_reduced s" and r: "apply_mutation m s = Some r"
      "board_reduced r" and p: "preserveDurableHiddenSpellings b r = Some b'"
    using assms(1) by (elim applyBoardMutations_Some) (auto simp: bind_eq_Some_conv)
  from n(1) obtain c where c: "normalizedAliases (aliasesOf b) = Some c" "flat c" "s = reduced b c"
    by (rule normalize_reduced)
  have "js_get c f = None" if "f \<in> set (remap_sources m)" for f
    using assms(3) that normalizedAliases_spec(2) [OF c(1), of f] canonical_end [OF c(2), of f] by auto
  moreover have "canonical (aliasesOf s) p \<in> set (hidden (prefs s))"
    using assms(4) by (simp add: c(3) reduced_simps)
  ultimately have "canonical (aliasesOf r) p \<in> set (hidden (prefs r))"
    using hidden_class_kept [OF n(2) _ refl r(1) assms(2)] by (simp add: c(3) reduced_simps)
  with preserve_normal(9) [OF r(2) p] assms(4) show ?thesis by blast
qed

theorem board_archive_survives_witness:
  "\<exists>b'. applyBoardMutations demo_board [RemapPaths [(''h'', ''h2'')] False] = Some b'
     \<and> set (hidden (prefs b')) = {''h'', ''h2''}"
proof -
  have e: "map_option (\<lambda>b. hidden (prefs b)) (applyBoardMutations demo_board [RemapPaths [(''h'', ''h2'')] False])
      = Some [''h'', ''h2'']" by code_simp
  then obtain b' where b': "applyBoardMutations demo_board [RemapPaths [(''h'', ''h2'')] False] = Some b'"
      "hidden (prefs b') = [''h'', ''h2'']"
    by (cases "applyBoardMutations demo_board [RemapPaths [(''h'', ''h2'')] False]") auto
  have "''h'' \<in> set (hidden (prefs b'))"
    by (rule board_archive_survives [OF b'(1)]) (simp_all add: demo_board_def aliasesOf_def js_get_def)
  with b' show ?thesis by auto
qed

text \<open>Closing a conversation under any of its names archives its canonical path and takes it off
  the placed, pinned and expanded lists, and leaves every other placement as it was.\<close>

theorem board_close:
  assumes "applyBoardMutations b ms = Some x" "applyBoardMutations b (ms @ [Close p]) = Some y"
  shows "\<exists>q. resolvePath p (aliasesOf y) = Some q \<and> q \<in> set (hidden (prefs y))
    \<and> set (manual (prefs y)) = set (manual (prefs x)) - {q}
    \<and> set (expanded (prefs y)) = set (expanded (prefs x)) - {q}
    \<and> set (explicits_of y) = set (explicits_of x) - {q}"
proof -
  obtain st s where n: "normalize b = Some st" and s: "apply_all ms st = Some s" "board_reduced s"
      and x: "preserveDurableHiddenSpellings b s = Some x"
    using assms(1) by (elim applyBoardMutations_Some) blast
  let ?q = "canonical (aliasesOf s) p"
  note flat = board_reduced_flat [OF s(2)]
  from assms(2) n s(1) obtain r where r: "close_path s ?q = Some r" and y: "preserveDurableHiddenSpellings b r = Some y"
    by (auto simp: applyBoardMutations_def apply_all_append resolvePath_flat [OF flat] bind_eq_Some_conv)
  have rok: "board_reduced r" using r by (auto simp: close_path_def dest: normalize_ok)
  obtain c where c: "flat c" "canonical c = canonical (aliasesOf s)"
      and rc: "r = reduced (s\<lparr>explicitManual := Some (without ?q (explicits_of s)),
       prefs := (prefs s)\<lparr>manual := without ?q (manual (prefs s)), expanded := without ?q (expanded (prefs s)),
         hidden := uniq (hidden (prefs s) @ [?q])\<rparr>\<rparr>) c"
    using normalize_like [OF flat _ r [unfolded close_path_def]] by (auto simp: explicits_of_def)
  have norm: "board_normal s" "\<forall>h \<in> set (hidden (prefs s)). canonical c h = h"
    using s(2) by (simp_all add: board_reduced_def c(2))
  have can: "canonical c q = q" "q \<notin> set (hidden (prefs s))"
    if "q \<in> set (manual (prefs s)) \<union> set (expanded (prefs s))" for q
    using that norm by (auto simp: board_normal_def c(2) image_iff)
  have pins: "set (explicits_of s) \<subseteq> set (manual (prefs s))" using norm by (simp add: board_normal_def)
  have hid: "canonical c ` set (hidden (prefs s) @ [?q]) = insert ?q (set (hidden (prefs s)))"
    using norm(2) flat by (force simp: c(2))
  have shown: "canonical c ` set (without ?q qs) - insert ?q (set (hidden (prefs s))) = set qs - {?q}"
    if "set qs \<subseteq> set (manual (prefs s)) \<union> set (expanded (prefs s))" for qs
    using that can by (force simp: without_def)
  have "resolvePath p (aliasesOf y) = Some ?q"
    using preserve_normal(2) [OF rok y] c by (simp add: rc reduced_simps resolvePath_flat)
  moreover have "?q \<in> set (hidden (prefs r))" using hid by (simp add: rc reduced_simps)
  then have "?q \<in> set (hidden (prefs y))" using preserve_normal(8) [OF rok y] by blast
  moreover have manr: "set (manual (prefs r)) = set (manual (prefs s)) - {?q}"
    using shown [of "manual (prefs s)"] hid by (simp add: rc reduced_simps)
  moreover have "set (expanded (prefs r)) = set (expanded (prefs s)) - {?q}"
    using shown [of "expanded (prefs s)"] hid by (simp add: rc reduced_simps)
  moreover have "set (explicits_of r) = set (explicits_of s) - {?q}"
  proof -
    have "set (explicits_of r) = canonical c ` set (without ?q (explicits_of s)) \<inter> set (manual (prefs r))"
      by (simp add: rc reduced_simps)
    also have "canonical c ` set (without ?q (explicits_of s)) = set (explicits_of s) - {?q}"
      using pins can by (force simp: without_def)
    finally show ?thesis using pins manr by auto
  qed
  ultimately show ?thesis
    using preserve_normal(3-5) [OF rok y] preserve_normal(3-5) [OF s(2) x] by auto
qed

theorem board_close_witness:
  "\<exists>x y q. applyBoardMutations demo_board [] = Some x \<and> applyBoardMutations demo_board [Close ''old''] = Some y
     \<and> manual (prefs x) = [''a'', ''b''] \<and> manual (prefs y) = [''b'']
     \<and> set (manual (prefs y)) = set (manual (prefs x)) - {q} \<and> q \<in> set (hidden (prefs y))"
proof -
  have e: "map_option (\<lambda>b. manual (prefs b)) (applyBoardMutations demo_board []) = Some [''a'', ''b'']" by code_simp
  obtain x where x: "applyBoardMutations demo_board [] = Some x" "manual (prefs x) = [''a'', ''b'']"
    using e by (cases "applyBoardMutations demo_board []") auto
  obtain y where y: "applyBoardMutations demo_board ([] @ [Close ''old'']) = Some y" "manual (prefs y) = [''b'']"
    using demo_board_reduces by (cases "applyBoardMutations demo_board [Close ''old'']") auto
  from board_close [OF x(1) y(1)] x y show ?thesis by auto
qed

text \<open>Restoring a conversation under any of its names takes every spelling of it off the
  hidden list; restored by hand it is placed and pinned and not expanded, restored expanded it is
  expanded and not placed by hand.\<close>

theorem board_restore:
  assumes "applyBoardMutations b (ms @ [Restore p where_to]) = Some y"
  shows "\<exists>q. resolvePath p (aliasesOf y) = Some q
    \<and> (\<forall>h \<in> set (hidden (prefs y)). resolvePath h (aliasesOf y) \<noteq> Some q)
    \<and> (where_to = ManualPlacement \<longrightarrow>
         q \<in> set (manual (prefs y)) \<and> q \<in> set (explicits_of y) \<and> q \<notin> set (expanded (prefs y)))
    \<and> (where_to = ExpandedPlacement \<longrightarrow> q \<in> set (expanded (prefs y)) \<and> q \<notin> set (manual (prefs y)))"
proof -
  obtain st s where n: "normalize b = Some st" and s: "apply_all ms st = Some s" "board_reduced s"
    using assms by (elim applyBoardMutations_Some)
      (auto simp: apply_all_append bind_eq_Some_conv dest: apply_all_ok)
  let ?q = "canonical (aliasesOf s) p"
  note flat = board_reduced_flat [OF s(2)]
  from assms n s(1) obtain r where r: "restore s ?q where_to = Some r" and y: "preserveDurableHiddenSpellings b r = Some y"
    by (auto simp: applyBoardMutations_def apply_all_append resolvePath_flat [OF flat] bind_eq_Some_conv)
  have rok: "board_reduced r" by (rule restore_ok [OF r])
  obtain b' where nb: "normalize b' = Some r" "aliasesOf b' = aliasesOf s"
      "hidden (prefs b') = without ?q (hidden (prefs s))"
      "where_to = ManualPlacement \<Longrightarrow> manual (prefs b') = without ?q (manual (prefs s)) @ [?q]
         \<and> explicits_of b' = without ?q (explicits_of s) @ [?q] \<and> expanded (prefs b') = without ?q (expanded (prefs s))"
      "where_to = ExpandedPlacement \<Longrightarrow> manual (prefs b') = without ?q (manual (prefs s))
         \<and> expanded (prefs b') = without ?q (expanded (prefs s)) @ [?q]"
  proof (cases where_to)
    case AutoPlacement
    with r show thesis
      by (intro that [of "s\<lparr>explicitManual := Some (without ?q (explicits_of s)),
          prefs := (prefs s)\<lparr>hidden := without ?q (hidden (prefs s))\<rparr>\<rparr>"])
        (simp_all add: restore_def Let_def explicits_of_def)
  next
    case ManualPlacement
    with r show thesis
      by (intro that [of "s\<lparr>explicitManual := Some (without ?q (explicits_of s) @ [?q]),
          prefs := (prefs s)\<lparr>hidden := without ?q (hidden (prefs s)), expanded := without ?q (expanded (prefs s)),
            manual := without ?q (manual (prefs s)) @ [?q]\<rparr>\<rparr>"])
        (simp_all add: restore_def Let_def explicits_of_def)
  next
    case ExpandedPlacement
    with r show thesis
      by (intro that [of "s\<lparr>explicitManual := Some (without ?q (explicits_of s)),
          prefs := (prefs s)\<lparr>hidden := without ?q (hidden (prefs s)), manual := without ?q (manual (prefs s)),
            expanded := without ?q (expanded (prefs s)) @ [?q]\<rparr>\<rparr>"])
        (simp_all add: restore_def Let_def explicits_of_def)
  qed
  obtain c where c: "r = reduced b' c" "flat c" "canonical c = canonical (aliasesOf s)"
    using normalize_like [OF flat nb(2,1)] .
  have qq: "canonical c ?q = ?q" using flat by (simp add: c(3))
  have norm: "board_normal s" "\<forall>h \<in> set (hidden (prefs s)). canonical c h = h"
    using s(2) by (simp_all add: board_reduced_def c(3))
  have can: "canonical c z = z" if "z \<in> set (manual (prefs s)) \<union> set (expanded (prefs s))" for z
    using that norm(1) by (auto simp: board_normal_def c(3))
  have hid: "set (hidden (prefs r)) = set (hidden (prefs s)) - {?q}"
    using norm(2) by (force simp: c(1) reduced_simps nb(3) without_def)
  have alias_y: "aliasesOf y = c" using preserve_normal(2) [OF rok y] by (simp add: c(1) reduced_simps)
  have "\<forall>h \<in> set (hidden (prefs y)). resolvePath h (aliasesOf y) \<noteq> Some ?q"
    using preserve_normal(7) [OF rok y] hid by (auto simp: alias_y resolvePath_flat [OF c(2)] c(1) reduced_simps)
  moreover have "resolvePath p (aliasesOf y) = Some ?q" by (simp add: alias_y resolvePath_flat [OF c(2)] c(3))
  moreover have "?q \<notin> canonical c ` set (hidden (prefs b'))"
    using hid by (simp add: c(1) reduced_simps)
  moreover have "?q \<notin> canonical c ` set (without ?q zs)" if "set zs \<subseteq> set (manual (prefs s)) \<union> set (expanded (prefs s))" for zs
    using that can by (force simp: without_def)
  ultimately show ?thesis
    using nb(4,5) qq preserve_normal(3-5) [OF rok y]
    by (intro exI [of _ ?q]) (auto simp: c(1) reduced_simps)
qed

theorem board_restore_witness:
  "\<exists>y q. applyBoardMutations demo_board [Close ''a'', Restore ''old'' ManualPlacement] = Some y
     \<and> resolvePath ''old'' (aliasesOf y) = Some q \<and> q \<in> set (manual (prefs y)) \<and> hidden (prefs y) = [''h'']"
proof -
  have e: "map_option (\<lambda>b. hidden (prefs b))
      (applyBoardMutations demo_board ([Close ''a''] @ [Restore ''old'' ManualPlacement])) = Some [''h'']" by code_simp
  then obtain y where y: "applyBoardMutations demo_board ([Close ''a''] @ [Restore ''old'' ManualPlacement]) = Some y"
      "hidden (prefs y) = [''h'']"
    by (cases "applyBoardMutations demo_board ([Close ''a''] @ [Restore ''old'' ManualPlacement])") auto
  from board_restore [OF y(1)] y show ?thesis by auto
qed

section \<open>Acknowledgements\<close>

lemma boundedSeenAt_spec:
  assumes "js_wf m"
  shows "js_wf (boundedSeenAt m)" "set (boundedSeenAt m) \<subseteq> set m"
    "length m \<le> MAX_SEEN_STAMPS \<Longrightarrow> set (boundedSeenAt m) = set m"
proof -
  let ?s = "js_sort (\<lambda>left right. snd right \<le> snd left) m"
  have "mset (map fst ?s) = mset (map fst m)" by simp
  from mset_eq_imp_distinct_iff [OF this] assms have "distinct (map fst ?s)"
    by (simp add: js_wf_def js_keys_def)
  then have d: "distinct (map fst (take MAX_SEEN_STAMPS ?s))" by (simp add: take_map [symmetric])
  then have e: "boundedSeenAt m = take MAX_SEEN_STAMPS ?s"
    by (simp add: boundedSeenAt_def js_map_of_distinct)
  show "js_wf (boundedSeenAt m)" using d by (simp add: e js_wf_def js_keys_def)
  show "set (boundedSeenAt m) \<subseteq> set m" using set_take_subset [of MAX_SEEN_STAMPS ?s] by (simp add: e)
  show "length m \<le> MAX_SEEN_STAMPS \<Longrightarrow> set (boundedSeenAt m) = set m" by (simp add: e)
qed

lemma js_get_iff: "js_wf m \<Longrightarrow> js_get m k = Some v \<longleftrightarrow> (k, v) \<in> set m"
  by (simp add: js_get_def js_wf_def js_keys_def)

definition seen_stamp :: "(string, rat) js_map \<Rightarrow> string \<Rightarrow> rat \<Rightarrow> rat" where
  "seen_stamp m i seen = max (case js_get m i of None \<Rightarrow> 0 | Some v \<Rightarrow> v) (of_int \<lfloor>seen\<rfloor>)"

lemma mark_seen_stamps:
  assumes "applyBoardMutations b [MarkSeen i seen] = Some b'"
  shows "stamps_of b' = boundedSeenAt (js_set i (seen_stamp (boundedSeenAt (stamps_of b)) i seen)
           (boundedSeenAt (stamps_of b)))"
proof -
  obtain s r where n: "normalize b = Some s" and r: "mark_seen s i seen = Some r" "board_reduced r"
      and p: "preserveDurableHiddenSpellings b r = Some b'"
    using assms by (elim applyBoardMutations_Some) (auto simp: bind_eq_Some_conv)
  have "stamps_of s = boundedSeenAt (stamps_of b)"
    using n by (elim normalize_reduced) (simp add: reduced_simps)
  moreover have "stamps_of r = boundedSeenAt (js_set i (seen_stamp (stamps_of s) i seen) (stamps_of s))"
    using r(1) unfolding mark_seen_def Let_def
    by (elim normalize_reduced) (simp add: reduced_simps seen_stamp_def, simp add: stamps_of_def)
  ultimately show ?thesis using preserve_normal(6) [OF r(2) p] by simp
qed

text \<open>Acknowledging an outcome never un-sees one: no stamp that is still kept goes down, however
  late or often the write is replayed, and the acknowledged conversation reads at least the given
  second; with room for one more stamp none is lost.\<close>

theorem board_mark_seen_monotone:
  assumes "js_wf (stamps_of b)" "length (stamps_of b) \<le> MAX_SEEN_STAMPS"
    and "applyBoardMutations b [MarkSeen i seen] = Some b'"
  shows "(\<forall>j v w. js_get (stamps_of b) j = Some v \<and> js_get (stamps_of b') j = Some w \<longrightarrow> v \<le> w)
    \<and> (\<forall>w. js_get (stamps_of b') i = Some w \<longrightarrow> of_int \<lfloor>seen\<rfloor> \<le> w)
    \<and> (length (stamps_of b) < MAX_SEEN_STAMPS \<longrightarrow>
         js_get (stamps_of b') i \<noteq> None \<and> set (js_keys (stamps_of b)) \<subseteq> set (js_keys (stamps_of b')))"
proof -
  let ?m = "boundedSeenAt (stamps_of b)"
  let ?m' = "js_set i (seen_stamp ?m i seen) ?m"
  note one = boundedSeenAt_spec [OF assms(1)]
  have wf': "js_wf ?m'" using one(1) by simp
  note two = boundedSeenAt_spec [OF wf']
  have e: "stamps_of b' = boundedSeenAt ?m'" by (rule mark_seen_stamps [OF assms(3)])
  have same: "js_get ?m j = js_get (stamps_of b) j" for j
    using one(1) one(3) [OF assms(2)] assms(1) js_get_iff by (metis not_None_eq)
  have stored: "js_get ?m' j = Some w" if "js_get (stamps_of b') j = Some w" for j w
    using that two(1,2) wf' by (auto simp: e js_get_iff simp del: js_get_set)
  have "\<forall>j v w. js_get (stamps_of b) j = Some v \<and> js_get (stamps_of b') j = Some w \<longrightarrow> v \<le> w"
    by (auto dest!: stored simp: same seen_stamp_def split: if_splits)
  moreover have "\<forall>w. js_get (stamps_of b') i = Some w \<longrightarrow> of_int \<lfloor>seen\<rfloor> \<le> w"
    by (auto dest!: stored simp: seen_stamp_def)
  moreover have "js_get (stamps_of b') i \<noteq> None \<and> set (js_keys (stamps_of b)) \<subseteq> set (js_keys (stamps_of b'))"
    if room: "length (stamps_of b) < MAX_SEEN_STAMPS"
  proof -
    have "length ?m \<le> length (stamps_of b)"
      using length_js_map_of [of "take MAX_SEEN_STAMPS (js_sort (\<lambda>left right. snd right \<le> snd left) (stamps_of b))"]
      by (simp add: boundedSeenAt_def)
    with room length_js_set [of i "seen_stamp ?m i seen" ?m] have "length ?m' \<le> MAX_SEEN_STAMPS" by linarith
    from two(3) [OF this] have "set (js_keys (stamps_of b')) = set (js_keys ?m')" by (simp add: e js_keys_def)
    moreover have "set (js_keys ?m) = set (js_keys (stamps_of b))"
      using one(3) [OF assms(2)] by (simp add: js_keys_def)
    ultimately show ?thesis by (auto simp: js_get_None_iff js_keys_set)
  qed
  ultimately show ?thesis by blast
qed

theorem board_mark_seen_monotone_witness:
  "\<exists>b'. applyBoardMutations demo_board [MarkSeen ''x'' 3] = Some b' \<and> js_get (stamps_of b') ''x'' = Some 5"
proof -
  have st: "stamps_of demo_board = [(''x'', 5)]" by (simp add: stamps_of_def demo_board_def)
  have "applyBoardMutations demo_board [MarkSeen ''x'' 3] \<noteq> None"
    by (rule board_reduction_total) (use normalizedAliases_flat [OF demo_board_flat] in auto)
  then obtain b' where b': "applyBoardMutations demo_board [MarkSeen ''x'' 3] = Some b'" by blast
  have "js_wf (stamps_of demo_board)" "length (stamps_of demo_board) \<le> MAX_SEEN_STAMPS"
    by (simp_all add: st js_wf_def js_keys_def MAX_SEEN_STAMPS_def)
  from board_mark_seen_monotone [OF this b'] have h: "js_get (stamps_of b') ''x'' \<noteq> None"
    by (simp add: st MAX_SEEN_STAMPS_def)
  have "set (stamps_of b') \<subseteq> {(''x'', 5)}"
  proof -
    have w: "js_wf [(''x'', 5 :: rat)]" by (simp add: js_wf_def js_keys_def)
    note one = boundedSeenAt_spec [OF w]
    have "boundedSeenAt [(''x'', 5 :: rat)] = [(''x'', 5)]"
      by (simp add: boundedSeenAt_def MAX_SEEN_STAMPS_def js_sort_def js_map_of_def)
    then have "stamps_of b' = boundedSeenAt [(''x'', 5)]"
      using mark_seen_stamps [OF b'] by (simp add: st seen_stamp_def js_get_def)
    with one(2) show ?thesis by simp
  qed
  with h show ?thesis using b' by (cases "js_get (stamps_of b') ''x''") (auto simp: js_get_def dest: map_of_SomeD)
qed

section \<open>Properties of the clocks\<close>

text \<open>C9. Causal clocks do not run backward under three conditions: the aliases of the new board still
  lead where the old ones led; the write's revision is at least the old floor and every clock
  recorded on the old board or on a board migrated into it; and, for a key the old board had no
  clock for, every clock recorded for its class is at least the old floor. Then the key reads, after
  the write is stamped, at least what the old board reported for it.\<close>

theorem board_clocks_monotone:
  assumes "\<And>p. resolveThrough (resolveThrough p (aliasesOf old)) (aliasesOf new) = resolveThrough p (aliasesOf new)"
    and "or_zero (keyRevisionFloor old) \<le> n"
    and "js_get (or_empty (keyRevisions old)) (canonicalKey key (aliasesOf old)) = None \<Longrightarrow>
      \<forall>(k, v) \<in> set (recorded old inh). canonicalKey k (aliasesOf new) = canonicalKey key (aliasesOf new) \<longrightarrow>
        or_zero (keyRevisionFloor old) \<le> v"
    and "\<forall>(k, v) \<in> set (recorded old inh). v \<le> n"
  shows "keyRevisionAt old key \<le> keyRevisionAt (stamped locale_le old new n inh) key"
proof -
  have ck: "canonicalKey (canonicalKey key (aliasesOf old)) (aliasesOf new) = canonicalKey key (aliasesOf new)"
  proof (cases "take (length PATH_PREFIX) key = PATH_PREFIX")
    case True
    then obtain p where "key = pathKey p" by (metis append_take_drop_id pathKey_def)
    with assms(1) show ?thesis by (simp add: canonicalKey_path)
  next
    case False
    then show ?thesis by (simp add: canonicalKey_def)
  qed
  let ?k = "canonicalKey key (aliasesOf new)"
  let ?fold = "fold (merge_clock (aliasesOf new)) (recorded old inh) []"
  show ?thesis
  proof (cases "js_get (or_empty (keyRevisions old)) (canonicalKey key (aliasesOf old))")
    case (Some v)
    then have "(canonicalKey key (aliasesOf old), v) \<in> set (recorded old inh)"
      by (auto simp: recorded_def js_get_def dest: map_of_SomeD)
    from merge_clocks_entry [OF this, of "aliasesOf new" "[]"] ck obtain w where
      w: "js_get ?fold ?k = Some w" "v \<le> w" by auto
    from assms(4) \<open>(canonicalKey key (aliasesOf old), v) \<in> set (recorded old inh)\<close> have "v \<le> n" by auto
    with w have "\<exists>u. js_get (merged_clocks old new n inh) ?k = Some u \<and> v \<le> u"
      by (auto simp: merged_get)
    with stamped_at_least [of old new n inh key _ locale_le] Some show ?thesis
      by (fastforce simp: keyRevisionAt_def)
  next
    case None
    obtain clocks fl where s: "stampKeyRevisions locale_le old new n inh = (clocks, fl)" by force
    have old: "keyRevisionAt old key = or_zero (keyRevisionFloor old)"
      using None by (simp add: keyRevisionAt_def or_zero_def)
    show ?thesis
    proof (cases "?k \<in> set (boardKeysChanged old new)")
      case True
      then have "js_get (merged_clocks old new n inh) ?k = Some n" by (simp add: merged_get)
      from stamped_at_least [OF this, of locale_le] assms(2) old show ?thesis by simp
    next
      case False
      show ?thesis
      proof (cases "\<exists>(k, v) \<in> set (recorded old inh). canonicalKey k (aliasesOf new) = ?k")
        case True
        then obtain k v where kv: "(k, v) \<in> set (recorded old inh)" "canonicalKey k (aliasesOf new) = ?k" by blast
        with assms(3) [OF None] have "or_zero (keyRevisionFloor old) \<le> v" by auto
        moreover from merge_clocks_entry [OF kv(1), of "aliasesOf new" "[]"] kv(2) obtain w where "js_get ?fold ?k = Some w" "v \<le> w" by auto
        ultimately show ?thesis using stamped_at_least [of old new n inh key w locale_le] False old by (simp add: merged_get)
      next
        case unseen: False
        have "js_get (fold (merge_clock a) es m) k = js_get m k"
          if "\<forall>(k', v) \<in> set es. canonicalKey k' a \<noteq> k" for es a m k
          using that by (induction es arbitrary: m) (auto simp: merge_clock_get)
        from this [of "recorded old inh" "aliasesOf new" ?k "[]"] unseen False have "js_get (merged_clocks old new n inh) ?k = None"
          by (auto simp: merged_get)
        from stamp_spec(2) [OF s this] stamp_spec(3) [OF s] old show ?thesis
          by (simp add: stamped_reads [OF s])
      qed
    qed
  qed
qed

definition demo_stamped :: board_state where
  "demo_stamped = demo_board\<lparr>prefs := (prefs demo_board)\<lparr>manual := [''old''], hidden := [''h'', ''b'']\<rparr>\<rparr>"

theorem board_clocks_monotone_witness:
  "keyRevisionAt demo_board ''path:old'' \<le> keyRevisionAt (stamped str_le demo_board demo_stamped 4 []) ''path:old''
   \<and> keyRevisionAt demo_board ''path:old'' = 2"
proof -
  have al: "aliasesOf demo_stamped = aliasesOf demo_board" by (simp add: demo_stamped_def)
  have k: "canonicalKey ''path:old'' (aliasesOf demo_board) = ''path:a''" by code_simp
  have rs: "or_empty (keyRevisions demo_board) = [(''path:a'', 2), (''path:b'', 1)]" by (simp add: demo_board_def)
  have "keyRevisionAt demo_board ''path:old'' \<le> keyRevisionAt (stamped str_le demo_board demo_stamped 4 []) ''path:old''"
  proof (rule board_clocks_monotone)
    show "resolveThrough (resolveThrough p (aliasesOf demo_board)) (aliasesOf demo_stamped)
        = resolveThrough p (aliasesOf demo_stamped)" for p
      using demo_board_flat by (simp add: al resolveThrough_flat)
    show "or_zero (keyRevisionFloor demo_board) \<le> 4" by (simp add: demo_board_def or_zero_def)
    assume "js_get (or_empty (keyRevisions demo_board)) (canonicalKey ''path:old'' (aliasesOf demo_board)) = None"
    then show "\<forall>(x, v) \<in> set (recorded demo_board []). canonicalKey x (aliasesOf demo_stamped)
        = canonicalKey ''path:old'' (aliasesOf demo_stamped) \<longrightarrow> or_zero (keyRevisionFloor demo_board) \<le> v" by (simp add: k rs js_get_def)
  next
    show "\<forall>(x, v) \<in> set (recorded demo_board []). v \<le> 4" by (simp add: recorded_def rs)
  qed
  moreover have "keyRevisionAt demo_board ''path:old'' = 2" by code_simp
  ultimately show ?thesis by simp
qed

text \<open>C10. A change is never unstamped: a key a write changed reads at least the revision of that
  write, also when compaction evicts it at once.\<close>

theorem board_changed_keys_stamped:
  assumes "flat (aliasesOf new)" "key \<in> set (boardKeysChanged old new)"
  shows "n \<le> keyRevisionAt (stamped locale_le old new n inh) key"
proof -
  have "js_get (merged_clocks old new n inh) (canonicalKey key (aliasesOf new)) = Some n"
    using assms by (simp add: changed_canonical merged_get)
  then show ?thesis by (rule stamped_at_least)
qed

theorem board_changed_keys_stamped_witness:
  "4 \<le> keyRevisionAt (stamped str_le demo_board demo_stamped 4 []) ''path:b''"
proof (rule board_changed_keys_stamped)
  show "flat (aliasesOf demo_stamped)" using demo_board_flat by (simp add: demo_stamped_def)
  show "''path:b'' \<in> set (boardKeysChanged demo_board demo_stamped)" by code_simp
qed

section \<open>Runs that depart from the comments\<close>

text \<open>
  A path may hold two roles on a normalized board: a reconciliation of roots places a path
  that is expanded.
\<close>

lemma reconcile_gives_two_roles:
  "map_option (\<lambda>b. (manual (prefs b), expanded (prefs b)))
     (applyBoardMutations demo_board [Restore ''r'' ExpandedPlacement, ReconcileRoots [''r''] []])
   = Some ([''a'', ''b'', ''r''], [''r''])"
  by code_simp

text \<open>
  A remap of a path that is an alias already points the name at another conversation, whose
  clock may be older: the clock the name reads goes back from 2 to 1.
\<close>

lemma realias_moves_clock_back:
  "map_option (\<lambda>b. (keyRevisionAt demo_board ''path:old'',
       keyRevisionAt (stamped str_le demo_board b 4 []) ''path:old''))
     (applyBoardMutations demo_board [RemapPaths [(''old'', ''b'')] True])
   = Some (2, 1)"
  by code_simp

text \<open>
  A name with no clock reads the floor; a remap that leads it to a path whose own clock is below the
  floor makes it read that clock: it goes back from 5 to 2.
\<close>

definition demo_floored :: board_state where
  "demo_floored = demo_board\<lparr>pathAliases := Some [], explicitManual := Some [], keyRevisions := Some [(''path:a'', 2)],
     keyRevisionFloor := Some 5, prefs := (prefs demo_board)\<lparr>manual := [''a'', ''b''], hidden := [], seenAt := None\<rparr>\<rparr>"

lemma remap_below_floor_moves_clock_back:
  "map_option (\<lambda>b. (keyRevisionAt demo_floored ''path:x'',
       keyRevisionAt (stamped str_le demo_floored b 9 []) ''path:x''))
     (applyBoardMutations demo_floored [RemapPaths [(''x'', ''a'')] True])
   = Some (5, 2)"
  by code_simp

end
