(* ===== verification/Order_Runs.thy ===== *)
theory Order_Runs
  imports Prelude
begin

text \<open>
  The order of a changed row collection as both delta codecs send it: the identities of the new
  order, those the base has written as runs of consecutive base rows. What a client expands is
  the order that was sent.
\<close>

datatype 'k order_item = RowItem 'k | RunItem nat nat

definition position_in :: "'k list \<Rightarrow> 'k \<Rightarrow> nat option" where
  "position_in ids k = js_get (zip ids [0..<length ids]) k"

text \<open>The new order as runs of the old one, extended while it lasts.\<close>

definition compact_step :: "'k list \<Rightarrow> 'k order_item list \<Rightarrow> 'k \<Rightarrow> 'k order_item list" where
  "compact_step ids acc k =
     (case position_in ids k of
        None \<Rightarrow> acc @ [RowItem k]
      | Some index \<Rightarrow>
          (case at_last acc of
             Some (RunItem start len) \<Rightarrow>
               if start + len = index then butlast acc @ [RunItem start (len + 1)] else acc @ [RunItem index 1]
           | _ \<Rightarrow> acc @ [RunItem index 1]))"

definition compact_order :: "'k list \<Rightarrow> 'k list \<Rightarrow> 'k order_item list" where
  "compact_order ids order = foldl (compact_step ids) [] order"

text \<open>The order a patch names, over the identities of the base: runs must lie inside them.\<close>

fun expand_item :: "'k list \<Rightarrow> 'k order_item \<Rightarrow> 'k list option" where
  "expand_item ids (RowItem k) = Some [k]"
| "expand_item ids (RunItem start len) =
     (if len < 1 \<or> start + len > length ids then None else Some (take len (drop start ids)))"

section \<open>Expansion gives the order back\<close>

definition expands_to :: "'k list \<Rightarrow> 'k order_item list \<Rightarrow> 'k list \<Rightarrow> bool" where
  "expands_to ids items ks \<longleftrightarrow> map_option concat (those (map (expand_item ids) items)) = Some ks"

lemma expands_to_append:
  "expands_to ids xs ks \<Longrightarrow> expands_to ids ys ls \<Longrightarrow> expands_to ids (xs @ ys) (ks @ ls)"
  by (auto simp: expands_to_def those_append)

lemma expands_to_snocD:
  "expands_to ids (xs @ [item]) ks \<Longrightarrow>
     \<exists>front bs. expands_to ids xs front \<and> expand_item ids item = Some bs \<and> ks = front @ bs"
  by (auto simp: expands_to_def those_append split: option.splits)

lemma position_in_Some:
  assumes "position_in ids k = Some i"
  shows "i < length ids" "ids ! i = k"
proof -
  from assms have "(k, i) \<in> set (zip ids [0..<length ids])"
    by (auto simp: position_in_def js_get_def dest: map_of_SomeD)
  then show "i < length ids" "ids ! i = k" by (auto simp: in_set_zip)
qed

lemma single_run: "i < length ids \<Longrightarrow> expands_to ids [RunItem i 1] [ids ! i]"
  by (auto simp: expands_to_def take_Suc_conv_app_nth)

lemma compact_step_expands:
  assumes "expands_to ids acc ks"
  shows "expands_to ids (compact_step ids acc k) (ks @ [k])"
proof (cases "position_in ids k")
  case None
  have "expands_to ids [RowItem k] [k]" by (simp add: expands_to_def)
  with assms None show ?thesis by (auto simp: compact_step_def intro: expands_to_append)
next
  case (Some i)
  note i = position_in_Some [OF Some]
  have new: "expands_to ids (acc @ [RunItem i 1]) (ks @ [k])"
    using expands_to_append [OF assms single_run [OF i(1)]] i(2) by simp
  show ?thesis
  proof (cases "\<exists>start len. at_last acc = Some (RunItem start len) \<and> start + len = i")
    case True
    then obtain start len where last: "at_last acc = Some (RunItem start len)" "start + len = i" by blast
    from at_last_Some [OF last(1)] assms obtain front bs where
      front: "expands_to ids (butlast acc) front" and bs: "expand_item ids (RunItem start len) = Some bs" "ks = front @ bs"
      by (metis expands_to_snocD)
    have "take (len + 1) (drop start ids) = take len (drop start ids) @ [ids ! i]"
      using last(2) i(1) by (auto simp: take_Suc_conv_app_nth)
    with bs(1) last(2) i have "expands_to ids [RunItem start (len + 1)] (bs @ [k])"
      by (auto simp: expands_to_def split: if_splits)
    from expands_to_append [OF front this] bs(2) last Some show ?thesis by (simp add: compact_step_def)
  next
    case False
    with new Some show ?thesis
      by (auto simp: compact_step_def split: option.splits order_item.splits)
  qed
qed

lemma compact_order_expands: "expands_to ids (compact_order ids order) order"
proof -
  have "expands_to ids (foldl (compact_step ids) acc order) (ks @ order)" if "expands_to ids acc ks" for acc ks
    using that
  proof (induction order arbitrary: acc ks)
    case (Cons k order)
    from Cons.IH [OF compact_step_expands [OF Cons.prems, of k]] show ?case by simp
  qed simp
  from this [of "[]" "[]"] show ?thesis by (simp add: compact_order_def expands_to_def)
qed

end
