(* ===== verification/Board_Delta_Roundtrip.thy ===== *)
theory Board_Delta_Roundtrip
  imports Board_Delta
begin

text \<open>
  A board patch applied to what it was made from gives the document it was made for, also on a
  client whose copy lists its fields in another order.
\<close>

section \<open>The changed fields of one level\<close>

definition patched :: "json \<Rightarrow> board_change option \<Rightarrow> json option" where
  "patched y c = (case c of None \<Rightarrow> Some y | Some change \<Rightarrow> apply_change (Some y) change)"

definition field_change :: "('k, json) js_map \<Rightarrow> 'k \<Rightarrow> json \<Rightarrow> board_change option" where
  "field_change before k item =
     (case js_get before k of None \<Rightarrow> Some (Replace item) | Some old \<Rightarrow> diffBoardValue old item)"

definition field_changes :: "('k, json) js_map \<Rightarrow> ('k \<times> json) list \<Rightarrow> ('k \<times> board_change) list" where
  "field_changes before after =
     concat (map (\<lambda>(k, item). case field_change before k item of None \<Rightarrow> [] | Some c \<Rightarrow> [(k, c)]) after)"

lemma field_changes_iff:
  "(k, c) \<in> set (field_changes before after) \<longleftrightarrow> (\<exists>item. (k, item) \<in> set after \<and> field_change before k item = Some c)"
  by (force simp: field_changes_def split: option.splits)

lemma field_changes_Cons:
  "field_changes before ((k, item) # after) =
     (case field_change before k item of None \<Rightarrow> field_changes before after | Some c \<Rightarrow> (k, c) # field_changes before after)"
  by (simp add: field_changes_def split: option.splits)

lemma field_changes_keys: "set (map fst (field_changes before after)) \<subseteq> fst ` set after"
  by (force simp: field_changes_iff)

lemma field_changes_distinct: "distinct (map fst after) \<Longrightarrow> distinct (map fst (field_changes before after))"
proof (induction after)
  case Nil
  then show ?case by (simp add: field_changes_def)
next
  case (Cons e after)
  obtain k item where e: "e = (k, item)" by force
  have "set (map fst (field_changes before after)) \<subseteq> fst ` set after" by (rule field_changes_keys)
  with Cons show ?case by (auto simp: e field_changes_Cons split: option.splits)
qed

lemma map_of_pairs:
  "distinct (map fst cs) \<Longrightarrow> (k, c) \<in> set cs \<Longrightarrow> map_of (rev (map (\<lambda>c. (fst c, g c)) cs)) k = Some (g (k, c))"
  "k \<notin> fst ` set cs \<Longrightarrow> map_of (rev (map (\<lambda>c. (fst c, g c)) cs)) k = None"
proof -
  assume d: "distinct (map fst cs)" "(k, c) \<in> set cs"
  then have "distinct (map fst (rev (map (\<lambda>c. (fst c, g c)) cs)))" by (simp add: comp_def rev_map [symmetric])
  with d(2) show "map_of (rev (map (\<lambda>c. (fst c, g c)) cs)) k = Some (g (k, c))"
    by (intro map_of_is_SomeI) force+
next
  assume "k \<notin> fst ` set cs"
  then show "map_of (rev (map (\<lambda>c. (fst c, g c)) cs)) k = None" by (force simp: map_of_eq_None_iff)
qed

text \<open>
  Patching one level: every field of the new item is reached, the others are left alone.
\<close>

lemma field_changes_patch:
  assumes d: "distinct (map fst after)"
    and y: "\<And>k. rel_option same_json (js_get ys k) (js_get before k)"
    and IH: "\<forall>(k, item) \<in> set after. \<forall>old y. js_get before k = Some old \<longrightarrow> same_json y old \<longrightarrow>
      (\<exists>r. patched y (diffBoardValue old item) = Some r \<and> same_json r item)"
  shows "\<exists>vals.
    those (map (\<lambda>(k, patch). apply_change (js_get ys k) patch) (field_changes before after)) = Some vals
    \<and> (\<forall>m k item. js_get after k = Some item \<longrightarrow> js_get m k = js_get ys k \<longrightarrow>
       (\<exists>r. js_get (fold (\<lambda>(k, v). js_set k v) (zip (map fst (field_changes before after)) vals) m) k = Some r
         \<and> same_json r item))
    \<and> (\<forall>m k. js_get after k = None \<longrightarrow>
       js_get (fold (\<lambda>(k, v). js_set k v) (zip (map fst (field_changes before after)) vals) m) k = js_get m k)"
proof -
  let ?cs = "field_changes before after"
  let ?f = "\<lambda>(k, patch). apply_change (js_get ys k) patch"
  have one: "\<exists>r. ?f (k, c) = Some r \<and> same_json r item"
    if "(k, item) \<in> set after" "field_change before k item = Some c" for k c item
  proof (cases "js_get before k")
    case None
    with that(2) show ?thesis by (auto simp: field_change_def)
  next
    case (Some old)
    with y [of k] obtain y' where y': "js_get ys k = Some y'" "same_json y' old" by (cases "js_get ys k") auto
    from IH that(1) Some y'(2) have "\<exists>r. patched y' (diffBoardValue old item) = Some r \<and> same_json r item" by blast
    with that(2) Some y'(1) show ?thesis by (simp add: field_change_def patched_def)
  qed
  have "\<forall>x \<in> set ?cs. \<exists>r. ?f x = Some r"
    using one by (force simp: field_changes_iff)
  from those_Some [OF this] have vals: "those (map ?f ?cs) = Some (map (the \<circ> ?f) ?cs)" .
  have zipped: "zip (map fst ?cs) (map (the \<circ> ?f) ?cs) = map (\<lambda>c. (fst c, (the \<circ> ?f) c)) ?cs"
    by (simp add: zip_map_map zip_same_conv_map)
  note dc = field_changes_distinct [OF d, of before]
  show ?thesis
  proof (rule exI [of _ "map (the \<circ> ?f) ?cs"], intro conjI allI impI, rule vals)
    fix m :: "('a, json) js_map" and k item assume g: "js_get after k = Some item" "js_get m k = js_get ys k"
    then have mem: "(k, item) \<in> set after" by (simp add: js_get_def map_of_SomeD)
    show "\<exists>r. js_get (fold (\<lambda>(k, v). js_set k v) (zip (map fst ?cs) (map (the \<circ> ?f) ?cs)) m) k = Some r
         \<and> same_json r item"
    proof (cases "field_change before k item")
      case None
      then obtain old where old: "js_get before k = Some old" "diffBoardValue old item = None"
        by (auto simp: field_change_def split: option.splits)
      with y [of k] obtain y' where y': "js_get ys k = Some y'" "same_json y' old" by (cases "js_get ys k") auto
      from IH mem old(1) y'(2) have "\<exists>r. patched y' (diffBoardValue old item) = Some r \<and> same_json r item" by blast
      with old(2) have "same_json y' item" by (simp add: patched_def)
      moreover have "k \<notin> fst ` set ?cs"
      proof
        assume "k \<in> fst ` set ?cs"
        then obtain c item' where "(k, item') \<in> set after" "field_change before k item' = Some c"
          by (auto simp: field_changes_iff)
        with mem d None show False by (metis map_key_unique option.distinct(1))
      qed
      ultimately show ?thesis using g(2) y'(1) unfolding zipped js_get_sets
        by (simp add: map_of_pairs(2))
    next
      case (Some c)
      then have "(k, c) \<in> set ?cs" using mem by (auto simp: field_changes_iff)
      from map_of_pairs(1) [OF dc this, of "the \<circ> ?f"]
      have "js_get (fold (\<lambda>(k, v). js_set k v) (zip (map fst ?cs) (map (the \<circ> ?f) ?cs)) m) k = Some ((the \<circ> ?f) (k, c))"
        unfolding zipped js_get_sets by simp
      with one [OF mem Some] show ?thesis by auto
    qed
  next
    fix m :: "('a, json) js_map" and k assume "js_get after k = None"
    then have "k \<notin> fst ` set ?cs"
      using field_changes_keys [of before after] by (auto simp: js_get_def map_of_eq_None_iff)
    then show "js_get (fold (\<lambda>(k, v). js_set k v) (zip (map fst ?cs) (map (the \<circ> ?f) ?cs)) m) k = js_get m k"
      unfolding zipped js_get_sets by (simp add: map_of_pairs(2))
  qed
qed

lemma field_changes_replace:
  assumes "\<And>k. rel_option same_json (js_get ys k) (js_get before k)"
  shows "\<forall>(k, patch) \<in> set (field_changes before after). js_get ys k = None \<longrightarrow> is_replace patch"
proof safe
  fix k patch assume "(k, patch) \<in> set (field_changes before after)" "js_get ys k = None"
  moreover from this(2) assms [of k] have "js_get before k = None" by (cases "js_get before k") auto
  ultimately show "is_replace patch" by (auto simp: field_changes_iff field_change_def)
qed

section \<open>The round trip\<close>

lemma diff_objects:
  "diffBoardValue (JObj before) (JObj after) =
     (let removed = filter (\<lambda>k. \<not> js_has after k) (js_keys before);
          changes = field_changes before after
      in if changes \<noteq> [] \<or> removed \<noteq> [] then Some (ObjectChange changes removed) else None)"
  by (simp add: field_changes_def field_change_def)

lemma diff_keyed:
  assumes "arrayKey before after = Some key" "row_keys before key = Some ids" "row_keys after key = Some order"
  shows "diffBoardValue (JArr before) (JArr after) =
     (let changes = field_changes (zip ids before) (zip order after)
      in if changes = [] \<and> ids = order then None
         else Some (ArrayChange changes key (length before)
           (if ids = order then None else Some (compact_order ids order))))"
  using assms by (simp add: field_changes_def field_change_def)

lemma arrayKey_Some:
  assumes "arrayKey before after = Some key"
  obtains ids order where "row_keys before key = Some ids" "row_keys after key = Some order"
  using assms find_SomeD [of _ array_key_names key] by (fastforce simp: arrayKey_def split: if_splits)

lemma row_keys_spec:
  assumes "row_keys rows key = Some ids"
  shows "distinct ids" "length ids = length rows" "\<And>i. i < length rows \<Longrightarrow> row_key_of (field_of key (rows ! i)) = Some (ids ! i)"
proof -
  from assms have "those (map (\<lambda>row. row_key_of (field_of key row)) rows) = Some ids" and d: "distinct ids"
    by (auto simp: row_keys_def split: option.splits if_splits)
  moreover have "those (map f xs) = Some ys \<Longrightarrow> list_all2 (\<lambda>x y. f x = Some y) xs ys" for f :: "json \<Rightarrow> row_key option" and xs ys
    by (induction xs arbitrary: ys) (auto split: option.splits)
  ultimately have all: "list_all2 (\<lambda>row k. row_key_of (field_of key row) = Some k) rows ids" by blast
  show "distinct ids" by (rule d)
  show "length ids = length rows" using all by (simp add: list_all2_lengthD)
  show "row_key_of (field_of key (rows ! i)) = Some (ids ! i)" if "i < length rows" for i
    using all that by (simp add: list_all2_conv_all_nth)
qed

lemma row_keys_same: "list_all2 same_json ys rows \<Longrightarrow> row_keys ys key = row_keys rows key"
proof -
  assume "list_all2 same_json ys rows"
  then have "map (\<lambda>row. row_key_of (field_of key row)) ys = map (\<lambda>row. row_key_of (field_of key row)) rows"
    by (induction rule: list_all2_induct) (auto simp: same_row_key)
  then show ?thesis by (simp add: row_keys_def)
qed

lemma js_get_zip:
  assumes "distinct ids" "length ids = length rows" "i < length rows"
  shows "js_get (zip ids rows) (ids ! i) = Some (rows ! i)"
  using assms by (simp add: js_get_def map_of_zip_nth)

lemma js_get_zip_None: "length ids = length rows \<Longrightarrow> js_get (zip ids rows) k = None \<longleftrightarrow> k \<notin> set ids"
  by (force simp: js_get_def map_of_eq_None_iff in_set_zip in_set_conv_nth)

lemma js_get_zip_same:
  assumes "distinct ids" "length ids = length rows" "list_all2 same_json ys rows"
  shows "rel_option same_json (js_get (zip ids ys) k) (js_get (zip ids rows) k)"
proof (cases "k \<in> set ids")
  case True
  then obtain i where i: "i < length ids" "ids ! i = k" by (auto simp: in_set_conv_nth)
  with assms js_get_zip [of ids rows i] js_get_zip [of ids ys i] show ?thesis
    by (auto simp: list_all2_conv_all_nth)
next
  case False
  with assms js_get_zip_None [of ids rows k] js_get_zip_None [of ids ys k] show ?thesis
    by (simp add: list_all2_lengthD)
qed

lemma patch_object:
  assumes wf: "json_wf (JObj before)" "json_wf (JObj after)" and y: "same_json (JObj ys) (JObj before)"
    and IH: "\<forall>(k, item) \<in> set after. \<forall>old y. js_get before k = Some old \<longrightarrow> same_json y old \<longrightarrow>
      (\<exists>r. patched y (diffBoardValue old item) = Some r \<and> same_json r item)"
  shows "\<exists>r. patched (JObj ys) (diffBoardValue (JObj before) (JObj after)) = Some r \<and> same_json r (JObj after)"
proof -
  let ?removed = "filter (\<lambda>k. \<not> js_has after k) (js_keys before)"
  let ?cs = "field_changes before after"
  have d: "distinct (map fst after)" "distinct (js_keys before)" using wf by (simp_all add: js_wf_def js_keys_def)
  have fs: "\<And>k. rel_option same_json (js_get ys k) (js_get before k)" using y by simp
  from field_changes_patch [OF d(1) fs IH] obtain vals where vals:
    "those (map (\<lambda>(k, patch). apply_change (js_get ys k) patch) ?cs) = Some vals"
    "\<forall>m k item. js_get after k = Some item \<longrightarrow> js_get m k = js_get ys k \<longrightarrow>
       (\<exists>r. js_get (fold (\<lambda>(k, v). js_set k v) (zip (map fst ?cs) vals) m) k = Some r \<and> same_json r item)"
    "\<forall>m k. js_get after k = None \<longrightarrow>
       js_get (fold (\<lambda>(k, v). js_set k v) (zip (map fst ?cs) vals) m) k = js_get m k"
    by blast
  let ?r = "fold (\<lambda>(k, v). js_set k v) (zip (map fst ?cs) vals) (fold js_delete ?removed ys)"
  have same: "same_json (JObj ?r) (JObj after)"
  proof (unfold same_fields, rule allI)
    fix k
    show "rel_option same_json (js_get ?r k) (js_get after k)"
    proof (cases "js_get after k")
      case None
      have "js_get ys k = None" if gone: "k \<notin> set ?removed"
      proof -
        from gone None have "k \<notin> set (js_keys before)" by (auto simp: js_has_def)
        then have "js_get before k = None" by (simp add: js_get_None_iff)
        with fs [of k] show ?thesis by simp
      qed
      with None vals(3) [rule_format, OF None] show ?thesis by (auto simp: js_get_deletes)
    next
      case (Some item)
      then have "js_get (fold js_delete ?removed ys) k = js_get ys k" by (simp add: js_get_deletes js_has_def)
      from vals(2) [rule_format, OF Some this] Some show ?thesis by auto
    qed
  qed
  show ?thesis
  proof (cases "?cs = [] \<and> ?removed = []")
    case True
    with same show ?thesis unfolding diff_objects Let_def patched_def by auto
  next
    case False
    have "\<forall>k \<in> set ?removed. js_has ys k"
      using same_field_has [OF y] by (auto simp: js_has_iff)
    moreover have "distinct (?removed @ map fst ?cs)"
      using d field_changes_distinct [OF d(1), of before] field_changes_keys [of before after]
      by (auto simp: js_has_def js_get_def map_of_eq_None_iff)
    moreover have "\<not> (\<exists>(k, patch) \<in> set ?cs. \<not> js_has ys k \<and> \<not> is_replace patch)"
      using field_changes_replace [OF fs, of after] by (auto simp: js_has_def)
    ultimately have "apply_change (Some (JObj ys)) (ObjectChange ?cs ?removed) = Some (JObj ?r)"
      using vals(1) by simp
    with same False show ?thesis unfolding diff_objects Let_def patched_def by auto
  qed
qed

lemma patch_keyed:
  assumes key: "arrayKey before after = Some key" and y: "list_all2 same_json ys before"
    and ids: "row_keys before key = Some ids" and order: "row_keys after key = Some order"
    and IH: "\<forall>(k, item) \<in> set (zip order after). \<forall>old y. js_get (zip ids before) k = Some old \<longrightarrow> same_json y old \<longrightarrow>
      (\<exists>r. patched y (diffBoardValue old item) = Some r \<and> same_json r item)"
  shows "\<exists>r. patched (JArr ys) (diffBoardValue (JArr before) (JArr after)) = Some r \<and> same_json r (JArr after)"
proof -
  note b = row_keys_spec [OF ids] and a = row_keys_spec [OF order]
  let ?cs = "field_changes (zip ids before) (zip order after)"
  have len: "length ys = length before" using y by (rule list_all2_lengthD)
  have d: "distinct (map fst (zip order after))" using a(1,2) by simp
  have fs: "\<And>k. rel_option same_json (js_get (zip ids ys) k) (js_get (zip ids before) k)"
    by (rule js_get_zip_same [OF b(1,2) y])
  from field_changes_patch [OF d fs IH] obtain vals where vals:
    "those (map (\<lambda>(k, patch). apply_change (js_get (zip ids ys) k) patch) ?cs) = Some vals"
    "\<forall>m k item. js_get (zip order after) k = Some item \<longrightarrow> js_get m k = js_get (zip ids ys) k \<longrightarrow>
       (\<exists>r. js_get (fold (\<lambda>(k, v). js_set k v) (zip (map fst ?cs) vals) m) k = Some r \<and> same_json r item)"
    by blast
  let ?table = "fold (\<lambda>(k, v). js_set k v) (zip (map fst ?cs) vals) (zip ids ys)"
  let ?f = "\<lambda>k. case js_get ?table k of None \<Rightarrow> None
      | Some row \<Rightarrow> if row_key_of (field_of key row) = Some k then Some row else None"
  have row: "\<exists>r. ?f (order ! i) = Some r \<and> same_json r (after ! i)" if i: "i < length after" for i
  proof -
    from js_get_zip [OF a(1,2) i] vals(2) obtain r where r: "js_get ?table (order ! i) = Some r" "same_json r (after ! i)"
      by blast
    from same_row_key [OF r(2), of key] a(3) [OF i] have "row_key_of (field_of key r) = Some (order ! i)" by simp
    with r show ?thesis by simp
  qed
  have all: "\<forall>k \<in> set order. \<exists>r. ?f k = Some r"
  proof
    fix k assume "k \<in> set order"
    then obtain i where "i < length order" "order ! i = k" by (auto simp: in_set_conv_nth)
    with row [of i] a(2) show "\<exists>r. ?f k = Some r" by (auto simp del: option.case_eq_if)
  qed
  have same: "same_json (JArr (map (the \<circ> ?f) order)) (JArr after)"
  proof (intro same_json.arr list_all2_all_nthI)
    show "length (map (the \<circ> ?f) order) = length after" using a(2) by simp
    fix i assume "i < length (map (the \<circ> ?f) order)"
    then have i: "i < length after" using a(2) by simp
    from row [OF i] obtain r where r: "?f (order ! i) = Some r" "same_json r (after ! i)" by blast
    have "map (the \<circ> ?f) order ! i = the (?f (order ! i))" using i a(2) by (simp only: nth_map comp_apply)
    with r show "same_json (map (the \<circ> ?f) order ! i) (after ! i)" by (simp only: option.sel)
  qed
  have keys_ys: "row_keys ys key = Some ids" using row_keys_same [OF y] ids by simp
  have "fst ` set (zip order after) = set order" using a(2) by (simp flip: set_map)
  then have ch: "distinct (map fst ?cs)" "set (map fst ?cs) \<subseteq> set order"
    using field_changes_distinct [OF d, of "zip ids before"] field_changes_keys [of "zip ids before" "zip order after"]
    by auto
  have new: "\<not> (\<exists>(k, patch) \<in> set ?cs. k \<notin> set ids \<and> \<not> is_replace patch)"
    using field_changes_replace [OF fs, of "zip order after"] js_get_zip_None [of ids ys] b(2) len by auto
  have exp: "expand_order ids (if ids = order then None else Some (compact_order ids order)) = Some order"
    using compact_order_expands [of ids order] by (simp add: expand_order_def expands_to_def)
  have "apply_change (Some (JArr ys)) (ArrayChange ?cs key (length before)
      (if ids = order then None else Some (compact_order ids order))) = Some (JArr (map (the \<circ> ?f) order))"
    using keys_ys b(2) ch new vals(1) exp a(1) those_Some [OF all]
    by (simp only: apply_change.simps option.case list.case json.case if_False Let_def simp_thms option.map)
  moreover have "same_json (JArr ys) (JArr after)" if "?cs = []" "ids = order"
  proof -
    have "map (the \<circ> ?f) order = ys"
    proof (rule nth_equalityI)
      show "length (map (the \<circ> ?f) order) = length ys" using a(2) b(2) that(2) len by simp
      fix i assume "i < length (map (the \<circ> ?f) order)"
      then have i: "i < length ys" "i < length after" using a(2) b(2) that(2) len by auto
      have "js_get ?table (order ! i) = Some (ys ! i)"
        using that js_get_zip [OF b(1), of ys i] b(2) len i by simp
      with row [OF i(2)] i a(2) show "map (the \<circ> ?f) order ! i = ys ! i" by (auto split: if_splits)
    qed
    with same show ?thesis by simp
  qed
  ultimately show ?thesis
    using same unfolding diff_keyed [OF key ids order] Let_def patched_def by auto
qed

lemma board_patch:
  "json_wf b \<Longrightarrow> json_wf a \<Longrightarrow> same_json y b \<Longrightarrow>
     \<exists>r. patched y (diffBoardValue b a) = Some r \<and> same_json r a"
proof (induction b a arbitrary: y rule: diffBoardValue.induct)
  case (1 before after)
  from "1.prems"(3) obtain ys where y: "y = JObj ys" by auto
  have "\<forall>(k, item) \<in> set after. \<forall>old y. js_get before k = Some old \<longrightarrow> same_json y old \<longrightarrow>
      (\<exists>r. patched y (diffBoardValue old item) = Some r \<and> same_json r item)"
  proof (intro ballI allI impI, clarify)
    fix k item old y
    assume m: "(k, item) \<in> set after" "js_get before k = Some old" "same_json y old"
    then have "json_wf item" using "1.prems"(2) by (auto simp: list_all_iff)
    moreover have "json_wf old" using json_wf_field "1.prems"(1) m(2) by blast
    ultimately show "\<exists>r. patched y (diffBoardValue old item) = Some r \<and> same_json r item"
      using "1.IH" [OF refl m(1) refl m(2)] m(3) by blast
  qed
  from patch_object [OF "1.prems"(1,2) _ this] "1.prems"(3) show ?case unfolding y by blast
next
  case (2 before after)
  from "2.prems"(3) obtain ys where y: "y = JArr ys" "list_all2 same_json ys before" by auto
  show ?case
  proof (cases "arrayKey before after")
    case (Some key)
    obtain ids order where k: "row_keys before key = Some ids" "row_keys after key = Some order"
      using arrayKey_Some [OF Some] .
    have "\<forall>(k, item) \<in> set (zip order after). \<forall>old y. js_get (zip ids before) k = Some old \<longrightarrow> same_json y old \<longrightarrow>
      (\<exists>r. patched y (diffBoardValue old item) = Some r \<and> same_json r item)"
    proof (intro ballI allI impI, clarify)
      fix kk item old y
      assume m: "(kk, item) \<in> set (zip order after)" "js_get (zip ids before) kk = Some old" "same_json y old"
      then have "json_wf item" using "2.prems"(2) by (auto simp: list_all_iff dest: set_zip_rightD)
      moreover have "old \<in> set before" using m(2) by (auto simp: js_get_def dest!: map_of_SomeD set_zip_rightD)
      then have "json_wf old" using "2.prems"(1) by (auto simp: list_all_iff)
      ultimately show "\<exists>r. patched y (diffBoardValue old item) = Some r \<and> same_json r item"
        using "2.IH"(2) [OF Some refl refl _ refl] m k by simp
    qed
    from patch_keyed [OF Some y(2) k this] show ?thesis unfolding y(1) .
  next
    case None
    show ?thesis
    proof (cases "length before = length after
        \<and> list_all (\<lambda>c. c = None) (map (\<lambda>(old, item). diffBoardValue old item) (zip before after))")
      case True
      have "same_json (ys ! i) (after ! i)" if i: "i < length after" for i
      proof -
        from i True have m: "(before ! i, after ! i) \<in> set (zip before after)" by (auto simp: in_set_zip)
        with True have none: "diffBoardValue (before ! i) (after ! i) = None" by (auto simp: list_all_iff)
        have "same_json (ys ! i) (before ! i)" using y(2) i True by (simp add: list_all2_conv_all_nth)
        moreover have "json_wf (before ! i)" "json_wf (after ! i)"
          using "2.prems"(1,2) i True by (auto simp: list_all_iff)
        ultimately have "\<exists>r. patched (ys ! i) (diffBoardValue (before ! i) (after ! i)) = Some r \<and> same_json r (after ! i)"
          using "2.IH"(1) [OF None m refl] by blast
        with none show ?thesis by (simp add: patched_def)
      qed
      with True y(2) have "list_all2 same_json ys after" by (auto simp: list_all2_conv_all_nth)
      with True None y(1) show ?thesis by (auto simp: patched_def intro: same_json.arr)
    next
      case False
      have "list_all2 same_json after after" by (simp add: list_all2_same)
      with False None show ?thesis by (auto simp: patched_def)
    qed
  qed
qed (auto simp: patched_def)

section \<open>Properties\<close>

definition document :: "json \<Rightarrow> bool" where
  "document v \<longleftrightarrow> json_wf v \<and> is_object v"

lemma same_is_object: "same_json v w \<Longrightarrow> is_object v = is_object w"
  by (cases v) auto

lemma apply_diff:
  assumes "document b" "document a" "same_json y b"
  shows "\<exists>r. applyBoardDelta y (diffBoard b a base etag) = Some r \<and> same_json r a"
proof -
  from board_patch [of b a y] assms obtain r where r: "patched y (diffBoardValue b a) = Some r" "same_json r a"
    by (auto simp: document_def)
  moreover from r(2) assms(2) have "is_object r" using same_is_object by (auto simp: document_def)
  ultimately show ?thesis
    by (auto simp: applyBoardDelta_def diffBoard_def patched_def split: option.splits)
qed

interpretation board_codec: delta_codec "\<lambda>b a. diffBoard b a base etag" applyBoardDelta same_json document
  by unfold_locales (rule apply_diff)

text \<open>Comparing containers by reference changes nothing: the change from a value to itself is none.\<close>

lemma field_changes_self:
  assumes "\<And>k v. (k, v) \<in> set es \<Longrightarrow> js_get before k = Some v" "\<And>k v. (k, v) \<in> set es \<Longrightarrow> diffBoardValue v v = None"
  shows "field_changes before es = []"
  using assms by (auto simp: field_changes_def field_change_def)

lemma diff_self: "json_wf v \<Longrightarrow> diffBoardValue v v = None"
proof (induction v)
  case (JObj fs)
  have "js_get fs k = Some v \<and> diffBoardValue v v = None" if "(k, v) \<in> set fs" for k v
    using that JObj.prems JObj.IH [of "(k, v)" v] by (auto simp: js_get_def js_wf_def js_keys_def list_all_iff)
  then have "field_changes fs fs = []" by (intro field_changes_self) auto
  moreover have "filter (\<lambda>k. \<not> js_has fs k) (js_keys fs) = []" by (auto simp: filter_empty_conv js_has_iff)
  ultimately show ?case unfolding diff_objects Let_def by simp
next
  case (JArr vs)
  then have self: "diffBoardValue v v = None" if "v \<in> set vs" for v using that by (auto simp: list_all_iff)
  show ?case
  proof (cases "arrayKey vs vs")
    case None
    with self show ?thesis by (auto simp: list_all_iff in_set_zip)
  next
    case (Some key)
    then obtain ids where ids: "row_keys vs key = Some ids" by (rule arrayKey_Some)
    note spec = row_keys_spec [OF ids]
    have "field_changes (zip ids vs) (zip ids vs) = []"
      using spec self by (intro field_changes_self) (auto simp: js_get_def dest: set_zip_rightD)
    then show ?thesis unfolding diff_keyed [OF Some ids ids] Let_def by simp
  qed
qed simp_all

text \<open>C14. A client that holds a board and follows its revisions, each sent as the patch from the one
  before, never refuses a patch and ends with the last revision, whatever the order its copy lists
  fields in, and however rows were added, removed, changed and moved.\<close>

theorem board_delta_follows:
  assumes "document b" "\<forall>a \<in> set revisions. document a" "same_json y b"
  shows "\<exists>r. follow_deltas (\<lambda>b a. diffBoard b a base etag) applyBoardDelta (Some y) b revisions = Some r
    \<and> same_json r (last (b # revisions))"
  by (rule board_codec.follow_same [OF assms])

definition demo_rows :: "json \<Rightarrow> json \<Rightarrow> json" where
  "demo_rows rows extra = JObj [(''tasks'', rows), (''note'', extra)]"

definition demo_row_json :: "string \<Rightarrow> int \<Rightarrow> json" where
  "demo_row_json i n = JObj [(''id'', JStr i), (''n'', JNum (of_int n))]"

definition demo_before :: json where
  "demo_before = demo_rows (JArr [demo_row_json ''a'' 1, demo_row_json ''b'' 2, demo_row_json ''c'' 3]) JNull"

definition demo_after :: json where
  "demo_after = demo_rows (JArr [demo_row_json ''c'' 3, demo_row_json ''d'' 5, demo_row_json ''a'' 7]) (JStr ''x'')"

theorem board_delta_follows_witness:
  "\<exists>r. follow_deltas (\<lambda>b a. diffBoard b a ''e1'' ''e2'') applyBoardDelta (Some demo_before) demo_before [demo_after, demo_before]
     = Some r \<and> same_json r demo_before"
proof -
  have doc: "document demo_before" "document demo_after"
    by (simp_all add: document_def demo_before_def demo_after_def demo_rows_def demo_row_json_def js_wf_def js_keys_def)
  then have "\<forall>a \<in> set [demo_after, demo_before]. document a" by simp
  from board_delta_follows [OF doc(1) this same_json_refl, of "''e1''" "''e2''"] show ?thesis by simp
qed

end
