(* ===== verification/Files_Delta.thy ===== *)
theory Files_Delta
  imports Json Order_Runs
begin

text \<open>
  Row-level deltas between two file representations, \<open>src/lib/filesDelta.ts\<close>. Two values the
  code compares by the strings \<open>JSON.stringify\<close> writes for them are equal values here, fields in
  order. An optional array of a delta is the array or, when absent, the empty one, as
  \<open>?? []\<close> reads it; a collection's order may be absent.
\<close>

definition FILES_DELTA_ROW_KEYS :: "(string \<times> string) list" where
  "FILES_DELTA_ROW_KEYS =
     [(''files'', ''path''), (''projectCatalog'', ''project''), (''flows'', ''id''), (''pipelines'', ''id''),
      (''workflows'', ''id''), (''tasks'', ''id'')]"

record rows_delta =
  row_count :: nat
  row_order :: "string order_item list option"
  row_upsert :: "(string \<times> json) list"

record entries_delta =
  entry_upsert :: "(string \<times> json) list"
  entry_remove :: "string list"

record files_delta =
  files_version :: nat
  files_base :: string
  files_etag :: string
  files_set :: "(string \<times> json) list"
  files_unset :: "string list"
  files_rows :: "(string \<times> rows_delta) list"
  files_entries :: "(string \<times> entries_delta) list"

section \<open>Making a delta\<close>

fun text_id :: "string \<Rightarrow> json \<Rightarrow> string option" where
  "text_id key (JObj held) = (case js_get held key of Some (JStr s) \<Rightarrow> Some s | _ \<Rightarrow> None)"
| "text_id key _ = None"

fun keyedRows :: "json option \<Rightarrow> string \<Rightarrow> string list option" where
  "keyedRows (Some (JArr rows)) key =
     (case those (map (text_id key) rows) of
        None \<Rightarrow> None
      | Some ids \<Rightarrow> if distinct ids then Some ids else None)"
| "keyedRows _ key = None"

text \<open>One row of the loop of \<open>diffRows\<close>: the rows to carry, the order so far, the open run.\<close>

type_synonym rows_loop = "(string \<times> json) list \<times> string order_item list"

definition rows_step :: "string list \<Rightarrow> json list \<Rightarrow> rows_loop \<Rightarrow> string \<times> json \<Rightarrow> rows_loop" where
  "rows_step previousKeys previous acc entry =
     (case (acc, entry) of ((upsert, order), (key, item)) \<Rightarrow>
        (case position_in previousKeys key of
           None \<Rightarrow> (upsert @ [(key, item)], order @ [RowItem key])
         | Some i \<Rightarrow>
             (if previous ! i \<noteq> item then upsert @ [(key, item)] else upsert,
              (case at_last order of
                 Some (RunItem start len) \<Rightarrow>
                   if start + len = i then butlast order @ [RunItem start (len + 1)] else order @ [RunItem i 1]
               | _ \<Rightarrow> order @ [RunItem i 1]))))"

definition same_order :: "nat \<Rightarrow> nat \<Rightarrow> string order_item list \<Rightarrow> bool" where
  "same_order next_length previous_length order \<longleftrightarrow> next_length = previous_length \<and>
     (case order of [RunItem start len] \<Rightarrow> start = 0 | _ \<Rightarrow> False)"

definition diffRows :: "json list \<Rightarrow> json list \<Rightarrow> string list \<Rightarrow> string list \<Rightarrow> rows_delta option" where
  "diffRows previous next previousKeys nextKeys =
     (case foldl (rows_step previousKeys previous) ([], []) (zip nextKeys next) of
        (upsert, order) \<Rightarrow>
          (let same = same_order (length next) (length previous) order in
           if upsert = [] \<and> (same \<or> next = [] \<and> previous = []) then None
           else Some \<lparr>row_count = length next, row_order = (if same then None else Some order), row_upsert = upsert\<rparr>))"

definition diffEntries :: "(string \<times> json) list \<Rightarrow> (string \<times> json) list \<Rightarrow> entries_delta option" where
  "diffEntries previous next =
     (let upsert = filter (\<lambda>(k, item). js_get previous k \<noteq> Some item) next;
          remove = filter (\<lambda>k. \<not> js_has next k) (js_keys previous)
      in if upsert = [] \<and> remove = [] then None else Some \<lparr>entry_upsert = upsert, entry_remove = remove\<rparr>)"

datatype field_diff =
    NoChange
  | SetField json
  | RowsField rows_delta
  | EntriesField entries_delta

text \<open>The body of the loop over the fields of the new representation.\<close>

definition whole_field :: "json option \<Rightarrow> json \<Rightarrow> field_diff" where
  "whole_field before item = (if before \<noteq> Some item then SetField item else NoChange)"

definition diff_field :: "(string \<times> json) list \<Rightarrow> string \<Rightarrow> json \<Rightarrow> field_diff" where
  "diff_field previous name item =
     (let before = js_get previous name in
      case js_get FILES_DELTA_ROW_KEYS name of
        Some rowKey \<Rightarrow>
          (case (before, keyedRows before rowKey, item, keyedRows (Some item) rowKey) of
             (Some (JArr rows), Some previousKeys, JArr rows', Some nextKeys) \<Rightarrow>
               (case diffRows rows rows' previousKeys nextKeys of None \<Rightarrow> NoChange | Some d \<Rightarrow> RowsField d)
           | _ \<Rightarrow> whole_field before item)
      | None \<Rightarrow>
          (case (before, item) of
             (Some (JObj held), JObj held') \<Rightarrow>
               (case diffEntries held held' of None \<Rightarrow> NoChange | Some d \<Rightarrow> EntriesField d)
           | _ \<Rightarrow> whole_field before item))"

definition diffFilesRepresentations ::
  "(string \<times> json) list \<Rightarrow> (string \<times> json) list \<Rightarrow> string \<Rightarrow> string \<Rightarrow> files_delta" where
  "diffFilesRepresentations previous next base etag =
     \<lparr>files_version = 1, files_base = base, files_etag = etag,
      files_set = concat (map (\<lambda>(f, item). case diff_field previous f item of SetField v \<Rightarrow> [(f, v)] | _ \<Rightarrow> []) next),
      files_unset = filter (\<lambda>f. \<not> js_has next f) (js_keys previous),
      files_rows = concat (map (\<lambda>(f, item). case diff_field previous f item of RowsField d \<Rightarrow> [(f, d)] | _ \<Rightarrow> []) next),
      files_entries = concat (map (\<lambda>(f, item). case diff_field previous f item of EntriesField d \<Rightarrow> [(f, d)] | _ \<Rightarrow> []) next)\<rparr>"

section \<open>Applying a delta\<close>

text \<open>
  A row of the base, or the row sent in its place; \<open>row[key]\<close> throws on \<open>null\<close> only, and is
  undefined on any other value that is no object.
\<close>

fun kept_row :: "(string, json) js_map \<Rightarrow> string \<Rightarrow> json \<Rightarrow> json option" where
  "kept_row upsert key JNull = None"
| "kept_row upsert key row =
     Some (case text_id key row of None \<Rightarrow> row | Some i \<Rightarrow> (case js_get upsert i of None \<Rightarrow> row | Some sent \<Rightarrow> sent))"

fun rows_of_item :: "(string, json) js_map \<Rightarrow> string \<Rightarrow> json list \<Rightarrow> string order_item \<Rightarrow> json list option" where
  "rows_of_item upsert key rows (RowItem i) = map_option (\<lambda>row. [row]) (js_get upsert i)"
| "rows_of_item upsert key rows (RunItem start len) =
     (if len < 1 \<or> start + len > length rows then None
      else those (map (kept_row upsert key) (take len (drop start rows))))"

definition applyRows :: "json option \<Rightarrow> string \<Rightarrow> rows_delta \<Rightarrow> json list option" where
  "applyRows previous key change =
     (case previous of
        Some (JArr rows) \<Rightarrow>
          (let upsert = js_map_of (row_upsert change) in
           case (case row_order change of
                   None \<Rightarrow> those (map (kept_row upsert key) rows)
                 | Some order \<Rightarrow> map_option concat (those (map (rows_of_item upsert key rows) order))) of
             Some next \<Rightarrow> if length next = row_count change then Some next else None
           | None \<Rightarrow> None)
      | _ \<Rightarrow> None)"

definition applyEntries :: "json option \<Rightarrow> entries_delta \<Rightarrow> (string \<times> json) list option" where
  "applyEntries previous change =
     (case previous of
        Some (JObj held) \<Rightarrow>
          (let upsert = js_map_of (entry_upsert change);
               kept = map (\<lambda>(k, v). (k, case js_get upsert k of None \<Rightarrow> v | Some replaced \<Rightarrow> replaced))
                 (filter (\<lambda>(k, v). k \<notin> set (entry_remove change)) held);
               left = filter (\<lambda>(k, v). k \<notin> set (js_keys kept)) upsert
           in Some (js_map_of (kept @ left)))
      | _ \<Rightarrow> None)"

definition apply_rows_field :: "(string \<times> json) list \<Rightarrow> string \<times> rows_delta \<Rightarrow> (string \<times> json) option" where
  "apply_rows_field previous change =
     (case js_get FILES_DELTA_ROW_KEYS (fst change) of
        None \<Rightarrow> None
      | Some key \<Rightarrow>
          map_option (\<lambda>rows. (fst change, JArr rows)) (applyRows (js_get previous (fst change)) key (snd change)))"

definition apply_entries_field :: "(string \<times> json) list \<Rightarrow> string \<times> entries_delta \<Rightarrow> (string \<times> json) option" where
  "apply_entries_field previous change =
     map_option (\<lambda>held. (fst change, JObj held)) (applyEntries (js_get previous (fst change)) (snd change))"

definition applyFilesDelta :: "(string \<times> json) list \<Rightarrow> files_delta \<Rightarrow> (string \<times> json) list option" where
  "applyFilesDelta previous delta =
     (if files_version delta \<noteq> 1 then None
      else
        (case (those (map (apply_rows_field previous) (files_rows delta)),
               those (map (apply_entries_field previous) (files_entries delta))) of
           (Some rows, Some entries) \<Rightarrow>
             Some (fold (\<lambda>(f, v). js_set f v) (files_set delta @ rows @ entries)
               (fold js_delete (files_unset delta) previous))
         | _ \<Rightarrow> None))"

end
