(* ===== verification/Files_Delta_Roundtrip.thy ===== *)
theory Files_Delta_Roundtrip
  imports Files_Delta
begin

text \<open>
  A files delta applied to what it was made from gives the document it was made for, whatever the
  order of fields in the client's copy.
\<close>

section \<open>The rows of a collection\<close>

definition changed_row :: "string list \<Rightarrow> json list \<Rightarrow> string \<times> json \<Rightarrow> bool" where
  "changed_row ids rows e \<longleftrightarrow> (case position_in ids (fst e) of None \<Rightarrow> True | Some i \<Rightarrow> rows ! i \<noteq> snd e)"

lemma rows_step_shape:
  "rows_step ids rows (upsert, order) e =
     (upsert @ (if changed_row ids rows e then [e] else []), compact_step ids order (fst e))"
  by (cases e) (simp add: rows_step_def compact_step_def changed_row_def split: option.split)

lemma rows_loop_shape:
  "foldl (rows_step ids rows) (upsert, order) es =
     (upsert @ filter (changed_row ids rows) es, foldl (compact_step ids) order (map fst es))"
  by (induction es arbitrary: upsert order) (simp_all add: rows_step_shape)

lemma text_id_row_key: "text_id key row = Some i \<Longrightarrow> \<exists>held. row = JObj held \<and> js_get held key = Some (JStr i)"
  by (cases row) (auto split: option.splits json.splits)

lemma same_text_id: "same_json v w \<Longrightarrow> text_id key v = text_id key w"
proof (cases v)
  case (JObj fs)
  moreover assume "same_json v w"
  ultimately obtain gs where w: "w = JObj gs" and rel: "rel_option same_json (js_get fs key) (js_get gs key)" by auto
  show ?thesis
  proof (cases "js_get fs key")
    case (Some x)
    with rel show ?thesis by (cases "js_get gs key"; cases x) (auto simp: JObj w)
  qed (use rel JObj w in simp)
qed auto

definition keyed :: "string \<Rightarrow> json list \<Rightarrow> string list \<Rightarrow> bool" where
  "keyed key rows ids \<longleftrightarrow> distinct ids \<and> list_all2 (\<lambda>row i. text_id key row = Some i) rows ids"

lemma keyedRows_keyed: "keyedRows (Some (JArr rows)) key = Some ids \<Longrightarrow> keyed key rows ids"
proof -
  have "those (map f xs) = Some ys \<Longrightarrow> list_all2 (\<lambda>x y. f x = Some y) xs ys" for f :: "json \<Rightarrow> string option" and xs ys
    by (induction xs arbitrary: ys) (auto split: option.splits)
  moreover assume "keyedRows (Some (JArr rows)) key = Some ids"
  ultimately show "keyed key rows ids" by (auto simp: keyed_def split: option.splits if_splits)
qed

lemma keyed_same: "keyed key rows ids \<Longrightarrow> list_all2 same_json ys rows \<Longrightarrow> keyed key ys ids"
  by (auto simp: keyed_def list_all2_conv_all_nth same_text_id)

lemma keyed_length: "keyed key rows ids \<Longrightarrow> length rows = length ids"
  by (auto simp: keyed_def list_all2_lengthD)

text \<open>The row a client ends with for an identity: the one sent, or its own.\<close>

definition row_after :: "(string, json) js_map \<Rightarrow> string list \<Rightarrow> json list \<Rightarrow> string \<Rightarrow> json" where
  "row_after upsert ids rows k =
     (case js_get upsert k of Some row \<Rightarrow> row | None \<Rightarrow> the (js_get (zip ids rows) k))"

lemma kept_row_after:
  assumes "keyed key rows ids" "i < length rows"
  shows "kept_row upsert key (rows ! i) = Some (row_after upsert ids rows (ids ! i))"
proof -
  from assms have row: "text_id key (rows ! i) = Some (ids ! i)" "distinct ids" "length ids = length rows"
    by (auto simp: keyed_def list_all2_conv_all_nth)
  from text_id_row_key [OF row(1)] obtain held where held: "rows ! i = JObj held" by blast
  have "js_get (zip ids rows) (ids ! i) = Some (rows ! i)"
    using row(2,3) assms(2) by (simp add: js_get_def map_of_zip_nth)
  with row(1) held show ?thesis
    by (auto simp: row_after_def split: option.splits)
qed

lemma kept_rows_after:
  assumes "keyed key rows ids"
  shows "those (map (kept_row upsert key) (take n (drop s rows))) = Some (map (row_after upsert ids rows) (take n (drop s ids)))"
proof -
  have "map (kept_row upsert key) rows = map (Some \<circ> row_after upsert ids rows) ids"
    using kept_row_after [OF assms] keyed_length [OF assms] by (intro nth_equalityI) simp_all
  then have "map (kept_row upsert key) (take n (drop s rows)) = map (Some \<circ> row_after upsert ids rows) (take n (drop s ids))"
    by (simp add: take_map [symmetric] drop_map [symmetric])
  moreover have "those (map (Some \<circ> f) xs) = Some (map f xs)" for f :: "string \<Rightarrow> json" and xs
    by (induction xs) auto
  ultimately show ?thesis by simp
qed

lemma rows_of_item_after:
  assumes "keyed key rows ids" "expand_item ids item = Some ks" "\<And>k. item = RowItem k \<Longrightarrow> js_has upsert k"
  shows "rows_of_item upsert key rows item = Some (map (row_after upsert ids rows) ks)"
proof (cases item)
  case (RowItem k)
  with assms(3) have "js_has upsert k" by simp
  with RowItem assms(2) show ?thesis by (auto simp: js_has_def row_after_def)
next
  case (RunItem s n)
  with assms(2) have "\<not> (n < 1 \<or> s + n > length rows)" "ks = take n (drop s ids)"
    using keyed_length [OF assms(1)] by (auto split: if_splits)
  with RunItem show ?thesis by (simp only: rows_of_item.simps if_False kept_rows_after [OF assms(1)])
qed

lemma rows_of_order_after:
  assumes "keyed key rows ids" "expands_to ids items ks" "\<And>k. RowItem k \<in> set items \<Longrightarrow> js_has upsert k"
  shows "map_option concat (those (map (rows_of_item upsert key rows) items)) = Some (map (row_after upsert ids rows) ks)"
  using assms(2,3)
proof (induction items arbitrary: ks)
  case Nil
  then show ?case by (simp add: expands_to_def)
next
  case (Cons item items)
  from Cons.prems(1) obtain bs cs where parts: "expand_item ids item = Some bs" "expands_to ids items cs" "ks = bs @ cs"
    by (auto simp: expands_to_def split: option.splits)
  have "rows_of_item upsert key rows item = Some (map (row_after upsert ids rows) bs)"
    using parts(1) Cons.prems(2) by (intro rows_of_item_after [OF assms(1)]) auto
  with Cons.IH [OF parts(2)] Cons.prems(2) parts(3) show ?case by auto
qed

lemma compact_order_new: "RowItem k \<in> set (compact_order ids order) \<Longrightarrow> k \<in> set order \<and> position_in ids k = None"
proof -
  have "RowItem k \<in> set (foldl (compact_step ids) acc order) \<Longrightarrow>
      RowItem k \<in> set acc \<or> (k \<in> set order \<and> position_in ids k = None)" for acc
  proof (induction order arbitrary: acc)
    case (Cons k' order)
    from Cons.IH [of "compact_step ids acc k'"] Cons.prems
    have "RowItem k \<in> set (compact_step ids acc k') \<or> (k \<in> set order \<and> position_in ids k = None)" by simp
    then show ?case
      by (auto simp: compact_step_def split: option.splits order_item.splits if_splits dest: in_set_butlastD)
  qed simp
  from this [of "[]"] show "RowItem k \<in> set (compact_order ids order) \<Longrightarrow> k \<in> set order \<and> position_in ids k = None"
    by (simp add: compact_order_def)
qed

lemma js_get_filter:
  "distinct (map fst es) \<Longrightarrow> js_get (filter P es) k = (case js_get es k of None \<Rightarrow> None | Some v \<Rightarrow> if P (k, v) then Some v else None)"
  by (induction es) (auto simp: js_get_def map_of_eq_None_iff split: option.splits)

lemma row_after_same:
  assumes b: "keyed key before ids" and a: "keyed key after nids" and y: "list_all2 same_json ys before"
  shows "list_all2 same_json (map (row_after (filter (changed_row ids before) (zip nids after)) ids ys) nids) after"
proof (rule list_all2_all_nthI)
  let ?up = "filter (changed_row ids before) (zip nids after)"
  note lens = keyed_length [OF a] keyed_length [OF b] list_all2_lengthD [OF y]
  show "length (map (row_after ?up ids ys) nids) = length after" using lens by simp
  fix i assume "i < length (map (row_after ?up ids ys) nids)"
  then have i: "i < length nids" "i < length after" using lens by auto
  have sent: "js_get (zip nids after) (nids ! i) = Some (after ! i)"
    using a i lens by (simp add: keyed_def js_get_def map_of_zip_nth)
  have d: "distinct (map fst (zip nids after))" using a lens by (simp add: keyed_def)
  show "same_json (map (row_after ?up ids ys) nids ! i) (after ! i)"
  proof (cases "changed_row ids before (nids ! i, after ! i)")
    case True
    with sent d i show ?thesis by (simp add: row_after_def js_get_filter)
  next
    case False
    then obtain j where j: "position_in ids (nids ! i) = Some j" "before ! j = after ! i"
      by (auto simp: changed_row_def split: option.splits)
    note at = position_in_Some [OF j(1)]
    have "js_get (zip ids ys) (ids ! j) = Some (ys ! j)"
      using map_of_zip_nth [of ids ys j] at(1) b lens by (simp add: keyed_def js_get_def)
    moreover have "same_json (ys ! j) (before ! j)" using y at lens by (simp add: list_all2_conv_all_nth)
    ultimately show ?thesis using False sent d i at j by (simp add: row_after_def js_get_filter)
  qed
qed

lemma same_order_ids:
  assumes "same_order (length after) (length before) (compact_order ids nids)"
    and "length nids = length after" "length ids = length before"
  shows "nids = ids"
proof -
  from assms(1) obtain len where order: "compact_order ids nids = [RunItem 0 len]" "length after = length before"
    by (auto simp: same_order_def split: list.splits order_item.splits)
  with compact_order_expands [of ids nids] have "nids = take len ids"
    by (auto simp: expands_to_def split: if_splits)
  with assms(2,3) order(2) show ?thesis by (auto simp: min_def split: if_splits)
qed

definition rows_followed :: "json list \<Rightarrow> string \<Rightarrow> rows_delta option \<Rightarrow> json list \<Rightarrow> bool" where
  "rows_followed ys key d after =
     (case d of
        None \<Rightarrow> list_all2 same_json ys after
      | Some d \<Rightarrow> \<exists>rs. applyRows (Some (JArr ys)) key d = Some rs \<and> list_all2 same_json rs after)"

lemma rows_follow:
  assumes b: "keyed key before ids" and a: "keyed key after nids" and y: "list_all2 same_json ys before"
  shows "rows_followed ys key (diffRows before after ids nids) after"
proof -
  let ?up = "filter (changed_row ids before) (zip nids after)"
  let ?order = "compact_order ids nids"
  let ?same = "same_order (length after) (length before) ?order"
  let ?rs = "map (row_after ?up ids ys) nids"
  note lens = keyed_length [OF a] keyed_length [OF b] list_all2_lengthD [OF y]
  note yk = keyed_same [OF b y]
  have keys: "map fst (zip nids after) = nids" using lens by simp
  then have loop: "foldl (rows_step ids before) ([], []) (zip nids after) = (?up, ?order)"
    by (simp only: rows_loop_shape append_Nil compact_order_def)
  have "distinct (map fst ?up)" using a lens by (intro distinct_map_filter) (simp add: keyed_def)
  then have up: "js_map_of ?up = ?up" by (rule js_map_of_distinct)
  have same_rs: "list_all2 same_json ?rs after" by (rule row_after_same [OF b a y])
  have rsl: "length ?rs = length after" using lens by simp
  have kept: "those (map (kept_row ?up key) ys) = Some ?rs" if ?same
  proof -
    have "nids = ids" using same_order_ids [OF that] lens by simp
    with kept_rows_after [OF yk, of ?up "length ys" 0] lens show ?thesis by simp
  qed
  have moved: "map_option concat (those (map (rows_of_item ?up key ys) ?order)) = Some ?rs"
  proof (rule rows_of_order_after [OF yk compact_order_expands])
    fix k assume "RowItem k \<in> set ?order"
    from compact_order_new [OF this] have k: "k \<in> set nids" "position_in ids k = None" by auto
    then obtain i where "i < length nids" "nids ! i = k" by (auto simp: in_set_conv_nth)
    then have "(k, after ! i) \<in> set ?up" using k(2) lens by (force simp: changed_row_def in_set_zip)
    then show "js_has ?up k" by (force simp: js_has_iff js_keys_def)
  qed
  show ?thesis
  proof (cases "?up = [] \<and> (?same \<or> after = [] \<and> before = [])")
    case True
    have "list_all2 same_json ys after"
    proof (cases ?same)
      case True': True
      have "nids = ids" using same_order_ids [OF True'] lens by simp
      moreover have "map (row_after [] ids ys) ids = ys"
        using keyed_length [OF yk] yk
        by (intro nth_equalityI) (simp_all add: row_after_def keyed_def js_get_def map_of_zip_nth)
      ultimately show ?thesis using same_rs True by simp
    qed (use True y in auto)
    with True show ?thesis by (simp add: rows_followed_def diffRows_def loop)
  next
    case False
    then have "diffRows before after ids nids =
        Some \<lparr>row_count = length after, row_order = (if ?same then None else Some ?order), row_upsert = ?up\<rparr>"
      by (simp add: diffRows_def loop Let_def)
    moreover have "applyRows (Some (JArr ys)) key
        \<lparr>row_count = length after, row_order = (if ?same then None else Some ?order), row_upsert = ?up\<rparr> = Some ?rs"
    proof (cases ?same)
      case True
      with kept rsl show ?thesis by (simp add: applyRows_def up)
    next
      case False
      with rsl show ?thesis
        by (simp only: applyRows_def up Let_def rows_delta.simps if_False option.case json.case moved refl if_True)
    qed
    ultimately show ?thesis using same_rs by (simp add: rows_followed_def)
  qed
qed

section \<open>The fields of a record\<close>

lemma js_get_map_of: "js_get (js_map_of es) k = map_of (rev es) k"
  by (simp add: js_map_of_def js_get_sets split: option.splits)

lemma map_of_rev_distinct: "distinct (map fst m) \<Longrightarrow> map_of (rev m) k = map_of m k"
proof (induction m)
  case (Cons e m)
  then have "map_of m (fst e) = None" by (simp add: map_of_eq_None_iff)
  with Cons show ?case by (auto simp: map_add_def split: option.splits)
qed simp

lemma js_wf_get_rev: "js_wf m \<Longrightarrow> map_of (rev m) k = js_get m k"
  by (simp add: js_wf_def js_keys_def js_get_def map_of_rev_distinct)

lemma js_get_filter_wf:
  "js_wf m \<Longrightarrow> js_get (filter P m) k = (case js_get m k of None \<Rightarrow> None | Some v \<Rightarrow> if P (k, v) then Some v else None)"
  by (intro js_get_filter) (simp add: js_wf_def js_keys_def)

lemma js_get_filter_keys:
  "js_wf n \<Longrightarrow> js_get (filter (\<lambda>(k, v). k \<notin> set (js_keys m)) n) k = (if js_get m k = None then js_get n k else None)"
  using js_get_None_iff [of m k] by (cases "js_get n k") (simp_all add: js_get_filter_wf)

lemma js_get_append: "js_get (m @ n) k = (case js_get m k of Some v \<Rightarrow> Some v | None \<Rightarrow> js_get n k)"
  by (simp add: js_get_def map_add_def split: option.splits)

lemma js_get_map_pairs: "js_get (map (\<lambda>(k, v). (k, g k v)) m) k = map_option (g k) (js_get m k)"
  by (induction m) (auto simp: js_get_def)

lemma js_keys_map_pairs [simp]: "js_keys (map (\<lambda>(k, v). (k, g k v)) m) = js_keys m"
  by (induction m) (auto simp: js_keys_def)

lemma js_wf_filter: "js_wf m \<Longrightarrow> js_wf (filter P m)"
  unfolding js_wf_def js_keys_def by (rule distinct_map_filter)

lemma entries_get:
  assumes "js_wf held" "js_wf (entry_upsert d)"
  obtains r where "applyEntries (Some (JObj held)) d = Some r" "js_wf r"
    "\<And>k. js_get r k = (case js_get (entry_upsert d) k of Some v \<Rightarrow> Some v
       | None \<Rightarrow> if k \<in> set (entry_remove d) then None else js_get held k)"
proof -
  let ?up = "entry_upsert d"
  let ?kept = "map (\<lambda>(k, v). (k, case js_get ?up k of None \<Rightarrow> v | Some replaced \<Rightarrow> replaced))
    (filter (\<lambda>(k, v). k \<notin> set (entry_remove d)) held)"
  let ?left = "filter (\<lambda>(k, v). k \<notin> set (js_keys ?kept)) ?up"
  have up: "js_map_of ?up = ?up" using assms(2) by (intro js_map_of_distinct) (simp add: js_wf_def js_keys_def)
  have disjoint: "js_wf m \<Longrightarrow> js_wf n \<Longrightarrow> js_wf (m @ filter (\<lambda>(k, v). k \<notin> set (js_keys m)) n)"
    for m n :: "(string \<times> json) list"
    using js_wf_filter [of n "\<lambda>(k, v). k \<notin> set (js_keys m)"] by (force simp: js_wf_def js_keys_def)
  have "js_wf ?kept" using js_wf_filter [OF assms(1)] by (simp add: js_wf_def)
  from disjoint [OF this assms(2)] have "js_wf (?kept @ ?left)" .
  then have all: "js_map_of (?kept @ ?left) = ?kept @ ?left" "js_wf (?kept @ ?left)"
    by (auto intro!: js_map_of_distinct simp: js_wf_def js_keys_def)
  have get: "js_get (?kept @ ?left) k = (case js_get ?up k of Some v \<Rightarrow> Some v
       | None \<Rightarrow> if k \<in> set (entry_remove d) then None else js_get held k)" for k
  proof -
    have kept: "js_get ?kept k = (case js_get held k of None \<Rightarrow> None
        | Some v \<Rightarrow> if k \<in> set (entry_remove d) then None
            else Some (case js_get ?up k of None \<Rightarrow> v | Some replaced \<Rightarrow> replaced))"
      by (simp add: js_get_map_pairs js_get_filter_wf [OF assms(1)] split: option.split)
    show ?thesis unfolding js_get_append js_get_filter_keys [OF assms(2)] kept
      by (cases "js_get held k"; cases "js_get ?up k") auto
  qed
  have "applyEntries (Some (JObj held)) d = Some (?kept @ ?left)"
    by (simp only: applyEntries_def option.case json.case up Let_def all(1))
  from that [OF this all(2) get] show ?thesis .
qed

lemma json_wf_obj: "json_wf (JObj m) \<longleftrightarrow> js_wf m \<and> (\<forall>k v. js_get m k = Some v \<longrightarrow> json_wf v)"
proof -
  have mem: "\<forall>k v. (k, v) \<in> set m \<longleftrightarrow> js_get m k = Some v" if "js_wf m"
    using that by (simp add: js_wf_def js_keys_def js_get_def)
  have "list_all (\<lambda>(k, v). json_wf v) m \<longleftrightarrow> (\<forall>k v. (k, v) \<in> set m \<longrightarrow> json_wf v)" by (auto simp: list_all_iff)
  with mem show ?thesis by (metis json_wf.simps(2))
qed

lemma diffEntries_gets:
  assumes "js_wf held'" "diffEntries held held' = Some d"
  shows "js_wf (entry_upsert d)"
    and "js_get (entry_upsert d) k = (if js_get held k = js_get held' k then None else js_get held' k)"
    and "k \<in> set (entry_remove d) \<longleftrightarrow> js_get held k \<noteq> None \<and> js_get held' k = None"
proof -
  from assms(2) have d: "entry_upsert d = filter (\<lambda>(k, item). js_get held k \<noteq> Some item) held'"
    "entry_remove d = filter (\<lambda>k. \<not> js_has held' k) (js_keys held)"
    by (auto simp: diffEntries_def Let_def split: if_splits)
  show "js_wf (entry_upsert d)" unfolding d by (rule js_wf_filter [OF assms(1)])
  show "js_get (entry_upsert d) k = (if js_get held k = js_get held' k then None else js_get held' k)"
    unfolding d js_get_filter_wf [OF assms(1)] by (auto split: option.splits)
  show "k \<in> set (entry_remove d) \<longleftrightarrow> js_get held k \<noteq> None \<and> js_get held' k = None"
    unfolding d by (auto simp: js_has_def js_get_None_iff)
qed

lemma diffEntries_None:
  assumes "diffEntries held held' = None" "js_wf held'"
  shows "js_get held k = js_get held' k"
proof (cases "js_get held' k")
  case None
  from assms(1) have "filter (\<lambda>k. \<not> js_has held' k) (js_keys held) = []"
    by (auto simp: diffEntries_def Let_def split: if_splits)
  with None show ?thesis by (auto simp: filter_empty_conv js_has_iff js_get_None_iff)
      (metis js_get_None_iff)
next
  case (Some v)
  then have "(k, v) \<in> set held'" by (auto simp: js_get_def map_of_SomeD)
  with assms(1) Some show ?thesis by (auto simp: diffEntries_def Let_def filter_empty_conv split: if_splits)
qed

lemma entries_follow:
  assumes wf: "json_wf (JObj ys)" "json_wf (JObj held')" and y: "same_json (JObj ys) (JObj held)"
  shows "case diffEntries held held' of
      None \<Rightarrow> same_json (JObj ys) (JObj held')
    | Some d \<Rightarrow> \<exists>r. applyEntries (Some (JObj ys)) d = Some r \<and> json_wf (JObj r) \<and> same_json (JObj r) (JObj held')"
proof (cases "diffEntries held held'")
  case None
  with y diffEntries_None [OF None] wf(2) show ?thesis by simp
next
  case (Some d)
  have w': "js_wf held'" using wf(2) by simp
  note g = diffEntries_gets [OF w' Some]
  have "js_wf ys" using wf(1) by simp
  then obtain r where r: "applyEntries (Some (JObj ys)) d = Some r" "js_wf r"
    "\<And>k. js_get r k = (case js_get (entry_upsert d) k of Some v \<Rightarrow> Some v
       | None \<Rightarrow> if k \<in> set (entry_remove d) then None else js_get ys k)"
    using entries_get g(1) by blast
  have rel: "rel_option same_json (js_get r k) (js_get held' k)" for k
    using y g(2,3) [of k]
    by (cases "js_get held' k"; cases "js_get held k") (auto simp: r(3) dest: spec [of _ k])
  have "json_wf v" if "js_get r k = Some v" for k v
    using that wf [unfolded json_wf_obj] g(2) [of k]
    by (auto simp: r(3) simp del: json_wf.simps split: option.splits if_splits)
  with r(1,2) rel Some show ?thesis by (auto simp: json_wf_obj simp del: json_wf.simps)
qed

lemma rows_result_wf:
  assumes "applyRows (Some (JArr ys)) key d = Some rs" "list_all json_wf ys" "\<forall>(k, v) \<in> set (row_upsert d). json_wf v"
  shows "list_all json_wf rs"
proof -
  let ?up = "js_map_of (row_upsert d)"
  have up: "json_wf v" if "js_get ?up k = Some v" for k v
    using that assms(3) by (auto simp: js_get_map_of dest!: map_of_SomeD)
  have kept: "json_wf r" if "kept_row ?up key row = Some r" "json_wf row" for row r
    using that up by (cases row) (auto split: option.splits)
  have many: "list_all json_wf qs" if "those (map (kept_row ?up key) rows) = Some qs" "list_all json_wf rows" for rows qs
    using that by (induction rows arbitrary: qs) (auto split: option.splits intro: kept)
  have item: "list_all json_wf qs" if "rows_of_item ?up key ys it = Some qs" for it qs
  proof (cases it)
    case (RunItem s n)
    moreover have "list_all json_wf (take n (drop s ys))"
      using assms(2) by (auto simp: list_all_iff dest: in_set_takeD in_set_dropD)
    ultimately show ?thesis using that by (auto intro: many split: if_splits)
  qed (use that up in auto)
  have items: "list_all json_wf (concat qss)" if "those (map (rows_of_item ?up key ys) items) = Some qss" for items qss
    using that by (induction items arbitrary: qss) (auto split: option.splits dest: item)
  show ?thesis using assms(1,2) many items
    by (auto simp: applyRows_def Let_def split: option.splits if_splits)
qed

section \<open>One field of the representation\<close>

lemma diffRows_sends: "diffRows before after ids nids = Some d \<Longrightarrow> set (row_upsert d) \<subseteq> set (zip nids after)"
  by (auto simp: diffRows_def rows_loop_shape Let_def split: if_splits)

definition field_followed :: "(string \<times> json) list \<Rightarrow> string \<Rightarrow> json \<Rightarrow> field_diff \<Rightarrow> bool" where
  "field_followed ys f item c =
     (case c of
        NoChange \<Rightarrow> \<exists>v. js_get ys f = Some v \<and> same_json v item
      | SetField v \<Rightarrow> v = item
      | RowsField d \<Rightarrow> \<exists>r. apply_rows_field ys (f, d) = Some (f, r) \<and> json_wf r \<and> same_json r item
      | EntriesField d \<Rightarrow> \<exists>r. apply_entries_field ys (f, d) = Some (f, r) \<and> json_wf r \<and> same_json r item)"

lemma whole_field_followed:
  assumes "rel_option same_json (js_get ys f) before"
  shows "field_followed ys f item (whole_field before item)"
  using assms by (cases "js_get ys f"; cases before) (auto simp: whole_field_def field_followed_def)

lemma rows_field_followed:
  assumes key: "js_get FILES_DELTA_ROW_KEYS f = Some key" and y: "js_get ys f = Some (JArr qs)"
    and same: "list_all2 same_json qs rows" and wf: "list_all json_wf qs" "list_all json_wf rows'"
    and ids: "keyedRows (Some (JArr rows)) key = Some ids" "keyedRows (Some (JArr rows')) key = Some nids"
  shows "field_followed ys f (JArr rows') (case diffRows rows rows' ids nids of None \<Rightarrow> NoChange | Some d \<Rightarrow> RowsField d)"
proof (cases "diffRows rows rows' ids nids")
  case None
  with rows_follow [OF keyedRows_keyed [OF ids(1)] keyedRows_keyed [OF ids(2)] same] y show ?thesis
    by (simp add: rows_followed_def field_followed_def)
next
  case (Some d)
  with rows_follow [OF keyedRows_keyed [OF ids(1)] keyedRows_keyed [OF ids(2)] same]
  obtain rs where rs: "applyRows (Some (JArr qs)) key d = Some rs" "list_all2 same_json rs rows'"
    by (auto simp: rows_followed_def)
  have "\<forall>(k, v) \<in> set (row_upsert d). json_wf v"
    using diffRows_sends [OF Some] wf(2) by (fastforce simp: list_all_iff dest: set_zip_rightD)
  from rows_result_wf [OF rs(1) wf(1) this] rs key y Some show ?thesis
    by (simp add: field_followed_def apply_rows_field_def)
qed

lemma entries_field_followed:
  assumes y: "js_get ys f = Some (JObj qs)" and same: "same_json (JObj qs) (JObj held)"
    and wf: "json_wf (JObj qs)" "json_wf (JObj held')"
  shows "field_followed ys f (JObj held') (case diffEntries held held' of None \<Rightarrow> NoChange | Some d \<Rightarrow> EntriesField d)"
proof (cases "diffEntries held held'")
  case None
  with entries_follow [OF wf same] y show ?thesis by (simp add: field_followed_def)
next
  case (Some d)
  with entries_follow [OF wf same] obtain r where
    "applyEntries (Some (JObj qs)) d = Some r" "json_wf (JObj r)" "same_json (JObj r) (JObj held')" by auto
  with Some y show ?thesis by (simp add: field_followed_def apply_entries_field_def)
qed

lemma field_follow:
  assumes wf: "json_wf (JObj ys)" "json_wf item" and y: "same_json (JObj ys) (JObj previous)"
  shows "field_followed ys f item (diff_field previous f item)"
proof -
  from y have rel: "rel_option same_json (js_get ys f) (js_get previous f)" by simp
  note whole = whole_field_followed [OF rel, of item]
  show ?thesis
  proof (cases "js_get FILES_DELTA_ROW_KEYS f")
    case None
    show ?thesis
    proof (cases "\<exists>held held'. js_get previous f = Some (JObj held) \<and> item = JObj held'")
      case True
      then obtain held held' where h: "js_get previous f = Some (JObj held)" "item = JObj held'" by blast
      with rel obtain qs where q: "js_get ys f = Some (JObj qs)" "same_json (JObj qs) (JObj held)"
        by (cases "js_get ys f") (auto simp: option_rel_Some2)
      from q(1) wf(1) have "json_wf (JObj qs)" by (rule json_wf_field [rotated])
      from entries_field_followed [OF q this] wf(2) h None show ?thesis by (simp add: diff_field_def)
    next
      case False
      have "diff_field previous f item = whole_field (js_get previous f) item"
        using False None by (auto simp: diff_field_def Let_def split: option.split json.split)
      with whole show ?thesis by simp
    qed
  next
    case (Some key)
    show ?thesis
    proof (cases "\<exists>rows rows' ids nids. js_get previous f = Some (JArr rows) \<and> item = JArr rows'
        \<and> keyedRows (Some (JArr rows)) key = Some ids \<and> keyedRows (Some (JArr rows')) key = Some nids")
      case True
      then obtain rows rows' ids nids where h: "js_get previous f = Some (JArr rows)" "item = JArr rows'"
        and ids: "keyedRows (Some (JArr rows)) key = Some ids" "keyedRows (Some (JArr rows')) key = Some nids" by blast
      with rel obtain qs where q: "js_get ys f = Some (JArr qs)" "list_all2 same_json qs rows"
        by (cases "js_get ys f") (auto simp: option_rel_Some2)
      from q(1) wf(1) have "json_wf (JArr qs)" by (rule json_wf_field [rotated])
      then have "list_all json_wf qs" "list_all json_wf rows'" using wf(2) h(2) by simp_all
      from rows_field_followed [OF Some q this ids] Some h ids show ?thesis
        by (simp only: diff_field_def Let_def option.case json.case prod.case)
    next
      case False
      have "diff_field previous f item = whole_field (js_get previous f) item"
        using False Some by (auto simp: diff_field_def Let_def split: option.split json.split)
      with whole show ?thesis by simp
    qed
  qed
qed

section \<open>The whole representation\<close>

text \<open>One kind of change, as the loops of the code collect it.\<close>

definition of_kind :: "(field_diff \<Rightarrow> 'd option) \<Rightarrow> (string \<times> json) list \<Rightarrow> (string \<times> json) list \<Rightarrow> (string \<times> 'd) list" where
  "of_kind sel previous next =
     concat (map (\<lambda>(f, item). case sel (diff_field previous f item) of Some d \<Rightarrow> [(f, d)] | None \<Rightarrow> []) next)"

fun set_of :: "field_diff \<Rightarrow> json option" where
  "set_of (SetField v) = Some v"
| "set_of _ = None"

fun rows_of :: "field_diff \<Rightarrow> rows_delta option" where
  "rows_of (RowsField d) = Some d"
| "rows_of _ = None"

fun entries_of :: "field_diff \<Rightarrow> entries_delta option" where
  "entries_of (EntriesField d) = Some d"
| "entries_of _ = None"

lemma diff_kinds:
  "files_set (diffFilesRepresentations previous next base etag) = of_kind set_of previous next"
  "files_rows (diffFilesRepresentations previous next base etag) = of_kind rows_of previous next"
  "files_entries (diffFilesRepresentations previous next base etag) = of_kind entries_of previous next"
proof -
  have "(case c of SetField v \<Rightarrow> [(f, v)] | _ \<Rightarrow> []) = (case set_of c of Some d \<Rightarrow> [(f, d)] | None \<Rightarrow> [])"
    and "(case c of RowsField d \<Rightarrow> [(f, d)] | _ \<Rightarrow> []) = (case rows_of c of Some d \<Rightarrow> [(f, d)] | None \<Rightarrow> [])"
    and "(case c of EntriesField d \<Rightarrow> [(f, d)] | _ \<Rightarrow> []) = (case entries_of c of Some d \<Rightarrow> [(f, d)] | None \<Rightarrow> [])"
    for c and f :: string
    by (cases c; simp)+
  then show "files_set (diffFilesRepresentations previous next base etag) = of_kind set_of previous next"
    "files_rows (diffFilesRepresentations previous next base etag) = of_kind rows_of previous next"
    "files_entries (diffFilesRepresentations previous next base etag) = of_kind entries_of previous next"
    by (simp_all only: diffFilesRepresentations_def of_kind_def files_delta.simps)
qed

lemma of_kind_iff:
  "(f, d) \<in> set (of_kind sel previous next) \<longleftrightarrow> (\<exists>item. (f, item) \<in> set next \<and> sel (diff_field previous f item) = Some d)"
  by (force simp: of_kind_def split: option.splits)

lemma of_kind_get:
  "js_wf next \<Longrightarrow> js_get next f = Some item \<Longrightarrow> (f, d) \<in> set (of_kind sel previous next) \<longleftrightarrow> sel (diff_field previous f item) = Some d"
  using map_key_unique [of "next" f] by (auto simp: of_kind_iff js_get_def js_wf_def js_keys_def)

definition same_copy :: "(string \<times> json) list \<Rightarrow> (string \<times> json) list \<Rightarrow> bool" where
  "same_copy ys b \<longleftrightarrow> json_wf (JObj ys) \<and> same_json (JObj ys) (JObj b)"

definition representation :: "(string \<times> json) list \<Rightarrow> bool" where
  "representation b \<longleftrightarrow> json_wf (JObj b)"

text \<open>The changed fields, and what the client puts in each.\<close>

lemma applied_changes:
  assumes fs: "\<And>f item. js_get next f = Some item \<Longrightarrow> field_followed ys f item (diff_field previous f item)"
    and wf: "js_wf next" and sel: "\<And>f item d. sel (diff_field previous f item) = Some d \<Longrightarrow>
      field_followed ys f item (diff_field previous f item) \<Longrightarrow> \<exists>r. app (f, d) = Some (f, r) \<and> json_wf r \<and> same_json r item"
  shows "\<exists>es. those (map app (of_kind sel previous next)) = Some es
    \<and> (\<forall>(f, r) \<in> set es. \<exists>item. js_get next f = Some item \<and> sel (diff_field previous f item) \<noteq> None \<and> json_wf r \<and> same_json r item)
    \<and> (\<forall>f item. js_get next f = Some item \<longrightarrow> sel (diff_field previous f item) \<noteq> None \<longrightarrow> (\<exists>r. (f, r) \<in> set es))"
proof -
  have one: "\<exists>item r. js_get next f = Some item \<and> sel (diff_field previous f item) = Some d \<and> app (f, d) = Some (f, r)
      \<and> json_wf r \<and> same_json r item" if "(f, d) \<in> set (of_kind sel previous next)" for f d
  proof -
    from that obtain item where "(f, item) \<in> set next" "sel (diff_field previous f item) = Some d"
      by (auto simp: of_kind_iff)
    moreover from this(1) wf have "js_get next f = Some item" by (simp add: js_get_def js_wf_def js_keys_def)
    ultimately show ?thesis using fs sel by blast
  qed
  have "\<forall>c \<in> set (of_kind sel previous next). \<exists>y. app c = Some y"
  proof
    fix c assume "c \<in> set (of_kind sel previous next)"
    with one [of "fst c" "snd c"] show "\<exists>y. app c = Some y" by auto
  qed
  from those_Some [OF this] have es: "those (map app (of_kind sel previous next)) = Some (map (the \<circ> app) (of_kind sel previous next))" .
  show ?thesis
  proof (intro exI conjI, rule es)
    show "\<forall>(f, r) \<in> set (map (the \<circ> app) (of_kind sel previous next)).
        \<exists>item. js_get next f = Some item \<and> sel (diff_field previous f item) \<noteq> None \<and> json_wf r \<and> same_json r item"
    proof clarify
      fix f r assume "(f, r) \<in> set (map (the \<circ> app) (of_kind sel previous next))"
      then obtain f' d where c: "(f', d) \<in> set (of_kind sel previous next)" "(f, r) = the (app (f', d))" by auto
      from one [OF c(1)] c(2) show "\<exists>item. js_get next f = Some item \<and> sel (diff_field previous f item) \<noteq> None \<and> json_wf r \<and> same_json r item"
        by auto
    qed
    show "\<forall>f item. js_get next f = Some item \<longrightarrow> sel (diff_field previous f item) \<noteq> None \<longrightarrow>
        (\<exists>r. (f, r) \<in> set (map (the \<circ> app) (of_kind sel previous next)))"
    proof (intro allI impI)
      fix f item assume f: "js_get next f = Some item" "sel (diff_field previous f item) \<noteq> None"
      then obtain d where "sel (diff_field previous f item) = Some d" by blast
      then have d: "(f, d) \<in> set (of_kind sel previous next)" using of_kind_get [OF wf f(1), of d sel previous] by blast
      with one obtain r where "app (f, d) = Some (f, r)" by blast
      with d show "\<exists>r. (f, r) \<in> set (map (the \<circ> app) (of_kind sel previous next))" by force
    qed
  qed
qed

text \<open>All changes together: every field the client writes, and the fields it leaves.\<close>

definition good_write :: "(string \<times> json) list \<Rightarrow> string \<times> json \<Rightarrow> bool" where
  "good_write next w \<longleftrightarrow> (\<exists>item. js_get next (fst w) = Some item \<and> json_wf (snd w) \<and> same_json (snd w) item)"

lemma changes_written:
  assumes y: "same_copy ys previous" and a: "representation next"
  obtains rows entries where
    "those (map (apply_rows_field ys) (of_kind rows_of previous next)) = Some rows"
    "those (map (apply_entries_field ys) (of_kind entries_of previous next)) = Some entries"
    "list_all (good_write next) (of_kind set_of previous next @ rows @ entries)"
    "\<And>f item. js_get next f = Some item \<Longrightarrow> f \<notin> fst ` set (of_kind set_of previous next @ rows @ entries) \<Longrightarrow>
       diff_field previous f item = NoChange"
proof -
  from a have wf: "js_wf next" and items: "\<And>f item. js_get next f = Some item \<Longrightarrow> json_wf item"
    by (auto simp: representation_def json_wf_obj simp del: json_wf.simps)
  have fs: "field_followed ys f item (diff_field previous f item)" if "js_get next f = Some item" for f item
    using y items [OF that] by (intro field_follow) (auto simp: same_copy_def)
  note applied = applied_changes [OF fs wf]
  have r: "\<exists>r. apply_rows_field ys (f, d) = Some (f, r) \<and> json_wf r \<and> same_json r item"
    if "rows_of (diff_field previous f item) = Some d" "field_followed ys f item (diff_field previous f item)" for f item d
    using that by (cases "diff_field previous f item") (auto simp: field_followed_def)
  have e: "\<exists>r. apply_entries_field ys (f, d) = Some (f, r) \<and> json_wf r \<and> same_json r item"
    if "entries_of (diff_field previous f item) = Some d" "field_followed ys f item (diff_field previous f item)" for f item d
    using that by (cases "diff_field previous f item") (auto simp: field_followed_def)
  from applied [of rows_of "apply_rows_field ys", OF _ r] obtain rows where rows:
    "those (map (apply_rows_field ys) (of_kind rows_of previous next)) = Some rows"
    "\<forall>(f, r) \<in> set rows. \<exists>item. js_get next f = Some item \<and> rows_of (diff_field previous f item) \<noteq> None \<and> json_wf r \<and> same_json r item"
    "\<forall>f item. js_get next f = Some item \<longrightarrow> rows_of (diff_field previous f item) \<noteq> None \<longrightarrow> (\<exists>r. (f, r) \<in> set rows)"
    by blast
  from applied [of entries_of "apply_entries_field ys", OF _ e] obtain entries where entries:
    "those (map (apply_entries_field ys) (of_kind entries_of previous next)) = Some entries"
    "\<forall>(f, r) \<in> set entries. \<exists>item. js_get next f = Some item \<and> entries_of (diff_field previous f item) \<noteq> None \<and> json_wf r \<and> same_json r item"
    "\<forall>f item. js_get next f = Some item \<longrightarrow> entries_of (diff_field previous f item) \<noteq> None \<longrightarrow> (\<exists>r. (f, r) \<in> set entries)"
    by blast
  have set_written: "good_write next w" if "w \<in> set (of_kind set_of previous next)" for w
  proof -
    obtain f v where w: "w = (f, v)" by force
    with that obtain item where i: "js_get next f = Some item" "set_of (diff_field previous f item) = Some v"
      using wf by (auto simp: of_kind_iff js_get_def js_wf_def js_keys_def)
    with fs [OF i(1)] have "v = item" by (cases "diff_field previous f item") (auto simp: field_followed_def)
    with i(1) items [OF i(1)] w show ?thesis by (simp add: good_write_def)
  qed
  have all: "list_all (good_write next) (of_kind set_of previous next @ rows @ entries)"
    using set_written rows(2) entries(2) by (fastforce simp: list_all_iff good_write_def)
  have quiet: "diff_field previous f item = NoChange"
    if i: "js_get next f = Some item" and out: "f \<notin> fst ` set (of_kind set_of previous next @ rows @ entries)" for f item
  proof (cases "diff_field previous f item")
    case (SetField v)
    then have "(f, v) \<in> set (of_kind set_of previous next)" using of_kind_get [OF wf i, of v set_of] by simp
    with out show ?thesis by force
  next
    case (RowsField d)
    with rows(3) i obtain r where "(f, r) \<in> set rows" by force
    with out show ?thesis by force
  next
    case (EntriesField d)
    with entries(3) i obtain r where "(f, r) \<in> set entries" by force
    with out show ?thesis by force
  qed
  show ?thesis by (rule that [OF rows(1) entries(1) all quiet])
qed

lemma apply_files_diff:
  assumes "representation b" "representation a" and y: "same_copy ys b"
  shows "\<exists>r. applyFilesDelta ys (diffFilesRepresentations b a base etag) = Some r \<and> same_copy r a"
proof -
  from changes_written [OF y assms(2)] obtain rows entries where
    rows: "those (map (apply_rows_field ys) (of_kind rows_of b a)) = Some rows"
    and entries: "those (map (apply_entries_field ys) (of_kind entries_of b a)) = Some entries"
    and good: "list_all (good_write a) (of_kind set_of b a @ rows @ entries)"
    and quiet: "\<And>f item. js_get a f = Some item \<Longrightarrow> f \<notin> fst ` set (of_kind set_of b a @ rows @ entries) \<Longrightarrow>
       diff_field b f item = NoChange" by blast
  let ?es = "of_kind set_of b a @ rows @ entries" and ?unset = "filter (\<lambda>f. \<not> js_has a f) (js_keys b)"
  let ?r = "fold (\<lambda>(f, v). js_set f v) ?es (fold js_delete ?unset ys)"
  have r: "applyFilesDelta ys (diffFilesRepresentations b a base etag) = Some ?r"
    using rows entries unfolding applyFilesDelta_def diff_kinds
    by (simp add: diffFilesRepresentations_def)
  have wy: "js_wf ys" "\<And>k v. js_get ys k = Some v \<Longrightarrow> json_wf v" "same_json (JObj ys) (JObj b)"
    using y by (auto simp: same_copy_def json_wf_obj simp del: json_wf.simps)
  have at: "rel_option same_json (js_get ?r k) (js_get a k) \<and> (\<forall>v. js_get ?r k = Some v \<longrightarrow> json_wf v)" for k
  proof (cases "map_of (rev ?es) k")
    case (Some v)
    then have "(k, v) \<in> set ?es" by (auto dest!: map_of_SomeD)
    with good have "good_write a (k, v)" by (auto simp: list_all_iff)
    with Some show ?thesis unfolding js_get_sets by (auto simp: good_write_def)
  next
    case None
    then have out: "k \<notin> fst ` set ?es" by (auto simp: map_of_eq_None_iff)
    from None have left: "js_get ?r k = js_get (fold js_delete ?unset ys) k"
      unfolding js_get_sets by (simp only: option.case)
    show ?thesis
    proof (cases "js_get a k")
      case None': None
      have "rel_option same_json (js_get ys k) (js_get b k)" using wy(3) by simp
      then have "js_get (fold js_delete ?unset ys) k = None"
        using None' js_get_None_iff [of b k] by (cases "js_get ys k") (auto simp: js_get_deletes js_has_def)
      with None' show ?thesis unfolding left by simp
    next
      case (Some item)
      have "field_followed ys k item NoChange"
        using field_follow [of ys item b k] quiet [OF Some out] y assms(2) Some
        by (auto simp: same_copy_def representation_def json_wf_obj simp del: json_wf.simps)
      then obtain v where v: "js_get ys k = Some v" "same_json v item" by (auto simp: field_followed_def)
      have "js_get (fold js_delete ?unset ys) k = Some v" using v(1) Some by (simp add: js_get_deletes js_has_def)
      with Some v wy(2) [OF v(1)] show ?thesis unfolding left by simp
    qed
  qed
  have "js_wf (fold js_delete ks m)" if "js_wf m" for ks and m :: "(string \<times> json) list"
    using that by (induction ks arbitrary: m) auto
  with wy(1) have "js_wf ?r" by (intro js_wf_fold) simp
  with at have "same_copy ?r a" by (auto simp: same_copy_def json_wf_obj simp del: json_wf.simps)
  with r show ?thesis by blast
qed

interpretation files_codec: delta_codec "\<lambda>b a. diffFilesRepresentations b a base etag" applyFilesDelta same_copy representation
  by unfold_locales (rule apply_files_diff)

section \<open>Properties\<close>

lemma changed_row_iff:
  assumes "keyed key rows ids" "text_id key row = Some k"
  shows "changed_row ids rows (k, row) \<longleftrightarrow> row \<notin> set rows"
proof -
  from assms(1) have ids: "distinct ids" "length ids = length rows"
    "\<And>i. i < length rows \<Longrightarrow> text_id key (rows ! i) = Some (ids ! i)"
    by (auto simp: keyed_def list_all2_conv_all_nth)
  have there: "row \<in> set rows \<longleftrightarrow> (\<exists>i. position_in ids k = Some i \<and> rows ! i = row)"
  proof
    assume "row \<in> set rows"
    then obtain i where i: "i < length rows" "rows ! i = row" by (auto simp: in_set_conv_nth)
    with ids(3) [OF i(1)] assms(2) have "ids ! i = k" by simp
    with map_of_zip_nth [of ids "[0..<length ids]" i] ids(1,2) i(1)
    have "position_in ids k = Some i" by (simp add: position_in_def js_get_def)
    with i(2) show "\<exists>i. position_in ids k = Some i \<and> rows ! i = row" by blast
  next
    assume "\<exists>i. position_in ids k = Some i \<and> rows ! i = row"
    then obtain i where i: "position_in ids k = Some i" "rows ! i = row" by blast
    from position_in_Some(1) [OF i(1)] ids(2) i(2) show "row \<in> set rows" by (metis nth_mem)
  qed
  show ?thesis unfolding there by (auto simp: changed_row_def split: option.split)
qed

lemma diffRows_upsert:
  assumes "keyed key rows ids" "keyed key rows' nids" "diffRows rows rows' ids nids = Some d"
  shows "(k, row) \<in> set (row_upsert d) \<longleftrightarrow> row \<in> set rows' \<and> text_id key row = Some k \<and> row \<notin> set rows"
proof -
  from assms(3) have "row_upsert d = filter (changed_row ids rows) (zip nids rows')"
    by (auto simp: diffRows_def rows_loop_shape Let_def split: if_splits)
  moreover have "(k, row) \<in> set (zip nids rows') \<longleftrightarrow> row \<in> set rows' \<and> text_id key row = Some k"
    using assms(2) by (force simp: keyed_def list_all2_conv_all_nth in_set_zip in_set_conv_nth)
  ultimately show ?thesis using changed_row_iff [OF assms(1)] by auto
qed

text \<open>C15. A client that holds a file representation and follows its revisions, each sent as the delta
  from the one before, never refuses a delta and ends with the last revision: rows added, dropped,
  moved or changed, record entries set and removed, and whole fields that came or went.\<close>

theorem files_delta_follows:
  assumes "representation b" "\<forall>a \<in> set revisions. representation a" "same_copy ys b"
  shows "\<exists>r. follow_deltas (\<lambda>b a. diffFilesRepresentations b a base etag) applyFilesDelta (Some ys) b revisions = Some r
    \<and> same_copy r (last (b # revisions))"
  by (rule files_codec.follow_same [OF assms])

definition demo_files_row :: "string \<Rightarrow> int \<Rightarrow> json" where
  "demo_files_row p n = JObj [(''path'', JStr p), (''size'', JNum (of_int n))]"

definition demo_files_before :: "(string \<times> json) list" where
  "demo_files_before =
     [(''files'', JArr [demo_files_row ''a'' 1, demo_files_row ''b'' 2, demo_files_row ''c'' 3]),
      (''gone'', JNull), (''counts'', JObj [(''x'', JBool True), (''y'', JBool False)])]"

definition demo_files_after :: "(string \<times> json) list" where
  "demo_files_after =
     [(''files'', JArr [demo_files_row ''c'' 3, demo_files_row ''d'' 4, demo_files_row ''a'' 5]),
      (''counts'', JObj [(''y'', JBool False), (''z'', JNull)]), (''epoch'', JStr ''e'')]"

lemma demo_files_ok: "representation demo_files_before" "representation demo_files_after"
  by (simp_all add: representation_def demo_files_before_def demo_files_after_def demo_files_row_def js_wf_def js_keys_def)

theorem files_delta_follows_witness:
  "\<exists>r. follow_deltas (\<lambda>b a. diffFilesRepresentations b a ''e1'' ''e2'') applyFilesDelta (Some demo_files_before)
       demo_files_before [demo_files_after, demo_files_before] = Some r \<and> same_copy r demo_files_before"
proof -
  have "\<forall>a \<in> set [demo_files_after, demo_files_before]. representation a" by (simp add: demo_files_ok)
  moreover have "same_copy demo_files_before demo_files_before"
    using demo_files_ok by (simp add: same_copy_def representation_def)
  ultimately show ?thesis
    using files_delta_follows [OF demo_files_ok(1), of "[demo_files_after, demo_files_before]" demo_files_before "''e1''" "''e2''"]
    by simp
qed

text \<open>A delta carries exactly the rows that changed: of a keyed collection present before and
  after, a row is sent if and only if it is a row of the new collection that the old one does not
  hold, under its own identity, so an unchanged row is never sent again, wherever it moved.\<close>

theorem files_delta_carries_changes:
  assumes "js_wf next" "js_get FILES_DELTA_ROW_KEYS f = Some key"
    and "js_get previous f = Some (JArr rows)" "js_get next f = Some (JArr rows')"
    and "(f, d) \<in> set (files_rows (diffFilesRepresentations previous next base etag))"
  shows "(k, row) \<in> set (row_upsert d) \<longleftrightarrow> row \<in> set rows' \<and> text_id key row = Some k \<and> row \<notin> set rows"
proof -
  from assms(5) have "rows_of (diff_field previous f (JArr rows')) = Some d"
    unfolding diff_kinds using of_kind_get [OF assms(1,4), of d rows_of previous] by blast
  then obtain ids nids where ids: "keyedRows (Some (JArr rows)) key = Some ids" "keyedRows (Some (JArr rows')) key = Some nids"
    and d: "diffRows rows rows' ids nids = Some d"
    using assms(2,3) by (auto simp: diff_field_def Let_def whole_field_def simp del: keyedRows.simps split: option.splits if_splits)
  show ?thesis by (rule diffRows_upsert [OF keyedRows_keyed [OF ids(1)] keyedRows_keyed [OF ids(2)] d])
qed

definition demo_files_delta :: rows_delta where
  "demo_files_delta = \<lparr>row_count = 3, row_order = Some [RunItem 2 1, RowItem ''d'', RunItem 0 1],
     row_upsert = [(''d'', demo_files_row ''d'' 4), (''a'', demo_files_row ''a'' 5)]\<rparr>"

theorem files_delta_carries_changes_witness:
  "(''a'', demo_files_row ''a'' 5) \<in> set (row_upsert demo_files_delta) \<and>
   (''c'', demo_files_row ''c'' 3) \<notin> set (row_upsert demo_files_delta)"
proof -
  let ?rows = "[demo_files_row ''a'' 1, demo_files_row ''b'' 2, demo_files_row ''c'' 3]"
  let ?rows' = "[demo_files_row ''c'' 3, demo_files_row ''d'' 4, demo_files_row ''a'' 5]"
  have "js_wf demo_files_after" "js_get FILES_DELTA_ROW_KEYS ''files'' = Some ''path''"
    "js_get demo_files_before ''files'' = Some (JArr ?rows)" "js_get demo_files_after ''files'' = Some (JArr ?rows')"
    by (simp_all add: FILES_DELTA_ROW_KEYS_def demo_files_before_def demo_files_after_def js_get_def js_wf_def js_keys_def)
  moreover have "files_rows (diffFilesRepresentations demo_files_before demo_files_after ''e1'' ''e2'') = [(''files'', demo_files_delta)]"
    by code_simp
  then have "(''files'', demo_files_delta) \<in> set (files_rows (diffFilesRepresentations demo_files_before demo_files_after ''e1'' ''e2''))"
    by simp
  ultimately have sent: "(k, row) \<in> set (row_upsert demo_files_delta) \<longleftrightarrow>
      row \<in> set ?rows' \<and> text_id ''path'' row = Some k \<and> row \<notin> set ?rows" for k row
    by (rule files_delta_carries_changes)
  show ?thesis unfolding sent by (simp add: demo_files_row_def js_get_def)
qed

end
