(* ===== verification/Decimal.thy ===== *)
theory Decimal
  imports Prelude
begin

text \<open>
  Decimal numbers of a fixed width: what \<open>String(n).padStart(w, "0")\<close> writes, what
  \<open>Number(s)\<close> reads back from digits, and that strings of one width compare as their numbers.
\<close>

definition digit :: "nat \<Rightarrow> char" where
  "digit d = char_of (48 + d)"

definition digit_value :: "char \<Rightarrow> nat" where
  "digit_value c = of_char c - 48"

text \<open>\<open>Number(s)\<close> of a string of digits; \<open>Number("")\<close> is 0.\<close>

definition js_number :: "string \<Rightarrow> nat" where
  "js_number s = foldl (\<lambda>n c. 10 * n + digit_value c) 0 s"

definition is_digit :: "char \<Rightarrow> bool" where
  "is_digit c \<longleftrightarrow> (of_char c :: nat) \<in> {48..57}"

lemma digit_code [simp]: "d < 10 \<Longrightarrow> (of_char (digit d) :: nat) = 48 + d"
  by (simp add: digit_def)

lemma digit_value_digit [simp]: "d < 10 \<Longrightarrow> digit_value (digit d) = d"
  by (simp add: digit_value_def)

lemma is_digit_digit [simp]: "d < 10 \<Longrightarrow> is_digit (digit d)"
  by (simp add: is_digit_def)

lemma digit_inj: "d < 10 \<Longrightarrow> e < 10 \<Longrightarrow> digit d = digit e \<longleftrightarrow> d = e"
  by (metis digit_value_digit)

section \<open>Fixed width\<close>

fun decimal :: "nat \<Rightarrow> nat \<Rightarrow> string" where
  "decimal 0 n = []"
| "decimal (Suc w) n = decimal w (n div 10) @ [digit (n mod 10)]"

lemma length_decimal [simp]: "length (decimal w n) = w"
  by (induction w n rule: decimal.induct) simp_all

lemma digits_decimal: "list_all is_digit (decimal w n)"
  by (induction w n rule: decimal.induct) simp_all

lemma decimal_zero: "decimal w 0 = replicate w (CHR ''0'')"
proof (induction w)
  case (Suc w)
  have "digit 0 = CHR ''0''" by code_simp
  with Suc show ?case by (simp add: replicate_append_same)
qed simp

lemma nat_digits_decimal: "\<exists>l. nat_digits n = decimal l n \<and> 0 < l \<and> (\<forall>w. 0 < w \<longrightarrow> n < 10 ^ w \<longrightarrow> l \<le> w)"
proof (induction n rule: nat_digits.induct)
  case (1 n)
  show ?case
  proof (cases "n < 10")
    case True
    then have "nat_digits n = decimal 1 n" by (simp add: nat_digits.simps [of n] digit_def)
    then show ?thesis by (intro exI [of _ 1]) auto
  next
    case False
    with 1 obtain l where l: "nat_digits (n div 10) = decimal l (n div 10)" "0 < l"
      "\<forall>w. 0 < w \<longrightarrow> n div 10 < 10 ^ w \<longrightarrow> l \<le> w" by auto
    have "nat_digits n = decimal (Suc l) n" using False l(1) by (simp add: nat_digits.simps [of n] digit_def)
    moreover have "Suc l \<le> w" if "0 < w" "n < 10 ^ w" for w
    proof -
      from that obtain v where v: "w = Suc v" by (cases w) auto
      with that False have "0 < v" by (cases v) auto
      moreover have "n div 10 < 10 ^ v" using that(2) v by (simp add: less_mult_imp_div_less mult.commute)
      ultimately show ?thesis using l(3) v by simp
    qed
    ultimately show ?thesis by blast
  qed
qed

lemma decimal_leading: "n < 10 ^ l \<Longrightarrow> decimal (k + l) n = replicate k (CHR ''0'') @ decimal l n"
proof (induction l arbitrary: n)
  case 0
  then show ?case by (simp add: decimal_zero)
next
  case (Suc l)
  then have "n div 10 < 10 ^ l" by (simp add: less_mult_imp_div_less mult.commute)
  with Suc.IH show ?case by simp
qed

lemma nat_digits_bound: "nat_digits n = decimal l n \<Longrightarrow> n < 10 ^ l"
proof (induction n arbitrary: l rule: nat_digits.induct)
  case (1 n)
  show ?case
  proof (cases "n < 10")
    case True
    then have "length (nat_digits n) = 1" by (simp add: nat_digits.simps [of n])
    with "1.prems" have "l = 1" by simp
    with True show ?thesis by simp
  next
    case False
    with "1.prems" have "nat_digits (n div 10) @ [digit (n mod 10)] = decimal l n"
      by (simp add: nat_digits.simps [of n] digit_def)
    then obtain k where k: "l = Suc k" "nat_digits (n div 10) = decimal k (n div 10)" by (cases l) auto
    with "1.IH" False have "n div 10 < 10 ^ k" by simp
    then have "n < 10 ^ k * 10" by (subst (asm) div_less_iff_less_mult) auto
    with k(1) show ?thesis by (simp add: mult.commute)
  qed
qed

lemma pad_decimal:
  assumes "n < 10 ^ w" "0 < w"
  shows "pad_start w (nat_digits n) = decimal w n"
proof -
  from nat_digits_decimal [of n] obtain l where l: "nat_digits n = decimal l n" "l \<le> w" using assms by blast
  from l(2) obtain k where k: "w = k + l" by (metis add.commute le_iff_add)
  with l nat_digits_bound [OF l(1)] show ?thesis by (simp add: pad_start_def decimal_leading)
qed

lemma js_number_snoc: "js_number (s @ [c]) = 10 * js_number s + digit_value c"
  by (simp add: js_number_def)

lemma js_number_decimal: "n < 10 ^ w \<Longrightarrow> js_number (decimal w n) = n"
proof (induction w arbitrary: n)
  case 0
  then show ?case by (simp add: js_number_def)
next
  case (Suc w)
  then have "n div 10 < 10 ^ w" by (simp add: less_mult_imp_div_less mult.commute)
  with Suc.IH show ?case by (simp add: js_number_snoc)
qed

section \<open>Order\<close>

lemma str_less_Cons: "str_less (a # s) (b # t) \<longleftrightarrow> (of_char a :: nat) < of_char b \<or> a = b \<and> str_less s t"
  by (auto simp: str_less_def split: if_splits)

lemma str_less_append:
  "length u = length v \<Longrightarrow> str_less (u @ s) (v @ t) \<longleftrightarrow> str_less u v \<or> u = v \<and> str_less s t"
  by (induction u v rule: list_induct2) (auto simp: str_less_Cons)

lemma str_less_Nil [simp]: "\<not> str_less s []"
  by (simp add: str_less_def)

lemma decimal_eq: "m < 10 ^ w \<Longrightarrow> n < 10 ^ w \<Longrightarrow> decimal w m = decimal w n \<longleftrightarrow> m = n"
  by (metis js_number_decimal)

lemma decimal_less: "m < 10 ^ w \<Longrightarrow> n < 10 ^ w \<Longrightarrow> str_less (decimal w m) (decimal w n) \<longleftrightarrow> m < n"
proof (induction w arbitrary: m n)
  case (Suc w)
  then have b: "m div 10 < 10 ^ w" "n div 10 < 10 ^ w" by (simp_all add: less_mult_imp_div_less mult.commute)
  have "str_less [digit (m mod 10)] [digit (n mod 10)] \<longleftrightarrow> m mod 10 < n mod 10"
    by (simp add: str_less_Cons)
  moreover have "10 * a + b < 10 * c + d \<longleftrightarrow> a < c \<or> a = c \<and> b < d" if "b < 10" "d < 10" for a b c d :: nat
    using that by auto
  from this [of "m mod 10" "n mod 10" "m div 10" "n div 10"]
  have "m < n \<longleftrightarrow> m div 10 < n div 10 \<or> m div 10 = n div 10 \<and> m mod 10 < n mod 10" by simp
  ultimately show ?case by (simp add: str_less_append Suc.IH [OF b] decimal_eq [OF b])
qed simp

end
