(* ===== verification/Linked_Stamp.thy ===== *)
theory Linked_Stamp
  imports Decimal Json
begin

text \<open>
  The last-write-wins clock of linked boards, \<open>src/lib/links/stamp.ts\<close>, and the companion rows
  of linked tasks, \<open>src/lib/links/tombstones.ts\<close>: deletes, the stamp floor of a project, and
  the withheld stubs of a peer. \<open>Date.parse\<close> is a parameter: the milliseconds it reads, or none.
\<close>

section \<open>Stamps\<close>

definition is_hex :: "char \<Rightarrow> bool" where
  "is_hex c \<longleftrightarrow> is_digit c \<or> (of_char c :: nat) \<in> {97..102}"

definition isStamp :: "string \<Rightarrow> bool" where
  "isStamp s \<longleftrightarrow> length s = 26 \<and> list_all is_digit (take 13 s) \<and> s ! 13 = CHR ''.''
     \<and> list_all is_digit (take 3 (drop 14 s)) \<and> s ! 17 = CHR ''.'' \<and> list_all is_hex (drop 18 s)"

definition installPrefix :: "string \<Rightarrow> string" where
  "installPrefix installId = take 8 (filter (\<lambda>c. c \<noteq> CHR ''-'') installId)"

definition stampMs :: "string \<Rightarrow> nat" where
  "stampMs s = js_number (take 13 s)"

definition format :: "nat \<Rightarrow> nat \<Rightarrow> string \<Rightarrow> string" where
  "format ms counter prefix =
     pad_start 13 (nat_digits ms) @ ''.'' @ pad_start 3 (nat_digits counter) @ ''.'' @ prefix"

definition MAX_STAMP_MS :: nat where "MAX_STAMP_MS = 9999999999999"

text \<open>The null of the code and the empty string are both no watermark to it.\<close>

definition absent :: "string option \<Rightarrow> bool" where
  "absent s \<longleftrightarrow> s = None \<or> s = Some []"

definition stampCounter :: "string \<Rightarrow> nat" where
  "stampCounter s = js_number (take 3 (drop 14 s))"

text \<open>The wall clock, held inside the thirteen digits.\<close>

definition wall_of :: "rat \<Rightarrow> nat" where
  "wall_of now = nat (max 0 (min \<lfloor>now\<rfloor> (int MAX_STAMP_MS)))"

definition nextStamp :: "string option \<Rightarrow> rat \<Rightarrow> string \<Rightarrow> string" where
  "nextStamp watermark now prefix =
     (let wall = wall_of now in
      if absent watermark then format wall 0 prefix
      else
        (let markMs = stampMs (the watermark); markCounter = stampCounter (the watermark) in
         if wall > markMs then format wall 0 prefix
         else if markCounter < 999 then format markMs (markCounter + 1) prefix
         else format (markMs + 1) 0 prefix))"

definition derivedStamp :: "(string \<Rightarrow> int option) \<Rightarrow> string \<Rightarrow> string \<Rightarrow> string" where
  "derivedStamp parse updatedAt prefix =
     format (case parse updatedAt of Some ms \<Rightarrow> if ms > 0 then nat (min ms (int MAX_STAMP_MS)) else 0 | None \<Rightarrow> 0) 0 prefix"

definition maxStamp :: "string option \<Rightarrow> string option \<Rightarrow> string option" where
  "maxStamp left right =
     (if absent left then right else if absent right then left
      else if str_less (the right) (the left) then left else right)"

section \<open>Companion rows\<close>

datatype tombstone_row =
    Tombstone (tomb_id: string) (tomb_project: string) (tomb_gone: string) (tomb_last: "string option") (tomb_o: string)
  | Floor (floor_project: string) (floor_stamp: string)
  | Stub (stub_id: string) (stub_project: string) (stub_withheld: string)

definition tombstoneKey :: "string \<Rightarrow> string" where "tombstoneKey i = ''g:'' @ i"
definition floorKey :: "string \<Rightarrow> string" where "floorKey project = ''floor:'' @ project"
definition stubKey :: "string \<Rightarrow> string" where "stubKey i = ''w:'' @ i"

definition isTombstone :: "tombstone_row option \<Rightarrow> bool" where
  "isTombstone row = (case row of Some (Tombstone _ _ _ _ _) \<Rightarrow> True | _ \<Rightarrow> False)"

definition isFloor :: "tombstone_row option \<Rightarrow> bool" where
  "isFloor row = (case row of Some (Floor _ _) \<Rightarrow> True | _ \<Rightarrow> False)"

fun tombstoneRowKey :: "tombstone_row \<Rightarrow> string" where
  "tombstoneRowKey (Tombstone i _ _ _ _) = tombstoneKey i"
| "tombstoneRowKey (Floor project _) = floorKey project"
| "tombstoneRowKey (Stub i _ _) = stubKey i"

text \<open>A stored value read back: one kind of row, its fields of their types, or nothing.\<close>

fun text_field :: "(string \<times> json) list \<Rightarrow> string \<Rightarrow> string option" where
  "text_field row k = (case js_get row k of Some (JStr s) \<Rightarrow> Some s | _ \<Rightarrow> None)"

definition stamp_field :: "(string \<times> json) list \<Rightarrow> string \<Rightarrow> string option" where
  "stamp_field row k = (case text_field row k of Some s \<Rightarrow> if isStamp s then Some s else None | None \<Rightarrow> None)"

definition decode_tombstone :: "(string \<times> json) list \<Rightarrow> string \<Rightarrow> tombstone_row option" where
  "decode_tombstone row project =
     (case (text_field row ''id'', stamp_field row ''gone'', text_field row ''o'') of
        (Some i, Some gone, Some origin) \<Rightarrow>
          (if js_has row ''last''
           then map_option (\<lambda>last. Tombstone i project gone (Some last) origin) (stamp_field row ''last'')
           else Some (Tombstone i project gone None origin))
      | _ \<Rightarrow> None)"

definition decode_stub :: "(string \<times> json) list \<Rightarrow> string \<Rightarrow> tombstone_row option" where
  "decode_stub row project =
     (case (text_field row ''id'', stamp_field row ''withheld'') of
        (Some i, Some withheld) \<Rightarrow> Some (Stub i project withheld)
      | _ \<Rightarrow> None)"

fun decode :: "json \<Rightarrow> tombstone_row option" where
  "decode (JObj row) =
     (case text_field row ''project'' of
        None \<Rightarrow> None
      | Some project \<Rightarrow>
          (let kinds = filter (js_has row) [''gone'', ''floor'', ''withheld''] in
           if length kinds \<noteq> 1 then None
           else if kinds ! 0 = ''gone'' then decode_tombstone row project
           else if kinds ! 0 = ''floor'' then map_option (Floor project) (stamp_field row ''floor'')
           else decode_stub row project))"
| "decode _ = None"

section \<open>The order of stamps\<close>

definition stamp_install :: "string \<Rightarrow> string" where
  "stamp_install s = drop 18 s"

definition is_prefix :: "string \<Rightarrow> bool" where
  "is_prefix p \<longleftrightarrow> length p = 8 \<and> list_all is_hex p"

lemma format_decimal:
  "ms \<le> MAX_STAMP_MS \<Longrightarrow> counter \<le> 999 \<Longrightarrow>
     format ms counter p = decimal 13 ms @ ''.'' @ decimal 3 counter @ ''.'' @ p"
  by (simp add: format_def pad_decimal MAX_STAMP_MS_def)

lemma format_parts:
  assumes "ms \<le> MAX_STAMP_MS" "counter \<le> 999"
  shows "stampMs (format ms counter p) = ms" "stampCounter (format ms counter p) = counter"
    "stamp_install (format ms counter p) = p"
  using assms
  by (simp_all add: format_decimal stampMs_def stampCounter_def stamp_install_def js_number_decimal MAX_STAMP_MS_def
      del: decimal.simps)

lemma isStamp_format: "ms \<le> MAX_STAMP_MS \<Longrightarrow> counter \<le> 999 \<Longrightarrow> isStamp (format ms counter p) \<longleftrightarrow> is_prefix p"
  by (auto simp: format_decimal isStamp_def is_prefix_def digits_decimal nth_append simp del: decimal.simps)

lemma js_number_bound: "list_all is_digit s \<Longrightarrow> js_number s < 10 ^ length s \<and> decimal (length s) (js_number s) = s"
proof (induction s rule: rev_induct)
  case Nil
  then show ?case by (simp add: js_number_def)
next
  case (snoc c s)
  then have s: "js_number s < 10 ^ length s" "decimal (length s) (js_number s) = s" and c: "is_digit c" by auto
  from c have d: "digit_value c < 10" "digit (digit_value c) = c"
    by (auto simp: is_digit_def digit_value_def digit_def)
  from s d have "10 * js_number s + digit_value c < 10 * 10 ^ length s" by linarith
  with s(2) d show ?case by (simp add: js_number_snoc)
qed

lemma stamp_split:
  assumes "isStamp s"
  shows "s = format (stampMs s) (stampCounter s) (stamp_install s)" "stampMs s \<le> MAX_STAMP_MS"
    "stampCounter s \<le> 999" "is_prefix (stamp_install s)"
proof -
  from assms have len: "length s = 26" and dig: "list_all is_digit (take 13 s)" "list_all is_digit (take 3 (drop 14 s))"
    and dots: "s ! 13 = CHR ''.''" "s ! 17 = CHR ''.''" and hex: "list_all is_hex (drop 18 s)"
    by (auto simp: isStamp_def)
  from js_number_bound [OF dig(1)] len have ms: "stampMs s < 10 ^ 13" "decimal 13 (stampMs s) = take 13 s"
    by (simp_all add: stampMs_def del: decimal.simps)
  from js_number_bound [OF dig(2)] len have ctr: "stampCounter s < 10 ^ 3" "decimal 3 (stampCounter s) = take 3 (drop 14 s)"
    by (simp_all add: stampCounter_def del: decimal.simps)
  show b: "stampMs s \<le> MAX_STAMP_MS" "stampCounter s \<le> 999" using ms ctr by (simp_all add: MAX_STAMP_MS_def)
  show "is_prefix (stamp_install s)" using hex len by (simp add: is_prefix_def stamp_install_def)
  have "drop 13 s = s ! 13 # drop 14 s" "drop 17 s = s ! 17 # drop 18 s" using len Cons_nth_drop_Suc [of 13 s] Cons_nth_drop_Suc [of 17 s] by simp_all
  moreover have "drop 3 (drop 14 s) = drop 17 s" by simp
  then have "drop 14 s = take 3 (drop 14 s) @ drop 17 s" by (metis append_take_drop_id)
  moreover have "s = take 13 s @ drop 13 s" by simp
  ultimately have "s = take 13 s @ ''.'' @ take 3 (drop 14 s) @ ''.'' @ drop 18 s"
    using dots by (metis append_Cons append_Nil)
  with ms(2) ctr(2) show "s = format (stampMs s) (stampCounter s) (stamp_install s)"
    by (simp add: format_decimal [OF b] stamp_install_def del: decimal.simps)
qed

lemma format_less:
  assumes "ms \<le> MAX_STAMP_MS" "c \<le> 999" "ms' \<le> MAX_STAMP_MS" "c' \<le> 999"
  shows "str_less (format ms c p) (format ms' c' p') \<longleftrightarrow>
    ms < ms' \<or> ms = ms' \<and> (c < c' \<or> c = c' \<and> str_less p p')"
  using assms
  by (simp add: format_decimal str_less_append str_less_Cons decimal_less decimal_eq MAX_STAMP_MS_def del: decimal.simps)

text \<open>A stamp still has room when its millisecond or its counter can be raised.\<close>

definition has_room :: "string \<Rightarrow> bool" where
  "has_room s \<longleftrightarrow> stampMs s < MAX_STAMP_MS \<or> stampCounter s < 999"

lemma wall_of_bound: "wall_of now \<le> MAX_STAMP_MS"
  by (simp add: wall_of_def)

lemma nextStamp_cases:
  assumes "w = None \<or> (\<exists>s. w = Some s \<and> isStamp s \<and> has_room s)"
  obtains ms c where "nextStamp w now p = format ms c p" "ms \<le> MAX_STAMP_MS" "c \<le> 999"
    "\<And>s. w = Some s \<Longrightarrow> stampMs s < ms \<or> stampMs s = ms \<and> stampCounter s < c"
    "\<And>s. w = Some s \<Longrightarrow> ms \<le> max (wall_of now) (Suc (stampMs s))" "w = None \<Longrightarrow> ms = wall_of now"
proof (cases "w = None")
  case True
  with that [of "wall_of now" 0] wall_of_bound [of now] show ?thesis
    by (simp add: nextStamp_def absent_def Let_def)
next
  case False
  with assms obtain s where s: "w = Some s" "isStamp s" "has_room s" by blast
  then have na: "\<not> absent w" by (auto simp: absent_def isStamp_def)
  note b = stamp_split(2,3) [OF s(2)]
  consider "stampMs s < wall_of now" | "wall_of now \<le> stampMs s" "stampCounter s < 999"
    | "wall_of now \<le> stampMs s" "\<not> stampCounter s < 999" by linarith
  then show ?thesis
  proof cases
    case 1
    with that [of "wall_of now" 0] wall_of_bound [of now] na s(1) show ?thesis
      by (simp add: nextStamp_def Let_def)
  next
    case 2
    with that [of "stampMs s" "Suc (stampCounter s)"] b na s(1) show ?thesis
      by (simp add: nextStamp_def Let_def)
  next
    case 3
    with s(3) have "stampMs s < MAX_STAMP_MS" by (simp add: has_room_def)
    with 3 that [of "Suc (stampMs s)" 0] na s(1) show ?thesis
      by (simp add: nextStamp_def Let_def)
  qed
qed

lemma nextStamp_above:
  assumes "isStamp s" "has_room s" "is_prefix p"
  shows "isStamp (nextStamp (Some s) now p)" "str_less s (nextStamp (Some s) now p)"
    "stampMs (nextStamp (Some s) now p) \<le> max (wall_of now) (Suc (stampMs s))"
proof -
  from assms(1,2) have "Some s = None \<or> (\<exists>t. Some s = Some t \<and> isStamp t \<and> has_room t)" by simp
  then obtain ms c where n: "nextStamp (Some s) now p = format ms c p" "ms \<le> MAX_STAMP_MS" "c \<le> 999"
    and above: "stampMs s < ms \<or> stampMs s = ms \<and> stampCounter s < c"
    and ms: "ms \<le> max (wall_of now) (Suc (stampMs s))"
    by (rule nextStamp_cases [where now = now and p = p]) blast
  show "isStamp (nextStamp (Some s) now p)" using n assms(3) by (simp add: isStamp_format)
  show "stampMs (nextStamp (Some s) now p) \<le> max (wall_of now) (Suc (stampMs s))" using n ms by (simp add: format_parts)
  note split = stamp_split [OF assms(1)]
  have "str_less (format (stampMs s) (stampCounter s) (stamp_install s)) (format ms c p)"
    using above n(2,3) split(2,3) by (simp add: format_less) auto
  with split(1) n(1) show "str_less s (nextStamp (Some s) now p)" by simp
qed

lemma nextStamp_first: "is_prefix p \<Longrightarrow> isStamp (nextStamp None now p) \<and> stampMs (nextStamp None now p) = wall_of now"
  using wall_of_bound [of now]
  by (simp add: nextStamp_def absent_def isStamp_format format_parts Let_def)

lemma derivedStamp_stamp: "is_prefix p \<Longrightarrow> isStamp (derivedStamp parse time p)"
  by (auto simp: derivedStamp_def isStamp_format split: option.split)

lemma maxStamp_ge: "maxStamp l r = Some m \<Longrightarrow> l = Some s \<or> r = Some s \<Longrightarrow> str_le s m"
  using str_le_total by (auto simp: maxStamp_def absent_def str_less_def split: if_splits)

lemma maxStamp_in: "maxStamp l r \<in> {l, r}"
  by (simp add: maxStamp_def)

text \<open>
  The width holds up to the last stamp of all: past it the millisecond takes a fourteenth digit,
  the text is no stamp, and it sorts below the watermark.
\<close>

lemma nextStamp_overflow:
  "isStamp ''9999999999999.999.0123abcd''"
  "\<not> isStamp (nextStamp (Some ''9999999999999.999.0123abcd'') 0 ''0123abcd'')"
  "str_less (nextStamp (Some ''9999999999999.999.0123abcd'') 0 ''0123abcd'') ''9999999999999.999.0123abcd''"
proof -
  let ?w = "''9999999999999.999.0123abcd''"
  show "isStamp ?w" by (simp add: isStamp_def is_digit_def is_hex_def)
  have chars: "char_of (48 :: nat) = CHR ''0''" "char_of (49 :: nat) = CHR ''1''" "replicate 2 (CHR ''0'') = ''00''" by code_simp+
  have "nextStamp (Some ?w) 0 ''0123abcd'' = ''10000000000000.000.0123abcd''"
    by (simp add: nextStamp_def absent_def stampMs_def stampCounter_def js_number_def digit_value_def format_def
        wall_of_def nat_digits.simps pad_start_def chars)
  then show "\<not> isStamp (nextStamp (Some ?w) 0 ''0123abcd'')" "str_less (nextStamp (Some ?w) 0 ''0123abcd'') ?w"
    by (simp_all add: isStamp_def str_less_def)
qed

lemma keys_apart:
  "tombstoneKey i \<noteq> floorKey p" "tombstoneKey i \<noteq> stubKey j" "floorKey p \<noteq> stubKey j"
  "tombstoneKey i = tombstoneKey j \<longleftrightarrow> i = j" "floorKey p = floorKey q \<longleftrightarrow> p = q" "stubKey i = stubKey j \<longleftrightarrow> i = j"
  by (simp_all add: tombstoneKey_def floorKey_def stubKey_def)

lemma row_key_inj:
  "tombstoneRowKey r = tombstoneKey i \<longleftrightarrow> (\<exists>p g l orig. r = Tombstone i p g l orig)"
  "tombstoneRowKey r = floorKey p \<longleftrightarrow> (\<exists>f. r = Floor p f)"
  "tombstoneRowKey r = stubKey i \<longleftrightarrow> (\<exists>p w. r = Stub i p w)"
  using keys_apart(1-3) [THEN not_sym] keys_apart by (cases r; simp)+

end
