(* ===== verification/Linked_Task.thy ===== *)
theory Linked_Task
  imports Linked_Stamp
begin

text \<open>
  The stamp step every write of a linked task passes, \<open>src/lib/links/taskStamp.ts\<close>: which groups
  of a task changed, the fresh stamps they get, the tombstones of deleted tasks. A digest is the
  JSON value \<open>JSON.stringify\<close> would print. The fields of a task outside the sync groups that no
  definition reads are one value. The fingerprint is a parameter, as in the code; the clock gives
  one reading per call.
\<close>

section \<open>Tasks\<close>

datatype sync_group = TextGroup | StatusGroup | LookGroup | PlaceGroup | LinksGroup | MachineGroup | HandoverGroup

definition TASK_SYNC_GROUPS :: "sync_group list" where
  "TASK_SYNC_GROUPS = [TextGroup, StatusGroup, LookGroup, PlaceGroup, LinksGroup, MachineGroup, HandoverGroup]"

lemma all_groups [simp]: "g \<in> set TASK_SYNC_GROUPS"
  by (cases g) (simp_all add: TASK_SYNC_GROUPS_def)

lemma groups_distinct [simp]: "distinct TASK_SYNC_GROUPS"
  by (simp add: TASK_SYNC_GROUPS_def)

datatype task_state = InboxTask | AssignedTask | BlockedTask | DoneTask

fun state_text :: "task_state \<Rightarrow> string" where
  "state_text InboxTask = ''inbox''"
| "state_text AssignedTask = ''assigned''"
| "state_text BlockedTask = ''blocked''"
| "state_text DoneTask = ''done''"

type_synonym stamps = "sync_group \<Rightarrow> string option"

record sync_stamps =
  sync_s :: stamps
  sync_o :: string

text \<open>
  \<open>task_reviews\<close> is the replica of the task's own review rounds, if it has any; \<open>task_pos\<close> the
  JSON of its position.
\<close>

record board_task =
  task_id :: string
  task_project :: string
  task_status :: task_state
  task_text :: string
  task_details :: "string option"
  task_chosen :: bool
  task_reviews :: "json option"
  task_replica :: "json option"
  task_color :: "string option"
  task_icon :: "string option"
  task_priority :: "string option"
  task_placement :: string
  task_pos :: "json option"
  task_workLinks :: "json option"
  task_machine :: "string option"
  task_handover :: "string option"
  task_sync :: "sync_stamps option"
  task_board :: "string option"
  task_boardAutoHidden :: bool
  task_boardChoice :: bool
  task_findingKey :: "string option"
  task_createdAt :: string
  task_updatedAt :: string
  task_rest :: json

definition prototypeReviewReplica :: "board_task \<Rightarrow> json option" where
  "prototypeReviewReplica task = (case task_reviews task of Some replica \<Rightarrow> Some replica | None \<Rightarrow> task_replica task)"

fun or_json_null :: "json option \<Rightarrow> json" where
  "or_json_null (Some v) = v"
| "or_json_null None = JNull"

abbreviation text_or_null :: "string option \<Rightarrow> json" where
  "text_or_null t \<equiv> or_json_null (map_option JStr t)"

fun groupDigest :: "board_task \<Rightarrow> sync_group \<Rightarrow> json" where
  "groupDigest task TextGroup =
     JArr [JStr (task_text task), text_or_null (task_details task), JBool (task_chosen task),
       or_json_null (prototypeReviewReplica task)]"
| "groupDigest task StatusGroup = JStr (state_text (task_status task))"
| "groupDigest task LookGroup =
     JArr [text_or_null (task_color task), text_or_null (task_icon task), text_or_null (task_priority task)]"
| "groupDigest task PlaceGroup = JArr [JStr (task_placement task), or_json_null (task_pos task)]"
| "groupDigest task LinksGroup = or_json_null (task_workLinks task)"
| "groupDigest task MachineGroup = text_or_null (task_machine task)"
| "groupDigest task HandoverGroup =
     (case task_handover task of None \<Rightarrow> JNull | Some to \<Rightarrow> JObj [(''to'', JStr to)])"

section \<open>The write\<close>

text \<open>
  The interface a commit hands to the stamp step: the companion rows as the commit leaves them,
  the groups whose stamp must stay, and the clock with the number of its readings so far.
\<close>

record sync_write =
  write_linked :: "string set"
  self_id :: string
  self_prefix :: string
  clock_readings :: "nat \<Rightarrow> rat"
  readings :: nat
  companions :: "(string, tombstone_row) js_map"
  preserved_stamps :: "(string \<times> sync_group) list"
  project_mark :: "string \<Rightarrow> string option"

definition read_row :: "sync_write \<Rightarrow> string \<Rightarrow> tombstone_row option" where
  "read_row w key = js_get (companions w) key"

definition put_row :: "tombstone_row \<Rightarrow> sync_write \<Rightarrow> sync_write" where
  "put_row row w = w\<lparr>companions := js_set (tombstoneRowKey row) row (companions w)\<rparr>"

definition remove_row :: "string \<Rightarrow> sync_write \<Rightarrow> sync_write" where
  "remove_row key w = w\<lparr>companions := js_delete key (companions w)\<rparr>"

definition preserveStamp :: "string \<Rightarrow> sync_group \<Rightarrow> sync_write \<Rightarrow> sync_write" where
  "preserveStamp i g w = w\<lparr>preserved_stamps := (i, g) # preserved_stamps w\<rparr>"

definition read_clock :: "sync_write \<Rightarrow> rat \<times> sync_write" where
  "read_clock w = (clock_readings w (readings w), w\<lparr>readings := Suc (readings w)\<rparr>)"

section \<open>Snapshots and watermarks\<close>

record group_snapshot =
  snap_project :: string
  snap_updatedAt :: string
  snap_fingerprint :: string
  snap_digests :: "sync_group \<Rightarrow> json"
  snap_stamps :: stamps

abbreviation stamps_of_task :: "board_task \<Rightarrow> stamps" where
  "stamps_of_task task \<equiv> (case task_sync task of None \<Rightarrow> (\<lambda>g. None) | Some sync \<Rightarrow> sync_s sync)"

definition snapshot_of :: "(board_task \<Rightarrow> string) \<Rightarrow> board_task \<Rightarrow> group_snapshot" where
  "snapshot_of fingerprint task =
     \<lparr>snap_project = task_project task, snap_updatedAt = task_updatedAt task, snap_fingerprint = fingerprint task,
      snap_digests = groupDigest task, snap_stamps = stamps_of_task task\<rparr>"

definition snapshotGroups ::
  "board_task list \<Rightarrow> string set \<Rightarrow> (board_task \<Rightarrow> string) \<Rightarrow> (string, group_snapshot) js_map" where
  "snapshotGroups tasks linked fingerprint =
     js_map_of (map (\<lambda>task. (task_id task, snapshot_of fingerprint task))
       (filter (\<lambda>task. task_project task \<in> linked) tasks))"

definition effectiveStamp :: "(string \<Rightarrow> int option) \<Rightarrow> board_task \<Rightarrow> sync_group \<Rightarrow> string \<Rightarrow> string" where
  "effectiveStamp parse task g prefix =
     (case stamps_of_task task g of Some stamp \<Rightarrow> stamp | None \<Rightarrow> derivedStamp parse (task_updatedAt task) prefix)"

definition newer :: "string \<Rightarrow> string \<Rightarrow> string" where
  "newer newest stamp = (if str_less newest stamp then stamp else newest)"

definition newestStamp :: "(string \<Rightarrow> int option) \<Rightarrow> board_task \<Rightarrow> string \<Rightarrow> string" where
  "newestStamp parse task prefix = foldl newer [] (map (\<lambda>g. effectiveStamp parse task g prefix) TASK_SYNC_GROUPS)"

definition floor_mark :: "sync_write \<Rightarrow> string \<Rightarrow> string option" where
  "floor_mark w project = (case read_row w (floorKey project) of Some (Floor _ stamp) \<Rightarrow> Some stamp | _ \<Rightarrow> None)"

definition projectWatermark :: "(string \<Rightarrow> int option) \<Rightarrow> board_task list \<Rightarrow> string \<Rightarrow> sync_write \<Rightarrow> string option" where
  "projectWatermark parse tasks project w =
     maxStamp
       (foldl (\<lambda>mark task. maxStamp mark (Some (newestStamp parse task (self_prefix w)))) (project_mark w project)
         (filter (\<lambda>task. task_project task = project) tasks))
       (floor_mark w project)"

definition raiseFloor :: "string \<Rightarrow> string \<Rightarrow> sync_write \<Rightarrow> sync_write" where
  "raiseFloor project stamp w =
     (case floor_mark w project of
        Some held \<Rightarrow> if str_less held stamp then put_row (Floor project stamp) w else w
      | None \<Rightarrow> put_row (Floor project stamp) w)"

section \<open>Stamping\<close>

record stamp_run =
  run_write :: sync_write
  run_marks :: "(string, string option) js_map"

definition fresh :: "(string \<Rightarrow> int option) \<Rightarrow> board_task list \<Rightarrow> string \<Rightarrow> stamp_run \<Rightarrow> string \<times> stamp_run" where
  "fresh parse tasks project run =
     (let mark = (case js_get (run_marks run) project of
            Some mark \<Rightarrow> mark | None \<Rightarrow> projectWatermark parse tasks project (run_write run));
          (now, w) = read_clock (run_write run);
          stamp = nextStamp mark now (self_prefix w)
      in (stamp, \<lparr>run_write = w, run_marks = js_set project (Some stamp) (run_marks run)\<rparr>))"

text \<open>One group of a changed task: preserved, set by the writer, changed here, or carried over.\<close>

record group_loop =
  loop_stamps :: stamps
  loop_local :: bool
  loop_run :: stamp_run

definition preserved :: "sync_write \<Rightarrow> board_task \<Rightarrow> group_snapshot option \<Rightarrow> stamps \<Rightarrow> sync_group \<Rightarrow> bool" where
  "preserved w task prior stamps g =
     (case prior of None \<Rightarrow> False
      | Some p \<Rightarrow> stamps g = snap_stamps p g \<and> (task_id task, g) \<in> set (preserved_stamps w))"

definition set_by_writer :: "group_snapshot option \<Rightarrow> stamps \<Rightarrow> sync_group \<Rightarrow> bool" where
  "set_by_writer prior stamps g \<longleftrightarrow>
     stamps g \<noteq> None \<and> stamps g \<noteq> (case prior of None \<Rightarrow> None | Some p \<Rightarrow> snap_stamps p g)"

definition group_changed :: "group_snapshot option \<Rightarrow> board_task \<Rightarrow> sync_group \<Rightarrow> bool" where
  "group_changed prior task g = (case prior of None \<Rightarrow> True | Some p \<Rightarrow> snap_digests p g \<noteq> groupDigest task g)"

definition stamp_group ::
  "(string \<Rightarrow> int option) \<Rightarrow> board_task list \<Rightarrow> board_task \<Rightarrow> group_snapshot option \<Rightarrow> group_loop \<Rightarrow> sync_group \<Rightarrow> group_loop" where
  "stamp_group parse tasks task prior loop g =
     (let stamps = loop_stamps loop; w = run_write (loop_run loop) in
      if preserved w task prior stamps g then loop
      else if set_by_writer prior stamps g then loop
      else if group_changed prior task g then
        (case fresh parse tasks (task_project task) (loop_run loop) of
           (stamp, run) \<Rightarrow> \<lparr>loop_stamps = stamps(g \<mapsto> stamp), loop_local = True, loop_run = run\<rparr>)
      else
        (case (stamps g, prior) of
           (None, Some p) \<Rightarrow>
             loop\<lparr>loop_stamps := stamps(g \<mapsto>
               (case snap_stamps p g of Some s \<Rightarrow> s | None \<Rightarrow> derivedStamp parse (snap_updatedAt p) (self_prefix w)))\<rparr>
         | _ \<Rightarrow> loop))"

definition stamp_task ::
  "(string \<Rightarrow> int option) \<Rightarrow> (board_task \<Rightarrow> string) \<Rightarrow> (string, group_snapshot) js_map
     \<Rightarrow> board_task list \<Rightarrow> board_task \<Rightarrow> board_task list \<Rightarrow> stamp_run \<Rightarrow> board_task \<times> stamp_run" where
  "stamp_task parse fingerprint snapshot earlier task later run =
     (let w = run_write run; prior = js_get snapshot (task_id task) in
      if task_project task \<notin> write_linked w then (task, run)
      else if (case prior of Some p \<Rightarrow> snap_fingerprint p = fingerprint task | None \<Rightarrow> False) then (task, run)
      else
        (let task1 = (if absent (task_machine task) then task\<lparr>task_machine := Some (self_id w)\<rparr> else task);
             loop = foldl (stamp_group parse (earlier @ task1 # later) task1 prior)
               \<lparr>loop_stamps = stamps_of_task task1, loop_local = False, loop_run = run\<rparr> TASK_SYNC_GROUPS;
             origin = (if loop_local loop then self_prefix w
               else (case task_sync task1 of Some sync \<Rightarrow> sync_o sync | None \<Rightarrow> self_prefix w))
         in (task1\<lparr>task_sync := Some \<lparr>sync_s = loop_stamps loop, sync_o = origin\<rparr>\<rparr>, loop_run loop)))"

fun stamp_tasks ::
  "(string \<Rightarrow> int option) \<Rightarrow> (board_task \<Rightarrow> string) \<Rightarrow> (string, group_snapshot) js_map
     \<Rightarrow> board_task list \<Rightarrow> board_task list \<Rightarrow> stamp_run \<Rightarrow> board_task list \<times> stamp_run" where
  "stamp_tasks parse fingerprint snapshot earlier [] run = (earlier, run)"
| "stamp_tasks parse fingerprint snapshot earlier (task # later) run =
     (case stamp_task parse fingerprint snapshot earlier task later run of
        (task', run') \<Rightarrow> stamp_tasks parse fingerprint snapshot (earlier @ [task']) later run')"

text \<open>A task of the snapshot that is gone leaves a tombstone, unless it has one.\<close>

definition last_stamp :: "(string \<Rightarrow> int option) \<Rightarrow> group_snapshot \<Rightarrow> string \<Rightarrow> string" where
  "last_stamp parse prior prefix =
     foldl newer (derivedStamp parse (snap_updatedAt prior) prefix)
       (concat (map (\<lambda>g. case snap_stamps prior g of None \<Rightarrow> [] | Some s \<Rightarrow> [s]) TASK_SYNC_GROUPS))"

definition bury :: "(string \<Rightarrow> int option) \<Rightarrow> board_task list \<Rightarrow> stamp_run \<Rightarrow> string \<times> group_snapshot \<Rightarrow> stamp_run" where
  "bury parse tasks run entry =
     (case entry of (i, prior) \<Rightarrow>
        if i \<in> set (map task_id tasks) \<or> isTombstone (read_row (run_write run) (tombstoneKey i)) then run
        else
          (let prefix = self_prefix (run_write run);
               last = last_stamp parse prior prefix;
               (gone, run1) = fresh parse tasks (snap_project prior) run;
               row = Tombstone i (snap_project prior) gone (if str_less gone last then Some last else None) prefix
           in run1\<lparr>run_write := raiseFloor (snap_project prior) gone (put_row row (run_write run1))\<rparr>))"

definition stampLinkedRows ::
  "(string \<Rightarrow> int option) \<Rightarrow> (board_task \<Rightarrow> string) \<Rightarrow> board_task list \<Rightarrow> (string, group_snapshot) js_map
     \<Rightarrow> sync_write \<Rightarrow> board_task list \<times> sync_write" where
  "stampLinkedRows parse fingerprint tasks snapshot w =
     (case stamp_tasks parse fingerprint snapshot [] tasks \<lparr>run_write = w, run_marks = []\<rparr> of
        (tasks', run) \<Rightarrow> (tasks', run_write (foldl (bury parse tasks') run snapshot)))"

end
