(* ===== verification/Linked_Apply.thy ===== *)
theory Linked_Apply
  imports Linked_Task
begin

text \<open>
  The apply of a page of linked task rows, \<open>src/lib/links/taskApply.ts\<close>, with the wire form of a
  task, \<open>src/lib/links/taskWire.ts\<close>. Parameters: \<open>admit\<close>, the byte bound and the field bounds a
  sender checks (the row as it leaves, or none when it must be withheld); \<open>relocate\<close>, which gives
  the conversations of a deleted task a home; \<open>crowded\<close>, whether the board of a project is full;
  \<open>proactive\<close>, whether the installation invented the task.
\<close>

section \<open>The wire\<close>

record wire_task =
  wire_id :: string
  wire_project :: string
  wire_text :: string
  wire_details :: "string option"
  wire_status :: task_state
  wire_board :: "string option"
  wire_color :: "string option"
  wire_icon :: "string option"
  wire_priority :: "string option"
  wire_placement :: string
  wire_pos :: "json option"
  wire_workLinks :: "json option"
  wire_machine :: string
  wire_handover :: "string option"
  wire_createdAt :: string
  wire_updatedAt :: string
  wire_s :: "sync_group \<Rightarrow> string"
  wire_replica :: "json option"

datatype wire_row = TaskRow wire_task | GoneRow string string string | StubRow string string string

fun row_id :: "wire_row \<Rightarrow> string" where
  "row_id (TaskRow row) = wire_id row"
| "row_id (GoneRow i _ _) = i"
| "row_id (StubRow i _ _) = i"

fun row_project :: "wire_row \<Rightarrow> string" where
  "row_project (TaskRow row) = wire_project row"
| "row_project (GoneRow _ p _) = p"
| "row_project (StubRow _ p _) = p"

fun rowStamps :: "wire_row \<Rightarrow> string list" where
  "rowStamps (TaskRow row) = map (wire_s row) TASK_SYNC_GROUPS"
| "rowStamps (GoneRow _ _ gone) = [gone]"
| "rowStamps (StubRow _ _ withheld) = [withheld]"

definition or_empty_text :: "string option \<Rightarrow> string option" where
  "or_empty_text t = (if absent t then None else t)"

fun some_links :: "json option \<Rightarrow> json option" where
  "some_links (Some (JArr [])) = None"
| "some_links links = links"

definition encode_row ::
  "(string \<Rightarrow> int option) \<Rightarrow> board_task \<Rightarrow> string \<Rightarrow> string \<Rightarrow> bool \<Rightarrow> wire_task" where
  "encode_row parse task self prefix includeReview =
     \<lparr>wire_id = task_id task, wire_project = task_project task, wire_text = task_text task,
      wire_details = task_details task, wire_status = task_status task, wire_board = task_board task,
      wire_color = or_empty_text (task_color task), wire_icon = or_empty_text (task_icon task),
      wire_priority = (if task_priority task \<in> {Some ''high'', Some ''low''} then task_priority task else None),
      wire_placement = task_placement task, wire_pos = task_pos task, wire_workLinks = some_links (task_workLinks task),
      wire_machine = (case task_machine task of Some m \<Rightarrow> m | None \<Rightarrow> self),
      wire_handover = task_handover task, wire_createdAt = task_createdAt task, wire_updatedAt = task_updatedAt task,
      wire_s = (\<lambda>g. effectiveStamp parse task g prefix),
      wire_replica = (if includeReview then prototypeReviewReplica task else None)\<rparr>"

fun wireGroup :: "wire_task \<Rightarrow> sync_group \<Rightarrow> json" where
  "wireGroup row TextGroup =
     JArr ([JStr (wire_text row), text_or_null (wire_details row)]
       @ (case wire_replica row of None \<Rightarrow> [] | Some replica \<Rightarrow> [replica]))"
| "wireGroup row StatusGroup = JStr (state_text (wire_status row))"
| "wireGroup row LookGroup =
     JArr [text_or_null (wire_color row), text_or_null (wire_icon row), text_or_null (wire_priority row)]"
| "wireGroup row PlaceGroup = JArr [JStr (wire_placement row), or_json_null (wire_pos row)]"
| "wireGroup row LinksGroup = or_json_null (wire_workLinks row)"
| "wireGroup row MachineGroup = JStr (wire_machine row)"
| "wireGroup row HandoverGroup = (case wire_handover row of None \<Rightarrow> JNull | Some to \<Rightarrow> JObj [(''to'', JStr to)])"

section \<open>One row\<close>

record apply_link =
  link_install :: string
  link_prefix :: string
  link_projects :: "string set"

definition UNTITLED_TASK_TEXT :: string where "UNTITLED_TASK_TEXT = ''Untitled task''"

fun not_null :: "json option \<Rightarrow> json option" where
  "not_null (Some JNull) = None"
| "not_null v = v"

fun assignGroup :: "board_task \<Rightarrow> wire_task \<Rightarrow> sync_group \<Rightarrow> board_task" where
  "assignGroup target row TextGroup =
     (let named = target\<lparr>task_text := wire_text row, task_details := wire_details row, task_chosen := True\<rparr> in
      if wire_replica row \<noteq> None then named\<lparr>task_replica := not_null (wire_replica row)\<rparr> else named)"
| "assignGroup target row StatusGroup = target\<lparr>task_status := wire_status row\<rparr>"
| "assignGroup target row LookGroup =
     target\<lparr>task_color := wire_color row, task_icon := wire_icon row, task_priority := wire_priority row\<rparr>"
| "assignGroup target row PlaceGroup = target\<lparr>task_placement := wire_placement row, task_pos := wire_pos row\<rparr>"
| "assignGroup target row LinksGroup = target\<lparr>task_workLinks := wire_workLinks row\<rparr>"
| "assignGroup target row MachineGroup = target\<lparr>task_machine := Some (wire_machine row)\<rparr>"
| "assignGroup target row HandoverGroup = target\<lparr>task_handover := wire_handover row\<rparr>"

definition equalsSent ::
  "(string \<Rightarrow> int option) \<Rightarrow> (wire_task \<Rightarrow> wire_task option) \<Rightarrow> board_task \<Rightarrow> wire_task \<Rightarrow> string \<Rightarrow> string \<Rightarrow> bool" where
  "equalsSent parse admit merged row self prefix =
     (case admit (encode_row parse merged self prefix (wire_replica row \<noteq> None)) of
        None \<Rightarrow> False
      | Some mine \<Rightarrow> list_all (\<lambda>g. wire_s mine g = wire_s row g \<and> wireGroup mine g = wireGroup row g) TASK_SYNC_GROUPS)"

definition with_origin :: "string \<Rightarrow> board_task \<Rightarrow> board_task" where
  "with_origin origin task = task\<lparr>task_sync := map_option (\<lambda>sync. sync\<lparr>sync_o := origin\<rparr>) (task_sync task)\<rparr>"

definition arrived_row :: "wire_task \<Rightarrow> apply_link \<Rightarrow> board_task" where
  "arrived_row row link =
     \<lparr>task_id = wire_id row, task_project = wire_project row, task_status = wire_status row, task_text = wire_text row,
      task_details = None, task_chosen = False, task_reviews = None, task_replica = None, task_color = None,
      task_icon = None, task_priority = None, task_placement = wire_placement row, task_pos = None,
      task_workLinks = None, task_machine = Some (wire_machine row), task_handover = None,
      task_sync = Some \<lparr>sync_s = (\<lambda>g. Some (wire_s row g)), sync_o = link_prefix link\<rparr>, task_board = None,
      task_boardAutoHidden = False, task_boardChoice = False, task_findingKey = None,
      task_createdAt = wire_createdAt row, task_updatedAt = wire_updatedAt row, task_rest = JNull\<rparr>"

text \<open>A task this machine never held.\<close>

definition arrive ::
  "(string \<Rightarrow> int option) \<Rightarrow> (wire_task \<Rightarrow> wire_task option) \<Rightarrow> wire_task \<Rightarrow> apply_link \<Rightarrow> sync_write \<Rightarrow> board_task" where
  "arrive parse admit row link w =
     (let filled = foldl (\<lambda>task g. if g \<noteq> MachineGroup then assignGroup task row g else task) (arrived_row row link) TASK_SYNC_GROUPS;
          task = (if wire_handover row \<noteq> None \<and> wire_handover row \<noteq> Some (link_install link)
            then filled\<lparr>task_handover := None\<rparr> else filled)
      in with_origin (if equalsSent parse admit task row (self_id w) (self_prefix w) then link_prefix link else self_prefix w) task)"

record merge_loop =
  merge_task :: board_task
  merge_stamps :: stamps
  merge_won :: bool
  merge_write :: sync_write

definition restores_title :: "board_task \<Rightarrow> wire_task \<Rightarrow> string \<Rightarrow> sync_group \<Rightarrow> bool" where
  "restores_title local row held g \<longleftrightarrow> g = TextGroup \<and> wire_s row TextGroup = held
     \<and> task_text local = UNTITLED_TASK_TEXT \<and> wire_text row \<noteq> UNTITLED_TASK_TEXT
     \<and> task_machine local = Some (wire_machine row)"

definition owner_of :: "board_task \<Rightarrow> sync_write \<Rightarrow> string" where
  "owner_of local w = (case task_machine local of Some m \<Rightarrow> m | None \<Rightarrow> self_id w)"

definition reopen_conflict :: "board_task \<Rightarrow> wire_task \<Rightarrow> board_task list \<Rightarrow> bool" where
  "reopen_conflict local row tasks \<longleftrightarrow> wire_status row \<noteq> DoneTask \<and> task_findingKey local \<noteq> None
     \<and> (\<exists>task \<in> set tasks. task_id task \<noteq> task_id local \<and> task_project task = task_project local
        \<and> task_status task \<noteq> DoneTask \<and> task_findingKey task = task_findingKey local)"

definition merge_group ::
  "(string \<Rightarrow> int option) \<Rightarrow> board_task \<Rightarrow> wire_task \<Rightarrow> apply_link \<Rightarrow> board_task list \<Rightarrow> merge_loop \<Rightarrow> sync_group \<Rightarrow> merge_loop" where
  "merge_group parse local row link tasks loop g =
     (let w = merge_write loop; held = effectiveStamp parse local g (self_prefix w);
          loop1 = loop\<lparr>merge_stamps := (merge_stamps loop)(g \<mapsto> held)\<rparr>;
          restoring = restores_title local row held g
      in if str_le (wire_s row g) held \<and> \<not> restoring then loop1
         else if g = MachineGroup \<and> owner_of local w \<noteq> link_install link then loop1
         else if g = HandoverGroup \<and> wire_handover row \<noteq> None \<and> wire_handover row \<noteq> Some (link_install link) then loop1
         else if g = StatusGroup \<and> reopen_conflict local row tasks then
           (case read_clock w of (now, w') \<Rightarrow>
              loop1\<lparr>merge_stamps := (merge_stamps loop)(StatusGroup \<mapsto> nextStamp (Some (wire_s row StatusGroup)) now (self_prefix w)),
                merge_won := True, merge_write := w'\<rparr>)
         else
           (let taken = (if restoring
              then loop1\<lparr>merge_task := (merge_task loop)\<lparr>task_text := wire_text row, task_chosen := True\<rparr>,
                     merge_write := preserveStamp (wire_id row) g w\<rparr>
              else loop1\<lparr>merge_task := assignGroup (merge_task loop) row g\<rparr>)
            in taken\<lparr>merge_stamps := (merge_stamps loop)(g \<mapsto> wire_s row g), merge_won := True\<rparr>))"

definition board_changed :: "board_task \<Rightarrow> wire_task \<Rightarrow> apply_link \<Rightarrow> sync_write \<Rightarrow> bool" where
  "board_changed local row link w \<longleftrightarrow> wire_board row \<noteq> None
     \<and> (task_board local = None \<or> task_boardAutoHidden local) \<and> \<not> task_boardChoice local
     \<and> owner_of local w = link_install link"

definition merge_start :: "board_task \<Rightarrow> wire_task \<Rightarrow> apply_link \<Rightarrow> sync_write \<Rightarrow> merge_loop" where
  "merge_start local row link w =
     \<lparr>merge_task = (if board_changed local row link w
        then local\<lparr>task_board := wire_board row, task_boardAutoHidden := False\<rparr> else local),
      merge_stamps = (\<lambda>g. None), merge_won = False, merge_write = w\<rparr>"

definition merge_held ::
  "(string \<Rightarrow> int option) \<Rightarrow> (wire_task \<Rightarrow> wire_task option) \<Rightarrow> board_task \<Rightarrow> wire_task \<Rightarrow> apply_link \<Rightarrow> sync_write
     \<Rightarrow> board_task list \<Rightarrow> board_task option \<times> sync_write" where
  "merge_held parse admit local row link w tasks =
     (let loop = foldl (merge_group parse local row link tasks) (merge_start local row link w) TASK_SYNC_GROUPS;
          w' = merge_write loop
      in if \<not> merge_won loop then (if board_changed local row link w then Some (merge_task loop) else None, w')
         else
           (let dated = (if str_less (task_updatedAt (merge_task loop)) (wire_updatedAt row)
                  then (merge_task loop)\<lparr>task_updatedAt := wire_updatedAt row\<rparr> else merge_task loop);
                merged = dated\<lparr>task_sync := Some \<lparr>sync_s = merge_stamps loop, sync_o = self_prefix w\<rparr>\<rparr>
            in (Some (if equalsSent parse admit merged row (self_id w) (self_prefix w)
                  then with_origin (link_prefix link) merged else merged), w')))"

definition mergeRow ::
  "(string \<Rightarrow> int option) \<Rightarrow> (wire_task \<Rightarrow> wire_task option) \<Rightarrow> board_task option \<Rightarrow> wire_task \<Rightarrow> apply_link \<Rightarrow> sync_write
     \<Rightarrow> board_task list \<Rightarrow> board_task option \<times> sync_write" where
  "mergeRow parse admit local row link w tasks =
     (case local of
        None \<Rightarrow> (Some (arrive parse admit row link w), w)
      | Some held \<Rightarrow> merge_held parse admit held row link w tasks)"

section \<open>A page\<close>

text \<open>What a page works on; \<open>None\<close> is a row that breaks a bound or a refused delete: it throws.\<close>

record apply_state =
  page_tasks :: "board_task list"
  page_write :: sync_write
  page_count :: nat

definition position_of :: "board_task list \<Rightarrow> string \<Rightarrow> nat option" where
  "position_of tasks i = js_get (js_map_of (zip (map task_id tasks) [0..<length tasks])) i"

record apply_env =
  env_parse :: "string \<Rightarrow> int option"
  env_admit :: "wire_task \<Rightarrow> wire_task option"
  env_relocate :: "board_task list \<Rightarrow> board_task \<Rightarrow> board_task list option"
  env_crowded :: "board_task list \<Rightarrow> string \<Rightarrow> bool"
  env_proactive :: "board_task \<Rightarrow> bool"
  env_fingerprint :: "board_task \<Rightarrow> string"

definition deleteTask :: "apply_env \<Rightarrow> board_task list \<Rightarrow> string \<Rightarrow> board_task list option" where
  "deleteTask env tasks i =
     (case find (\<lambda>t. task_id t = i) tasks of
        None \<Rightarrow> None
      | Some task \<Rightarrow>
          if env_proactive env task then None
          else env_relocate env (filter (\<lambda>t. task_id t \<noteq> i) tasks) task)"

definition drop_stub :: "string \<Rightarrow> sync_write \<Rightarrow> sync_write" where
  "drop_stub i w = (if read_row w (stubKey i) \<noteq> None then remove_row (stubKey i) w else w)"

definition apply_gone :: "apply_env \<Rightarrow> apply_link \<Rightarrow> board_task option \<Rightarrow> string \<Rightarrow> string \<Rightarrow> string \<Rightarrow> apply_state \<Rightarrow> apply_state option" where
  "apply_gone env link local i project gone s =
     (let w = page_write s in
      if isTombstone (read_row w (tombstoneKey i)) then Some s
      else
        (let last = map_option (\<lambda>t. newestStamp (env_parse env) t (self_prefix w)) local;
             kept = (case last of Some l \<Rightarrow> if l \<noteq> [] \<and> str_less gone l then Some l else None | None \<Rightarrow> None);
             w1 = drop_stub i (raiseFloor project gone (put_row (Tombstone i project gone kept (link_prefix link)) w))
         in (case local of
               None \<Rightarrow> Some (s\<lparr>page_write := w1, page_count := Suc (page_count s)\<rparr>)
             | Some _ \<Rightarrow>
                 map_option (\<lambda>tasks. \<lparr>page_tasks = tasks, page_write = w1, page_count = Suc (page_count s)\<rparr>)
                   (deleteTask env (page_tasks s) i))))"

definition apply_stub :: "string \<Rightarrow> string \<Rightarrow> string \<Rightarrow> apply_state \<Rightarrow> apply_state" where
  "apply_stub i project withheld s =
     (let w = page_write s;
          same = (case read_row w (stubKey i) of Some (Stub _ _ held) \<Rightarrow> held = withheld | _ \<Rightarrow> False)
      in if same then s else s\<lparr>page_write := put_row (Stub i project withheld) w\<rparr>)"

text \<open>The board preference of a row that arrives, and the default at capacity.\<close>

definition admit_board :: "apply_env \<Rightarrow> board_task list \<Rightarrow> board_task option \<Rightarrow> wire_task \<Rightarrow> board_task \<Rightarrow> board_task" where
  "admit_board env tasks local row merged =
     (let default = (if wire_status row = DoneTask then Some ''hidden'' else None);
          arrived = (if local = None
            then (let m = merged\<lparr>task_board := (if wire_board row \<noteq> None then wire_board row else default)\<rparr> in
                  if wire_board row = None \<and> task_board m = Some ''hidden'' then m\<lparr>task_boardAutoHidden := True\<rparr> else m)
            else merged)
      in if task_board arrived \<noteq> Some ''hidden''
            \<and> (case local of None \<Rightarrow> True | Some t \<Rightarrow> task_board t = Some ''hidden'')
            \<and> env_crowded env tasks (task_project arrived)
         then arrived\<lparr>task_board := Some ''hidden'', task_boardAutoHidden := True\<rparr> else arrived)"

definition apply_task :: "apply_env \<Rightarrow> apply_link \<Rightarrow> nat option \<Rightarrow> wire_task \<Rightarrow> apply_state \<Rightarrow> apply_state" where
  "apply_task env link position row s =
     (let tasks = page_tasks s; local = map_option (\<lambda>n. tasks ! n) position;
          w = drop_stub (wire_id row) (page_write s)
      in (case mergeRow (env_parse env) (env_admit env) local row link w tasks of
            (None, w') \<Rightarrow> s\<lparr>page_write := w'\<rparr>
          | (Some merged0, w') \<Rightarrow>
              (let merged = admit_board env tasks local row merged0 in
               case position of
                 None \<Rightarrow> \<lparr>page_tasks = tasks @ [merged], page_write = w', page_count = Suc (page_count s)\<rparr>
               | Some n \<Rightarrow>
                   if env_fingerprint env merged = env_fingerprint env (tasks ! n) then s\<lparr>page_write := w'\<rparr>
                   else \<lparr>page_tasks = tasks[n := merged], page_write = w', page_count = Suc (page_count s)\<rparr>)))"

definition apply_row :: "apply_env \<Rightarrow> apply_link \<Rightarrow> apply_state \<Rightarrow> wire_row \<Rightarrow> apply_state option" where
  "apply_row env link s row =
     (let w = page_write s; i = row_id row in
      if row_project row \<notin> link_projects link \<or> row_project row \<notin> write_linked w then Some s
      else
        (let position = position_of (page_tasks s) i; local = map_option (\<lambda>n. page_tasks s ! n) position in
         if (case local of Some t \<Rightarrow> task_project t \<noteq> row_project row | None \<Rightarrow> False) then None
         else (case row of
             GoneRow _ project gone \<Rightarrow> apply_gone env link local i project gone s
           | StubRow _ project withheld \<Rightarrow>
               Some (if isTombstone (read_row w (tombstoneKey i)) then s else apply_stub i project withheld s)
           | TaskRow row' \<Rightarrow>
               Some (if isTombstone (read_row w (tombstoneKey i)) then s else apply_task env link position row' s))))"

fun apply_rows :: "apply_env \<Rightarrow> apply_link \<Rightarrow> wire_row list \<Rightarrow> apply_state \<Rightarrow> apply_state option" where
  "apply_rows env link [] s = Some s"
| "apply_rows env link (row # rows) s =
     (case apply_row env link s row of None \<Rightarrow> None | Some s' \<Rightarrow> apply_rows env link rows s')"

definition CLOCK_AHEAD_LIMIT_MS :: nat where "CLOCK_AHEAD_LIMIT_MS = 3600000"
definition DAILY_ROW_BUDGET :: nat where "DAILY_ROW_BUDGET = 5000"

datatype apply_outcome = Changed nat | RefusedClock | RefusedQuota | Malformed

type_synonym row_budget = "(string \<times> nat) option"

text \<open>
  One page of a link: the clock, the day's budget, then the rows in one transaction; nothing is
  kept of a page that throws, and no task of one that changed none.
\<close>

definition applyTaskRows ::
  "apply_env \<Rightarrow> apply_link \<Rightarrow> nat \<Rightarrow> string \<Rightarrow> row_budget \<Rightarrow> wire_row list \<Rightarrow> board_task list \<Rightarrow> sync_write option
     \<Rightarrow> apply_outcome \<times> row_budget \<times> board_task list \<times> sync_write option" where
  "applyTaskRows env link now day budget rows tasks write =
     (let used = (case budget of Some (d, n) \<Rightarrow> if d = day then n else 0 | None \<Rightarrow> 0) in
      if rows = [] then (Changed 0, budget, tasks, write)
      else if \<exists>row \<in> set rows. \<exists>stamp \<in> set (rowStamps row). stampMs stamp > now + CLOCK_AHEAD_LIMIT_MS
      then (RefusedClock, budget, tasks, write)
      else if (case budget of Some (d, n) \<Rightarrow> d = day \<and> n \<ge> DAILY_ROW_BUDGET | None \<Rightarrow> False) then (RefusedQuota, budget, tasks, write)
      else
        (case write of
           None \<Rightarrow> (Changed 0, Some (day, used), tasks, None)
         | Some w \<Rightarrow>
             (case apply_rows env link rows \<lparr>page_tasks = tasks, page_write = w, page_count = 0\<rparr> of
                None \<Rightarrow> (Malformed, budget, tasks, write)
              | Some s \<Rightarrow> (Changed (page_count s), Some (day, used + page_count s),
                  if page_count s = 0 then tasks else page_tasks s, Some (page_write s)))))"

end
