(* ===== verification/Linked_Stamping.thy ===== *)
theory Linked_Stamping
  imports Linked_Task
begin

text \<open>
  What the stamp step guarantees: a group edited here gets a stamp above every stamp its project
  holds, nothing else moves, and a deleted task leaves a tombstone above them too.
\<close>

section \<open>Maxima\<close>

lemma foldl_newer:
  "(\<forall>s \<in> set ss. str_le s (foldl newer n ss)) \<and> str_le n (foldl newer n ss) \<and> foldl newer n ss \<in> insert n (set ss)"
proof (induction ss arbitrary: n)
  case (Cons s ss)
  have "str_le n (newer n s)" "str_le s (newer n s)"
    using str_le_total by (auto simp: newer_def str_less_def)
  with Cons.IH [of "newer n s"] show ?case
    by (auto intro: str_le_trans) (auto simp: newer_def split: if_splits)
qed simp

lemma newestStamp_ge: "str_le (effectiveStamp parse t g prefix) (newestStamp parse t prefix)"
  using foldl_newer [of "map (\<lambda>g. effectiveStamp parse t g prefix) TASK_SYNC_GROUPS" "[]"]
  by (auto simp: newestStamp_def)

lemma newestStamp_in:
  assumes "\<And>g. effectiveStamp parse t g prefix \<noteq> []"
  shows "\<exists>g. newestStamp parse t prefix = effectiveStamp parse t g prefix"
proof -
  let ?ss = "map (\<lambda>g. effectiveStamp parse t g prefix) TASK_SYNC_GROUPS"
  from foldl_newer [of ?ss "[]"] have "newestStamp parse t prefix = [] \<or> newestStamp parse t prefix \<in> set ?ss"
    by (auto simp: newestStamp_def)
  moreover have "newestStamp parse t prefix \<noteq> []"
    using newestStamp_ge [of parse t TextGroup prefix] assms [of TextGroup]
    by (cases "effectiveStamp parse t TextGroup prefix"; cases "newestStamp parse t prefix") auto
  ultimately show ?thesis by auto
qed

lemma maxStamp_mono:
  assumes "str_le s n" "s \<noteq> []" "l = Some n \<or> r = Some n"
  shows "\<exists>m. maxStamp l r = Some m \<and> str_le s m"
proof -
  have n: "n \<noteq> []" using assms(1,2) by (cases s; cases n) auto
  with assms(3) have "maxStamp l r \<noteq> None"
    by (cases l; cases r) (auto simp: maxStamp_def absent_def)
  then obtain m where m: "maxStamp l r = Some m" by blast
  with maxStamp_ge [OF m] assms show ?thesis by (blast intro: str_le_trans)
qed

section \<open>Bounds and covers\<close>

text \<open>A stamp no later than a millisecond.\<close>

definition stamp_within :: "nat \<Rightarrow> string \<Rightarrow> bool" where
  "stamp_within l s \<longleftrightarrow> isStamp s \<and> stampMs s \<le> l"

lemma stamp_within_mono: "stamp_within l s \<Longrightarrow> l \<le> l' \<Longrightarrow> stamp_within l' s"
  by (simp add: stamp_within_def)

lemma stamp_within_nonempty: "stamp_within l s \<Longrightarrow> s \<noteq> []"
  by (auto simp: stamp_within_def isStamp_def)

definition write_within :: "nat \<Rightarrow> sync_write \<Rightarrow> bool" where
  "write_within l w \<longleftrightarrow> is_prefix (self_prefix w) \<and> (\<forall>n. wall_of (clock_readings w n) \<le> l)
     \<and> (\<forall>p s. floor_mark w p = Some s \<longrightarrow> stamp_within l s) \<and> (\<forall>p s. project_mark w p = Some s \<longrightarrow> stamp_within l s)"

definition task_within :: "(string \<Rightarrow> int option) \<Rightarrow> string \<Rightarrow> nat \<Rightarrow> board_task \<Rightarrow> bool" where
  "task_within parse prefix l t \<longleftrightarrow> (\<forall>g. stamp_within l (effectiveStamp parse t g prefix))"

lemma write_within_mono: "write_within l w \<Longrightarrow> l \<le> l' \<Longrightarrow> write_within l' w"
  unfolding write_within_def by (blast intro: stamp_within_mono le_trans)

lemma task_within_mono: "task_within parse prefix l t \<Longrightarrow> l \<le> l' \<Longrightarrow> task_within parse prefix l' t"
  by (auto simp: task_within_def intro: stamp_within_mono)

text \<open>A stamp that a project holds: of one of its tasks, its floor or its recorded mark.\<close>

definition task_holds :: "string \<Rightarrow> board_task \<Rightarrow> string \<Rightarrow> bool" where
  "task_holds p t s \<longleftrightarrow> task_project t = p \<and> (\<exists>g s'. stamps_of_task t g = Some s' \<and> str_le s s')"

definition covered :: "board_task list \<Rightarrow> sync_write \<Rightarrow> string \<Rightarrow> string \<Rightarrow> bool" where
  "covered tasks w p s \<longleftrightarrow> (\<exists>t \<in> set tasks. task_holds p t s)
     \<or> (\<exists>s'. floor_mark w p = Some s' \<and> str_le s s') \<or> (\<exists>s'. project_mark w p = Some s' \<and> str_le s s')"

definition good_mark :: "nat \<Rightarrow> string option \<Rightarrow> bool" where
  "good_mark l m \<longleftrightarrow> (\<forall>s. m = Some s \<longrightarrow> stamp_within l s)"

lemma good_mark_max: "good_mark l m \<Longrightarrow> good_mark l n \<Longrightarrow> good_mark l (maxStamp m n)"
  using maxStamp_in [of m n] by auto

lemma task_within_newest: "task_within parse prefix l t \<Longrightarrow> stamp_within l (newestStamp parse t prefix)"
proof -
  assume t: "task_within parse prefix l t"
  then have "effectiveStamp parse t g prefix \<noteq> []" for g
    by (auto simp: task_within_def dest: stamp_within_nonempty)
  from newestStamp_in [OF this] t show ?thesis by (auto simp: task_within_def)
qed

lemma fold_marks:
  assumes "good_mark l m" "\<forall>t \<in> set ts. stamp_within l (f t)"
  shows "good_mark l (foldl (\<lambda>mark t. maxStamp mark (Some (f t))) m ts)
    \<and> (\<forall>s. s \<noteq> [] \<longrightarrow> (\<exists>n. m = Some n \<and> str_le s n) \<or> (\<exists>t \<in> set ts. str_le s (f t)) \<longrightarrow>
      (\<exists>n. foldl (\<lambda>mark t. maxStamp mark (Some (f t))) m ts = Some n \<and> str_le s n))"
  using assms
proof (induction ts arbitrary: m)
  case (Cons t ts)
  then have "good_mark l (maxStamp m (Some (f t)))" by (intro good_mark_max) (auto simp: good_mark_def)
  with Cons have IH: "good_mark l (foldl (\<lambda>mark t. maxStamp mark (Some (f t))) m (t # ts))"
    "\<And>s. s \<noteq> [] \<Longrightarrow> (\<exists>n. maxStamp m (Some (f t)) = Some n \<and> str_le s n) \<or> (\<exists>t \<in> set ts. str_le s (f t)) \<Longrightarrow>
      \<exists>n. foldl (\<lambda>mark t. maxStamp mark (Some (f t))) m (t # ts) = Some n \<and> str_le s n" by auto
  show ?case
  proof (intro conjI allI impI, rule IH(1))
    fix s :: string assume s: "s \<noteq> []" "(\<exists>n. m = Some n \<and> str_le s n) \<or> (\<exists>t \<in> set (t # ts). str_le s (f t))"
    then have "(\<exists>n. (m = Some n \<or> Some (f t) = Some n) \<and> str_le s n) \<or> (\<exists>t \<in> set ts. str_le s (f t))" by auto
    with s(1) have "(\<exists>n. maxStamp m (Some (f t)) = Some n \<and> str_le s n) \<or> (\<exists>t \<in> set ts. str_le s (f t))"
      using maxStamp_mono by blast
    with IH(2) s(1) show "\<exists>n. foldl (\<lambda>mark t. maxStamp mark (Some (f t))) m (t # ts) = Some n \<and> str_le s n" by blast
  qed
qed auto

lemma watermark_covers:
  assumes w: "write_within l w" and ts: "\<forall>t \<in> set tasks. task_within parse (self_prefix w) l t"
  shows "good_mark l (projectWatermark parse tasks p w)"
    and "covered tasks w p s \<Longrightarrow> s \<noteq> [] \<Longrightarrow> \<exists>m. projectWatermark parse tasks p w = Some m \<and> str_le s m"
proof -
  let ?f = "\<lambda>t. newestStamp parse t (self_prefix w)"
  let ?ts = "filter (\<lambda>task. task_project task = p) tasks"
  let ?rows = "foldl (\<lambda>mark t. maxStamp mark (Some (?f t))) (project_mark w p) ?ts"
  have m: "good_mark l (project_mark w p)" "good_mark l (floor_mark w p)" using w by (auto simp: write_within_def good_mark_def)
  have "\<forall>t \<in> set ?ts. stamp_within l (?f t)" using ts task_within_newest by auto
  note rows = fold_marks [OF m(1) this]
  show "good_mark l (projectWatermark parse tasks p w)"
    unfolding projectWatermark_def using rows m(2) by (intro good_mark_max) auto
  assume cov: "covered tasks w p s" and s: "s \<noteq> []"
  have newest: "str_le s (?f t)" if "task_holds p t s" for t
  proof -
    from that obtain g s' where "stamps_of_task t g = Some s'" "str_le s s'" by (auto simp: task_holds_def)
    then show ?thesis using newestStamp_ge [of parse t g "self_prefix w"] by (auto simp: effectiveStamp_def intro: str_le_trans)
  qed
  from cov have "(\<exists>n. ?rows = Some n \<and> str_le s n) \<or> (\<exists>n. floor_mark w p = Some n \<and> str_le s n)"
    using rows s newest by (fastforce simp: covered_def task_holds_def)
  then show "\<exists>m. projectWatermark parse tasks p w = Some m \<and> str_le s m"
    unfolding projectWatermark_def using maxStamp_mono [OF _ s] by blast
qed

section \<open>Fresh stamps\<close>

text \<open>
  The state of a commit: what every project held when it began is below each mark taken so far,
  and every stamp is within the bound.
\<close>

definition marks_above :: "nat \<Rightarrow> (string \<Rightarrow> string \<Rightarrow> bool) \<Rightarrow> stamp_run \<Rightarrow> bool" where
  "marks_above l held run \<longleftrightarrow> write_within l (run_write run)
     \<and> (\<forall>p m. js_get (run_marks run) p = Some m \<longrightarrow>
        (\<exists>s. m = Some s \<and> stamp_within l s \<and> (\<forall>b. held p b \<longrightarrow> str_le b s)))"

definition held_at :: "board_task list \<Rightarrow> sync_write \<Rightarrow> string \<Rightarrow> string \<Rightarrow> bool" where
  "held_at tasks w p s \<longleftrightarrow> s \<noteq> [] \<and> covered tasks w p s"

lemma read_clock_within: "write_within l w \<Longrightarrow> write_within l (snd (read_clock w))"
  by (simp add: write_within_def read_clock_def floor_mark_def read_row_def)

lemma nextStamp_within:
  assumes "good_mark l m" "is_prefix p" "wall_of now \<le> l" "l < MAX_STAMP_MS"
  shows "stamp_within (Suc l) (nextStamp m now p)" "\<And>s. m = Some s \<Longrightarrow> str_less s (nextStamp m now p)"
proof -
  have "stamp_within (Suc l) (nextStamp m now p) \<and> (\<forall>s. m = Some s \<longrightarrow> str_less s (nextStamp m now p))"
  proof (cases m)
    case None
    with nextStamp_first [OF assms(2), of now] assms(3) show ?thesis by (auto simp: stamp_within_def)
  next
    case (Some s)
    with assms(1,4) have s: "isStamp s" "stampMs s \<le> l" "has_room s"
      by (auto simp: good_mark_def stamp_within_def has_room_def)
    from nextStamp_above [OF s(1,3) assms(2), of now] s(2) assms(3) Some show ?thesis by (auto simp: stamp_within_def)
  qed
  then show "stamp_within (Suc l) (nextStamp m now p)" "\<And>s. m = Some s \<Longrightarrow> str_less s (nextStamp m now p)" by auto
qed

lemma fresh_above:
  assumes run: "marks_above l held run" and l: "l < MAX_STAMP_MS"
    and ts: "\<forall>t \<in> set tasks. task_within parse (self_prefix (run_write run)) l t"
    and held: "\<forall>b. held p b \<longrightarrow> held_at tasks (run_write run) p b"
    and f: "fresh parse tasks p run = (s, run')"
  shows "stamp_within (Suc l) s" "\<And>b. held p b \<Longrightarrow> str_less b s" "marks_above (Suc l) held run'"
    "run_write run' = snd (read_clock (run_write run))"
proof -
  define mark where "mark = (case js_get (run_marks run) p of Some mark \<Rightarrow> mark | None \<Rightarrow> projectWatermark parse tasks p (run_write run))"
  from run have w: "write_within l (run_write run)" by (simp add: marks_above_def)
  have mark: "good_mark l mark" "\<And>b. held p b \<Longrightarrow> \<exists>m. mark = Some m \<and> str_le b m"
  proof -
    show "good_mark l mark"
    proof (cases "js_get (run_marks run) p")
      case None
      with watermark_covers(1) [OF w ts] show ?thesis by (simp add: mark_def)
    next
      case (Some m)
      with run show ?thesis by (auto simp: mark_def marks_above_def good_mark_def)
    qed
    fix b assume b: "held p b"
    show "\<exists>m. mark = Some m \<and> str_le b m"
    proof (cases "js_get (run_marks run) p")
      case None
      with watermark_covers(2) [OF w ts] held b show ?thesis by (simp add: mark_def held_at_def)
    next
      case (Some m)
      with run b show ?thesis by (fastforce simp: mark_def marks_above_def)
    qed
  qed
  from f have s: "s = nextStamp mark (clock_readings (run_write run) (readings (run_write run))) (self_prefix (run_write run))"
    and r: "run' = \<lparr>run_write = snd (read_clock (run_write run)), run_marks = js_set p (Some s) (run_marks run)\<rparr>"
    by (auto simp: fresh_def mark_def Let_def read_clock_def)
  have pre: "is_prefix (self_prefix (run_write run))" "wall_of (clock_readings (run_write run) (readings (run_write run))) \<le> l"
    using w by (auto simp: write_within_def)
  note n = nextStamp_within [OF mark(1) pre l]
  show st: "stamp_within (Suc l) s" using n(1) s by simp
  show above: "str_less b s" if "held p b" for b
    using mark(2) [OF that] n(2) s by (auto intro: str_le_less_trans)
  show "run_write run' = snd (read_clock (run_write run))" by (simp add: r)
  have "write_within (Suc l) (snd (read_clock (run_write run)))"
    using read_clock_within [OF w] by (rule write_within_mono) simp
  moreover have "\<exists>t. m = Some t \<and> stamp_within (Suc l) t \<and> (\<forall>b. held q b \<longrightarrow> str_le b t)"
    if m: "js_get (run_marks run) q = Some m" for q m
  proof -
    from run m obtain t where "m = Some t" "stamp_within l t" "\<forall>b. held q b \<longrightarrow> str_le b t"
      unfolding marks_above_def by blast
    with stamp_within_mono [of l t "Suc l"] show ?thesis by simp
  qed
  ultimately show "marks_above (Suc l) held run'"
    using st above by (auto simp: marks_above_def r str_less_le)
qed

section \<open>One task\<close>

text \<open>A commit moves the clock and nothing else of the write while it stamps.\<close>

definition ticked :: "sync_write \<Rightarrow> sync_write \<Rightarrow> bool" where
  "ticked w w' \<longleftrightarrow> (\<exists>n. w' = w\<lparr>readings := n\<rparr>)"

lemma ticked_refl [simp]: "ticked w w"
  unfolding ticked_def by (rule exI [of _ "readings w"]) simp

lemma ticked_trans: "ticked u v \<Longrightarrow> ticked v w \<Longrightarrow> ticked u w"
  by (auto simp: ticked_def)

lemma ticked_clock: "ticked w (snd (read_clock w))"
  by (auto simp: ticked_def read_clock_def)

lemma ticked_held: "ticked w w' \<Longrightarrow> held_at tasks w' p b = held_at tasks w p b"
  by (auto simp: ticked_def held_at_def covered_def floor_mark_def read_row_def)

lemma ticked_fields:
  "ticked w w' \<Longrightarrow> self_prefix w' = self_prefix w \<and> self_id w' = self_id w \<and> preserved_stamps w' = preserved_stamps w
    \<and> write_linked w' = write_linked w \<and> companions w' = companions w"
  by (auto simp: ticked_def)

lemma ticked_preserved: "ticked w w' \<Longrightarrow> preserved w' = preserved w"
  by (intro ext) (simp add: preserved_def ticked_fields split: option.split)

text \<open>What the step leaves of one group, above everything the project held.\<close>

definition carried :: "(string \<Rightarrow> int option) \<Rightarrow> string \<Rightarrow> group_snapshot option \<Rightarrow> stamps \<Rightarrow> sync_group \<Rightarrow> string option" where
  "carried parse prefix prior stamps g =
     (case (stamps g, prior) of
        (None, Some p) \<Rightarrow> Some (case snap_stamps p g of Some s \<Rightarrow> s | None \<Rightarrow> derivedStamp parse (snap_updatedAt p) prefix)
      | _ \<Rightarrow> stamps g)"

definition group_outcome ::
  "(string \<Rightarrow> int option) \<Rightarrow> nat \<Rightarrow> (string \<Rightarrow> bool) \<Rightarrow> sync_write \<Rightarrow> board_task \<Rightarrow> group_snapshot option
     \<Rightarrow> stamps \<Rightarrow> stamps \<Rightarrow> sync_group \<Rightarrow> bool" where
  "group_outcome parse l held w task prior before after g \<longleftrightarrow>
     (if preserved w task prior before g \<or> set_by_writer prior before g then after g = before g
      else if group_changed prior task g then \<exists>s. after g = Some s \<and> stamp_within l s \<and> (\<forall>b. held b \<longrightarrow> str_less b s)
      else after g = carried parse (self_prefix w) prior before g)"

lemma group_outcome_mono: "group_outcome parse l held w task prior before after g \<Longrightarrow> l \<le> l' \<Longrightarrow>
    group_outcome parse l' held w task prior before after g"
  by (auto simp: group_outcome_def intro: stamp_within_mono split: if_splits)

lemma group_outcome_ticked: "ticked w w' \<Longrightarrow>
    group_outcome parse l held w' task prior before after g = group_outcome parse l held w task prior before after g"
  by (simp add: group_outcome_def ticked_preserved ticked_fields)

lemma group_outcome_cong:
  assumes "after g = after' g" "before g = before' g"
  shows "group_outcome parse l held w task prior before after g \<longleftrightarrow> group_outcome parse l held w task prior before' after' g"
proof -
  have "preserved w task prior before g = preserved w task prior before' g"
    "set_by_writer prior before g = set_by_writer prior before' g"
    using assms(2) by (simp_all add: preserved_def set_by_writer_def split: option.split)
  moreover have "carried parse (self_prefix w) prior before g = carried parse (self_prefix w) prior before' g"
    by (simp only: carried_def assms(2))
  ultimately show ?thesis unfolding group_outcome_def assms by simp
qed

lemma stamp_group_outcome:
  fixes task :: board_task and prior :: "group_snapshot option" and g :: sync_group
  assumes run: "marks_above l held (loop_run loop)" and l: "l < MAX_STAMP_MS"
    and ts: "\<forall>t \<in> set tasks. task_within parse (self_prefix (run_write (loop_run loop))) l t"
    and held: "\<forall>p b. held p b \<longrightarrow> held_at tasks (run_write (loop_run loop)) p b"
  defines "loop' \<equiv> stamp_group parse tasks task prior loop g"
  shows "marks_above (Suc l) held (loop_run loop')"
    and "group_outcome parse (Suc l) (held (task_project task)) (run_write (loop_run loop)) task prior (loop_stamps loop) (loop_stamps loop') g"
    and "\<And>h. h \<noteq> g \<Longrightarrow> loop_stamps loop' h = loop_stamps loop h"
    and "ticked (run_write (loop_run loop)) (run_write (loop_run loop'))"
proof -
  obtain s run' where f: "fresh parse tasks (task_project task) (loop_run loop) = (s, run')" by force
  note fr = fresh_above [OF run l ts spec [OF held] f]
  let ?w = "run_write (loop_run loop)" and ?before = "loop_stamps loop"
  have same: "marks_above (Suc l) held (loop_run loop)"
    unfolding marks_above_def
  proof (intro conjI allI impI)
    show "write_within (Suc l) ?w" using run write_within_mono [of l ?w "Suc l"] by (simp add: marks_above_def)
    fix p m assume "js_get (run_marks (loop_run loop)) p = Some m"
    with run obtain t where "m = Some t" "stamp_within l t" "\<forall>b. held p b \<longrightarrow> str_le b t"
      unfolding marks_above_def by blast
    with stamp_within_mono [of l t "Suc l"] show "\<exists>s. m = Some s \<and> stamp_within (Suc l) s \<and> (\<forall>b. held p b \<longrightarrow> str_le b s)" by simp
  qed
  have "marks_above (Suc l) held (loop_run loop')
    \<and> group_outcome parse (Suc l) (held (task_project task)) ?w task prior ?before (loop_stamps loop') g
    \<and> (\<forall>h. h \<noteq> g \<longrightarrow> loop_stamps loop' h = ?before h) \<and> ticked ?w (run_write (loop_run loop'))"
  proof (cases "preserved ?w task prior ?before g \<or> set_by_writer prior ?before g")
    case True
    then have "loop' = loop" by (auto simp: loop'_def stamp_group_def Let_def)
    with True same show ?thesis by (simp add: group_outcome_def)
  next
    case kept: False
    show ?thesis
    proof (cases "group_changed prior task g")
      case True
      with kept f have "loop' = \<lparr>loop_stamps = ?before(g \<mapsto> s), loop_local = True, loop_run = run'\<rparr>"
        by (simp add: loop'_def stamp_group_def)
      with kept True fr ticked_clock show ?thesis by (simp add: group_outcome_def)
    next
      case False
      with kept have "loop' = loop\<lparr>loop_stamps := ?before(g := carried parse (self_prefix ?w) prior ?before g)\<rparr>"
        by (cases "?before g"; cases prior) (simp_all add: loop'_def stamp_group_def carried_def fun_upd_idem)
      with kept False same show ?thesis by (simp add: group_outcome_def)
    qed
  qed
  then show "marks_above (Suc l) held (loop_run loop')"
    "group_outcome parse (Suc l) (held (task_project task)) ?w task prior ?before (loop_stamps loop') g"
    "\<And>h. h \<noteq> g \<Longrightarrow> loop_stamps loop' h = ?before h" "ticked ?w (run_write (loop_run loop'))" by simp_all
qed

lemma stamp_groups_outcome:
  assumes "marks_above l held (loop_run loop)" "l + length gs \<le> MAX_STAMP_MS" "distinct gs"
    and "\<forall>t \<in> set tasks. task_within parse (self_prefix (run_write (loop_run loop))) l t"
    and "\<forall>p b. held p b \<longrightarrow> held_at tasks (run_write (loop_run loop)) p b"
  shows "marks_above (l + length gs) held (loop_run (foldl (stamp_group parse tasks task prior) loop gs))
    \<and> ticked (run_write (loop_run loop)) (run_write (loop_run (foldl (stamp_group parse tasks task prior) loop gs)))
    \<and> (\<forall>g. g \<notin> set gs \<longrightarrow> loop_stamps (foldl (stamp_group parse tasks task prior) loop gs) g = loop_stamps loop g)
    \<and> (\<forall>g \<in> set gs. group_outcome parse (l + length gs) (held (task_project task)) (run_write (loop_run loop)) task prior
        (loop_stamps loop) (loop_stamps (foldl (stamp_group parse tasks task prior) loop gs)) g)"
  using assms
proof (induction gs arbitrary: l loop)
  case (Cons g gs)
  let ?loop = "stamp_group parse tasks task prior loop g"
  from Cons.prems(2) have l: "l < MAX_STAMP_MS" by simp
  note step = stamp_group_outcome [OF Cons.prems(1) l Cons.prems(4,5), where task = task and prior = prior and g = g]
  have pre: "self_prefix (run_write (loop_run ?loop)) = self_prefix (run_write (loop_run loop))"
    using ticked_fields [OF step(4)] by simp
  have ts: "\<forall>t \<in> set tasks. task_within parse (self_prefix (run_write (loop_run ?loop))) (Suc l) t"
    using Cons.prems(4) unfolding pre by (auto intro: task_within_mono)
  have held: "\<forall>p b. held p b \<longrightarrow> held_at tasks (run_write (loop_run ?loop)) p b"
    using Cons.prems(5) ticked_held [OF step(4)] by blast
  have rest: "Suc l + length gs \<le> MAX_STAMP_MS" "distinct gs" using Cons.prems by simp_all
  note IH = Cons.IH [OF step(1) rest ts held]
  let ?out = "foldl (stamp_group parse tasks task prior) ?loop gs"
  have later: "group_outcome parse (Suc l + length gs) (held (task_project task)) (run_write (loop_run loop)) task prior
      (loop_stamps loop) (loop_stamps ?out) h" if h: "h \<in> set gs" for h
  proof -
    from h Cons.prems(3) have "h \<noteq> g" by auto
    then have b: "loop_stamps ?loop h = loop_stamps loop h" by (rule step(3))
    from IH h have "group_outcome parse (Suc l + length gs) (held (task_project task)) (run_write (loop_run ?loop)) task prior
      (loop_stamps ?loop) (loop_stamps ?out) h" by blast
    then show ?thesis unfolding group_outcome_ticked [OF step(4)]
      using group_outcome_cong [of "loop_stamps ?out" h "loop_stamps ?out" "loop_stamps ?loop" "loop_stamps loop", OF refl b] by blast
  qed
  have now: "group_outcome parse (Suc l + length gs) (held (task_project task)) (run_write (loop_run loop)) task prior
      (loop_stamps loop) (loop_stamps ?out) g"
  proof -
    from Cons.prems(3) have "g \<notin> set gs" by simp
    with IH have b: "loop_stamps ?out g = loop_stamps ?loop g" by blast
    have "group_outcome parse (Suc l + length gs) (held (task_project task)) (run_write (loop_run loop)) task prior
      (loop_stamps loop) (loop_stamps ?loop) g"
      by (rule group_outcome_mono [OF step(2)]) simp
    then show ?thesis using group_outcome_cong [of "loop_stamps ?out" g "loop_stamps ?loop" "loop_stamps loop" "loop_stamps loop", OF b refl] by blast
  qed
  from IH ticked_trans [OF step(4)] step(3) later now show ?case by auto
qed auto

definition with_machine :: "sync_write \<Rightarrow> board_task \<Rightarrow> board_task" where
  "with_machine w t = (if absent (task_machine t) then t\<lparr>task_machine := Some (self_id w)\<rparr> else t)"

lemma with_machine_fields [simp]:
  "task_id (with_machine w t) = task_id t" "task_project (with_machine w t) = task_project t"
  "task_sync (with_machine w t) = task_sync t" "task_updatedAt (with_machine w t) = task_updatedAt t"
  by (simp_all add: with_machine_def)

definition skipped :: "(board_task \<Rightarrow> string) \<Rightarrow> (string, group_snapshot) js_map \<Rightarrow> sync_write \<Rightarrow> board_task \<Rightarrow> bool" where
  "skipped fingerprint snapshot w t \<longleftrightarrow> task_project t \<notin> write_linked w
     \<or> (\<exists>p. js_get snapshot (task_id t) = Some p \<and> snap_fingerprint p = fingerprint t)"

text \<open>What becomes of a task: left alone, or its groups stamped and nothing else changed.\<close>

definition task_outcome ::
  "(string \<Rightarrow> int option) \<Rightarrow> (board_task \<Rightarrow> string) \<Rightarrow> (string, group_snapshot) js_map \<Rightarrow> nat
     \<Rightarrow> (string \<Rightarrow> string \<Rightarrow> bool) \<Rightarrow> sync_write \<Rightarrow> board_task \<Rightarrow> board_task \<Rightarrow> bool" where
  "task_outcome parse fingerprint snapshot l held w t t' \<longleftrightarrow>
     (if skipped fingerprint snapshot w t then t' = t
      else t' = (with_machine w t)\<lparr>task_sync := task_sync t'\<rparr>
        \<and> (\<forall>g. group_outcome parse l (held (task_project t)) w (with_machine w t) (js_get snapshot (task_id t))
             (stamps_of_task t) (stamps_of_task t') g))"

definition snapshot_within :: "(string \<Rightarrow> int option) \<Rightarrow> string \<Rightarrow> nat \<Rightarrow> group_snapshot \<Rightarrow> bool" where
  "snapshot_within parse prefix l p \<longleftrightarrow> (\<forall>g s. snap_stamps p g = Some s \<longrightarrow> stamp_within l s)
     \<and> stamp_within l (derivedStamp parse (snap_updatedAt p) prefix)"

lemma snapshot_within_mono: "snapshot_within parse prefix l p \<Longrightarrow> l \<le> l' \<Longrightarrow> snapshot_within parse prefix l' p"
  by (auto simp: snapshot_within_def intro: stamp_within_mono)

definition snapshots_within :: "(string \<Rightarrow> int option) \<Rightarrow> string \<Rightarrow> nat \<Rightarrow> (string, group_snapshot) js_map \<Rightarrow> bool" where
  "snapshots_within parse prefix l snapshot \<longleftrightarrow> (\<forall>(i, p) \<in> set snapshot. snapshot_within parse prefix l p)"

lemma snapshots_get: "snapshots_within parse prefix l snapshot \<Longrightarrow> js_get snapshot i = Some p \<Longrightarrow> snapshot_within parse prefix l p"
  by (auto simp: snapshots_within_def js_get_def dest!: map_of_SomeD)

lemma length_groups [simp]: "length TASK_SYNC_GROUPS = 7"
  by (simp add: TASK_SYNC_GROUPS_def)

lemma stamp_task_unfold:
  "stamp_task parse fingerprint snapshot earlier t later run =
     (if skipped fingerprint snapshot (run_write run) t then (t, run)
      else
        (let t1 = with_machine (run_write run) t;
             loop = foldl (stamp_group parse (earlier @ t1 # later) t1 (js_get snapshot (task_id t)))
               \<lparr>loop_stamps = stamps_of_task t1, loop_local = False, loop_run = run\<rparr> TASK_SYNC_GROUPS;
             origin = (if loop_local loop then self_prefix (run_write run)
               else (case task_sync t1 of Some sync \<Rightarrow> sync_o sync | None \<Rightarrow> self_prefix (run_write run)))
         in (t1\<lparr>task_sync := Some \<lparr>sync_s = loop_stamps loop, sync_o = origin\<rparr>\<rparr>, loop_run loop)))"
  by (cases "js_get snapshot (task_id t)")
    (simp_all only: stamp_task_def skipped_def with_machine_def [symmetric] Let_def option.case simp_thms
      option.distinct option.inject ex_simps HOL.if_cancel if_True if_False split: if_split, auto)

lemma stamp_task_outcome:
  assumes run: "marks_above l held run" and l: "l + 7 \<le> MAX_STAMP_MS"
    and ts: "\<forall>t \<in> set (earlier @ task # later). task_within parse (self_prefix (run_write run)) l t"
    and held: "\<forall>p b. held p b \<longrightarrow> held_at (earlier @ task # later) (run_write run) p b"
    and st: "stamp_task parse fingerprint snapshot earlier task later run = (task', run')"
  shows "marks_above (l + 7) held run' \<and> ticked (run_write run) (run_write run')
    \<and> task_outcome parse fingerprint snapshot (l + 7) held (run_write run) task task'"
proof (cases "skipped fingerprint snapshot (run_write run) task")
  case True
  then have r: "task' = task" "run' = run"
    using st by (simp_all add: stamp_task_unfold)
  have "marks_above (l + 7) held run"
    unfolding marks_above_def
  proof (intro conjI allI impI)
    show "write_within (l + 7) (run_write run)" using run write_within_mono [of l _ "l + 7"] by (simp add: marks_above_def)
    fix p m assume "js_get (run_marks run) p = Some m"
    with run obtain t where "m = Some t" "stamp_within l t" "\<forall>b. held p b \<longrightarrow> str_le b t" unfolding marks_above_def by blast
    with stamp_within_mono [of l t "l + 7"] show "\<exists>s. m = Some s \<and> stamp_within (l + 7) s \<and> (\<forall>b. held p b \<longrightarrow> str_le b s)" by simp
  qed
  with r True show ?thesis by (simp add: task_outcome_def)
next
  case False
  let ?w = "run_write run" and ?t1 = "with_machine (run_write run) task" and ?prior = "js_get snapshot (task_id task)"
  let ?tasks = "earlier @ ?t1 # later"
  let ?loop = "\<lparr>loop_stamps = stamps_of_task ?t1, loop_local = False, loop_run = run\<rparr>"
  let ?out = "foldl (stamp_group parse ?tasks ?t1 ?prior) ?loop TASK_SYNC_GROUPS"
  from False st have r: "run' = loop_run ?out" "stamps_of_task task' = loop_stamps ?out"
      "task' = ?t1\<lparr>task_sync := task_sync task'\<rparr>"
    by (auto simp: stamp_task_unfold Let_def)
  have t1: "effectiveStamp parse ?t1 g prefix = effectiveStamp parse task g prefix" for g prefix
    by (simp add: effectiveStamp_def split: option.split)
  have within: "\<forall>t \<in> set ?tasks. task_within parse (self_prefix (run_write (loop_run ?loop))) l t"
    using ts by (auto simp: task_within_def t1)
  have "task_holds p ?t1 b = task_holds p task b" for p b by (simp add: task_holds_def)
  then have "covered ?tasks ?w p b = covered (earlier @ task # later) ?w p b" for p b
    by (simp add: covered_def)
  with held have cov: "\<forall>p b. held p b \<longrightarrow> held_at ?tasks (run_write (loop_run ?loop)) p b"
    by (simp add: held_at_def)
  have "marks_above l held (loop_run ?loop)" "l + length TASK_SYNC_GROUPS \<le> MAX_STAMP_MS" using run l by simp_all
  note out = stamp_groups_outcome [OF this groups_distinct within cov, of ?t1 ?prior]
  have "group_outcome parse (l + 7) (held (task_project task)) ?w ?t1 ?prior (stamps_of_task task) (stamps_of_task task') g" for g
    unfolding r(2) using out by simp
  then have "task_outcome parse fingerprint snapshot (l + 7) held ?w task task'"
    unfolding task_outcome_def if_not_P [OF False] using r(3) by blast
  with out r(1) show ?thesis by simp
qed

text \<open>A stamped task is within the new bound, and holds all it held.\<close>

lemma task_outcome_within:
  assumes o: "task_outcome parse fingerprint snapshot l' held w t t'" and l: "l \<le> l'"
    and t: "task_within parse (self_prefix w) l t" and snap: "snapshots_within parse (self_prefix w) l snapshot"
  shows "task_within parse (self_prefix w) l' t'"
proof (cases "skipped fingerprint snapshot w t")
  case True
  with o t l show ?thesis by (auto simp: task_outcome_def intro: task_within_mono)
next
  case False
  with o have e: "t' = (with_machine w t)\<lparr>task_sync := task_sync t'\<rparr>"
    and g: "\<And>g. group_outcome parse l' (held (task_project t)) w (with_machine w t) (js_get snapshot (task_id t))
      (stamps_of_task t) (stamps_of_task t') g" by (auto simp: task_outcome_def)
  have t': "task_updatedAt t' = task_updatedAt t" by (subst e) simp
  show ?thesis unfolding task_within_def
  proof
    fix g'
    have eff: "stamp_within l' (effectiveStamp parse t g' (self_prefix w))"
      using t l by (auto simp: task_within_def intro: stamp_within_mono)
    have keep: "stamp_within l' (effectiveStamp parse t' g' (self_prefix w))" if "stamps_of_task t' g' = stamps_of_task t g'"
      using eff that t' by (simp add: effectiveStamp_def split: option.splits)
    have snap': "stamp_within l' s" if "carried parse (self_prefix w) (Some p) (stamps_of_task t) g' = Some s"
        "js_get snapshot (task_id t) = Some p" "stamps_of_task t g' = None" for p s
      using that snapshot_within_mono [OF snapshots_get [OF snap that(2)] l]
      by (auto simp: carried_def snapshot_within_def split: option.splits)
    from g [of g'] show "stamp_within l' (effectiveStamp parse t' g' (self_prefix w))"
      using keep snap' by (cases "stamps_of_task t g'"; cases "js_get snapshot (task_id t)")
        (auto simp: group_outcome_def carried_def effectiveStamp_def split: if_splits)
  qed
qed

lemma task_outcome_project: "task_outcome parse fingerprint snapshot l held w t t' \<Longrightarrow> task_project t' = task_project t \<and> task_id t' = task_id t"
proof (cases "skipped fingerprint snapshot w t")
  case False
  assume "task_outcome parse fingerprint snapshot l held w t t'"
  with False have e: "t' = (with_machine w t)\<lparr>task_sync := task_sync t'\<rparr>" by (simp add: task_outcome_def)
  show ?thesis by (subst e, subst (2) e) simp
qed (simp add: task_outcome_def)

lemma task_outcome_holds:
  assumes o: "task_outcome parse fingerprint snapshot l held w t t'" and w: "task_within parse prefix l' t"
    and own: "\<forall>b. b \<noteq> [] \<longrightarrow> task_holds p t b \<longrightarrow> held p b" and b: "task_holds p t b"
  shows "task_holds p t' b"
proof (cases "skipped fingerprint snapshot w t")
  case True
  with o b show ?thesis by (simp add: task_outcome_def)
next
  case False
  from b obtain g s where p: "task_project t = p" and s: "stamps_of_task t g = Some s" "str_le b s"
    by (auto simp: task_holds_def)
  have ne: "s \<noteq> []" using w s(1) by (auto simp: task_within_def effectiveStamp_def dest!: spec [of _ g] stamp_within_nonempty)
  have "held (task_project t) s" using own ne p s(1) by (auto simp: task_holds_def intro: str_le_refl)
  moreover from o False have "group_outcome parse l (held (task_project t)) w (with_machine w t) (js_get snapshot (task_id t))
      (stamps_of_task t) (stamps_of_task t') g" by (simp add: task_outcome_def)
  ultimately have "\<exists>s'. stamps_of_task t' g = Some s' \<and> str_le s s'"
    using s(1) by (auto simp: group_outcome_def carried_def str_less_le split: if_splits)
  with s(2) p task_outcome_project [OF o] show ?thesis by (auto simp: task_holds_def intro: str_le_trans)
qed

section \<open>All tasks of a commit\<close>

lemma with_machine_ticked: "ticked w w' \<Longrightarrow> with_machine w' t = with_machine w t"
  by (simp add: with_machine_def ticked_fields)

lemma task_outcome_ticked:
  "ticked w w' \<Longrightarrow> task_outcome parse fingerprint snapshot l held w' t t' = task_outcome parse fingerprint snapshot l held w t t'"
proof -
  assume w: "ticked w w'"
  then have "skipped fingerprint snapshot w' t = skipped fingerprint snapshot w t" by (simp add: skipped_def ticked_fields)
  then show ?thesis unfolding task_outcome_def with_machine_ticked [OF w] group_outcome_ticked [OF w] by simp
qed

lemma task_outcome_mono:
  "task_outcome parse fingerprint snapshot l held w t t' \<Longrightarrow> l \<le> l' \<Longrightarrow> task_outcome parse fingerprint snapshot l' held w t t'"
  unfolding task_outcome_def by (auto intro: group_outcome_mono split: if_splits)

definition commit_ok ::
  "(string \<Rightarrow> int option) \<Rightarrow> (string, group_snapshot) js_map \<Rightarrow> nat \<Rightarrow> (string \<Rightarrow> string \<Rightarrow> bool)
     \<Rightarrow> stamp_run \<Rightarrow> board_task list \<Rightarrow> bool" where
  "commit_ok parse snapshot l held run tasks \<longleftrightarrow> marks_above l held run
     \<and> (\<forall>t \<in> set tasks. task_within parse (self_prefix (run_write run)) l t)
     \<and> snapshots_within parse (self_prefix (run_write run)) l snapshot
     \<and> (\<forall>p b. held p b \<longrightarrow> held_at tasks (run_write run) p b)"

lemma covered_replace:
  "(task_holds p t b \<Longrightarrow> task_holds p t' b) \<Longrightarrow> covered (xs @ t # ys) w p b \<Longrightarrow> covered (xs @ t' # ys) w p b"
  by (auto simp: covered_def)

lemma commit_ok_step:
  assumes ok: "commit_ok parse snapshot l held run (earlier @ task # later)" and l: "l + 7 \<le> MAX_STAMP_MS"
    and own: "\<forall>p b. b \<noteq> [] \<longrightarrow> task_holds p task b \<longrightarrow> held p b"
    and st: "stamp_task parse fingerprint snapshot earlier task later run = (task', run')"
  shows "commit_ok parse snapshot (l + 7) held run' (earlier @ task' # later)" "ticked (run_write run) (run_write run')"
    "task_outcome parse fingerprint snapshot (l + 7) held (run_write run) task task'"
proof -
  from ok have ok': "marks_above l held run" "\<forall>t \<in> set (earlier @ task # later). task_within parse (self_prefix (run_write run)) l t"
    "snapshots_within parse (self_prefix (run_write run)) l snapshot"
    "\<forall>p b. held p b \<longrightarrow> held_at (earlier @ task # later) (run_write run) p b" by (auto simp: commit_ok_def)
  from stamp_task_outcome [OF ok'(1) l ok'(2,4) st]
  have m: "marks_above (l + 7) held run'" and t: "ticked (run_write run) (run_write run')"
    and o: "task_outcome parse fingerprint snapshot (l + 7) held (run_write run) task task'" by auto
  from ok'(2) have wt: "task_within parse (self_prefix (run_write run)) l task" by simp
  have ts: "\<forall>t \<in> set (earlier @ task' # later). task_within parse (self_prefix (run_write run)) (l + 7) t"
    using ok'(2) task_outcome_within [OF o _ wt ok'(3)] by (auto intro: task_within_mono)
  have holds: "task_holds p task' b" if "task_holds p task b" for p b
    by (rule task_outcome_holds [OF o wt _ that]) (use own in blast)
  have rep: "covered (earlier @ task # later) w p b \<Longrightarrow> covered (earlier @ task' # later) w p b" for w p b
    using covered_replace holds by blast
  have cov: "\<forall>p b. held p b \<longrightarrow> held_at (earlier @ task' # later) (run_write run') p b"
    unfolding ticked_held [OF t] using ok'(4) rep unfolding held_at_def by blast
  have "snapshots_within parse (self_prefix (run_write run)) (l + 7) snapshot"
    using ok'(3) unfolding snapshots_within_def by (auto intro: snapshot_within_mono)
  with m ts cov show "commit_ok parse snapshot (l + 7) held run' (earlier @ task' # later)"
    using ticked_fields [OF t] by (simp add: commit_ok_def)
  show "ticked (run_write run) (run_write run')" by (rule t)
  show "task_outcome parse fingerprint snapshot (l + 7) held (run_write run) task task'" by (rule o)
qed

lemma stamp_tasks_outcome:
  assumes "commit_ok parse snapshot l held run (earlier @ later)" "l + 7 * length later \<le> MAX_STAMP_MS"
    and "\<forall>t \<in> set later. \<forall>p b. b \<noteq> [] \<longrightarrow> task_holds p t b \<longrightarrow> held p b"
  shows "\<exists>later' run'. stamp_tasks parse fingerprint snapshot earlier later run = (earlier @ later', run')
    \<and> commit_ok parse snapshot (l + 7 * length later) held run' (earlier @ later')
    \<and> ticked (run_write run) (run_write run')
    \<and> list_all2 (task_outcome parse fingerprint snapshot (l + 7 * length later) held (run_write run)) later later'"
  using assms
proof (induction later arbitrary: earlier l run)
  case (Cons task later)
  obtain task' run1 where st: "stamp_task parse fingerprint snapshot earlier task later run = (task', run1)" by force
  from Cons.prems have l: "l + 7 \<le> MAX_STAMP_MS" and own: "\<forall>p b. b \<noteq> [] \<longrightarrow> task_holds p task b \<longrightarrow> held p b" by auto
  note step = commit_ok_step [OF Cons.prems(1) l own st]
  have "commit_ok parse snapshot (l + 7) held run1 ((earlier @ [task']) @ later)" "l + 7 + 7 * length later \<le> MAX_STAMP_MS"
    "\<forall>t \<in> set later. \<forall>p b. b \<noteq> [] \<longrightarrow> task_holds p t b \<longrightarrow> held p b"
    using step(1) Cons.prems(2,3) by auto
  from Cons.IH [OF this] obtain later' run' where IH:
    "stamp_tasks parse fingerprint snapshot (earlier @ [task']) later run1 = ((earlier @ [task']) @ later', run')"
    "commit_ok parse snapshot (l + 7 + 7 * length later) held run' ((earlier @ [task']) @ later')"
    "ticked (run_write run1) (run_write run')"
    "list_all2 (task_outcome parse fingerprint snapshot (l + 7 + 7 * length later) held (run_write run1)) later later'" by blast
  have "list_all2 (task_outcome parse fingerprint snapshot (l + 7 * length (task # later)) held (run_write run)) (task # later) (task' # later')"
  proof -
    have "task_outcome parse fingerprint snapshot (l + 7 * length (task # later)) held (run_write run) task task'"
      by (rule task_outcome_mono [OF step(3)]) simp
    moreover have "list_all2 (task_outcome parse fingerprint snapshot (l + 7 * length (task # later)) held (run_write run)) later later'"
      using IH(4) unfolding task_outcome_ticked [OF step(2)] by (simp add: algebra_simps)
    ultimately show ?thesis by simp
  qed
  moreover have "stamp_tasks parse fingerprint snapshot earlier (task # later) run = (earlier @ task' # later', run')"
    using st IH(1) by simp
  moreover have "commit_ok parse snapshot (l + 7 * length (task # later)) held run' (earlier @ task' # later')"
    using IH(2) by (simp add: algebra_simps)
  ultimately show ?case using ticked_trans [OF step(2) IH(3)] by blast
qed simp

end
