(* ===== verification/Linked_Merge.thy ===== *)
theory Linked_Merge
  imports Linked_Apply Linked_Stamping
begin

text \<open>What one incoming row does to a task: last write wins per group, guarded; a replay does nothing.\<close>

section \<open>The groups of a task\<close>

fun same_group :: "board_task \<Rightarrow> board_task \<Rightarrow> sync_group \<Rightarrow> bool" where
  "same_group t u TextGroup \<longleftrightarrow> task_text t = task_text u \<and> task_details t = task_details u \<and> task_chosen t = task_chosen u
     \<and> task_reviews t = task_reviews u \<and> task_replica t = task_replica u"
| "same_group t u StatusGroup \<longleftrightarrow> task_status t = task_status u"
| "same_group t u LookGroup \<longleftrightarrow> task_color t = task_color u \<and> task_icon t = task_icon u \<and> task_priority t = task_priority u"
| "same_group t u PlaceGroup \<longleftrightarrow> task_placement t = task_placement u \<and> task_pos t = task_pos u"
| "same_group t u LinksGroup \<longleftrightarrow> task_workLinks t = task_workLinks u"
| "same_group t u MachineGroup \<longleftrightarrow> task_machine t = task_machine u"
| "same_group t u HandoverGroup \<longleftrightarrow> task_handover t = task_handover u"

lemma same_group_refl [simp]: "same_group t t g"
  by (cases g) simp_all

lemma same_group_trans: "same_group t u g \<Longrightarrow> same_group u v g \<Longrightarrow> same_group t v g"
  by (cases g) simp_all

lemma same_group_digest: "same_group t u g \<Longrightarrow> groupDigest t g = groupDigest u g"
  by (cases g) (simp_all add: prototypeReviewReplica_def split: option.split)

lemma assign_other: "h \<noteq> g \<Longrightarrow> same_group (assignGroup t row h) t g"
  by (cases h; cases g) (simp_all add: Let_def)

lemma assign_same: "same_group t u g \<Longrightarrow> same_group (assignGroup t row g) (assignGroup u row g) g"
  by (cases g) (simp_all add: Let_def)

lemma assign_keeps [simp]:
  "task_sync (assignGroup t row g) = task_sync t" "task_updatedAt (assignGroup t row g) = task_updatedAt t"
  "task_id (assignGroup t row g) = task_id t" "task_project (assignGroup t row g) = task_project t"
  "task_board (assignGroup t row g) = task_board t" "task_boardAutoHidden (assignGroup t row g) = task_boardAutoHidden t"
  "task_boardChoice (assignGroup t row g) = task_boardChoice t"
  by (cases g; simp add: Let_def)+

section \<open>The decision of a group\<close>

definition guarded :: "board_task \<Rightarrow> wire_task \<Rightarrow> apply_link \<Rightarrow> sync_write \<Rightarrow> sync_group \<Rightarrow> bool" where
  "guarded local row link w g \<longleftrightarrow> g = MachineGroup \<and> owner_of local w \<noteq> link_install link
     \<or> g = HandoverGroup \<and> wire_handover row \<noteq> None \<and> wire_handover row \<noteq> Some (link_install link)"

definition left_alone :: "(string \<Rightarrow> int option) \<Rightarrow> board_task \<Rightarrow> wire_task \<Rightarrow> apply_link \<Rightarrow> sync_write \<Rightarrow> sync_group \<Rightarrow> bool" where
  "left_alone parse local row link w g \<longleftrightarrow>
     (let held = effectiveStamp parse local g (self_prefix w) in
      str_le (wire_s row g) held \<and> \<not> restores_title local row held g \<or> guarded local row link w g)"

definition identity_of :: "sync_write \<Rightarrow> string \<times> string" where
  "identity_of w = (self_id w, self_prefix w)"

lemma identity_clock [simp]: "identity_of (snd (read_clock w)) = identity_of w" "identity_of (preserveStamp i g w) = identity_of w"
  by (simp_all add: identity_of_def read_clock_def preserveStamp_def)

text \<open>What a group is after its step, given what it was.\<close>

definition merged_group ::
  "(string \<Rightarrow> int option) \<Rightarrow> board_task \<Rightarrow> wire_task \<Rightarrow> apply_link \<Rightarrow> sync_write \<Rightarrow> board_task list
     \<Rightarrow> sync_group \<Rightarrow> board_task \<Rightarrow> string option \<Rightarrow> bool" where
  "merged_group parse local row link w tasks g t stamp \<longleftrightarrow>
     (let held = effectiveStamp parse local g (self_prefix w) in
      if left_alone parse local row link w g then same_group t local g \<and> stamp = Some held
      else if g = StatusGroup \<and> reopen_conflict local row tasks then
        same_group t local g \<and> (\<exists>now. stamp = Some (nextStamp (Some (wire_s row g)) now (self_prefix w)))
      else stamp = Some (wire_s row g) \<and>
        (if restores_title local row held g then same_group t (local\<lparr>task_text := wire_text row, task_chosen := True\<rparr>) g
         else same_group t (assignGroup local row g) g))"

lemma left_alone_identity: "identity_of w' = identity_of w \<Longrightarrow> left_alone parse local row link w' g = left_alone parse local row link w g"
  by (simp add: identity_of_def left_alone_def guarded_def owner_of_def split: option.split)

lemma merged_group_identity:
  "identity_of w' = identity_of w \<Longrightarrow> merged_group parse local row link w' tasks g t stamp = merged_group parse local row link w tasks g t stamp"
proof -
  assume i: "identity_of w' = identity_of w"
  then have "self_prefix w' = self_prefix w" by (simp add: identity_of_def)
  then show ?thesis unfolding merged_group_def left_alone_identity [OF i] by simp
qed

lemma merged_group_cong: "same_group t' t g \<Longrightarrow> merged_group parse local row link w tasks g t stamp \<Longrightarrow> merged_group parse local row link w tasks g t' stamp"
  unfolding merged_group_def Let_def by (auto intro: same_group_trans split: if_splits)

definition unsynced :: "board_task \<Rightarrow> board_task \<Rightarrow> bool" where
  "unsynced t u \<longleftrightarrow> task_sync t = task_sync u \<and> task_updatedAt t = task_updatedAt u \<and> task_board t = task_board u
     \<and> task_boardAutoHidden t = task_boardAutoHidden u \<and> task_boardChoice t = task_boardChoice u
     \<and> task_id t = task_id u \<and> task_project t = task_project u"

lemma merge_group_unfold:
  "merge_group parse local row link tasks loop g =
     (let w = merge_write loop; held = effectiveStamp parse local g (self_prefix w) in
      if left_alone parse local row link w g then loop\<lparr>merge_stamps := (merge_stamps loop)(g \<mapsto> held)\<rparr>
      else if g = StatusGroup \<and> reopen_conflict local row tasks then
        loop\<lparr>merge_stamps := (merge_stamps loop)(StatusGroup \<mapsto> nextStamp (Some (wire_s row StatusGroup)) (fst (read_clock w)) (self_prefix w)),
          merge_won := True, merge_write := snd (read_clock w)\<rparr>
      else if restores_title local row held g then
        loop\<lparr>merge_task := (merge_task loop)\<lparr>task_text := wire_text row, task_chosen := True\<rparr>,
          merge_stamps := (merge_stamps loop)(g \<mapsto> wire_s row g), merge_won := True,
          merge_write := preserveStamp (wire_id row) g w\<rparr>
      else loop\<lparr>merge_task := assignGroup (merge_task loop) row g,
          merge_stamps := (merge_stamps loop)(g \<mapsto> wire_s row g), merge_won := True\<rparr>)"
proof -
  let ?w = "merge_write loop" and ?le = "\<lambda>held. str_le (wire_s row g) held \<and> \<not> restores_title local row held g"
  let ?held = "effectiveStamp parse local g (self_prefix ?w)"
  let ?machine = "g = MachineGroup \<and> owner_of local ?w \<noteq> link_install link"
  let ?hand = "g = HandoverGroup \<and> wire_handover row \<noteq> None \<and> wire_handover row \<noteq> Some (link_install link)"
  have left: "left_alone parse local row link ?w g \<longleftrightarrow> ?le ?held \<or> ?machine \<or> ?hand"
    by (simp add: left_alone_def guarded_def Let_def)
  show ?thesis
  proof (cases "?le ?held")
    case True
    then show ?thesis unfolding merge_group_def left Let_def by (simp only: simp_thms if_True)
  next
    case le: False
    show ?thesis
    proof (cases "?machine \<or> ?hand")
      case True
      then show ?thesis unfolding merge_group_def left Let_def
        by (elim disjE) (simp_all only: le simp_thms if_True if_False if_cancel)
    next
      case False
      then have m: "\<not> ?machine" "\<not> ?hand" by blast+
      show ?thesis unfolding merge_group_def left Let_def if_not_P [OF le] if_not_P [OF m(1)] if_not_P [OF m(2)]
        by (simp only: le m simp_thms if_False split: prod.split) (simp add: prod_eq_iff split: if_split)
    qed
  qed
qed

lemma merge_group_step:
  fixes loop :: merge_loop and parse :: "string \<Rightarrow> int option" and row :: wire_task and link :: apply_link
    and tasks :: "board_task list"
  defines "w \<equiv> merge_write loop"
  assumes start: "same_group (merge_task loop) local g"
  defines "loop' \<equiv> merge_group parse local row link tasks loop g"
  shows "merged_group parse local row link w tasks g (merge_task loop') (merge_stamps loop' g)
    \<and> (\<forall>h. h \<noteq> g \<longrightarrow> same_group (merge_task loop') (merge_task loop) h \<and> merge_stamps loop' h = merge_stamps loop h)
    \<and> (merge_won loop' \<longleftrightarrow> merge_won loop \<or> \<not> left_alone parse local row link w g)
    \<and> identity_of (merge_write loop') = identity_of w \<and> unsynced (merge_task loop') (merge_task loop)"
proof -
  let ?held = "effectiveStamp parse local g (self_prefix w)"
  consider (kept) "left_alone parse local row link w g"
    | (conflict) "\<not> left_alone parse local row link w g" "g = StatusGroup" "reopen_conflict local row tasks"
    | (restored) "\<not> left_alone parse local row link w g" "\<not> (g = StatusGroup \<and> reopen_conflict local row tasks)"
        "restores_title local row ?held g"
    | (taken) "\<not> left_alone parse local row link w g" "\<not> (g = StatusGroup \<and> reopen_conflict local row tasks)"
        "\<not> restores_title local row ?held g" by blast
  then show ?thesis
  proof cases
    case kept
    then have "loop' = loop\<lparr>merge_stamps := (merge_stamps loop)(g \<mapsto> ?held)\<rparr>"
      by (simp add: loop'_def w_def merge_group_unfold Let_def)
    with kept start show ?thesis by (simp add: merged_group_def w_def unsynced_def)
  next
    case conflict
    obtain now w' where c: "read_clock w = (now, w')" by force
    have "loop' = loop\<lparr>merge_stamps := (merge_stamps loop)(g \<mapsto> nextStamp (Some (wire_s row StatusGroup)) now (self_prefix w)),
        merge_won := True, merge_write := w'\<rparr>"
      using conflict c by (simp add: loop'_def w_def merge_group_unfold Let_def)
    moreover have "identity_of w' = identity_of w" using identity_clock(1) [of w] c by simp
    ultimately show ?thesis using conflict start by (auto simp: merged_group_def Let_def unsynced_def)
  next
    case restored
    then have g: "g = TextGroup" by (simp add: restores_title_def)
    have "loop' = loop\<lparr>merge_task := (merge_task loop)\<lparr>task_text := wire_text row, task_chosen := True\<rparr>,
        merge_stamps := (merge_stamps loop)(g \<mapsto> wire_s row g), merge_won := True, merge_write := preserveStamp (wire_id row) g w\<rparr>"
      using restored g by (simp add: loop'_def w_def merge_group_unfold Let_def)
    moreover have "same_group ((merge_task loop)\<lparr>task_text := wire_text row, task_chosen := True\<rparr>) (merge_task loop) h" if "h \<noteq> g" for h
      using that g by (cases h) simp_all
    ultimately show ?thesis using restored start g by (auto simp: merged_group_def Let_def unsynced_def)
  next
    case taken
    from this(2) have "loop' = loop\<lparr>merge_task := assignGroup (merge_task loop) row g,
        merge_stamps := (merge_stamps loop)(g \<mapsto> wire_s row g), merge_won := True\<rparr>"
      unfolding loop'_def merge_group_unfold Let_def w_def [symmetric] by (simp only: taken simp_thms if_False)
    with taken assign_same [OF start] assign_other [of g _ "merge_task loop" row] show ?thesis
      by (auto simp: merged_group_def Let_def unsynced_def w_def)
  qed
qed

lemma merge_groups:
  fixes loop :: merge_loop and parse :: "string \<Rightarrow> int option" and row :: wire_task and link :: apply_link
    and tasks :: "board_task list"
  assumes "distinct gs" "\<forall>g \<in> set gs. same_group (merge_task loop) local g"
  defines "out \<equiv> foldl (merge_group parse local row link tasks) loop gs"
  shows "(\<forall>g \<in> set gs. merged_group parse local row link (merge_write loop) tasks g (merge_task out) (merge_stamps out g))
    \<and> (\<forall>h. h \<notin> set gs \<longrightarrow> same_group (merge_task out) (merge_task loop) h \<and> merge_stamps out h = merge_stamps loop h)
    \<and> (merge_won out \<longleftrightarrow> merge_won loop \<or> (\<exists>g \<in> set gs. \<not> left_alone parse local row link (merge_write loop) g))
    \<and> identity_of (merge_write out) = identity_of (merge_write loop) \<and> unsynced (merge_task out) (merge_task loop)"
  using assms(1,2) unfolding out_def
proof (induction gs arbitrary: loop)
  case (Cons g gs)
  let ?loop = "merge_group parse local row link tasks loop g"
  from Cons.prems(2) have start: "same_group (merge_task loop) local g" by simp
  note one = merge_group_step [OF start, of parse row link tasks]
  have "\<forall>h \<in> set gs. same_group (merge_task ?loop) local h"
    using one Cons.prems by (auto intro: same_group_trans)
  with Cons.prems(1) have IH: "(\<forall>g \<in> set gs. merged_group parse local row link (merge_write ?loop) tasks g
        (merge_task (foldl (merge_group parse local row link tasks) ?loop gs)) (merge_stamps (foldl (merge_group parse local row link tasks) ?loop gs) g))
    \<and> (\<forall>h. h \<notin> set gs \<longrightarrow> same_group (merge_task (foldl (merge_group parse local row link tasks) ?loop gs)) (merge_task ?loop) h
        \<and> merge_stamps (foldl (merge_group parse local row link tasks) ?loop gs) h = merge_stamps ?loop h)
    \<and> (merge_won (foldl (merge_group parse local row link tasks) ?loop gs) \<longleftrightarrow>
        merge_won ?loop \<or> (\<exists>g \<in> set gs. \<not> left_alone parse local row link (merge_write ?loop) g))
    \<and> identity_of (merge_write (foldl (merge_group parse local row link tasks) ?loop gs)) = identity_of (merge_write ?loop)
    \<and> unsynced (merge_task (foldl (merge_group parse local row link tasks) ?loop gs)) (merge_task ?loop)"
    by (intro Cons.IH) simp_all
  let ?out = "foldl (merge_group parse local row link tasks) ?loop gs"
  from one have ident: "identity_of (merge_write ?loop) = identity_of (merge_write loop)" by blast
  have now: "merged_group parse local row link (merge_write loop) tasks g (merge_task ?out) (merge_stamps ?out g)"
  proof -
    from Cons.prems(1) IH have out: "same_group (merge_task ?out) (merge_task ?loop) g" "merge_stamps ?out g = merge_stamps ?loop g" by auto
    from one merged_group_cong [OF out(1)] show ?thesis unfolding out(2) by blast
  qed
  have later: "merged_group parse local row link (merge_write loop) tasks h (merge_task ?out) (merge_stamps ?out h)" if "h \<in> set gs" for h
    using IH that merged_group_identity [OF ident] by blast
  have rest: "same_group (merge_task ?out) (merge_task loop) h \<and> merge_stamps ?out h = merge_stamps loop h" if "h \<notin> set (g # gs)" for h
    using IH one that same_group_trans [of "merge_task ?out" "merge_task ?loop" h "merge_task loop"] by auto
  have "unsynced (merge_task ?out) (merge_task loop)"
    using IH one unfolding unsynced_def by (metis (no_types, lifting))
  with now later rest IH one ident left_alone_identity [OF ident] show ?case by simp
qed (simp add: unsynced_def)

section \<open>The merged row\<close>

lemma with_origin_fields [simp]:
  "same_group (with_origin o' t) u g = same_group t u g" "effectiveStamp parse (with_origin o' t) g p = effectiveStamp parse t g p"
  "task_updatedAt (with_origin o' t) = task_updatedAt t" "task_board (with_origin o' t) = task_board t"
  "task_boardAutoHidden (with_origin o' t) = task_boardAutoHidden t" "task_boardChoice (with_origin o' t) = task_boardChoice t"
  "owner_of (with_origin o' t) w = owner_of t w" "task_text (with_origin o' t) = task_text t" "task_machine (with_origin o' t) = task_machine t"
  by (cases g; simp add: with_origin_def)
    (simp_all add: with_origin_def effectiveStamp_def owner_of_def split: option.split)

lemma merge_start_same [simp]: "same_group (merge_task (merge_start local row link w)) local g"
  by (cases g) (simp_all add: merge_start_def)

lemma merge_start_fields [simp]: "merge_write (merge_start local row link w) = w" "merge_won (merge_start local row link w) = False"
  by (simp_all add: merge_start_def)

text \<open>The task a merge returns: every group as its step left it, and its board preference.\<close>

lemma merge_held_result:
  assumes "merge_held parse admit local row link w tasks = (Some merged, w')"
  shows "merged_group parse local row link w tasks g merged (Some (effectiveStamp parse merged g (self_prefix w)))"
    and "task_board merged = task_board (merge_task (merge_start local row link w))"
      "task_boardAutoHidden merged = task_boardAutoHidden (merge_task (merge_start local row link w))"
      "task_boardChoice merged = task_boardChoice local"
    and "(\<exists>g. \<not> left_alone parse local row link w g) \<or> board_changed local row link w"
proof -
  let ?loop = "foldl (merge_group parse local row link tasks) (merge_start local row link w) TASK_SYNC_GROUPS"
  have starts: "\<forall>g \<in> set TASK_SYNC_GROUPS. same_group (merge_task (merge_start local row link w)) local g" by simp
  note all = merge_groups [OF groups_distinct starts, of parse row link tasks, simplified]
  from all all_groups [of g] have step: "merged_group parse local row link w tasks g (merge_task ?loop) (merge_stamps ?loop g)" by blast
  have uns: "unsynced (merge_task ?loop) (merge_task (merge_start local row link w))" using all by blast
  have main: "merged_group parse local row link w tasks g merged (Some (effectiveStamp parse merged g (self_prefix w)))
    \<and> task_board merged = task_board (merge_task ?loop) \<and> task_boardAutoHidden merged = task_boardAutoHidden (merge_task ?loop)
    \<and> task_boardChoice merged = task_boardChoice (merge_task ?loop)
    \<and> ((\<exists>g. \<not> left_alone parse local row link w g) \<or> board_changed local row link w)"
  proof (cases "merge_won ?loop")
    case False
    with assms have m: "merged = merge_task ?loop" "board_changed local row link w"
      by (auto simp: merge_held_def Let_def split: if_splits)
    from False all have left: "left_alone parse local row link w g" by auto
    from uns have "task_sync merged = task_sync local" "task_updatedAt merged = task_updatedAt local"
      by (auto simp: m(1) unsynced_def merge_start_def)
    then have "effectiveStamp parse merged g (self_prefix w) = effectiveStamp parse local g (self_prefix w)"
      by (simp add: effectiveStamp_def split: option.split)
    moreover have "merged_group parse local row link w tasks g merged (merge_stamps ?loop g)" using step m(1) by simp
    ultimately show ?thesis using left m by (simp add: merged_group_def)
  next
    case True
    let ?dated = "if str_less (task_updatedAt (merge_task ?loop)) (wire_updatedAt row)
      then (merge_task ?loop)\<lparr>task_updatedAt := wire_updatedAt row\<rparr> else merge_task ?loop"
    let ?m = "?dated\<lparr>task_sync := Some \<lparr>sync_s = merge_stamps ?loop, sync_o = self_prefix w\<rparr>\<rparr>"
    from assms True obtain m0 where m0: "m0 = ?m" and m: "merged = m0 \<or> merged = with_origin (link_prefix link) m0"
      by (auto simp: merge_held_def Let_def split: if_splits)
    have "same_group m0 (merge_task ?loop) g" unfolding m0 by (cases g) simp_all
    then have "merged_group parse local row link w tasks g m0 (merge_stamps ?loop g)" using step by (rule merged_group_cong)
    moreover from step obtain st where st: "merge_stamps ?loop g = Some st"
      by (auto simp: merged_group_def Let_def split: if_splits)
    moreover have "effectiveStamp parse m0 g (self_prefix w) = st" unfolding m0 using st by (simp add: effectiveStamp_def)
    ultimately have res: "merged_group parse local row link w tasks g m0 (Some (effectiveStamp parse m0 g (self_prefix w)))" by simp
    have same: "same_group (with_origin p m0) m0 g" for p by simp
    have "merged_group parse local row link w tasks g merged (Some (effectiveStamp parse merged g (self_prefix w)))"
      using m res merged_group_cong [OF same res] by auto
    moreover have "task_board merged = task_board (merge_task ?loop) \<and> task_boardAutoHidden merged = task_boardAutoHidden (merge_task ?loop)
      \<and> task_boardChoice merged = task_boardChoice (merge_task ?loop)"
      using m m0 by (elim disjE) (simp_all split: if_split)
    moreover have "\<exists>g. \<not> left_alone parse local row link w g" using True all by auto
    ultimately show ?thesis by blast
  qed
  then show "merged_group parse local row link w tasks g merged (Some (effectiveStamp parse merged g (self_prefix w)))" by blast
  from main uns show "task_board merged = task_board (merge_task (merge_start local row link w))"
      "task_boardAutoHidden merged = task_boardAutoHidden (merge_task (merge_start local row link w))"
      "task_boardChoice merged = task_boardChoice local"
    by (auto simp: unsynced_def merge_start_def)
  show "(\<exists>g. \<not> left_alone parse local row link w g) \<or> board_changed local row link w" using main by blast
qed

lemma merge_held_none:
  assumes "\<forall>g. left_alone parse local row link w g" "\<not> board_changed local row link w"
  shows "fst (merge_held parse admit local row link w tasks) = None"
proof -
  have starts: "\<forall>g \<in> set TASK_SYNC_GROUPS. same_group (merge_task (merge_start local row link w)) local g" by simp
  from merge_groups [OF groups_distinct starts, of parse row link tasks, simplified] assms
  show ?thesis by (simp add: merge_held_def Let_def)
qed

lemma merge_none_left: "fst (merge_held parse admit local row link w tasks) = None \<Longrightarrow> left_alone parse local row link w g"
proof -
  assume none: "fst (merge_held parse admit local row link w tasks) = None"
  have starts: "\<forall>g \<in> set TASK_SYNC_GROUPS. same_group (merge_task (merge_start local row link w)) local g" by simp
  note all = merge_groups [OF groups_distinct starts, of parse row link tasks, simplified]
  from none have "\<not> merge_won (foldl (merge_group parse local row link tasks) (merge_start local row link w) TASK_SYNC_GROUPS)"
    by (auto simp: merge_held_def Let_def split: if_splits)
  with all show ?thesis by auto
qed

end
