(* ===== verification/Linked_Burial.thy ===== *)
theory Linked_Burial
  imports Linked_Stamping
begin

text \<open>
  The tombstones a commit leaves, and the whole stamp step: its effect on every task and on every
  companion row.
\<close>

section \<open>Floors\<close>

lemma read_put: "read_row (put_row row w) key = (if key = tombstoneRowKey row then Some row else read_row w key)"
  by (simp add: read_row_def put_row_def)

lemma floor_put_floor: "floor_mark (put_row (Floor p s) w) q = (if q = p then Some s else floor_mark w q)"
  by (simp add: floor_mark_def read_put keys_apart)

lemma floor_put_tomb: "floor_mark (put_row (Tombstone i p g lst orig) w) q = floor_mark w q"
  using keys_apart(1) [of i q] by (simp add: floor_mark_def read_put)

lemma put_fields [simp]: "self_prefix (put_row row w) = self_prefix w" "clock_readings (put_row row w) = clock_readings w"
    "project_mark (put_row row w) = project_mark w" "self_id (put_row row w) = self_id w"
  by (simp_all add: put_row_def)

lemma raise_fields [simp]: "self_prefix (raiseFloor p s w) = self_prefix w" "clock_readings (raiseFloor p s w) = clock_readings w"
    "project_mark (raiseFloor p s w) = project_mark w" "self_id (raiseFloor p s w) = self_id w"
  by (auto simp: raiseFloor_def split: option.split)

lemma floor_raise: "floor_mark (raiseFloor p s w) q =
    (if q = p then Some (case floor_mark w p of Some held \<Rightarrow> if str_less held s then s else held | None \<Rightarrow> s) else floor_mark w q)"
  by (auto simp: raiseFloor_def floor_put_floor split: option.split)

lemma read_raise_tomb: "read_row (raiseFloor p s w) (tombstoneKey i) = read_row w (tombstoneKey i)"
  by (auto simp: raiseFloor_def read_put keys_apart split: option.split)

section \<open>Burial\<close>

definition buried_with :: "nat \<Rightarrow> (string \<Rightarrow> bool) \<Rightarrow> string \<Rightarrow> string \<Rightarrow> string \<Rightarrow> sync_write \<Rightarrow> bool" where
  "buried_with l held prefix i p w \<longleftrightarrow>
     (\<exists>gone last. read_row w (tombstoneKey i) = Some (Tombstone i p gone last prefix) \<and> stamp_within l gone
        \<and> (\<forall>b. held b \<longrightarrow> str_less b gone) \<and> (\<exists>f. floor_mark w p = Some f \<and> str_le gone f))"

definition burial_ok ::
  "(string \<Rightarrow> int option) \<Rightarrow> nat \<Rightarrow> (string \<Rightarrow> string \<Rightarrow> bool) \<Rightarrow> board_task list \<Rightarrow> stamp_run \<Rightarrow> bool" where
  "burial_ok parse l held tasks run \<longleftrightarrow> marks_above l held run
     \<and> (\<forall>t \<in> set tasks. task_within parse (self_prefix (run_write run)) l t)
     \<and> (\<forall>p b. held p b \<longrightarrow> held_at tasks (run_write run) p b)"

definition needs_burial :: "board_task list \<Rightarrow> sync_write \<Rightarrow> string \<Rightarrow> bool" where
  "needs_burial tasks w i \<longleftrightarrow> i \<notin> set (map task_id tasks) \<and> \<not> isTombstone (read_row w (tombstoneKey i))"

lemma burial_ok_mono: "burial_ok parse l held tasks run \<Longrightarrow> burial_ok parse (Suc l) held tasks run"
proof -
  assume ok: "burial_ok parse l held tasks run"
  have "marks_above (Suc l) held run"
    unfolding marks_above_def
  proof (intro conjI allI impI)
    show "write_within (Suc l) (run_write run)"
      using ok write_within_mono [of l _ "Suc l"] by (simp add: burial_ok_def marks_above_def)
    fix p m assume "js_get (run_marks run) p = Some m"
    with ok obtain t where "m = Some t" "stamp_within l t" "\<forall>b. held p b \<longrightarrow> str_le b t"
      unfolding burial_ok_def marks_above_def by blast
    with stamp_within_mono [of l t "Suc l"] show "\<exists>s. m = Some s \<and> stamp_within (Suc l) s \<and> (\<forall>b. held p b \<longrightarrow> str_le b s)" by simp
  qed
  with ok show ?thesis by (auto simp: burial_ok_def intro: task_within_mono)
qed

lemma covered_up:
  assumes "covered tasks w p b" "project_mark w' = project_mark w"
    and up: "\<And>f. floor_mark w p = Some f \<Longrightarrow> \<exists>f'. floor_mark w' p = Some f' \<and> str_le f f'"
  shows "covered tasks w' p b"
proof -
  consider "\<exists>t \<in> set tasks. task_holds p t b" | f where "floor_mark w p = Some f" "str_le b f"
    | "\<exists>s. project_mark w p = Some s \<and> str_le b s" using assms(1) by (auto simp: covered_def)
  then show ?thesis
  proof cases
    case 2
    with up obtain f' where "floor_mark w' p = Some f'" "str_le f f'" by blast
    with 2(2) show ?thesis by (auto simp: covered_def intro: str_le_trans)
  qed (use assms(2) in \<open>auto simp: covered_def\<close>)
qed

lemma bury_one:
  assumes ok: "burial_ok parse l held tasks run" and l: "l < MAX_STAMP_MS"
    and need: "needs_burial tasks (run_write run) i"
  shows "burial_ok parse (Suc l) held tasks (bury parse tasks run (i, prior))"
    and "buried_with (Suc l) (held (snap_project prior)) (self_prefix (run_write run)) i (snap_project prior)
      (run_write (bury parse tasks run (i, prior)))"
    and "j \<noteq> i \<Longrightarrow> read_row (run_write (bury parse tasks run (i, prior))) (tombstoneKey j) = read_row (run_write run) (tombstoneKey j)"
    and "floor_mark (run_write run) q = Some f \<Longrightarrow> \<exists>f'. floor_mark (run_write (bury parse tasks run (i, prior))) q = Some f' \<and> str_le f f'"
    and "self_prefix (run_write (bury parse tasks run (i, prior))) = self_prefix (run_write run)"
proof -
  let ?p = "snap_project prior" and ?w = "run_write run"
  obtain gone run1 where f: "fresh parse tasks ?p run = (gone, run1)" by force
  from ok have marks: "marks_above l held run" and ts: "\<forall>t \<in> set tasks. task_within parse (self_prefix ?w) l t"
    and cov: "\<forall>p b. held p b \<longrightarrow> held_at tasks ?w p b" by (auto simp: burial_ok_def)
  note fr = fresh_above [OF marks l ts spec [OF cov] f]
  have tick: "ticked ?w (run_write run1)" using fr(4) ticked_clock by simp
  note tf = ticked_fields [OF tick]
  let ?last = "last_stamp parse prior (self_prefix ?w)"
  let ?row = "Tombstone i ?p gone (if str_less gone ?last then Some ?last else None) (self_prefix ?w)"
  let ?w' = "raiseFloor ?p gone (put_row ?row (run_write run1))"
  have b: "bury parse tasks run (i, prior) = run1\<lparr>run_write := ?w'\<rparr>"
    using need f by (simp add: bury_def needs_burial_def Let_def)
  have floor1: "floor_mark (run_write run1) q = floor_mark ?w q" for q
    using tf by (simp add: floor_mark_def read_row_def)
  have floors: "floor_mark ?w' q = (if q = ?p then Some (case floor_mark ?w ?p of Some held \<Rightarrow> if str_less held gone then gone else held
      | None \<Rightarrow> gone) else floor_mark ?w q)" for q
    by (simp add: floor_raise floor_put_tomb floor1)
  have up: "\<exists>f'. floor_mark ?w' q = Some f' \<and> str_le f f'" if "floor_mark ?w q = Some f" for q f
    using that unfolding floors by (auto simp: str_less_le)
  show "floor_mark (run_write run) q = Some f \<Longrightarrow> \<exists>f'. floor_mark (run_write (bury parse tasks run (i, prior))) q = Some f' \<and> str_le f f'" for q f
    using up by (simp add: b)
  show "self_prefix (run_write (bury parse tasks run (i, prior))) = self_prefix ?w" using tf by (simp add: b)
  show "j \<noteq> i \<Longrightarrow> read_row (run_write (bury parse tasks run (i, prior))) (tombstoneKey j) = read_row ?w (tombstoneKey j)" for j
    using tf by (simp add: b read_raise_tomb read_put keys_apart) (simp add: read_row_def)
  have "read_row ?w' (tombstoneKey i) = Some ?row" by (simp add: read_raise_tomb read_put)
  moreover have "\<exists>f. floor_mark ?w' ?p = Some f \<and> str_le gone f"
    unfolding floors using str_le_total by (auto simp: str_less_def split: option.split)
  ultimately show "buried_with (Suc l) (held ?p) (self_prefix ?w) i ?p (run_write (bury parse tasks run (i, prior)))"
    using fr(1,2) by (auto simp: b buried_with_def)
  have "write_within (Suc l) (run_write run1)" using fr(3) by (simp add: marks_above_def)
  moreover have "stamp_within (Suc l) s" if "floor_mark ?w' q = Some s" for q s
    using that calculation fr(1) unfolding floors by (auto simp: write_within_def floor1 split: if_splits option.splits)
  ultimately have "write_within (Suc l) ?w'" by (auto simp: write_within_def)
  then have "marks_above (Suc l) held (run1\<lparr>run_write := ?w'\<rparr>)" using fr(3) by (simp add: marks_above_def)
  moreover have "held_at tasks ?w' p b" if "held_at tasks ?w p b" for p b
  proof -
    have "project_mark ?w' = project_mark ?w" using tf tick by (auto simp: ticked_def)
    with that up covered_up [of tasks ?w p b ?w'] show ?thesis by (auto simp: held_at_def)
  qed
  ultimately show "burial_ok parse (Suc l) held tasks (bury parse tasks run (i, prior))"
    using ts cov tf by (auto simp: b burial_ok_def intro: task_within_mono)
qed

lemma bury_none: "\<not> needs_burial tasks (run_write run) i \<Longrightarrow> bury parse tasks run (i, prior) = run"
  by (auto simp: bury_def needs_burial_def)

lemma buried_mono: "buried_with l held prefix i p w \<Longrightarrow> l \<le> l' \<Longrightarrow>
    read_row w' (tombstoneKey i) = read_row w (tombstoneKey i) \<Longrightarrow>
    (\<And>f. floor_mark w p = Some f \<Longrightarrow> \<exists>f'. floor_mark w' p = Some f' \<and> str_le f f') \<Longrightarrow> buried_with l' held prefix i p w'"
  unfolding buried_with_def by (metis stamp_within_mono str_le_trans)

lemma bury_all:
  assumes "burial_ok parse l held tasks run" "l + length entries \<le> MAX_STAMP_MS" "distinct (map fst entries)"
  shows "self_prefix (run_write (foldl (bury parse tasks) run entries)) = self_prefix (run_write run)
    \<and> (\<forall>(i, prior) \<in> set entries. needs_burial tasks (run_write run) i \<longrightarrow>
      buried_with (l + length entries) (held (snap_project prior)) (self_prefix (run_write run)) i (snap_project prior)
        (run_write (foldl (bury parse tasks) run entries)))
    \<and> (\<forall>j. j \<notin> fst ` set entries \<or> \<not> needs_burial tasks (run_write run) j \<longrightarrow>
      read_row (run_write (foldl (bury parse tasks) run entries)) (tombstoneKey j) = read_row (run_write run) (tombstoneKey j))
    \<and> (\<forall>q f. floor_mark (run_write run) q = Some f \<longrightarrow>
      (\<exists>f'. floor_mark (run_write (foldl (bury parse tasks) run entries)) q = Some f' \<and> str_le f f'))"
  using assms
proof (induction entries arbitrary: l run)
  case (Cons e entries)
  obtain i prior where e: "e = (i, prior)" by force
  let ?run = "bury parse tasks run (i, prior)"
  let ?out = "foldl (bury parse tasks) ?run entries"
  from Cons.prems have l: "l < MAX_STAMP_MS" "Suc l + length entries \<le> MAX_STAMP_MS" and d: "distinct (map fst entries)"
    and i: "i \<notin> fst ` set entries" by (auto simp: e)
  note one = bury_one [OF Cons.prems(1) l(1)]
  have ok: "burial_ok parse (Suc l) held tasks ?run"
  proof (cases "needs_burial tasks (run_write run) i")
    case True
    then show ?thesis by (rule one(1))
  next
    case False
    with burial_ok_mono [OF Cons.prems(1)] show ?thesis by (simp add: bury_none)
  qed
  have pre: "self_prefix (run_write ?run) = self_prefix (run_write run)"
    by (cases "needs_burial tasks (run_write run) i") (simp_all add: one(5) bury_none)
  have other: "read_row (run_write ?run) (tombstoneKey j) = read_row (run_write run) (tombstoneKey j)"
    if "j \<noteq> i \<or> \<not> needs_burial tasks (run_write run) j" for j
    using that one(3) by (cases "needs_burial tasks (run_write run) i") (auto simp: bury_none)
  have need: "needs_burial tasks (run_write ?run) j = needs_burial tasks (run_write run) j" if "j \<noteq> i" for j
    using other [of j] that by (simp add: needs_burial_def)
  have up: "\<exists>f'. floor_mark (run_write ?run) q = Some f' \<and> str_le f f'" if "floor_mark (run_write run) q = Some f" for q f
    using that one(4) by (cases "needs_burial tasks (run_write run) i") (auto simp: bury_none)
  note IH = Cons.IH [OF ok l(2) d]
  have ups: "\<exists>f'. floor_mark (run_write ?out) q = Some f' \<and> str_le f f'" if "floor_mark (run_write run) q = Some f" for q f
    using up [OF that] IH str_le_trans by meson
  have first: "buried_with (l + length (e # entries)) (held (snap_project prior)) (self_prefix (run_write run)) i (snap_project prior) (run_write ?out)"
    if n: "needs_burial tasks (run_write run) i"
  proof (rule buried_mono [OF one(2) [OF n, of prior]])
    show "Suc l \<le> l + length (e # entries)" by simp
    show "read_row (run_write ?out) (tombstoneKey i) = read_row (run_write ?run) (tombstoneKey i)" using IH i by blast
    fix f assume "floor_mark (run_write ?run) (snap_project prior) = Some f"
    then show "\<exists>f'. floor_mark (run_write ?out) (snap_project prior) = Some f' \<and> str_le f f'" using IH by blast
  qed
  have rest: "buried_with (l + length (e # entries)) (held (snap_project p)) (self_prefix (run_write run)) j (snap_project p) (run_write ?out)"
    if j: "(j, p) \<in> set entries" and n: "needs_burial tasks (run_write run) j" for j p
  proof -
    from j i have "j \<noteq> i" by force
    with need n have "needs_burial tasks (run_write ?run) j" by simp
    with IH j have "buried_with (Suc l + length entries) (held (snap_project p)) (self_prefix (run_write ?run)) j (snap_project p) (run_write ?out)" by blast
    then show ?thesis by (simp add: pre)
  qed
  have keep: "read_row (run_write ?out) (tombstoneKey j) = read_row (run_write run) (tombstoneKey j)"
    if j: "j \<notin> fst ` set (e # entries) \<or> \<not> needs_burial tasks (run_write run) j" for j
  proof -
    from j have "j \<noteq> i \<or> \<not> needs_burial tasks (run_write run) j" by (auto simp: e)
    note o = other [OF this]
    have "j \<notin> fst ` set entries \<or> \<not> needs_burial tasks (run_write ?run) j"
      using j o by (auto simp: needs_burial_def)
    with IH o show ?thesis by metis
  qed
  have out: "foldl (bury parse tasks) run (e # entries) = ?out" by (simp add: e)
  show ?case unfolding out
  proof (intro conjI)
    show "self_prefix (run_write ?out) = self_prefix (run_write run)" using IH pre by simp
    show "\<forall>(j, p) \<in> set (e # entries). needs_burial tasks (run_write run) j \<longrightarrow>
      buried_with (l + length (e # entries)) (held (snap_project p)) (self_prefix (run_write run)) j (snap_project p) (run_write ?out)"
      using first rest by (auto simp: e)
    show "\<forall>j. j \<notin> fst ` set (e # entries) \<or> \<not> needs_burial tasks (run_write run) j \<longrightarrow>
      read_row (run_write ?out) (tombstoneKey j) = read_row (run_write run) (tombstoneKey j)" using keep by blast
    show "\<forall>q f. floor_mark (run_write run) q = Some f \<longrightarrow> (\<exists>f'. floor_mark (run_write ?out) q = Some f' \<and> str_le f f')"
      using ups by blast
  qed
qed (auto intro: str_le_refl)

end
