(* ===== verification/Linked_Properties.thy ===== *)
theory Linked_Properties
  imports Linked_Burial
begin

text \<open>The properties of the stamps and of the stamp step.\<close>

section \<open>The whole step\<close>

text \<open>
  The room a commit needs: every stamp in sight, stored or derived, and the clock are at least as
  many milliseconds before the last stamp as the commit has groups and rows to stamp.
\<close>

definition commit_room ::
  "(string \<Rightarrow> int option) \<Rightarrow> nat \<Rightarrow> board_task list \<Rightarrow> (string, group_snapshot) js_map \<Rightarrow> sync_write \<Rightarrow> bool" where
  "commit_room parse l tasks snapshot w \<longleftrightarrow> write_within l w
     \<and> (\<forall>t \<in> set tasks. task_within parse (self_prefix w) l t) \<and> snapshots_within parse (self_prefix w) l snapshot
     \<and> js_wf snapshot \<and> l + 7 * length tasks + length snapshot \<le> MAX_STAMP_MS"

lemma stampLinkedRows_effect:
  assumes room: "commit_room parse l tasks snapshot w"
    and run: "stampLinkedRows parse fingerprint tasks snapshot w = (tasks', w')"
  shows "list_all2 (task_outcome parse fingerprint snapshot MAX_STAMP_MS (held_at tasks w) w) tasks tasks'"
    and "\<forall>(i, prior) \<in> set snapshot. needs_burial tasks' w i \<longrightarrow>
      buried_with MAX_STAMP_MS (held_at tasks w (snap_project prior)) (self_prefix w) i (snap_project prior) w'"
    and "\<forall>j. j \<notin> fst ` set snapshot \<or> \<not> needs_burial tasks' w j \<longrightarrow> read_row w' (tombstoneKey j) = read_row w (tombstoneKey j)"
proof -
  let ?run = "\<lparr>run_write = w, run_marks = []\<rparr>"
  let ?held = "held_at tasks w"
  have "commit_ok parse snapshot l ?held ?run ([] @ tasks)"
    using room by (simp add: commit_room_def commit_ok_def marks_above_def)
  moreover have "l + 7 * length tasks \<le> MAX_STAMP_MS" using room by (simp add: commit_room_def)
  moreover have "\<forall>t \<in> set tasks. \<forall>p b. b \<noteq> [] \<longrightarrow> task_holds p t b \<longrightarrow> ?held p b"
    by (auto simp: held_at_def covered_def)
  ultimately obtain later run1 where st: "stamp_tasks parse fingerprint snapshot [] tasks ?run = (later, run1)"
    and ok: "commit_ok parse snapshot (l + 7 * length tasks) ?held run1 later" and tick: "ticked w (run_write run1)"
    and out: "list_all2 (task_outcome parse fingerprint snapshot (l + 7 * length tasks) ?held w) tasks later"
    using stamp_tasks_outcome [of parse snapshot l ?held ?run "[]" tasks fingerprint] by auto
  have t': "tasks' = later" "w' = run_write (foldl (bury parse later) run1 snapshot)"
    using run st by (auto simp: stampLinkedRows_def)
  have bound: "l + 7 * length tasks + length snapshot \<le> MAX_STAMP_MS" and d: "distinct (map fst snapshot)"
    using room by (auto simp: commit_room_def js_wf_def js_keys_def)
  have "burial_ok parse (l + 7 * length tasks) ?held later run1" using ok by (auto simp: commit_ok_def burial_ok_def)
  note all = bury_all [OF this bound d]
  have same: "needs_burial later (run_write run1) i = needs_burial later w i"
    "read_row (run_write run1) k = read_row w k" "self_prefix (run_write run1) = self_prefix w" for i k
    using ticked_fields [OF tick] by (simp_all add: needs_burial_def read_row_def)
  show "list_all2 (task_outcome parse fingerprint snapshot MAX_STAMP_MS ?held w) tasks tasks'"
    unfolding t'
  proof (rule list_all2_mono [OF out])
    fix t t' assume "task_outcome parse fingerprint snapshot (l + 7 * length tasks) ?held w t t'"
    then show "task_outcome parse fingerprint snapshot MAX_STAMP_MS ?held w t t'"
      by (rule task_outcome_mono) (use bound in simp)
  qed
  show "\<forall>(i, prior) \<in> set snapshot. needs_burial tasks' w i \<longrightarrow>
      buried_with MAX_STAMP_MS (?held (snap_project prior)) (self_prefix w) i (snap_project prior) w'"
  proof (clarify)
    fix i prior assume i: "(i, prior) \<in> set snapshot" "needs_burial tasks' w i"
    with all have "buried_with (l + 7 * length tasks + length snapshot) (?held (snap_project prior)) (self_prefix w) i (snap_project prior) w'"
      unfolding t' same by blast
    then show "buried_with MAX_STAMP_MS (?held (snap_project prior)) (self_prefix w) i (snap_project prior) w'"
      using bound by (rule buried_mono) auto
  qed
  show "\<forall>j. j \<notin> fst ` set snapshot \<or> \<not> needs_burial tasks' w j \<longrightarrow> read_row w' (tombstoneKey j) = read_row w (tombstoneKey j)"
    using all unfolding t' same by blast
qed

section \<open>Properties of the clock\<close>

text \<open>C16. Stamps compare as strings the way they compare as times: first by millisecond, then by
  counter, then by install, for any two well-formed stamps.\<close>

theorem stamp_order:
  assumes "isStamp a" "isStamp b"
  shows "str_less a b \<longleftrightarrow>
    stampMs a < stampMs b \<or> stampMs a = stampMs b \<and>
      (stampCounter a < stampCounter b \<or> stampCounter a = stampCounter b \<and> str_less (stamp_install a) (stamp_install b))"
proof -
  note a = stamp_split [OF assms(1)] and b = stamp_split [OF assms(2)]
  have "str_less a b \<longleftrightarrow> str_less (format (stampMs a) (stampCounter a) (stamp_install a)) (format (stampMs b) (stampCounter b) (stamp_install b))"
    using a(1) b(1) by simp
  then show ?thesis using a(2,3) b(2,3) by (simp only: format_less)
qed

definition demo_stamp :: string where "demo_stamp = ''1700000000123.999.0a1b2c3d''"

lemma demo_stamp_ok: "isStamp demo_stamp" "stampMs demo_stamp = 1700000000123" "stampCounter demo_stamp = 999"
  by (simp_all add: demo_stamp_def isStamp_def is_digit_def is_hex_def stampMs_def stampCounter_def js_number_def digit_value_def)

theorem stamp_order_witness: "str_less demo_stamp ''1700000000124.000.00000000''"
proof -
  have "isStamp ''1700000000124.000.00000000''" "stampMs ''1700000000124.000.00000000'' = 1700000000124"
    by (simp_all add: isStamp_def is_digit_def is_hex_def stampMs_def js_number_def digit_value_def)
  with stamp_order [OF demo_stamp_ok(1), of "''1700000000124.000.00000000''"] demo_stamp_ok(2) show ?thesis by simp
qed

text \<open>C17. The next stamp is a well-formed stamp above the watermark, whatever the wall clock says: a
  clock that stands still or runs backwards raises the counter, and past 999 the millisecond. The
  only watermark that leaves no room is the last stamp of all.\<close>

theorem next_stamp_above:
  assumes "isStamp mark" "is_prefix prefix" "mark \<noteq> format MAX_STAMP_MS 999 (stamp_install mark)"
  shows "isStamp (nextStamp (Some mark) now prefix) \<and> str_less mark (nextStamp (Some mark) now prefix)
    \<and> stamp_install (nextStamp (Some mark) now prefix) = prefix"
proof -
  note m = stamp_split [OF assms(1)]
  have room: "has_room mark"
  proof (rule ccontr)
    assume "\<not> has_room mark"
    with m(2,3) have "stampMs mark = MAX_STAMP_MS" "stampCounter mark = 999" by (auto simp: has_room_def)
    with m(1) assms(3) show False by simp
  qed
  from assms(1) room have "Some mark = None \<or> (\<exists>s. Some mark = Some s \<and> isStamp s \<and> has_room s)" by simp
  then obtain ms c where "nextStamp (Some mark) now prefix = format ms c prefix" "ms \<le> MAX_STAMP_MS" "c \<le> 999"
    by (rule nextStamp_cases [where now = now and p = prefix]) blast
  then have "stamp_install (nextStamp (Some mark) now prefix) = prefix" by (simp add: format_parts)
  with nextStamp_above [OF assms(1) room assms(2), of now] show ?thesis by simp
qed

theorem next_stamp_above_witness:
  "str_less demo_stamp (nextStamp (Some demo_stamp) 0 ''0a1b2c3d'')"
proof -
  have "demo_stamp \<noteq> format MAX_STAMP_MS 999 (stamp_install demo_stamp)"
  proof
    assume "demo_stamp = format MAX_STAMP_MS 999 (stamp_install demo_stamp)"
    then have "stampMs demo_stamp = MAX_STAMP_MS" using format_parts(1) [of MAX_STAMP_MS 999] by (metis order_refl)
    then show False by (simp add: demo_stamp_ok MAX_STAMP_MS_def)
  qed
  moreover have "is_prefix ''0a1b2c3d''" by (simp add: is_prefix_def is_hex_def is_digit_def)
  ultimately show ?thesis using next_stamp_above [OF demo_stamp_ok(1), of "''0a1b2c3d''" 0] by blast
qed

section \<open>Properties of the stamp step\<close>

lemma held_stored: "task_within parse prefix l u \<Longrightarrow> u \<in> set tasks \<Longrightarrow> task_project u = p \<Longrightarrow> stamps_of_task u h = Some s \<Longrightarrow> held_at tasks w p s"
proof -
  assume u: "task_within parse prefix l u" "u \<in> set tasks" "task_project u = p" and s: "stamps_of_task u h = Some s"
  from u(1) have "stamp_within l (effectiveStamp parse u h prefix)" by (simp add: task_within_def)
  with s have "s \<noteq> []" by (simp add: effectiveStamp_def stamp_within_nonempty)
  moreover have "task_holds p u s" using u(3) s str_le_refl [of s] unfolding task_holds_def by blast
  ultimately show "held_at tasks w p s" using u(2) by (auto simp: held_at_def covered_def)
qed

lemma held_floor: "write_within l w \<Longrightarrow> floor_mark w p = Some f \<Longrightarrow> held_at tasks w p f"
  by (auto simp: held_at_def covered_def write_within_def dest: stamp_within_nonempty)

text \<open>A group of a linked task edited in a commit gets a stamp above every stamp that any task of
  the project and the project's floor held before the commit, so the edit wins over all of them on
  every peer, whatever the wall clock says.\<close>

theorem linked_edit_outranks:
  assumes room: "commit_room parse l tasks snapshot w"
    and run: "stampLinkedRows parse fingerprint tasks snapshot w = (tasks', w')"
    and i: "i < length tasks" and linked: "\<not> skipped fingerprint snapshot w (tasks ! i)"
    and edit: "group_changed (js_get snapshot (task_id (tasks ! i))) (with_machine w (tasks ! i)) g"
    and own: "\<not> set_by_writer (js_get snapshot (task_id (tasks ! i))) (stamps_of_task (tasks ! i)) g"
      "\<not> preserved w (with_machine w (tasks ! i)) (js_get snapshot (task_id (tasks ! i))) (stamps_of_task (tasks ! i)) g"
  shows "\<exists>s. stamps_of_task (tasks' ! i) g = Some s \<and> isStamp s
    \<and> (\<forall>u \<in> set tasks. \<forall>h s0. task_project u = task_project (tasks ! i) \<longrightarrow> stamps_of_task u h = Some s0 \<longrightarrow> str_less s0 s)
    \<and> (\<forall>f. floor_mark w (task_project (tasks ! i)) = Some f \<longrightarrow> str_less f s)"
proof -
  from stampLinkedRows_effect(1) [OF room run] i
  have "task_outcome parse fingerprint snapshot MAX_STAMP_MS (held_at tasks w) w (tasks ! i) (tasks' ! i)"
    by (simp add: list_all2_conv_all_nth)
  with linked have "group_outcome parse MAX_STAMP_MS (held_at tasks w (task_project (tasks ! i))) w (with_machine w (tasks ! i))
      (js_get snapshot (task_id (tasks ! i))) (stamps_of_task (tasks ! i)) (stamps_of_task (tasks' ! i)) g"
    by (simp add: task_outcome_def)
  with edit own obtain s where s: "stamps_of_task (tasks' ! i) g = Some s" "stamp_within MAX_STAMP_MS s"
    "\<And>b. held_at tasks w (task_project (tasks ! i)) b \<Longrightarrow> str_less b s" by (auto simp: group_outcome_def)
  from room have "\<forall>u \<in> set tasks. task_within parse (self_prefix w) l u" "write_within l w" by (auto simp: commit_room_def)
  with s held_stored held_floor show ?thesis by (auto simp: stamp_within_def)
qed

text \<open>The step touches nothing else: a task of no linked project or with its old fingerprint is
  left as it is; any other keeps every field but its machine, when it had none, and its sync
  record, and in that record every stamp the writer set or whose group did not change.\<close>

theorem linked_stamp_frame:
  assumes room: "commit_room parse l tasks snapshot w"
    and run: "stampLinkedRows parse fingerprint tasks snapshot w = (tasks', w')" and i: "i < length tasks"
  shows "length tasks' = length tasks
    \<and> (skipped fingerprint snapshot w (tasks ! i) \<longrightarrow> tasks' ! i = tasks ! i)
    \<and> (tasks' ! i)\<lparr>task_machine := None, task_sync := None\<rparr> = (tasks ! i)\<lparr>task_machine := None, task_sync := None\<rparr>
    \<and> (\<not> absent (task_machine (tasks ! i)) \<longrightarrow> task_machine (tasks' ! i) = task_machine (tasks ! i))
    \<and> (\<forall>g s. stamps_of_task (tasks ! i) g = Some s \<longrightarrow>
        set_by_writer (js_get snapshot (task_id (tasks ! i))) (stamps_of_task (tasks ! i)) g
        \<or> \<not> group_changed (js_get snapshot (task_id (tasks ! i))) (with_machine w (tasks ! i)) g \<longrightarrow>
        stamps_of_task (tasks' ! i) g = Some s)"
proof -
  note eff = stampLinkedRows_effect(1) [OF room run]
  have len: "length tasks' = length tasks" using list_all2_lengthD [OF eff] by simp
  let ?t = "tasks ! i" and ?t' = "tasks' ! i"
  from eff i have out: "task_outcome parse fingerprint snapshot MAX_STAMP_MS (held_at tasks w) w ?t ?t'"
    by (simp add: list_all2_conv_all_nth)
  show ?thesis
  proof (cases "skipped fingerprint snapshot w ?t")
    case True
    with out have "?t' = ?t" by (simp add: task_outcome_def)
    with len show ?thesis by simp
  next
    case False
    with out have e: "?t' = (with_machine w ?t)\<lparr>task_sync := task_sync ?t'\<rparr>"
      and g: "\<And>g. group_outcome parse MAX_STAMP_MS (held_at tasks w (task_project ?t)) w (with_machine w ?t)
        (js_get snapshot (task_id ?t)) (stamps_of_task ?t) (stamps_of_task ?t') g" by (auto simp: task_outcome_def)
    have "?t'\<lparr>task_machine := None, task_sync := None\<rparr> = ?t\<lparr>task_machine := None, task_sync := None\<rparr>"
      by (subst e) (simp add: with_machine_def)
    moreover have "task_machine ?t' = task_machine ?t" if "\<not> absent (task_machine ?t)"
      by (subst e) (use that in \<open>simp add: with_machine_def\<close>)
    moreover have "stamps_of_task ?t' h = Some s"
      if "stamps_of_task ?t h = Some s" "set_by_writer (js_get snapshot (task_id ?t)) (stamps_of_task ?t) h
        \<or> \<not> group_changed (js_get snapshot (task_id ?t)) (with_machine w ?t) h" for h s
      using g [of h] that by (auto simp: group_outcome_def carried_def split: if_splits)
    ultimately show ?thesis using len False by blast
  qed
qed

text \<open>A linked task deleted in a commit leaves a tombstone in the same commit, above every stamp
  its project held, with the project's floor raised to it; a tombstone that was there stays as it
  was.\<close>

theorem linked_delete_leaves_tombstone:
  assumes room: "commit_room parse l tasks snapshot w"
    and run: "stampLinkedRows parse fingerprint tasks snapshot w = (tasks', w')"
    and gone: "js_get snapshot i = Some prior" "i \<notin> set (map task_id tasks)"
  shows "if isTombstone (read_row w (tombstoneKey i)) then read_row w' (tombstoneKey i) = read_row w (tombstoneKey i)
    else \<exists>stamp last f. read_row w' (tombstoneKey i) = Some (Tombstone i (snap_project prior) stamp last (self_prefix w))
      \<and> isStamp stamp \<and> floor_mark w' (snap_project prior) = Some f \<and> str_le stamp f
      \<and> (\<forall>u \<in> set tasks. \<forall>h s0. task_project u = snap_project prior \<longrightarrow> stamps_of_task u h = Some s0 \<longrightarrow> str_less s0 stamp)"
proof -
  note eff = stampLinkedRows_effect [OF room run]
  have "map task_id tasks' = map task_id tasks"
    using eff(1) by (induction rule: list_all2_induct) (auto dest: task_outcome_project)
  with gone(2) have need: "needs_burial tasks' w i \<longleftrightarrow> \<not> isTombstone (read_row w (tombstoneKey i))"
    by (simp add: needs_burial_def)
  show ?thesis
  proof (cases "isTombstone (read_row w (tombstoneKey i))")
    case True
    with need eff(3) show ?thesis by auto
  next
    case False
    from gone(1) have "(i, prior) \<in> set snapshot" by (auto simp: js_get_def dest: map_of_SomeD)
    with eff(2) need False have "buried_with MAX_STAMP_MS (held_at tasks w (snap_project prior)) (self_prefix w) i (snap_project prior) w'"
      by blast
    moreover have "\<forall>u \<in> set tasks. task_within parse (self_prefix w) l u" using room by (simp add: commit_room_def)
    ultimately show ?thesis using False held_stored
      by (simp add: buried_with_def stamp_within_def) blast
  qed
qed

subsection \<open>One commit\<close>

definition demo_linked_task :: "string \<Rightarrow> string \<Rightarrow> string \<Rightarrow> board_task" where
  "demo_linked_task i words stamp =
     \<lparr>task_id = i, task_project = ''p'', task_status = InboxTask, task_text = words, task_details = None, task_chosen = True,
      task_reviews = None, task_replica = None, task_color = None, task_icon = None, task_priority = None,
      task_placement = ''unplaced'', task_pos = None, task_workLinks = None, task_machine = Some ''m'', task_handover = None,
      task_sync = Some \<lparr>sync_s = (\<lambda>g. Some stamp), sync_o = ''0a1b2c3d''\<rparr>, task_board = None, task_boardAutoHidden = False,
      task_boardChoice = False, task_findingKey = None, task_createdAt = [], task_updatedAt = [], task_rest = JNull\<rparr>"

definition demo_linked_write :: sync_write where
  "demo_linked_write = \<lparr>write_linked = {''p''}, self_id = ''m'', self_prefix = ''0a1b2c3d'', clock_readings = (\<lambda>n. 0),
     readings = 0, companions = [], preserved_stamps = [], project_mark = (\<lambda>p. None)\<rparr>"

definition demo_no_parse :: "string \<Rightarrow> int option" where "demo_no_parse t = None"

definition demo_linked_tasks :: "board_task list" where
  "demo_linked_tasks = [demo_linked_task ''a'' ''new words'' demo_stamp]"

definition demo_linked_snapshot :: "(string, group_snapshot) js_map" where
  "demo_linked_snapshot = snapshotGroups [demo_linked_task ''a'' ''words'' demo_stamp, demo_linked_task ''b'' ''other'' demo_stamp] {''p''} task_text"

lemma demo_snapshot_gets:
  "demo_linked_snapshot = [(''a'', snapshot_of task_text (demo_linked_task ''a'' ''words'' demo_stamp)),
     (''b'', snapshot_of task_text (demo_linked_task ''b'' ''other'' demo_stamp))]"
  by (simp add: demo_linked_snapshot_def snapshotGroups_def demo_linked_task_def js_map_of_def)

lemma demo_derived: "stamp_within 1700000000123 (derivedStamp demo_no_parse t ''0a1b2c3d'')"
proof -
  have p: "is_prefix ''0a1b2c3d''" by (simp add: is_prefix_def is_hex_def is_digit_def)
  have "stampMs (derivedStamp demo_no_parse t ''0a1b2c3d'') = 0"
    by (simp add: derivedStamp_def demo_no_parse_def format_parts)
  with derivedStamp_stamp [OF p] show ?thesis by (simp add: stamp_within_def)
qed

lemma demo_linked_room: "commit_room demo_no_parse 1700000000123 demo_linked_tasks demo_linked_snapshot demo_linked_write"
proof -
  have p: "is_prefix ''0a1b2c3d''" by (simp add: is_prefix_def is_hex_def is_digit_def)
  have "write_within 1700000000123 demo_linked_write"
    using p by (simp add: write_within_def demo_linked_write_def floor_mark_def read_row_def wall_of_def MAX_STAMP_MS_def)
  moreover have "stamp_within 1700000000123 demo_stamp" using demo_stamp_ok by (simp add: stamp_within_def)
  ultimately show ?thesis using demo_derived
    by (simp add: commit_room_def demo_linked_tasks_def demo_snapshot_gets task_within_def effectiveStamp_def
        demo_linked_task_def snapshots_within_def snapshot_within_def snapshot_of_def js_wf_def js_keys_def
        demo_linked_write_def MAX_STAMP_MS_def)
qed

definition demo_linked_result :: "board_task list \<times> sync_write" where
  "demo_linked_result = stampLinkedRows demo_no_parse task_text demo_linked_tasks demo_linked_snapshot demo_linked_write"

lemma demo_linked_run:
  "stampLinkedRows demo_no_parse task_text demo_linked_tasks demo_linked_snapshot demo_linked_write = (fst demo_linked_result, snd demo_linked_result)"
  by (simp add: demo_linked_result_def)

lemma demo_linked_prior: "js_get demo_linked_snapshot ''a'' = Some (snapshot_of task_text (demo_linked_task ''a'' ''words'' demo_stamp))"
    "js_get demo_linked_snapshot ''b'' = Some (snapshot_of task_text (demo_linked_task ''b'' ''other'' demo_stamp))"
  by (simp_all add: demo_snapshot_gets js_get_def)

lemma demo_linked_task_facts:
  "task_id (demo_linked_task i t s) = i" "task_project (demo_linked_task i t s) = ''p''"
  "stamps_of_task (demo_linked_task i t s) = (\<lambda>g. Some s)" "task_text (demo_linked_task i t s) = t"
  "with_machine demo_linked_write (demo_linked_task i t s) = demo_linked_task i t s"
  "task_machine (demo_linked_task i t s) = Some ''m''"
  by (simp_all add: demo_linked_task_def with_machine_def absent_def)

theorem linked_edit_outranks_witness:
  "\<exists>s. stamps_of_task (fst demo_linked_result ! 0) TextGroup = Some s \<and> isStamp s \<and> str_less demo_stamp s"
proof -
  let ?t = "demo_linked_tasks ! 0"
  have t: "?t = demo_linked_task ''a'' ''new words'' demo_stamp" "0 < length demo_linked_tasks" "?t \<in> set demo_linked_tasks"
    by (simp_all add: demo_linked_tasks_def)
  have "\<not> skipped task_text demo_linked_snapshot demo_linked_write ?t"
    by (simp add: t skipped_def demo_linked_task_facts demo_linked_prior snapshot_of_def) (simp add: demo_linked_write_def)
  moreover have "group_changed (js_get demo_linked_snapshot (task_id ?t)) (with_machine demo_linked_write ?t) TextGroup"
    "\<not> set_by_writer (js_get demo_linked_snapshot (task_id ?t)) (stamps_of_task ?t) TextGroup"
    "\<not> preserved demo_linked_write (with_machine demo_linked_write ?t) (js_get demo_linked_snapshot (task_id ?t)) (stamps_of_task ?t) TextGroup"
    by (simp_all add: t demo_linked_task_facts demo_linked_prior group_changed_def set_by_writer_def preserved_def snapshot_of_def)
      (simp_all add: demo_linked_write_def)
  ultimately have "\<exists>s. stamps_of_task (fst demo_linked_result ! 0) TextGroup = Some s \<and> isStamp s
    \<and> (\<forall>u \<in> set demo_linked_tasks. \<forall>h s0. task_project u = task_project ?t \<longrightarrow> stamps_of_task u h = Some s0 \<longrightarrow> str_less s0 s)
    \<and> (\<forall>f. floor_mark demo_linked_write (task_project ?t) = Some f \<longrightarrow> str_less f s)"
    by (rule linked_edit_outranks [OF demo_linked_room demo_linked_run t(2)])
  with t show ?thesis by (auto simp: demo_linked_task_facts)
qed

theorem linked_stamp_frame_witness:
  "length (fst demo_linked_result) = 1 \<and> stamps_of_task (fst demo_linked_result ! 0) StatusGroup = Some demo_stamp"
proof -
  have t: "demo_linked_tasks ! 0 = demo_linked_task ''a'' ''new words'' demo_stamp" "0 < length demo_linked_tasks" "length demo_linked_tasks = 1"
    by (simp_all add: demo_linked_tasks_def)
  have "\<not> group_changed (Some (snapshot_of task_text (demo_linked_task ''a'' ''words'' demo_stamp)))
      (demo_linked_task ''a'' ''new words'' demo_stamp) StatusGroup"
    by (simp add: group_changed_def snapshot_of_def demo_linked_task_def)
  with linked_stamp_frame [OF demo_linked_room demo_linked_run t(2)] t show ?thesis
    by (simp add: demo_linked_task_facts demo_linked_prior)
qed

theorem linked_delete_leaves_tombstone_witness:
  "\<exists>stamp last. read_row (snd demo_linked_result) (tombstoneKey ''b'') = Some (Tombstone ''b'' ''p'' stamp last ''0a1b2c3d'')
     \<and> str_less demo_stamp stamp"
proof -
  have t: "''b'' \<notin> set (map task_id demo_linked_tasks)" by (simp add: demo_linked_tasks_def demo_linked_task_facts)
  have none: "\<not> isTombstone (read_row demo_linked_write (tombstoneKey ''b''))" "self_prefix demo_linked_write = ''0a1b2c3d''"
    by (simp_all add: demo_linked_write_def read_row_def isTombstone_def)
  have p: "snap_project (snapshot_of task_text (demo_linked_task ''b'' ''other'' demo_stamp)) = ''p''"
    by (simp add: snapshot_of_def demo_linked_task_facts)
  have mem: "demo_linked_task ''a'' ''new words'' demo_stamp \<in> set demo_linked_tasks" by (simp add: demo_linked_tasks_def)
  from linked_delete_leaves_tombstone [OF demo_linked_room demo_linked_run demo_linked_prior(2) t] none p
  obtain stamp last f where "read_row (snd demo_linked_result) (tombstoneKey ''b'') = Some (Tombstone ''b'' ''p'' stamp last ''0a1b2c3d'')"
    and above: "\<forall>u \<in> set demo_linked_tasks. \<forall>h s0. task_project u = ''p'' \<longrightarrow> stamps_of_task u h = Some s0 \<longrightarrow> str_less s0 stamp" by auto
  moreover from above mem have "str_less demo_stamp stamp" by (simp add: demo_linked_task_facts)
  ultimately show ?thesis by blast
qed

end
