(* ===== verification/Linked_Apply_Properties.thy ===== *)
theory Linked_Apply_Properties
  imports Linked_Merge Linked_Properties
begin

text \<open>The properties of the apply: last write wins, ownership, replays, and deletes that stay.\<close>

section \<open>Merging a row\<close>

definition wins :: "(string \<Rightarrow> int option) \<Rightarrow> board_task \<Rightarrow> wire_task \<Rightarrow> apply_link \<Rightarrow> sync_write \<Rightarrow> board_task list \<Rightarrow> sync_group \<Rightarrow> bool" where
  "wins parse local row link w tasks g \<longleftrightarrow> str_less (effectiveStamp parse local g (self_prefix w)) (wire_s row g)
     \<and> \<not> guarded local row link w g \<and> \<not> (g = StatusGroup \<and> reopen_conflict local row tasks)"

lemma not_restores: "str_less held (wire_s row g) \<Longrightarrow> \<not> restores_title local row held g"
  by (auto simp: restores_title_def)

text \<open>The machine of a task moves only over its owner's link, and no stamp ends below the row's own
  but where a guard kept the group.\<close>

lemma merge_owner:
  assumes "merge_held parse admit local row link w tasks = (Some merged, w')"
  shows "task_machine merged \<noteq> task_machine local \<Longrightarrow> owner_of local w = link_install link"
  using merge_held_result(1) [OF assms, of MachineGroup]
  by (auto simp: merged_group_def Let_def left_alone_def guarded_def restores_title_def split: if_splits)

lemma merge_stamp_ge:
  assumes "merge_held parse admit local row link w tasks = (Some merged, w')"
    and clean: "isStamp (wire_s row StatusGroup)" "has_room (wire_s row StatusGroup)" "is_prefix (self_prefix w)"
    and free: "\<not> guarded local row link w g"
  shows "str_le (wire_s row g) (effectiveStamp parse merged g (self_prefix w))"
proof (cases "left_alone parse local row link w g")
  case True
  with free have "str_le (wire_s row g) (effectiveStamp parse local g (self_prefix w))" by (simp add: left_alone_def Let_def)
  with True merge_held_result(1) [OF assms(1), of g] show ?thesis by (simp add: merged_group_def Let_def)
next
  case left: False
  show ?thesis
  proof (cases "g = StatusGroup \<and> reopen_conflict local row tasks")
    case True
    with left merge_held_result(1) [OF assms(1), of g] obtain now where
      "effectiveStamp parse merged g (self_prefix w) = nextStamp (Some (wire_s row StatusGroup)) now (self_prefix w)"
      by (auto simp: merged_group_def Let_def)
    with nextStamp_above(2) [OF clean, of now] True show ?thesis by (simp add: str_less_le)
  next
    case False
    with left merge_held_result(1) [OF assms(1), of g] show ?thesis by (simp add: merged_group_def Let_def)
  qed
qed

lemma merge_decides_group:
  assumes "fst (mergeRow parse admit (Some local) row link w tasks) = Some merged"
    and "isStamp (wire_s row StatusGroup)" "has_room (wire_s row StatusGroup)" "is_prefix (self_prefix w)"
  shows "str_le (effectiveStamp parse local g (self_prefix w)) (effectiveStamp parse merged g (self_prefix w))
    \<and> (if wins parse local row link w tasks g
       then same_group merged (assignGroup local row g) g \<and> effectiveStamp parse merged g (self_prefix w) = wire_s row g
       else same_group merged local g
         \<or> restores_title local row (effectiveStamp parse local g (self_prefix w)) g \<and> task_text merged = wire_text row)"
proof -
  let ?held = "effectiveStamp parse local g (self_prefix w)"
  obtain w' where "merge_held parse admit local row link w tasks = (Some merged, w')"
    using assms(1) by (cases "merge_held parse admit local row link w tasks") (auto simp: mergeRow_def)
  note res = merge_held_result(1) [OF this, of g]
  consider (left) "left_alone parse local row link w g"
    | (conflict) "\<not> left_alone parse local row link w g" "g = StatusGroup \<and> reopen_conflict local row tasks"
    | (restored) "\<not> left_alone parse local row link w g" "\<not> (g = StatusGroup \<and> reopen_conflict local row tasks)" "restores_title local row ?held g"
    | (taken) "\<not> left_alone parse local row link w g" "\<not> (g = StatusGroup \<and> reopen_conflict local row tasks)" "\<not> restores_title local row ?held g"
    by blast
  then show ?thesis
  proof cases
    case left
    then have "\<not> wins parse local row link w tasks g"
      using not_restores [of ?held row g local] by (auto simp: wins_def left_alone_def Let_def str_less_def)
    with res left show ?thesis by (simp add: merged_group_def Let_def)
  next
    case conflict
    then have less: "str_less ?held (wire_s row g)"
      by (auto simp: left_alone_def Let_def str_less_def restores_title_def)
    from res conflict obtain now where e: "effectiveStamp parse merged g (self_prefix w) = nextStamp (Some (wire_s row g)) now (self_prefix w)"
      "same_group merged local g" by (auto simp: merged_group_def Let_def)
    from nextStamp_above(2) [OF assms(2-4), of now] conflict have "str_less (wire_s row g) (effectiveStamp parse merged g (self_prefix w))"
      using e(1) by auto
    with less have "str_le ?held (effectiveStamp parse merged g (self_prefix w))" by (metis str_less_trans str_less_le)
    with e conflict show ?thesis by (simp add: wins_def)
  next
    case restored
    then have "effectiveStamp parse merged g (self_prefix w) = wire_s row g" "g = TextGroup" "task_text merged = wire_text row"
      "wire_s row g = ?held" "task_text local = UNTITLED_TASK_TEXT"
      using res by (auto simp: merged_group_def Let_def restores_title_def)
    with restored(3) show ?thesis by (simp add: wins_def)
  next
    case taken
    then have "effectiveStamp parse merged g (self_prefix w) = wire_s row g" "same_group merged (assignGroup local row g) g"
      using res by (auto simp: merged_group_def Let_def)
    moreover from taken have "str_less ?held (wire_s row g)" "\<not> guarded local row link w g"
      by (auto simp: left_alone_def Let_def str_less_def)
    ultimately show ?thesis using taken by (simp add: wins_def str_less_le)
  qed
qed

text \<open>C18. Merging a peer's row into a task the install holds, group by group. The row wins a group when
  its stamp is larger than the local one, the group is not guarded (the machine of a task whose owner
  is not the sender; a handover request that names a machine other than the sender), and it does not
  reopen a finding another open task has. A merge that returns nothing to write means the row won no
  group. In one that returns a task, a group the row won is taken whole with its stamp; any other
  group keeps its content, with one exception: at an equal stamp an untitled task whose machine the
  row states takes the row's title. No group's stamp goes back. The status stamp of the row is a
  stamp with room above it, and the install has its prefix.\<close>

theorem linked_merge_last_write_wins:
  assumes "isStamp (wire_s row StatusGroup)" "has_room (wire_s row StatusGroup)" "is_prefix (self_prefix w)"
  shows "case fst (mergeRow parse admit (Some local) row link w tasks) of
      None \<Rightarrow> \<not> wins parse local row link w tasks g
    | Some merged \<Rightarrow>
        str_le (effectiveStamp parse local g (self_prefix w)) (effectiveStamp parse merged g (self_prefix w))
        \<and> (if wins parse local row link w tasks g
           then same_group merged (assignGroup local row g) g \<and> effectiveStamp parse merged g (self_prefix w) = wire_s row g
           else same_group merged local g
             \<or> restores_title local row (effectiveStamp parse local g (self_prefix w)) g \<and> task_text merged = wire_text row)"
proof (cases "fst (mergeRow parse admit (Some local) row link w tasks)")
  case None
  then have "left_alone parse local row link w g" using merge_none_left by (simp add: mergeRow_def)
  then have "\<not> wins parse local row link w tasks g"
    using not_restores [of "effectiveStamp parse local g (self_prefix w)" row g local]
    by (auto simp: wins_def left_alone_def Let_def str_less_def)
  with None show ?thesis by simp
next
  case (Some merged)
  with merge_decides_group [OF Some assms, of g] show ?thesis by simp
qed

text \<open>Ownership: a merge changes the machine of a task only when the link it came over is the
  owner the local copy names, and a merge never leaves a new handover request that asks for a
  machine other than the sender.\<close>

theorem linked_merge_ownership:
  assumes "fst (mergeRow parse admit (Some local) row link w tasks) = Some merged"
  shows "(task_machine merged \<noteq> task_machine local \<longrightarrow> owner_of local w = link_install link)
    \<and> (task_handover merged \<noteq> task_handover local \<longrightarrow> task_handover merged \<in> {None, Some (link_install link)})"
proof -
  obtain w' where m: "merge_held parse admit local row link w tasks = (Some merged, w')"
    using assms(1) by (cases "merge_held parse admit local row link w tasks") (auto simp: mergeRow_def)
  from merge_held_result(1) [OF m, of MachineGroup] merge_held_result(1) [OF m, of HandoverGroup] show ?thesis
    by (auto simp: merged_group_def Let_def left_alone_def guarded_def restores_title_def split: if_splits)
qed

text \<open>After a merge every group is left alone by the same row, but for a title still to recover.\<close>

lemma replay_left:
  assumes m: "merge_held parse admit local row link w tasks = (Some merged, w')"
    and clean: "isStamp (wire_s row StatusGroup)" "has_room (wire_s row StatusGroup)" "is_prefix (self_prefix w)"
  shows "left_alone parse merged row link w g \<or> restores_title merged row (effectiveStamp parse merged g (self_prefix w)) g"
proof (cases "guarded merged row link w g")
  case False
  have "str_le (wire_s row g) (effectiveStamp parse merged g (self_prefix w))"
  proof (cases "guarded local row link w g")
    case True
    with False have "g = MachineGroup" "task_machine merged \<noteq> task_machine local" by (auto simp: guarded_def owner_of_def)
    with merge_owner [OF m] True show ?thesis by (simp add: guarded_def)
  next
    case False
    with merge_stamp_ge [OF m clean] show ?thesis by blast
  qed
  then show ?thesis by (simp add: left_alone_def Let_def)
qed (simp add: left_alone_def)

lemma replay_quiet:
  assumes m: "merge_held parse admit local row link w tasks = (Some merged, w')" and again: "identity_of w2 = identity_of w"
  shows "\<not> board_changed merged row link w2"
proof -
  note board = merge_held_result(2-4) [OF m]
  note own = merge_owner [OF m]
  have "\<not> board_changed merged row link w"
  proof (cases "board_changed local row link w")
    case True
    with board show ?thesis by (simp add: board_changed_def merge_start_def)
  next
    case False
    have "owner_of merged w = owner_of local w \<or> owner_of local w = link_install link"
      using own by (cases "task_machine merged = task_machine local") (simp_all add: owner_of_def)
    with board False show ?thesis by (auto simp: board_changed_def merge_start_def)
  qed
  moreover have "owner_of merged w2 = owner_of merged w" using again by (simp add: owner_of_def identity_of_def split: option.split)
  ultimately show ?thesis by (simp add: board_changed_def)
qed

lemma replay_titled:
  assumes m: "merge_held parse admit local row link w tasks = (Some merged, w')"
    and clean: "isStamp (wire_s row StatusGroup)" "has_room (wire_s row StatusGroup)" "is_prefix (self_prefix w)"
    and again: "identity_of w2 = identity_of w"
    and titled: "task_text merged \<noteq> UNTITLED_TASK_TEXT \<or> wire_text row = UNTITLED_TASK_TEXT"
  shows "fst (merge_held parse admit merged row link w2 tasks2) = None"
proof -
  have "\<not> restores_title merged row held g" for held g using titled by (auto simp: restores_title_def)
  with replay_left [OF m clean] have "\<forall>g. left_alone parse merged row link w g" by blast
  with left_alone_identity [OF again] have "\<forall>g. left_alone parse merged row link w2 g" by blast
  with replay_quiet [OF m again] show ?thesis by (simp add: merge_held_none)
qed

text \<open>A second arrival that writes recovers the title and nothing else.\<close>

lemma replay_recovers:
  assumes m: "merge_held parse admit local row link w tasks = (Some merged, w')"
    and clean: "isStamp (wire_s row StatusGroup)" "has_room (wire_s row StatusGroup)" "is_prefix (self_prefix w)"
    and again: "identity_of w2 = identity_of w"
    and m2: "merge_held parse admit merged row link w2 tasks2 = (Some merged2, w2')"
  shows "task_text merged = UNTITLED_TASK_TEXT \<and> wire_text row \<noteq> UNTITLED_TASK_TEXT \<and> task_text merged2 = wire_text row
    \<and> task_details merged2 = task_details merged \<and> (\<forall>g. g \<noteq> TextGroup \<longrightarrow> same_group merged2 merged g)"
proof -
  have prefix: "self_prefix w2 = self_prefix w" using again by (simp add: identity_of_def)
  have left: "left_alone parse merged row link w2 g" if "g \<noteq> TextGroup" for g
    using replay_left [OF m clean, of g] left_alone_identity [OF again] that by (auto simp: restores_title_def)
  with merge_held_result(1) [OF m2] have other: "same_group merged2 merged g" if "g \<noteq> TextGroup" for g
    using that by (auto simp: merged_group_def Let_def)
  from merge_held_result(5) [OF m2] replay_quiet [OF m again] left
  have open_text: "\<not> left_alone parse merged row link w2 TextGroup" by (metis (full_types))
  then have "\<not> left_alone parse merged row link w TextGroup" using left_alone_identity [OF again] by blast
  with replay_left [OF m clean] have r: "restores_title merged row (effectiveStamp parse merged TextGroup (self_prefix w)) TextGroup" by blast
  with merge_held_result(1) [OF m2, of TextGroup] open_text prefix have "task_text merged2 = wire_text row" "task_details merged2 = task_details merged"
    by (auto simp: merged_group_def Let_def)
  with r other show ?thesis by (auto simp: restores_title_def)
qed

text \<open>C19. A row that comes again after it was merged, under the same identity of the install: the second
  arrival gives no task to write, or it recovers the title of a task that is still untitled and
  changes no other group and no details; and after such a recovery the next arrival gives no task to
  write. The status stamp of the row is a stamp with room above it, and the install has its prefix.\<close>

theorem linked_merge_replay:
  assumes first: "fst (mergeRow parse admit (Some local) row link w tasks) = Some merged"
    and clean: "isStamp (wire_s row StatusGroup)" "has_room (wire_s row StatusGroup)" "is_prefix (self_prefix w)"
    and again: "identity_of w2 = identity_of w" "identity_of w3 = identity_of w"
  shows "case fst (mergeRow parse admit (Some merged) row link w2 tasks2) of
      None \<Rightarrow> True
    | Some recovered \<Rightarrow> task_text merged = UNTITLED_TASK_TEXT \<and> wire_text row \<noteq> UNTITLED_TASK_TEXT
        \<and> task_text recovered = wire_text row \<and> task_details recovered = task_details merged
        \<and> (\<forall>g. g \<noteq> TextGroup \<longrightarrow> same_group recovered merged g)
        \<and> fst (mergeRow parse admit (Some recovered) row link w3 tasks3) = None"
proof (cases "fst (mergeRow parse admit (Some merged) row link w2 tasks2)")
  case (Some recovered)
  from first obtain w' where m: "merge_held parse admit local row link w tasks = (Some merged, w')"
    by (cases "merge_held parse admit local row link w tasks") (auto simp: mergeRow_def)
  from Some obtain w2' where m2: "merge_held parse admit merged row link w2 tasks2 = (Some recovered, w2')"
    by (cases "merge_held parse admit merged row link w2 tasks2") (auto simp: mergeRow_def)
  note title = replay_recovers [OF m clean again(1) m2]
  have "is_prefix (self_prefix w2)" using clean(3) again(1) by (simp add: identity_of_def)
  moreover have "identity_of w3 = identity_of w2" using again by simp
  ultimately have "fst (merge_held parse admit recovered row link w3 tasks3) = None"
    using replay_titled [OF m2 clean(1,2)] title by simp
  with Some title show ?thesis by (simp add: mergeRow_def)
qed simp

section \<open>Deletes stay\<close>

definition task_ids :: "board_task list \<Rightarrow> string set" where
  "task_ids tasks = task_id ` set tasks"

definition dead :: "string \<Rightarrow> apply_state \<Rightarrow> bool" where
  "dead i s \<longleftrightarrow> isTombstone (read_row (page_write s) (tombstoneKey i)) \<and> i \<notin> task_ids (page_tasks s)"

text \<open>A tombstone and its task are never both there.\<close>

definition grave_ok :: "string \<Rightarrow> apply_state \<Rightarrow> bool" where
  "grave_ok i s \<longleftrightarrow> (isTombstone (read_row (page_write s) (tombstoneKey i)) \<longrightarrow> i \<notin> task_ids (page_tasks s))"

definition homes_apart :: "apply_env \<Rightarrow> string \<Rightarrow> bool" where
  "homes_apart env i \<longleftrightarrow> (\<forall>tasks t tasks'. env_relocate env tasks t = Some tasks' \<longrightarrow> i \<notin> task_ids tasks \<longrightarrow> i \<notin> task_ids tasks')"

lemma read_remove: "read_row (remove_row k w) key = (if key = k then None else read_row w key)"
  by (simp add: read_row_def remove_row_def)

lemma read_drop_stub: "read_row (drop_stub i w) (tombstoneKey j) = read_row w (tombstoneKey j)"
  by (simp add: drop_stub_def read_remove keys_apart)

lemma linked_ticked: "write_linked (put_row row w) = write_linked w" "write_linked (raiseFloor p g w) = write_linked w"
    "write_linked (drop_stub i w) = write_linked w"
  by (auto simp: put_row_def raiseFloor_def drop_stub_def remove_row_def split: option.split)

lemma delete_without: "deleteTask env tasks i = Some tasks' \<Longrightarrow> homes_apart env i \<Longrightarrow> i \<notin> task_ids tasks'"
  by (fastforce simp: deleteTask_def homes_apart_def task_ids_def split: option.splits if_splits)

lemma delete_other: "deleteTask env tasks j = Some tasks' \<Longrightarrow> homes_apart env i \<Longrightarrow> i \<notin> task_ids tasks \<Longrightarrow> i \<notin> task_ids tasks'"
  by (fastforce simp: deleteTask_def homes_apart_def task_ids_def split: option.splits if_splits)

lemma merge_group_companions:
  "companions (merge_write (merge_group parse local row link tasks loop g)) = companions (merge_write loop)
    \<and> write_linked (merge_write (merge_group parse local row link tasks loop g)) = write_linked (merge_write loop)
    \<and> task_id (merge_task (merge_group parse local row link tasks loop g)) = task_id (merge_task loop)"
  by (simp add: merge_group_unfold Let_def read_clock_def preserveStamp_def)

lemma merge_groups_companions:
  "companions (merge_write (foldl (merge_group parse local row link tasks) loop gs)) = companions (merge_write loop)
    \<and> write_linked (merge_write (foldl (merge_group parse local row link tasks) loop gs)) = write_linked (merge_write loop)
    \<and> task_id (merge_task (foldl (merge_group parse local row link tasks) loop gs)) = task_id (merge_task loop)"
  by (induction gs arbitrary: loop) (simp_all add: merge_group_companions)

lemma arrive_id: "task_id (arrive parse admit row link w) = wire_id row"
  by (simp add: arrive_def with_origin_def Let_def TASK_SYNC_GROUPS_def arrived_row_def)

lemma mergeRow_frame:
  assumes "mergeRow parse admit local row link w tasks = (out, w')"
  shows "read_row w' key = read_row w key" "write_linked w' = write_linked w"
    "out = Some merged \<Longrightarrow> task_id merged = (case local of None \<Rightarrow> wire_id row | Some t \<Rightarrow> task_id t)"
proof -
  have "companions w' = companions w \<and> write_linked w' = write_linked w
    \<and> (\<forall>merged. out = Some merged \<longrightarrow> task_id merged = (case local of None \<Rightarrow> wire_id row | Some t \<Rightarrow> task_id t))"
  proof (cases local)
    case None
    with assms show ?thesis by (auto simp: mergeRow_def arrive_id)
  next
    case (Some t)
    note fold = merge_groups_companions [of parse t row link tasks "merge_start t row link w" TASK_SYNC_GROUPS]
    have "task_id (merge_task (merge_start t row link w)) = task_id t" by (simp add: merge_start_def)
    with Some assms fold show ?thesis
      by (auto simp: mergeRow_def merge_held_def with_origin_def Let_def split: if_splits)
  qed
  then show "read_row w' key = read_row w key" "write_linked w' = write_linked w"
    "out = Some merged \<Longrightarrow> task_id merged = (case local of None \<Rightarrow> wire_id row | Some t \<Rightarrow> task_id t)"
    by (simp_all add: read_row_def)
qed

lemma position_of_id: "position_of tasks i = Some n \<Longrightarrow> n < length tasks \<and> task_id (tasks ! n) = i"
proof -
  assume "position_of tasks i = Some n"
  then have "map_of (rev (zip (map task_id tasks) [0..<length tasks])) i = Some n"
    by (simp add: position_of_def js_map_of_def js_get_sets split: option.splits)
  then have "(i, n) \<in> set (zip (map task_id tasks) [0..<length tasks])" by (auto dest: map_of_SomeD)
  then show ?thesis by (auto simp: in_set_zip)
qed

lemma admit_board_id: "task_id (admit_board env tasks local row m) = task_id m"
  by (simp add: admit_board_def Let_def)

lemma apply_task_frame:
  fixes env :: apply_env and link :: apply_link and s :: apply_state
  assumes pos: "position = position_of (page_tasks s) (wire_id row)"
  defines "s' \<equiv> apply_task env link position row s"
  shows "task_ids (page_tasks s') \<subseteq> insert (wire_id row) (task_ids (page_tasks s))"
    "read_row (page_write s') (tombstoneKey j) = read_row (page_write s) (tombstoneKey j)"
    "write_linked (page_write s') = write_linked (page_write s)"
proof -
  let ?local = "map_option (\<lambda>n. page_tasks s ! n) position" and ?w = "drop_stub (wire_id row) (page_write s)"
  obtain out w' where m: "mergeRow (env_parse env) (env_admit env) ?local row link ?w (page_tasks s) = (out, w')" by force
  note fr = mergeRow_frame [OF m]
  have w: "page_write s' = w'"
    using m by (auto simp: s'_def apply_task_def Let_def split: option.splits)
  show "read_row (page_write s') (tombstoneKey j) = read_row (page_write s) (tombstoneKey j)" for j
    unfolding w fr(1) by (rule read_drop_stub)
  show "write_linked (page_write s') = write_linked (page_write s)" unfolding w fr(2) by (simp add: linked_ticked)
  show "task_ids (page_tasks s') \<subseteq> insert (wire_id row) (task_ids (page_tasks s))"
  proof (cases out)
    case None
    with m show ?thesis by (auto simp: s'_def apply_task_def Let_def)
  next
    case (Some merged)
    have i: "task_id (admit_board env (page_tasks s) ?local row merged) = wire_id row"
      using fr(3) [OF Some] pos position_of_id by (auto simp: admit_board_id split: option.splits)
    show ?thesis
    proof (cases position)
      case None
      with m Some i show ?thesis by (auto simp: s'_def apply_task_def Let_def task_ids_def)
    next
      case (Some n)
      with m \<open>out = Some merged\<close> i show ?thesis
        using set_update_subset_insert [of "page_tasks s" n "admit_board env (page_tasks s) ?local row merged"]
        by (auto simp: s'_def apply_task_def Let_def task_ids_def)
    qed
  qed
qed

text \<open>The effect of a delete row, when it goes through.\<close>

lemma apply_gone_frame:
  assumes out: "apply_gone env link local j project gone s = Some s'" and homes: "homes_apart env i"
  shows "j \<noteq> i \<or> isTombstone (read_row (page_write s) (tombstoneKey i)) \<Longrightarrow>
      read_row (page_write s') (tombstoneKey i) = read_row (page_write s) (tombstoneKey i)"
    "isTombstone (read_row (page_write s') (tombstoneKey j))"
    "i \<notin> task_ids (page_tasks s) \<Longrightarrow> i \<notin> task_ids (page_tasks s')"
    "j = i \<Longrightarrow> \<not> isTombstone (read_row (page_write s) (tombstoneKey i)) \<Longrightarrow> (local = None \<longrightarrow> i \<notin> task_ids (page_tasks s)) \<Longrightarrow>
      i \<notin> task_ids (page_tasks s')"
    "write_linked (page_write s') = write_linked (page_write s)"
proof -
  let ?w = "page_write s"
  define kept where "kept = (case map_option (\<lambda>t. newestStamp (env_parse env) t (self_prefix ?w)) local of
      Some l \<Rightarrow> if l \<noteq> [] \<and> str_le gone l \<and> gone \<noteq> l then Some l else None | None \<Rightarrow> None)"
  define w1 where "w1 = drop_stub j (raiseFloor project gone (put_row (Tombstone j project gone kept (link_prefix link)) ?w))"
  have unfold: "apply_gone env link local j project gone s =
      (if isTombstone (read_row ?w (tombstoneKey j)) then Some s
       else (case local of None \<Rightarrow> Some (s\<lparr>page_write := w1, page_count := Suc (page_count s)\<rparr>)
         | Some _ \<Rightarrow> map_option (\<lambda>tasks. \<lparr>page_tasks = tasks, page_write = w1, page_count = Suc (page_count s)\<rparr>)
             (deleteTask env (page_tasks s) j)))"
    by (simp only: apply_gone_def w1_def kept_def Let_def str_less_le)
  consider (there) "isTombstone (read_row ?w (tombstoneKey j))" "s' = s"
    | (new) "\<not> isTombstone (read_row ?w (tombstoneKey j))" "page_write s' = w1"
        "case local of None \<Rightarrow> page_tasks s' = page_tasks s | Some _ \<Rightarrow> deleteTask env (page_tasks s) j = Some (page_tasks s')"
    using out unfolding unfold by (cases local) (auto split: if_splits)
  note cases = this
  show "j \<noteq> i \<or> isTombstone (read_row ?w (tombstoneKey i)) \<Longrightarrow>
      read_row (page_write s') (tombstoneKey i) = read_row ?w (tombstoneKey i)"
    using cases by cases (auto simp: w1_def read_drop_stub read_raise_tomb read_put keys_apart)
  show "isTombstone (read_row (page_write s') (tombstoneKey j))"
    using cases by cases (auto simp: w1_def read_drop_stub read_raise_tomb read_put isTombstone_def)
  show "i \<notin> task_ids (page_tasks s) \<Longrightarrow> i \<notin> task_ids (page_tasks s')"
    using cases by cases (auto dest: delete_other [OF _ homes] split: option.splits)
  show "i \<notin> task_ids (page_tasks s')"
    if "j = i" "\<not> isTombstone (read_row ?w (tombstoneKey i))" "local = None \<longrightarrow> i \<notin> task_ids (page_tasks s)"
    using cases
  proof cases
    case new
    with that show ?thesis by (cases local) (auto dest: delete_without [OF _ homes])
  qed (use that in simp)
  show "write_linked (page_write s') = write_linked ?w"
    using cases by cases (auto simp: w1_def linked_ticked)
qed

lemma position_None: "position_of tasks i = None \<Longrightarrow> i \<notin> task_ids tasks"
proof -
  assume "position_of tasks i = None"
  then have "map_of (rev (zip (map task_id tasks) [0..<length tasks])) i = None"
    by (simp add: position_of_def js_map_of_def js_get_sets split: option.splits)
  then have "i \<notin> fst ` set (zip (map task_id tasks) [0..<length tasks])" by (simp add: map_of_eq_None_iff)
  moreover have "fst ` set (zip (map task_id tasks) [0..<length tasks]) = set (map fst (zip (map task_id tasks) [0..<length tasks]))"
    by (simp only: set_map)
  ultimately show ?thesis by (simp add: task_ids_def)
qed

lemma apply_stub_frame:
  "page_tasks (apply_stub j p h s) = page_tasks s" "write_linked (page_write (apply_stub j p h s)) = write_linked (page_write s)"
  "read_row (page_write (apply_stub j p h s)) (tombstoneKey i) = read_row (page_write s) (tombstoneKey i)"
  by (auto simp: apply_stub_def Let_def linked_ticked read_put keys_apart split: option.splits tombstone_row.splits)

definition served :: "apply_link \<Rightarrow> apply_state \<Rightarrow> string \<Rightarrow> bool" where
  "served link s project \<longleftrightarrow> project \<in> link_projects link \<and> project \<in> write_linked (page_write s)"

lemma apply_row_dead:
  assumes out: "apply_row env link s row = Some s'" and homes: "homes_apart env i" and ok: "grave_ok i s"
  shows "grave_ok i s'" "dead i s \<Longrightarrow> dead i s'" "served link s' = served link s"
    "row = GoneRow i p g \<Longrightarrow> served link s p \<Longrightarrow> dead i s'"
proof -
  let ?w = "page_write s" and ?pos = "position_of (page_tasks s) (row_id row)"
  have "grave_ok i s' \<and> (dead i s \<longrightarrow> dead i s') \<and> write_linked (page_write s') = write_linked ?w
      \<and> (row = GoneRow i p g \<longrightarrow> served link s p \<longrightarrow> dead i s')"
  proof (cases "row_project row \<notin> link_projects link \<or> row_project row \<notin> write_linked ?w")
    case True
    then have "s' = s" using out by (auto simp: apply_row_def Let_def)
    with True ok show ?thesis by (auto simp: served_def)
  next
    case served: False
    show ?thesis
    proof (cases row)
      case (TaskRow row')
      show ?thesis
      proof (cases "isTombstone (read_row ?w (tombstoneKey (wire_id row')))")
        case True
        with TaskRow served out ok show ?thesis by (auto simp: apply_row_def Let_def split: if_splits)
      next
        case False
        with TaskRow served out have s': "s' = apply_task env link (position_of (page_tasks s) (wire_id row')) row' s"
          by (auto simp: apply_row_def Let_def split: if_splits)
        note fr = apply_task_frame [OF refl, where s = s and row = row' and env = env and link = link, folded s']
        have "i \<noteq> wire_id row'" if "isTombstone (read_row ?w (tombstoneKey i))" using that False by auto
        with fr ok TaskRow show ?thesis by (auto simp: grave_ok_def dead_def)
      qed
    next
      case (GoneRow j project gone)
      with served out have g: "apply_gone env link (map_option (\<lambda>n. page_tasks s ! n) ?pos) j project gone s = Some s'"
        by (auto simp: apply_row_def Let_def split: if_splits)
      note fr = apply_gone_frame [OF g homes]
      have pos: "map_option (\<lambda>n. page_tasks s ! n) ?pos = None \<longrightarrow> j \<notin> task_ids (page_tasks s)"
        using position_None GoneRow by auto
      have dead: "dead i s'" if "j = i \<or> dead i s"
      proof (cases "isTombstone (read_row ?w (tombstoneKey i))")
        case True
        with ok have "i \<notin> task_ids (page_tasks s)" by (simp add: grave_ok_def)
        with True fr(1,3) show ?thesis by (simp add: dead_def)
      next
        case False
        with that have "j = i" by (auto simp: dead_def)
        with False fr(2,4) pos show ?thesis by (simp add: dead_def)
      qed
      moreover have "grave_ok i s'"
      proof (cases "j = i")
        case True
        with dead show ?thesis by (auto simp: dead_def grave_ok_def)
      next
        case False
        with fr(1,3) ok show ?thesis by (auto simp: grave_ok_def)
      qed
      ultimately show ?thesis using fr(5) GoneRow by auto
    next
      case (StubRow j project withheld)
      with served out have "s' = s \<or> s' = apply_stub j project withheld s"
        by (auto simp: apply_row_def Let_def split: if_splits)
      with ok StubRow show ?thesis by (auto simp: grave_ok_def dead_def apply_stub_frame)
    qed
  qed
  then show "grave_ok i s'" "dead i s \<Longrightarrow> dead i s'" "served link s' = served link s"
    "row = GoneRow i p g \<Longrightarrow> served link s p \<Longrightarrow> dead i s'"
    by (auto simp: served_def fun_eq_iff)
qed

lemma apply_rows_dead:
  assumes "apply_rows env link rows s = Some s'" "homes_apart env i" "grave_ok i s"
    and "dead i s \<or> (\<exists>p g. GoneRow i p g \<in> set rows \<and> served link s p)"
  shows "dead i s'"
  using assms
proof (induction rows arbitrary: s)
  case (Cons row rows)
  then obtain s1 where s1: "apply_row env link s row = Some s1" "apply_rows env link rows s1 = Some s'"
    by (auto split: option.splits)
  note one = apply_row_dead [OF s1(1) Cons.prems(2,3)]
  from Cons.prems(4) one have "dead i s1 \<or> (\<exists>p g. GoneRow i p g \<in> set rows \<and> served link s1 p)" by auto
  with Cons.IH [OF s1(2) Cons.prems(2) one(1)] show ?case .
qed auto

text \<open>C21. A delete wins for good: after a page that applies, a task whose delete it carries for a project
  the link serves, or that held a tombstone (and was off the board) before it, is not among the
  tasks and holds its tombstone, whatever task rows the page carries for it, before or after the
  delete; relocating other tasks must not bring it back.\<close>

theorem linked_delete_is_final:
  assumes "apply_rows env link rows s = Some s'" "homes_apart env i" "grave_ok i s"
    and "isTombstone (read_row (page_write s) (tombstoneKey i)) \<or> (\<exists>p g. GoneRow i p g \<in> set rows \<and> served link s p)"
  shows "i \<notin> task_ids (page_tasks s') \<and> isTombstone (read_row (page_write s') (tombstoneKey i))"
proof -
  from assms(3,4) have "dead i s \<or> (\<exists>p g. GoneRow i p g \<in> set rows \<and> served link s p)" by (auto simp: dead_def grave_ok_def)
  from apply_rows_dead [OF assms(1-3) this] show ?thesis by (simp add: dead_def)
qed

subsection \<open>One page\<close>

definition demo_newer :: string where "demo_newer = ''1700000000124.000.00000000''"

definition demo_wire :: "string \<Rightarrow> string \<Rightarrow> (sync_group \<Rightarrow> string) \<Rightarrow> wire_task" where
  "demo_wire words owner stamps =
     \<lparr>wire_id = ''a'', wire_project = ''p'', wire_text = words, wire_details = None, wire_status = AssignedTask, wire_board = None,
      wire_color = None, wire_icon = None, wire_priority = None, wire_placement = ''unplaced'', wire_pos = None,
      wire_workLinks = None, wire_machine = owner, wire_handover = None, wire_createdAt = [], wire_updatedAt = [],
      wire_s = stamps, wire_replica = None\<rparr>"

definition demo_link :: apply_link where
  "demo_link = \<lparr>link_install = ''n'', link_prefix = ''00000000'', link_projects = {''p''}\<rparr>"

definition demo_peer_row :: wire_task where
  "demo_peer_row = demo_wire ''peer words'' ''n'' (\<lambda>g. if g = StatusGroup then demo_stamp else demo_newer)"

definition demo_local :: board_task where "demo_local = demo_linked_task ''a'' ''words'' demo_stamp"

definition demo_merged :: "board_task option" where
  "demo_merged = fst (mergeRow demo_no_parse Some (Some demo_local) demo_peer_row demo_link demo_linked_write [])"

lemma demo_merged_some: "demo_merged = Some (the demo_merged)"
proof -
  have "demo_merged \<noteq> None" by code_simp
  then show ?thesis by simp
qed

lemma demo_merge: "fst (mergeRow demo_no_parse Some (Some demo_local) demo_peer_row demo_link demo_linked_write []) = Some (the demo_merged)"
  using demo_merged_some by (simp add: demo_merged_def)

lemma demo_clean: "isStamp (wire_s demo_peer_row StatusGroup)" "has_room (wire_s demo_peer_row StatusGroup)" "is_prefix (self_prefix demo_linked_write)"
  using demo_stamp_ok
  by (simp_all add: demo_peer_row_def demo_wire_def has_room_def MAX_STAMP_MS_def demo_linked_write_def is_prefix_def is_hex_def is_digit_def)

theorem linked_merge_last_write_wins_witness:
  "task_text (the demo_merged) = ''peer words'' \<and> task_status (the demo_merged) = InboxTask"
proof -
  have eff: "effectiveStamp demo_no_parse demo_local g (self_prefix demo_linked_write) = demo_stamp" for g
    by (simp add: effectiveStamp_def demo_local_def demo_linked_task_facts)
  have "wins demo_no_parse demo_local demo_peer_row demo_link demo_linked_write [] TextGroup"
    unfolding wins_def eff by (simp add: guarded_def demo_peer_row_def demo_wire_def) code_simp
  with linked_merge_last_write_wins [OF demo_clean, where g = TextGroup and local = demo_local and parse = demo_no_parse and admit = Some
      and link = demo_link and tasks = "[]"] demo_merge have "task_text (the demo_merged) = ''peer words''"
    by (simp add: demo_peer_row_def demo_wire_def Let_def)
  moreover have "\<not> wins demo_no_parse demo_local demo_peer_row demo_link demo_linked_write [] StatusGroup"
    unfolding wins_def eff by (simp add: demo_peer_row_def demo_wire_def)
  with linked_merge_last_write_wins [OF demo_clean, where g = StatusGroup and local = demo_local and parse = demo_no_parse and admit = Some
      and link = demo_link and tasks = "[]"] demo_merge have "task_status (the demo_merged) = InboxTask"
    by (simp add: restores_title_def demo_local_def demo_linked_task_def)
  ultimately show ?thesis by simp
qed

theorem linked_merge_ownership_witness: "task_machine (the demo_merged) = Some ''m''"
proof -
  have "owner_of demo_local demo_linked_write \<noteq> link_install demo_link"
    by (simp add: owner_of_def demo_local_def demo_linked_task_facts demo_link_def)
  with linked_merge_ownership [OF demo_merge] show ?thesis by (simp add: demo_local_def demo_linked_task_facts)
qed

text \<open>
  The title recovery is the exception: a row that moves an untitled task to its sender recovers
  the title only when it comes a second time, so that replay is a write.
\<close>

definition demo_untitled :: board_task where
  "demo_untitled = (demo_linked_task ''a'' UNTITLED_TASK_TEXT demo_stamp)\<lparr>task_machine := Some ''n''\<rparr>"

definition demo_move_row :: wire_task where
  "demo_move_row = demo_wire ''title'' ''m'' (\<lambda>g. if g = MachineGroup then demo_newer else demo_stamp)"

lemma replay_restores_title:
  "map_option task_text (fst (mergeRow demo_no_parse Some (Some demo_untitled) demo_move_row demo_link demo_linked_write []))
     = Some UNTITLED_TASK_TEXT"
  "map_option task_text (fst (mergeRow demo_no_parse Some
     (fst (mergeRow demo_no_parse Some (Some demo_untitled) demo_move_row demo_link demo_linked_write []))
     demo_move_row demo_link demo_linked_write [])) = Some ''title''"
  by code_simp+

theorem linked_merge_replay_witness:
  "\<exists>merged recovered. fst (mergeRow demo_no_parse Some (Some demo_untitled) demo_move_row demo_link demo_linked_write []) = Some merged
    \<and> fst (mergeRow demo_no_parse Some (Some merged) demo_move_row demo_link demo_linked_write []) = Some recovered
    \<and> task_text recovered = ''title'' \<and> fst (mergeRow demo_no_parse Some (Some recovered) demo_move_row demo_link demo_linked_write []) = None"
proof -
  from replay_restores_title obtain merged recovered where
    m: "fst (mergeRow demo_no_parse Some (Some demo_untitled) demo_move_row demo_link demo_linked_write []) = Some merged"
    "fst (mergeRow demo_no_parse Some (Some merged) demo_move_row demo_link demo_linked_write []) = Some recovered" by auto
  have "isStamp (wire_s demo_move_row StatusGroup)" "has_room (wire_s demo_move_row StatusGroup)"
    using demo_clean(1,2) by (simp_all add: demo_peer_row_def demo_move_row_def demo_wire_def)
  from linked_merge_replay [OF m(1) this demo_clean(3) refl refl, of "[]" "[]"] m show ?thesis
    by (simp add: demo_move_row_def demo_wire_def)
qed

definition demo_env :: apply_env where
  "demo_env = \<lparr>env_parse = demo_no_parse, env_admit = Some, env_relocate = (\<lambda>tasks t. Some tasks), env_crowded = (\<lambda>tasks p. False),
     env_proactive = (\<lambda>t. False), env_fingerprint = task_text\<rparr>"

definition demo_page :: "wire_row list" where
  "demo_page = [TaskRow demo_peer_row, GoneRow ''a'' ''p'' demo_newer, TaskRow demo_peer_row]"

definition demo_page_start :: apply_state where
  "demo_page_start = \<lparr>page_tasks = [demo_local], page_write = demo_linked_write, page_count = 0\<rparr>"

definition demo_page_end :: "apply_state option" where
  "demo_page_end = apply_rows demo_env demo_link demo_page demo_page_start"

theorem linked_delete_is_final_witness:
  "demo_page_end \<noteq> None \<and> ''a'' \<notin> task_ids (page_tasks (the demo_page_end))"
proof -
  have "demo_page_end \<noteq> None" by code_simp
  then have run: "apply_rows demo_env demo_link demo_page demo_page_start = Some (the demo_page_end)"
    by (simp add: demo_page_end_def)
  have "homes_apart demo_env ''a''" by (simp add: homes_apart_def demo_env_def)
  moreover have "grave_ok ''a'' demo_page_start"
    by (simp add: grave_ok_def demo_page_start_def demo_linked_write_def read_row_def isTombstone_def)
  moreover have "served demo_link demo_page_start ''p''"
    by (simp add: served_def demo_link_def demo_page_start_def demo_linked_write_def)
  then have "\<exists>p g. GoneRow ''a'' p g \<in> set demo_page \<and> served demo_link demo_page_start p" by (auto simp: demo_page_def)
  ultimately have "''a'' \<notin> task_ids (page_tasks (the demo_page_end))"
    using linked_delete_is_final [OF run] by blast
  with \<open>demo_page_end \<noteq> None\<close> show ?thesis by simp
qed

end
