(* ===== verification/Turn_State.thy ===== *)
theory Turn_State
  imports Js_Text
begin

text \<open>
  Whose turn a transcript is in, \<open>src/lib/accounts/migration/turnState.ts\<close>, with the Copilot
  projection of \<open>src/lib/scanner/copilotNative.ts\<close> and the OpenClaw records of
  \<open>src/lib/scanner/openclawNative.ts\<close>. A transcript is the list of its JSON records, oldest
  first; a record is the list of its fields.
\<close>

section \<open>Readings\<close>

datatype turn_phase = BusyTurn | TerminalTurn | IdleTurn | UnknownTurn

datatype turn_source = LifecycleSource | ToolSource | AssistantSource | EmptySource

record turn_reading =
  turn_phase :: turn_phase
  turn_source :: turn_source
  turn_terminalAt :: "string option"

datatype transcript_engine = CodexEngine | ClaudeEngine | OpenclawEngine | CopilotEngine

abbreviation busy_by :: "turn_source \<Rightarrow> turn_reading" where
  "busy_by source \<equiv> \<lparr>turn_phase = BusyTurn, turn_source = source, turn_terminalAt = None\<rparr>"

abbreviation terminal_at :: "string option \<Rightarrow> turn_reading" where
  "terminal_at t \<equiv> \<lparr>turn_phase = TerminalTurn, turn_source = LifecycleSource, turn_terminalAt = t\<rparr>"

abbreviation unknown_turn :: turn_reading where
  "unknown_turn \<equiv> \<lparr>turn_phase = UnknownTurn, turn_source = EmptySource, turn_terminalAt = None\<rparr>"

definition record_timestamp :: "fields \<Rightarrow> string option" where
  "record_timestamp r = stringValue (js_get r ''timestamp'')"

definition record_type_is :: "fields \<Rightarrow> string \<Rightarrow> bool" where
  "record_type_is r t \<longleftrightarrow> js_get r ''type'' = Some (JStr t)"

section \<open>Claude records\<close>

definition TERMINAL_API_ERRORS :: "string list" where
  "TERMINAL_API_ERRORS = [''authentication_failed'', ''rate_limit'']"

definition is_api_error :: "fields \<Rightarrow> bool" where
  "is_api_error r \<longleftrightarrow> js_get r ''isApiErrorMessage'' = Some (JBool True)"

definition terminalApiError :: "fields \<Rightarrow> bool" where
  "terminalApiError r \<longleftrightarrow> is_api_error r
     \<and> (case js_get r ''error'' of Some (JStr code) \<Rightarrow> code \<in> set TERMINAL_API_ERRORS | _ \<Rightarrow> False)"

definition SYNTHETIC_MODEL :: string where "SYNTHETIC_MODEL = ''<synthetic>''"

definition message_of :: "fields \<Rightarrow> fields" where
  "message_of r = record_or_empty (js_get r ''message'')"

definition assistantRequestsTool :: "fields \<Rightarrow> bool" where
  "assistantRequestsTool r \<longleftrightarrow>
     (\<exists>part \<in> set (recordsValue (js_get (message_of r) ''content'')). stringValue (js_get part ''type'') = Some ''tool_use'')"

definition assistantStopReasonEndsTurn :: "fields \<Rightarrow> bool" where
  "assistantStopReasonEndsTurn r \<longleftrightarrow> \<not> assistantRequestsTool r
     \<and> stringValue (js_get (message_of r) ''stop_reason'') \<in> {Some ''end_turn'', Some ''stop_sequence''}"

definition providerAuthoredAssistant :: "fields \<Rightarrow> bool" where
  "providerAuthoredAssistant r \<longleftrightarrow> \<not> is_api_error r
     \<and> stringValue (js_get (message_of r) ''model'') \<noteq> Some SYNTHETIC_MODEL"

definition assistantEndsTurn :: "fields \<Rightarrow> bool" where
  "assistantEndsTurn r \<longleftrightarrow> terminalApiError r \<or> providerAuthoredAssistant r \<and> assistantStopReasonEndsTurn r"

definition messageText :: "fields \<Rightarrow> string" where
  "messageText r =
     (case js_get (message_of r) ''content'' of
        Some (JStr s) \<Rightarrow> s
      | content \<Rightarrow> js_join [CHR 10] (map (\<lambda>part. case stringValue (js_get part ''text'') of Some t \<Rightarrow> t | None \<Rightarrow> []) (recordsValue content)))"

text \<open>
  The two patterns are anchored on both sides; on trimmed text they are equality with one of the
  two spellings, without regard to case in the first.
\<close>

definition synthetic_no_op_text :: "string \<Rightarrow> bool" where
  "synthetic_no_op_text t \<longleftrightarrow>
     map ascii_lower t \<in> {''no response requested'', ''no response requested.''}"

definition syntheticNoOpAssistant :: "fields \<Rightarrow> bool" where
  "syntheticNoOpAssistant r \<longleftrightarrow> \<not> is_api_error r
     \<and> stringValue (js_get (message_of r) ''model'') = Some SYNTHETIC_MODEL
     \<and> synthetic_no_op_text (js_trim (messageText r))"

definition interrupt_sentinel :: "string \<Rightarrow> bool" where
  "interrupt_sentinel t \<longleftrightarrow>
     js_trim t \<in> {''[Request interrupted by user]'', ''[Request interrupted by user for tool use]''}"

definition interruptionMarker :: "fields \<Rightarrow> bool" where
  "interruptionMarker r \<longleftrightarrow>
     js_get r ''interruptedByShutdown'' = Some (JBool True) \<or> js_has r ''interruptedMessageId''
     \<or> interrupt_sentinel (messageText r)"

text \<open>The scan back from the newest record; \<open>Some t\<close> is the release with its boundary's time.\<close>

fun recovery_scan :: "bool \<Rightarrow> fields list \<Rightarrow> string option option" where
  "recovery_scan marked [] = None"
| "recovery_scan marked (r # older) =
     (if record_type_is r ''result'' then (if marked then Some (record_timestamp r) else None)
      else if record_type_is r ''assistant'' then
        (if terminalApiError r then (if marked then Some (record_timestamp r) else None)
         else if \<not> syntheticNoOpAssistant r then None
         else recovery_scan True older)
      else if \<not> record_type_is r ''user'' then recovery_scan marked older
      else if \<not> marked \<and> \<not> interruptionMarker r then None
      else recovery_scan True older)"

definition claudeRecoveryTailRelease :: "fields list \<Rightarrow> string option option" where
  "claudeRecoveryTailRelease records = recovery_scan False (rev records)"

section \<open>The Claude projections\<close>

definition claude_step :: "turn_reading \<Rightarrow> fields \<Rightarrow> turn_reading" where
  "claude_step state r =
     (if record_type_is r ''result'' then terminal_at (record_timestamp r)
      else if record_type_is r ''user'' then busy_by LifecycleSource
      else if record_type_is r ''assistant'' then
        (if assistantEndsTurn r then terminal_at (record_timestamp r) else busy_by AssistantSource)
      else state)"

definition claude_session :: "fields list \<Rightarrow> turn_reading" where
  "claude_session records =
     (let state = foldl claude_step unknown_turn records in
      if turn_phase state \<noteq> BusyTurn then state
      else (case claudeRecoveryTailRelease records of Some t \<Rightarrow> terminal_at t | None \<Rightarrow> state))"

fun activity_scan :: "fields list \<Rightarrow> fields list \<Rightarrow> turn_reading" where
  "activity_scan records [] = unknown_turn"
| "activity_scan records (r # older) =
     (if record_type_is r ''assistant'' then
        (if assistantEndsTurn r then terminal_at (record_timestamp r)
         else (case (if providerAuthoredAssistant r then None else claudeRecoveryTailRelease records) of
            Some t \<Rightarrow> terminal_at t
          | None \<Rightarrow> busy_by AssistantSource))
      else if record_type_is r ''user'' then busy_by LifecycleSource
      else activity_scan records older)"

definition claude_activity :: "fields list \<Rightarrow> turn_reading" where
  "claude_activity records = activity_scan records (rev records)"

section \<open>The Codex ledger\<close>

record codex_ledger =
  turn_open :: bool
  ledger_terminalAt :: "string option"
  terminal_seen :: bool
  open_tools :: "string list"
  anonymous_tools :: int

definition codex_start :: codex_ledger where
  "codex_start = \<lparr>turn_open = False, ledger_terminalAt = None, terminal_seen = False, open_tools = [], anonymous_tools = 0\<rparr>"

definition codex_payload :: "fields \<Rightarrow> fields" where
  "codex_payload r = record_or_empty (js_get r ''payload'')"

definition codex_type :: "fields \<Rightarrow> string option" where
  "codex_type r = stringValue (js_get (codex_payload r) ''type'')"

definition call_id_of :: "fields \<Rightarrow> string option" where
  "call_id_of r =
     (let payload = codex_payload r in
      or_else (stringValue (js_get payload ''call_id''))
        (or_else (stringValue (js_get payload ''callId'')) (stringValue (js_get payload ''id''))))"

definition starts_turn :: "string \<Rightarrow> bool" where
  "starts_turn t \<longleftrightarrow> t \<in> {''task_started'', ''turn_started'', ''user_message''}"

definition completes_turn :: "string \<Rightarrow> bool" where
  "completes_turn t \<longleftrightarrow> t \<in> {''task_complete'', ''turn_complete'', ''turn_completed''}"

definition codex_prose :: "string \<Rightarrow> bool" where
  "codex_prose t \<longleftrightarrow> t \<in> {''agent_message'', ''token_count'', ''reasoning''}"

definition is_output_type :: "string \<Rightarrow> bool" where
  "is_output_type t \<longleftrightarrow> js_includes ''output'' t \<or> js_ends_with ''_result'' t"

definition is_tool_type :: "string \<Rightarrow> bool" where
  "is_tool_type t \<longleftrightarrow> js_includes ''tool'' t \<or> js_includes ''function'' t \<or> js_includes ''command'' t"

definition reopened :: "codex_ledger \<Rightarrow> codex_ledger" where
  "reopened s = s\<lparr>turn_open := True, ledger_terminalAt := None, terminal_seen := False\<rparr>"

definition no_tools :: "codex_ledger \<Rightarrow> bool" where
  "no_tools s \<longleftrightarrow> open_tools s = [] \<and> anonymous_tools s = 0"

definition tool_event :: "codex_ledger \<Rightarrow> string \<Rightarrow> string option \<Rightarrow> codex_ledger" where
  "tool_event s t cid =
     (if is_output_type t then
        (let named = truthy_text cid;
             matched = (if named then the cid \<in> set (open_tools s) else anonymous_tools s > 0);
             s' = (if named then s\<lparr>open_tools := removeAll (the cid) (open_tools s)\<rparr> else s)
         in if \<not> matched \<and> terminal_seen s then s'
            else reopened (if matched \<and> \<not> named then s'\<lparr>anonymous_tools := anonymous_tools s' - 1\<rparr> else s'))
      else if truthy_text cid then reopened (s\<lparr>open_tools := List.insert (the cid) (open_tools s)\<rparr>)
      else reopened (s\<lparr>anonymous_tools := anonymous_tools s + 1\<rparr>))"

definition codex_step :: "codex_ledger \<Rightarrow> fields \<Rightarrow> codex_ledger" where
  "codex_step s r =
     (case codex_type r of
        None \<Rightarrow> s
      | Some t \<Rightarrow>
          if t = [] then s
          else if starts_turn t then codex_start\<lparr>turn_open := True\<rparr>
          else if t = ''turn_aborted'' then codex_start\<lparr>ledger_terminalAt := record_timestamp r, terminal_seen := True\<rparr>
          else if completes_turn t then
            (if no_tools s then s\<lparr>turn_open := False, ledger_terminalAt := record_timestamp r, terminal_seen := True\<rparr>
             else reopened s)
          else if codex_prose t then s
          else if \<not> is_tool_type t then s
          else tool_event s t (call_id_of r))"

definition codex_reading :: "codex_ledger \<Rightarrow> turn_reading" where
  "codex_reading s =
     (if terminal_seen s \<and> \<not> turn_open s \<and> no_tools s then terminal_at (ledger_terminalAt s)
      else if turn_open s \<or> open_tools s \<noteq> [] \<or> anonymous_tools s > 0
      then busy_by (if open_tools s \<noteq> [] \<or> anonymous_tools s > 0 then ToolSource else LifecycleSource)
      else unknown_turn)"

definition codex_turn :: "fields list \<Rightarrow> turn_reading" where
  "codex_turn records = codex_reading (foldl codex_step codex_start records)"

section \<open>The Copilot and OpenClaw readings\<close>

definition copilotData :: "fields \<Rightarrow> fields" where
  "copilotData r = record_or_empty (js_get r ''data'')"

definition copilot_step :: "turn_reading \<times> bool \<Rightarrow> fields \<Rightarrow> turn_reading \<times> bool" where
  "copilot_step s r =
     (let (state, toolsPending) = s; t = stringValue (js_get r ''type''); stamped = stringValue (js_get r ''timestamp'') in
      if t = Some ''user.message'' \<or> t = Some ''assistant.turn_start''
      then (busy_by LifecycleSource, if t = Some ''user.message'' then False else toolsPending)
      else if t = Some ''assistant.message''
      then (busy_by AssistantSource,
        case js_get (copilotData r) ''toolRequests'' of Some (JArr requests) \<Rightarrow> requests \<noteq> [] | _ \<Rightarrow> False)
      else if t = Some ''tool.execution_start'' \<or> t = Some ''tool.execution_complete'' then (busy_by ToolSource, toolsPending)
      else if t = Some ''assistant.turn_end''
      then (if toolsPending then busy_by LifecycleSource else terminal_at stamped, toolsPending)
      else if t = Some ''abort'' \<or> t = Some ''session.shutdown''
      then (if turn_phase state \<noteq> UnknownTurn \<or> t = Some ''abort'' then terminal_at stamped else state, False)
      else (state, toolsPending))"

definition copilotTurnState :: "fields list \<Rightarrow> turn_reading" where
  "copilotTurnState records = fst (foldl copilot_step (unknown_turn, False) records)"

definition OPENCLAW_SYNTHETIC_PROVIDER :: string where "OPENCLAW_SYNTHETIC_PROVIDER = ''openclaw''"

definition openclawMessage :: "fields \<Rightarrow> fields option" where
  "openclawMessage r = (if record_type_is r ''message'' then recordValue (js_get r ''message'') else None)"

definition openclawProviderAssistant :: "fields \<Rightarrow> fields option" where
  "openclawProviderAssistant r =
     (case openclawMessage r of
        None \<Rightarrow> None
      | Some message \<Rightarrow>
          if js_get message ''role'' \<noteq> Some (JStr ''assistant'') then None
          else if stringValue (js_get message ''provider'') = Some OPENCLAW_SYNTHETIC_PROVIDER then None
          else Some message)"

fun openclaw_scan :: "fields list \<Rightarrow> turn_reading" where
  "openclaw_scan [] = unknown_turn"
| "openclaw_scan (r # older) =
     (case openclawMessage r of
        None \<Rightarrow> openclaw_scan older
      | Some message \<Rightarrow>
          if js_get message ''role'' = Some (JStr ''assistant'') then
            (if openclawProviderAssistant r = None then openclaw_scan older
             else if stringValue (js_get message ''stopReason'') \<in> {Some ''stop'', Some ''error'', Some ''aborted''}
             then terminal_at (record_timestamp r)
             else busy_by AssistantSource)
          else if js_get message ''role'' = Some (JStr ''user'') then busy_by LifecycleSource
          else openclaw_scan older)"

definition openclawTurnState :: "fields list \<Rightarrow> turn_reading" where
  "openclawTurnState records = openclaw_scan (rev records)"

fun turnStateFromRecords :: "fields list \<Rightarrow> transcript_engine \<Rightarrow> bool \<Rightarrow> turn_reading" where
  "turnStateFromRecords records OpenclawEngine authoritative = openclawTurnState records"
| "turnStateFromRecords records CopilotEngine authoritative = copilotTurnState records"
| "turnStateFromRecords records CodexEngine authoritative = codex_turn records"
| "turnStateFromRecords records ClaudeEngine authoritative =
     (if authoritative then claude_session records else claude_activity records)"

end
