(* ===== verification/Turn_Properties.thy ===== *)
theory Turn_Properties
  imports Turn_State
begin

text \<open>
  What the turn readings promise: a Codex transcript is over exactly when its last word is an
  abort, or a completion that no outstanding call contradicts; a Claude transcript is over only
  on evidence the provider gave, with nothing but recovery bookkeeping after it.
\<close>

section \<open>Folds that forget\<close>

text \<open>
  A reading folded over records, some of which reset it: what came before the last of those does
  not count, so a window that holds it reads as the whole transcript.
\<close>

locale forgetful_fold =
  fixes step :: "'s \<Rightarrow> 'r \<Rightarrow> 's"
    and resets :: "'r \<Rightarrow> bool"
  assumes reset_step: "resets r \<Longrightarrow> step s r = step s' r"
begin

lemma fold_after_reset: "resets r \<Longrightarrow> foldl step s (before @ r # after) = foldl step s' (r # after)"
  using reset_step [of r "foldl step s before" s'] by simp

lemma fold_window:
  assumes "r \<in> set recent" and "resets r"
  shows "foldl step s (before @ recent) = foldl step s' recent"
proof -
  from split_list [OF assms(1)] obtain u v where recent: "recent = u @ r # v" by blast
  have "foldl step s ((before @ u) @ r # v) = foldl step s' (u @ r # v)"
    using fold_after_reset [OF assms(2), of s "before @ u" v s'] fold_after_reset [OF assms(2), of s' u v s'] by simp
  with recent show ?thesis by simp
qed

end

text \<open>\<open>since P Q xs\<close>: an element \<open>b\<close> with \<open>P before b\<close>, and \<open>Q\<close> of every element after it.\<close>

definition since :: "('a list \<Rightarrow> 'a \<Rightarrow> bool) \<Rightarrow> ('a \<Rightarrow> bool) \<Rightarrow> 'a list \<Rightarrow> bool" where
  "since P Q xs \<longleftrightarrow> (\<exists>before b after. xs = before @ b # after \<and> P before b \<and> (\<forall>x \<in> set after. Q x))"

lemma since_Nil [simp]: "\<not> since P Q []"
  by (simp add: since_def)

lemma since_snoc [simp]: "since P Q (xs @ [x]) \<longleftrightarrow> P xs x \<or> Q x \<and> since P Q xs" (is "?lhs \<longleftrightarrow> ?rhs")
proof
  assume ?lhs
  then obtain before b after where split: "xs @ [x] = before @ b # after" "P before b" "\<forall>x \<in> set after. Q x"
    unfolding since_def by blast
  show ?rhs
  proof (cases after rule: rev_cases)
    case (snoc rest y)
    with split show ?thesis unfolding since_def by auto
  qed (use split in simp)
next
  assume ?rhs
  then show ?lhs
  proof
    assume "P xs x"
    then show ?lhs unfolding since_def by (intro exI [of _ xs] exI [of _ x] exI [of _ "[]"]) simp
  next
    assume "Q x \<and> since P Q xs"
    then obtain before b after where "xs = before @ b # after" "P before b" "\<forall>x \<in> set after. Q x" "Q x"
      unfolding since_def by blast
    then show ?lhs unfolding since_def
      by (intro exI [of _ before] exI [of _ b] exI [of _ "after @ [x]"]) auto
  qed
qed

section \<open>Codex events\<close>

datatype codex_event =
    StartEvent | AbortEvent | CompleteEvent | CallEvent "string option" | OutputEvent "string option" | InertEvent

definition codex_event_of :: "fields \<Rightarrow> codex_event" where
  "codex_event_of r =
     (case codex_type r of
        None \<Rightarrow> InertEvent
      | Some t \<Rightarrow>
          if t = [] then InertEvent
          else if starts_turn t then StartEvent
          else if t = ''turn_aborted'' then AbortEvent
          else if completes_turn t then CompleteEvent
          else if codex_prose t \<or> \<not> is_tool_type t then InertEvent
          else (let cid = (if truthy_text (call_id_of r) then call_id_of r else None) in
                if is_output_type t then OutputEvent cid else CallEvent cid))"

lemma codex_step_event:
  "codex_step s r =
     (case codex_event_of r of
        StartEvent \<Rightarrow> codex_start\<lparr>turn_open := True\<rparr>
      | AbortEvent \<Rightarrow> codex_start\<lparr>ledger_terminalAt := record_timestamp r, terminal_seen := True\<rparr>
      | CompleteEvent \<Rightarrow>
          (if no_tools s then s\<lparr>turn_open := False, ledger_terminalAt := record_timestamp r, terminal_seen := True\<rparr>
           else reopened s)
      | InertEvent \<Rightarrow> s
      | CallEvent (Some i) \<Rightarrow> reopened (s\<lparr>open_tools := List.insert i (open_tools s)\<rparr>)
      | CallEvent None \<Rightarrow> reopened (s\<lparr>anonymous_tools := anonymous_tools s + 1\<rparr>)
      | OutputEvent (Some i) \<Rightarrow>
          (if i \<notin> set (open_tools s) \<and> terminal_seen s then s
           else reopened (s\<lparr>open_tools := removeAll i (open_tools s)\<rparr>))
      | OutputEvent None \<Rightarrow>
          (if anonymous_tools s > 0 then reopened (s\<lparr>anonymous_tools := anonymous_tools s - 1\<rparr>)
           else if terminal_seen s then s else reopened s))"
  by (cases "call_id_of r"; cases "codex_type r")
    (simp_all add: codex_step_def codex_event_of_def tool_event_def truthy_text_def Let_def)

lemmas codex_event_simps = codex_step_event reopened_def codex_start_def no_tools_def

definition codex_boundary :: "fields \<Rightarrow> bool" where
  "codex_boundary r \<longleftrightarrow> codex_event_of r \<in> {StartEvent, AbortEvent}"

interpretation cw: forgetful_fold codex_step codex_boundary
  by unfold_locales (auto simp: codex_boundary_def codex_step_event)

interpretation sw: forgetful_fold claude_step "\<lambda>r. record_type_is r ''result'' \<or> record_type_is r ''user'' \<or> record_type_is r ''assistant''"
  by unfold_locales (auto simp: claude_step_def)

section \<open>Outstanding calls\<close>

text \<open>A call nothing after it answers, in a turn nothing after it ends or restarts.\<close>

definition outstanding_call :: "fields list \<Rightarrow> string \<Rightarrow> bool" where
  "outstanding_call records i \<longleftrightarrow>
     since (\<lambda>before r. codex_event_of r = CallEvent (Some i))
       (\<lambda>x. codex_event_of x \<noteq> OutputEvent (Some i) \<and> \<not> codex_boundary x) records"

text \<open>
  A call that names nothing is answered by an output that names nothing: some are outstanding when,
  from some record on and with no start or abort of a turn since, there were more such calls than
  such outputs.
\<close>

definition unnamed_weight :: "fields \<Rightarrow> int" where
  "unnamed_weight r = (case codex_event_of r of CallEvent None \<Rightarrow> 1 | OutputEvent None \<Rightarrow> -1 | _ \<Rightarrow> 0)"

definition unnamed_beyond :: "int \<Rightarrow> fields list \<Rightarrow> bool" where
  "unnamed_beyond k records \<longleftrightarrow> (\<exists>before after. records = before @ after \<and> (\<forall>x \<in> set after. \<not> codex_boundary x)
     \<and> k < sum_list (map unnamed_weight after))"

definition outstanding_work :: "fields list \<Rightarrow> bool" where
  "outstanding_work records \<longleftrightarrow> (\<exists>i. outstanding_call records i) \<or> unnamed_beyond 0 records"

lemma unnamed_beyond_neg: "k < 0 \<Longrightarrow> unnamed_beyond k records"
  unfolding unnamed_beyond_def by (intro exI [of _ records] exI [of _ "[]"]) simp

lemma unnamed_beyond_Nil: "unnamed_beyond k [] \<longleftrightarrow> k < 0"
  by (simp add: unnamed_beyond_def)

lemma unnamed_beyond_snoc:
  assumes "0 \<le> k"
  shows "unnamed_beyond k (records @ [r]) \<longleftrightarrow> \<not> codex_boundary r \<and> unnamed_beyond (k - unnamed_weight r) records"
proof
  assume "unnamed_beyond k (records @ [r])"
  then obtain before rest where split: "records @ [r] = before @ rest" "\<forall>x \<in> set rest. \<not> codex_boundary x"
    "k < sum_list (map unnamed_weight rest)" unfolding unnamed_beyond_def by blast
  with assms obtain u x where "rest = u @ [x]" by (cases rest rule: rev_cases) auto
  with split have "records = before @ u" "\<not> codex_boundary r" "\<forall>x \<in> set u. \<not> codex_boundary x"
    "k - unnamed_weight r < sum_list (map unnamed_weight u)" by auto
  then show "\<not> codex_boundary r \<and> unnamed_beyond (k - unnamed_weight r) records"
    unfolding unnamed_beyond_def by blast
next
  assume "\<not> codex_boundary r \<and> unnamed_beyond (k - unnamed_weight r) records"
  then obtain before rest where "\<not> codex_boundary r" "records = before @ rest" "\<forall>x \<in> set rest. \<not> codex_boundary x"
    "k - unnamed_weight r < sum_list (map unnamed_weight rest)" unfolding unnamed_beyond_def by blast
  then show "unnamed_beyond k (records @ [r])"
    unfolding unnamed_beyond_def by (intro exI [of _ before] exI [of _ "rest @ [r]"]) auto
qed

definition codex_quiet :: "fields \<Rightarrow> bool" where
  "codex_quiet r \<longleftrightarrow> (case codex_event_of r of InertEvent \<Rightarrow> True | OutputEvent _ \<Rightarrow> True | _ \<Rightarrow> False)"

lemma outstanding_Nil [simp]: "\<not> outstanding_call [] i"
  by (simp add: outstanding_call_def)

lemma outstanding_snoc:
  "outstanding_call (records @ [r]) i \<longleftrightarrow> codex_event_of r = CallEvent (Some i)
     \<or> codex_event_of r \<noteq> OutputEvent (Some i) \<and> \<not> codex_boundary r \<and> outstanding_call records i"
  by (simp add: outstanding_call_def)

lemma ledger_named: "set (open_tools (foldl codex_step codex_start records)) = {i. outstanding_call records i}"
proof (induction records rule: rev_induct)
  case Nil
  show ?case by (simp add: codex_start_def)
next
  case (snoc r records)
  define s where "s = foldl codex_step codex_start records"
  from snoc have "set (open_tools s) = {i. outstanding_call records i}" by (simp add: s_def)
  then have held: "outstanding_call records i \<longleftrightarrow> i \<in> set (open_tools s)" for i by simp
  show ?case
    unfolding foldl_append foldl.simps s_def [symmetric] outstanding_snoc held
    by (cases "codex_event_of r") (auto simp: codex_event_simps codex_boundary_def split: option.split)
qed

lemma ledger_unnamed:
  fixes records
  defines "s \<equiv> foldl codex_step codex_start records"
  shows "0 \<le> anonymous_tools s \<and> (\<forall>k \<ge> 0. k < anonymous_tools s \<longleftrightarrow> unnamed_beyond k records)"
  unfolding s_def
proof (induction records rule: rev_induct)
  case Nil
  show ?case by (simp add: codex_start_def unnamed_beyond_Nil)
next
  case (snoc r records)
  define s where "s = foldl codex_step codex_start records"
  from snoc have low: "0 \<le> anonymous_tools s" and held: "\<And>k. 0 \<le> k \<Longrightarrow> unnamed_beyond k records \<longleftrightarrow> k < anonymous_tools s"
    by (simp_all add: s_def)
  have shifted: "unnamed_beyond (k - 1) records \<longleftrightarrow> k - 1 < anonymous_tools s" if "0 \<le> k" for k
    using that low held [of "k - 1"] unnamed_beyond_neg [of "k - 1" records] by (cases "k = 0") auto
  have "0 \<le> anonymous_tools (codex_step s r)
    \<and> (\<forall>k \<ge> 0. k < anonymous_tools (codex_step s r) \<longleftrightarrow> unnamed_beyond k (records @ [r]))"
    using low held shifted
    by (cases "codex_event_of r")
      (auto simp: codex_event_simps codex_boundary_def unnamed_beyond_snoc unnamed_weight_def split: option.split)
  then show ?case by (simp add: s_def)
qed

lemma ledger_outstanding: "no_tools (foldl codex_step codex_start records) \<longleftrightarrow> \<not> outstanding_work records"
  using ledger_named [of records] ledger_unnamed [of records] by (auto simp: no_tools_def outstanding_work_def)

section \<open>When a Codex turn is over\<close>

definition closes :: "string option \<Rightarrow> fields list \<Rightarrow> fields \<Rightarrow> bool" where
  "closes t before b \<longleftrightarrow> t = record_timestamp b
     \<and> (codex_event_of b = AbortEvent \<or> codex_event_of b = CompleteEvent \<and> \<not> outstanding_work before)"

definition closed_by :: "fields list \<Rightarrow> string option \<Rightarrow> bool" where
  "closed_by records t \<longleftrightarrow> since (closes t) codex_quiet records"

lemma closed_by_Nil [simp]: "\<not> closed_by [] t"
  by (simp add: closed_by_def)

lemma closed_by_snoc:
  "closed_by (records @ [r]) t \<longleftrightarrow>
     t = record_timestamp r
       \<and> (codex_event_of r = AbortEvent \<or> codex_event_of r = CompleteEvent \<and> \<not> outstanding_work records)
     \<or> codex_quiet r \<and> closed_by records t"
  by (simp add: closed_by_def closes_def)

lemma ledger_closed:
  fixes records defines "s \<equiv> foldl codex_step codex_start records"
  shows "(terminal_seen s \<longrightarrow> \<not> turn_open s \<and> no_tools s)
    \<and> (\<forall>t. closed_by records t \<longleftrightarrow> terminal_seen s \<and> ledger_terminalAt s = t)"
  unfolding s_def
proof (induction records rule: rev_induct)
  case Nil
  show ?case by (simp add: codex_start_def)
next
  case (snoc r records)
  define s where "s = foldl codex_step codex_start records"
  from snoc.IH have over: "terminal_seen s \<Longrightarrow> \<not> turn_open s \<and> no_tools s"
    and end_time: "closed_by records t \<longleftrightarrow> terminal_seen s \<and> ledger_terminalAt s = t" for t
    by (simp_all add: s_def)
  have tools: "\<not> outstanding_work records \<longleftrightarrow> open_tools s = [] \<and> anonymous_tools s = 0" "0 \<le> anonymous_tools s"
    using ledger_outstanding [of records] ledger_unnamed [of records] by (simp_all add: s_def no_tools_def)
  show ?case
    unfolding foldl_append foldl.simps s_def [symmetric] closed_by_snoc end_time tools(1)
    using over tools(2)
    by (cases "codex_event_of r") (auto simp: codex_event_simps codex_quiet_def split: option.split if_splits)
qed

section \<open>When a Claude turn is over\<close>

definition conversation :: "fields \<Rightarrow> bool" where
  "conversation r \<longleftrightarrow> record_type_is r ''user'' \<or> record_type_is r ''assistant''"

definition claude_boundary :: "fields \<Rightarrow> bool" where
  "claude_boundary r \<longleftrightarrow> record_type_is r ''result'' \<or> record_type_is r ''assistant'' \<and> assistantEndsTurn r"

text \<open>Recovery bookkeeping: prompts and the no-op that retires one; what it must end on.\<close>

definition bookkeeping :: "fields \<Rightarrow> bool" where
  "bookkeeping r \<longleftrightarrow> \<not> record_type_is r ''result'' \<and> (record_type_is r ''assistant'' \<longrightarrow> syntheticNoOpAssistant r)"

definition release_marker :: "fields \<Rightarrow> bool" where
  "release_marker r \<longleftrightarrow> record_type_is r ''user'' \<and> interruptionMarker r
     \<or> record_type_is r ''assistant'' \<and> syntheticNoOpAssistant r"

definition newest_word :: "fields list \<Rightarrow> fields option" where
  "newest_word records = at_last (filter conversation records)"

definition release_boundary :: "fields \<Rightarrow> bool" where
  "release_boundary r \<longleftrightarrow> record_type_is r ''result'' \<or> record_type_is r ''assistant'' \<and> terminalApiError r"

definition claude_over :: "fields list \<Rightarrow> string option \<Rightarrow> bool" where
  "claude_over records t \<longleftrightarrow> (\<exists>before b after. records = before @ b # after \<and> t = record_timestamp b
     \<and> (\<forall>x \<in> set after. bookkeeping x)
     \<and> (case newest_word after of
          None \<Rightarrow> claude_boundary b
        | Some r \<Rightarrow> release_boundary b \<and> release_marker r))"

lemma no_op_open [simp]: "syntheticNoOpAssistant r \<Longrightarrow> \<not> assistantEndsTurn r"
  "syntheticNoOpAssistant r \<Longrightarrow> \<not> terminalApiError r"
  by (simp_all add: syntheticNoOpAssistant_def assistantEndsTurn_def terminalApiError_def providerAuthoredAssistant_def)

lemma newest_word_snoc [simp]:
  "newest_word (records @ [r]) = (if conversation r then Some r else newest_word records)"
  by (simp add: newest_word_def)

lemma newest_word_Nil [simp]: "newest_word [] = None"
  by (simp add: newest_word_def)

text \<open>The boundary and what follows it, from the newest record back.\<close>

fun ends_marked :: "bool \<Rightarrow> fields option \<Rightarrow> bool" where
  "ends_marked marked None = marked"
| "ends_marked marked (Some r) = (marked \<or> release_marker r)"

lemma ends_marked_True [simp]: "ends_marked True w"
  by (cases w) simp_all

definition bookkept :: "bool \<Rightarrow> fields list \<Rightarrow> string option \<Rightarrow> bool" where
  "bookkept marked records t \<longleftrightarrow> (\<exists>before b after. records = before @ b # after \<and> release_boundary b \<and> t = record_timestamp b
     \<and> (\<forall>x \<in> set after. bookkeeping x)
     \<and> ends_marked marked (newest_word after))"

lemma bookkept_Nil [simp]: "\<not> bookkept marked [] t"
  by (simp add: bookkept_def)

lemma bookkept_snoc:
  "bookkept marked (records @ [r]) t \<longleftrightarrow>
     release_boundary r \<and> t = record_timestamp r \<and> marked
     \<or> bookkeeping r \<and> (if conversation r then (marked \<or> release_marker r) \<and> bookkept True records t else bookkept marked records t)"
  (is "?lhs \<longleftrightarrow> ?rhs")
proof
  assume ?lhs
  then obtain before b after where split: "records @ [r] = before @ b # after" "release_boundary b" "t = record_timestamp b"
    "\<forall>x \<in> set after. bookkeeping x" "ends_marked marked (newest_word after)"
    unfolding bookkept_def by blast
  show ?rhs
  proof (cases after rule: rev_cases)
    case Nil
    with split show ?thesis by simp
  next
    case (snoc rest x)
    with split(1) have "records = before @ b # rest" "x = r" by simp_all
    then have "bookkept (conversation r \<or> marked) records t" unfolding bookkept_def
      using split snoc by (intro exI [of _ before] exI [of _ b] exI [of _ rest]) (auto split: if_splits)
    with split snoc \<open>x = r\<close> show ?thesis by (auto split: if_splits)
  qed
next
  assume rhs: ?rhs
  show ?lhs
  proof (cases "release_boundary r \<and> t = record_timestamp r \<and> marked")
    case True
    then show ?thesis unfolding bookkept_def
      by (intro exI [of _ records] exI [of _ r] exI [of _ "[]"]) simp
  next
    case False
    define m where "m = (if conversation r then True else marked)"
    from False rhs have "bookkept m records t" by (auto simp: m_def split: if_splits)
    then obtain before b after where split: "records = before @ b # after" "release_boundary b" "t = record_timestamp b"
      "\<forall>x \<in> set after. bookkeeping x" "ends_marked m (newest_word after)"
      unfolding bookkept_def by blast
    have "ends_marked marked (newest_word (after @ [r]))"
      using split(5) False rhs by (auto simp: m_def)
    moreover have "bookkeeping r" using False rhs by (auto split: if_splits)
    ultimately show ?thesis using split unfolding bookkept_def
      by (intro exI [of _ before] exI [of _ b] exI [of _ "after @ [r]"]) auto
  qed
qed

lemma recovery_scan_bookkept: "recovery_scan marked (rev records) = Some t \<longleftrightarrow> bookkept marked records t"
proof (induction records arbitrary: marked rule: rev_induct)
  case Nil
  show ?case by simp
next
  case (snoc r records)
  show ?case unfolding rev_append rev.simps append.simps recovery_scan.simps bookkept_snoc
    by (auto simp: snoc.IH release_boundary_def bookkeeping_def conversation_def release_marker_def record_type_is_def)
qed

definition session_quiet :: "fields \<Rightarrow> bool" where
  "session_quiet r \<longleftrightarrow> \<not> record_type_is r ''result'' \<and> \<not> conversation r"

lemma claude_fold_over:
  "foldl claude_step unknown_turn records = terminal_at t \<longleftrightarrow>
     since (\<lambda>before b. claude_boundary b \<and> t = record_timestamp b) session_quiet records"
proof (induction records rule: rev_induct)
  case Nil
  show ?case by simp
next
  case (snoc r records)
  show ?case unfolding foldl_append foldl.simps since_snoc snoc.IH [symmetric]
    by (auto simp: claude_step_def claude_boundary_def conversation_def session_quiet_def record_type_is_def)
qed

lemma newest_word_None: "newest_word records = None \<longleftrightarrow> (\<forall>x \<in> set records. \<not> conversation x)"
  by (induction records rule: rev_induct) auto

lemma claude_over_cases:
  "claude_over records t \<longleftrightarrow> foldl claude_step unknown_turn records = terminal_at t \<or> bookkept False records t"
proof -
  have quiet: "(\<forall>x \<in> set after. bookkeeping x) \<and> newest_word after = None \<longleftrightarrow> (\<forall>x \<in> set after. session_quiet x)" for after
    by (auto simp: newest_word_None session_quiet_def bookkeeping_def conversation_def)
  have word: "(case w of None \<Rightarrow> c | Some r \<Rightarrow> d \<and> release_marker r) \<longleftrightarrow> w = None \<and> c \<or> ends_marked False w \<and> d" for w c d
    by (cases w) auto
  have "claude_over records t \<longleftrightarrow>
     (\<exists>before b after. records = before @ b # after \<and> claude_boundary b \<and> t = record_timestamp b
        \<and> (\<forall>x \<in> set after. bookkeeping x) \<and> newest_word after = None) \<or> bookkept False records t"
    unfolding claude_over_def bookkept_def word by blast
  then show ?thesis unfolding quiet claude_fold_over since_def by blast
qed

lemma marked_word_busy:
  "\<forall>x \<in> set after. bookkeeping x \<Longrightarrow> ends_marked False (newest_word after) \<Longrightarrow>
     turn_phase (foldl claude_step s after) = BusyTurn"
  by (induction after rule: rev_induct)
    (auto simp: claude_step_def bookkeeping_def conversation_def release_marker_def split: if_splits)

lemma bookkept_busy: "bookkept False records t \<Longrightarrow> turn_phase (foldl claude_step unknown_turn records) = BusyTurn"
  by (auto simp: bookkept_def marked_word_busy)

lemma claude_session_over: "claude_session records = terminal_at t \<longleftrightarrow> claude_over records t"
proof -
  define s where "s = foldl claude_step unknown_turn records"
  have release: "claudeRecoveryTailRelease records = Some u \<longleftrightarrow> bookkept False records u" for u
    by (simp add: claudeRecoveryTailRelease_def recovery_scan_bookkept)
  show ?thesis
  proof (cases "turn_phase s = BusyTurn")
    case True
    then have "s \<noteq> terminal_at t" by auto
    with True show ?thesis
      by (cases "claudeRecoveryTailRelease records")
        (auto simp: claude_session_def claude_over_cases s_def [symmetric] release [symmetric])
  next
    case False
    then show ?thesis using bookkept_busy [of records t]
      by (auto simp: claude_session_def claude_over_cases s_def [symmetric])
  qed
qed

lemma activity_scan_word:
  assumes "\<forall>x \<in> set older. \<not> record_type_is x ''result''"
  shows "activity_scan records (rev older) =
    (case newest_word older of
       None \<Rightarrow> unknown_turn
     | Some r \<Rightarrow>
         if record_type_is r ''user'' then busy_by LifecycleSource
         else if assistantEndsTurn r then terminal_at (record_timestamp r)
         else (case (if providerAuthoredAssistant r then None else claudeRecoveryTailRelease records) of
            Some t \<Rightarrow> terminal_at t | None \<Rightarrow> busy_by AssistantSource))"
  using assms by (induction older rule: rev_induct) (auto simp: conversation_def record_type_is_def)

lemma genuine_word_holds:
  "newest_word records = Some r \<Longrightarrow> record_type_is r ''assistant'' \<Longrightarrow> \<not> terminalApiError r \<Longrightarrow> \<not> syntheticNoOpAssistant r \<Longrightarrow>
     \<forall>x \<in> set records. \<not> record_type_is x ''result'' \<Longrightarrow> recovery_scan False (rev records) = None"
  by (induction records rule: rev_induct) (auto simp: conversation_def split: if_splits)

lemma newest_word_fold:
  "\<forall>x \<in> set records. \<not> record_type_is x ''result'' \<Longrightarrow> foldl claude_step unknown_turn records =
     (case newest_word records of None \<Rightarrow> unknown_turn | Some r \<Rightarrow> claude_step unknown_turn r)"
  by (induction records rule: rev_induct) (auto simp: conversation_def claude_step_def)

lemma newest_word_conversation: "newest_word records = Some r \<Longrightarrow> conversation r \<and> r \<in> set records"
  by (auto simp: newest_word_def dest!: at_last_SomeD)

lemma claude_activity_session:
  assumes "\<forall>x \<in> set records. \<not> record_type_is x ''result''"
  shows "claude_activity records =
    (case newest_word records of
       None \<Rightarrow> unknown_turn
     | Some r \<Rightarrow> if record_type_is r ''user'' then busy_by LifecycleSource else claude_session records)"
proof (cases "newest_word records")
  case None
  with assms show ?thesis by (simp add: claude_activity_def activity_scan_word)
next
  case (Some r)
  show ?thesis
  proof (cases "record_type_is r ''user''")
    case True
    with Some assms show ?thesis by (simp add: claude_activity_def activity_scan_word)
  next
    case False
    with newest_word_conversation [OF Some] have r: "record_type_is r ''assistant''" by (simp add: conversation_def)
    with assms newest_word_conversation [OF Some] have "\<not> record_type_is r ''result''" by blast
    with False r have step: "claude_step unknown_turn r =
      (if assistantEndsTurn r then terminal_at (record_timestamp r) else busy_by AssistantSource)"
      by (simp add: claude_step_def)
    have "claudeRecoveryTailRelease records = None" if "providerAuthoredAssistant r" "\<not> assistantEndsTurn r"
      unfolding claudeRecoveryTailRelease_def using that assms
      by (intro genuine_word_holds [OF Some r])
        (auto simp: assistantEndsTurn_def providerAuthoredAssistant_def syntheticNoOpAssistant_def)
    with False Some assms show ?thesis
      by (auto simp: claude_activity_def activity_scan_word claude_session_def newest_word_fold step Let_def split: option.split)
  qed
qed

section \<open>The properties\<close>

text \<open>C22. A Codex transcript reads terminal, at the time of a record, exactly when that record aborts the
  turn, or completes it with no call outstanding, and only prose and outputs follow. A call is
  outstanding when no output of its id follows it within the turn; calls without an id are, when
  from some record of the turn on there were more of them than outputs without an id. With work
  outstanding the transcript reads busy on a tool, and a transcript that reads terminal has none.\<close>

theorem codex_turn_over:
  "(turnStateFromRecords records CodexEngine authoritative = terminal_at t \<longleftrightarrow> closed_by records t)
   \<and> (turnStateFromRecords records CodexEngine authoritative = busy_by ToolSource \<longleftrightarrow> outstanding_work records)"
proof -
  define s where "s = foldl codex_step codex_start records"
  have "terminal_seen s \<longrightarrow> \<not> turn_open s \<and> no_tools s" "closed_by records t \<longleftrightarrow> terminal_seen s \<and> ledger_terminalAt s = t"
    using ledger_closed [of records] by (simp_all add: s_def)
  moreover have "outstanding_work records \<longleftrightarrow> open_tools s \<noteq> [] \<or> anonymous_tools s > 0"
    using ledger_outstanding [of records] ledger_unnamed [of records] by (auto simp: s_def no_tools_def)
  moreover have "0 \<le> anonymous_tools s" using ledger_unnamed [of records] by (simp add: s_def)
  ultimately show ?thesis
    by (auto simp: codex_turn_def codex_reading_def s_def [symmetric] no_tools_def)
qed

text \<open>A Codex window that holds a start or an abort of a turn reads as the whole transcript.\<close>

theorem codex_window_suffices:
  assumes "r \<in> set recent" "codex_boundary r"
  shows "turnStateFromRecords (older @ recent) CodexEngine authoritative = turnStateFromRecords recent CodexEngine authoritative"
  using cw.fold_window [OF assms, of codex_start older codex_start] by (simp add: codex_turn_def)

text \<open>C23. A Claude session reads terminal, at the time of a record, exactly when everything after that
  record is bookkeeping (no result, and no assistant record but a synthetic no-op) and one of two
  things holds: no user or assistant record follows it, and it is a result or an assistant record
  that ends its turn; or some follow, the newest of them an interrupt marker or a no-op, and it is a
  result or a terminal API error. So a no-op after a turn that ended by its stop reason does not
  read terminal. For records without a result record, the activity reading is unknown with no user
  or assistant record, busy when the newest of those is a user record, and otherwise the session's.\<close>

theorem claude_turn_over:
  "(turnStateFromRecords records ClaudeEngine True = terminal_at t \<longleftrightarrow> claude_over records t)
   \<and> ((\<forall>x \<in> set records. \<not> record_type_is x ''result'') \<longrightarrow>
      turnStateFromRecords records ClaudeEngine False =
        (case newest_word records of
           None \<Rightarrow> unknown_turn
         | Some r \<Rightarrow> if record_type_is r ''user'' then busy_by LifecycleSource
             else turnStateFromRecords records ClaudeEngine True))"
  unfolding turnStateFromRecords.simps by (simp add: claude_session_over claude_activity_session)

section \<open>Transcripts\<close>

definition demo_codex :: "string \<Rightarrow> string \<Rightarrow> fields" where
  "demo_codex t stamp = [(''timestamp'', JStr stamp), (''payload'', JObj [(''type'', JStr t), (''call_id'', JStr ''c1'')])]"

definition demo_rollout :: "fields list" where
  "demo_rollout = [demo_codex ''task_started'' ''t1'', demo_codex ''function_call'' ''t2'', demo_codex ''task_complete'' ''t3'',
     demo_codex ''function_call_output'' ''t4'', demo_codex ''task_complete'' ''t5'', demo_codex ''token_count'' ''t6'']"

theorem codex_turn_over_witness: "closed_by demo_rollout (Some ''t5'')"
proof -
  have "turnStateFromRecords demo_rollout CodexEngine True = terminal_at (Some ''t5'')" by code_simp
  then show ?thesis using codex_turn_over [of demo_rollout True "Some ''t5''"] by blast
qed

text \<open>Calls without an id: two calls, one output, and the turn is not over.\<close>

definition demo_unnamed :: "string \<Rightarrow> fields" where
  "demo_unnamed t = [(''payload'', JObj [(''type'', JStr t)])]"

lemma unnamed_call_waits:
  "outstanding_work [demo_unnamed ''task_started'', demo_unnamed ''function_call'', demo_unnamed ''function_call'',
     demo_unnamed ''function_call_output'', demo_unnamed ''task_complete'']" (is "outstanding_work ?records")
proof -
  have "\<not> no_tools (foldl codex_step codex_start ?records)" by code_simp
  then show ?thesis using ledger_outstanding [of ?records] by blast
qed

theorem codex_window_suffices_witness:
  "turnStateFromRecords ([demo_codex ''tool_call'' ''t0''] @ demo_rollout) CodexEngine False = terminal_at (Some ''t5'')"
proof -
  have "codex_boundary (demo_codex ''task_started'' ''t1'')" by (simp add: codex_boundary_def) code_simp
  moreover have "demo_codex ''task_started'' ''t1'' \<in> set demo_rollout" by (simp add: demo_rollout_def)
  ultimately have "turnStateFromRecords ([demo_codex ''tool_call'' ''t0''] @ demo_rollout) CodexEngine False
    = turnStateFromRecords demo_rollout CodexEngine False" by (rule codex_window_suffices [rotated])
  also have "\<dots> = terminal_at (Some ''t5'')" by code_simp
  finally show ?thesis .
qed

definition demo_claude :: "string \<Rightarrow> string \<Rightarrow> (string \<times> json) list \<Rightarrow> fields" where
  "demo_claude t stamp message = [(''type'', JStr t), (''timestamp'', JStr stamp), (''message'', JObj message)]"

definition demo_session :: "fields list" where
  "demo_session = [demo_claude ''user'' ''t1'' [], demo_claude ''assistant'' ''t2'' [(''stop_reason'', JStr ''end_turn'')]]"

definition demo_interrupt :: fields where
  "demo_interrupt = demo_claude ''user'' ''t3'' [(''content'', JStr ''[Request interrupted by user]'')]"

theorem claude_turn_over_witness: "claude_over demo_session (Some ''t2'')"
proof -
  have "turnStateFromRecords demo_session ClaudeEngine True = terminal_at (Some ''t2'')" by code_simp
  with claude_turn_over [of demo_session "Some ''t2''"] show ?thesis by blast
qed

text \<open>
  A recovery run after a turn the provider itself ended finds no boundary: the session reads busy.
\<close>

lemma recovery_after_stop_stays_busy:
  "turnStateFromRecords (demo_session @ [demo_interrupt]) ClaudeEngine True = busy_by LifecycleSource"
  "turnStateFromRecords (demo_session @ [demo_claude ''user'' ''t3'' [],
      demo_claude ''assistant'' ''t4'' [(''model'', JStr ''<synthetic>''), (''content'', JStr ''No response requested.'')]])
    ClaudeEngine False = busy_by AssistantSource"
  by code_simp+

end
