(* ===== verification/Unit_Text.thy ===== *)
theory Unit_Text
  imports Json
begin

text \<open>
  Text as its UTF-16 code units, for the code whose limits, separators or white space reach past
  the first 256 characters: trimming, splitting into lines, and the one-line summaries of
  \<open>src/lib/tasks/summary.ts\<close>. A value read from outside is a \<open>js_value\<close>; a field that
  is absent is \<open>undefined\<close>, and a number that is not finite is \<open>VNum None\<close>.
\<close>

type_synonym utext = "nat list"

definition units :: "string \<Rightarrow> utext" where
  "units s = map of_char s"

datatype js_value =
    VNull
  | VBool bool
  | VNum "rat option"
  | VText utext
  | VArr "js_value list"
  | VObj "(utext \<times> js_value) list"

section \<open>White space\<close>

text \<open>What \<open>\\s\<close> matches and \<open>trim\<close> removes.\<close>

definition unit_space :: "nat \<Rightarrow> bool" where
  "unit_space c \<longleftrightarrow> c \<in> {9, 10, 11, 12, 13, 32, 160, 5760, 8232, 8233, 8239, 8287, 12288, 65279} \<or> 8192 \<le> c \<and> c \<le> 8202"

definition trim_left :: "utext \<Rightarrow> utext" where
  "trim_left s = dropWhile unit_space s"

definition unit_trim :: "utext \<Rightarrow> utext" where
  "unit_trim s = rev (trim_left (rev (trim_left s)))"

text \<open>A text with no white space at either end.\<close>

definition trimmed :: "utext \<Rightarrow> bool" where
  "trimmed s \<longleftrightarrow> s = [] \<or> \<not> unit_space (hd s) \<and> \<not> unit_space (last s)"

lemma trim_left_hd: "trim_left s \<noteq> [] \<Longrightarrow> \<not> unit_space (hd (trim_left s))"
  unfolding trim_left_def by (rule hd_dropWhile)

lemma trim_left_id: "s = [] \<or> \<not> unit_space (hd s) \<Longrightarrow> trim_left s = s"
  by (cases s) (simp_all add: trim_left_def)

lemma trim_left_last: "trim_left s \<noteq> [] \<Longrightarrow> last (trim_left s) = last s"
  by (metis last_appendR takeWhile_dropWhile_id trim_left_def)

lemma trim_left_length: "length (trim_left s) \<le> length s"
  by (simp add: trim_left_def length_dropWhile_le)

lemma unit_trim_length: "length (unit_trim s) \<le> length s"
  unfolding unit_trim_def using trim_left_length [of "rev (trim_left s)"] trim_left_length [of s] by simp

lemma unit_trim_trimmed [simp]: "trimmed (unit_trim s)"
proof (cases "unit_trim s = []")
  case False
  then have u: "trim_left (rev (trim_left s)) \<noteq> []" by (simp add: unit_trim_def)
  then have ne: "trim_left s \<noteq> []" by (metis rev.simps(1) trim_left_id)
  have "last (unit_trim s) = hd (trim_left (rev (trim_left s)))" by (simp add: unit_trim_def last_rev u)
  with trim_left_hd [OF u] have "\<not> unit_space (last (unit_trim s))" by simp
  moreover have "hd (unit_trim s) = last (trim_left (rev (trim_left s)))" by (simp add: unit_trim_def hd_rev u)
  with trim_left_last [OF u] ne have "hd (unit_trim s) = hd (trim_left s)" by (simp add: last_rev)
  with trim_left_hd [OF ne] have "\<not> unit_space (hd (unit_trim s))" by simp
  ultimately show ?thesis by (simp add: trimmed_def)
qed (simp add: trimmed_def)

lemma trimmed_id: "trimmed s \<Longrightarrow> unit_trim s = s"
  by (cases "s = []") (auto simp: trimmed_def unit_trim_def trim_left_id hd_rev)

lemma unit_trim_idem [simp]: "unit_trim (unit_trim s) = unit_trim s"
  by (rule trimmed_id) simp

lemma unit_trim_Nil [simp]: "unit_trim [] = []"
  by (simp add: unit_trim_def trim_left_def)

section \<open>Lines\<close>

text \<open>\<open>text.split("\\n")\<close>\<close>

fun split_lines :: "utext \<Rightarrow> utext list" where
  "split_lines [] = [[]]"
| "split_lines (c # s) =
     (if c = 10 then [] # split_lines s
      else (case split_lines s of [] \<Rightarrow> [[c]] | l # ls \<Rightarrow> (c # l) # ls))"

lemma split_lines_ne [simp]: "split_lines s \<noteq> []"
  by (cases s) (auto split: list.splits)

lemma split_lines_flat: "10 \<notin> set s \<Longrightarrow> split_lines s = [s]"
  by (induction s) auto

lemma split_lines_step: "10 \<notin> set l \<Longrightarrow> split_lines (l @ 10 # s) = l # split_lines s"
  by (induction l) auto

fun join_lines :: "utext list \<Rightarrow> utext" where
  "join_lines [] = []"
| "join_lines [l] = l"
| "join_lines (l # m # ls) = l @ 10 # join_lines (m # ls)"

lemma join_lines_split [simp]: "join_lines (split_lines s) = s"
proof (induction s)
  case (Cons c s)
  then show ?case by (cases "split_lines s" rule: list.exhaust; cases "tl (split_lines s)") auto
qed simp

lemma split_lines_no_nl: "l \<in> set (split_lines s) \<Longrightarrow> 10 \<notin> set l"
  by (induction s arbitrary: l) (auto split: list.splits if_splits)

definition drop_cr :: "utext \<Rightarrow> utext" where
  "drop_cr l = (if l \<noteq> [] \<and> last l = 13 then butlast l else l)"

section \<open>Task summaries\<close>

text \<open>
  A run of white space becomes one space, except that a run of non-breaking spaces becomes its
  first one.
\<close>

definition unit_nbsp :: "nat \<Rightarrow> bool" where
  "unit_nbsp c \<longleftrightarrow> c \<in> {160, 8199, 8239, 65279}"

lemma length_dropWhile_less [termination_simp]: "length (dropWhile P s) < Suc (length s)"
  by (simp add: less_Suc_eq_le length_dropWhile_le)

fun collapse_runs :: "utext \<Rightarrow> utext" where
  "collapse_runs [] = []"
| "collapse_runs (c # s) =
     (if unit_space c
      then (if list_all unit_nbsp (takeWhile unit_space (c # s)) then c else 32) # collapse_runs (dropWhile unit_space s)
      else c # collapse_runs s)"

definition collapseSpaces :: "utext \<Rightarrow> utext" where
  "collapseSpaces s = unit_trim (collapse_runs s)"

definition TASK_SUMMARY_HEADLINE_LIMIT :: nat where "TASK_SUMMARY_HEADLINE_LIMIT = 120"
definition TASK_SUMMARY_TEXT_LIMIT :: nat where "TASK_SUMMARY_TEXT_LIMIT = 600"
definition TASK_SUMMARY_LEFT_LIMIT :: nat where "TASK_SUMMARY_LEFT_LIMIT = 200"

datatype summary_field = HeadlineField | TextField | LeftField

fun summary_field_name :: "summary_field \<Rightarrow> utext" where
  "summary_field_name HeadlineField = units ''headline''"
| "summary_field_name TextField = units ''text''"
| "summary_field_name LeftField = units ''left''"

fun summary_limit :: "summary_field \<Rightarrow> nat" where
  "summary_limit HeadlineField = TASK_SUMMARY_HEADLINE_LIMIT"
| "summary_limit TextField = TASK_SUMMARY_TEXT_LIMIT"
| "summary_limit LeftField = TASK_SUMMARY_LEFT_LIMIT"

datatype summary_error =
    SummaryNotObject | SummaryNotText summary_field | SummaryNotOneLine summary_field | SummaryBadLength summary_field

record summary_content =
  summary_headline :: utext
  summary_text :: utext
  summary_left :: "utext option"

text \<open>One round of the loop: an error, the text to keep, or nothing to keep.\<close>

definition read_summary_field :: "(utext \<times> js_value) list \<Rightarrow> summary_field \<Rightarrow> summary_error + utext option" where
  "read_summary_field raw f =
     (case js_get raw (summary_field_name f) of
        Some (VText t) \<Rightarrow>
          if f \<noteq> TextField \<and> (13 \<in> set t \<or> 10 \<in> set t) then Inl (SummaryNotOneLine f)
          else (let kept = collapseSpaces t in
            if length kept > summary_limit f \<or> f \<noteq> LeftField \<and> kept = [] then Inl (SummaryBadLength f)
            else Inr (if f \<noteq> LeftField \<or> kept \<noteq> [] then Some kept else None))
      | None \<Rightarrow> if f = LeftField then Inr None else Inl (SummaryNotText f)
      | Some _ \<Rightarrow> Inl (SummaryNotText f))"

definition text_or_empty :: "utext option \<Rightarrow> utext" where
  "text_or_empty t = (case t of Some s \<Rightarrow> s | None \<Rightarrow> [])"

fun normalizeTaskSummary :: "js_value \<Rightarrow> summary_error + summary_content" where
  "normalizeTaskSummary (VObj raw) =
     (case read_summary_field raw HeadlineField of
        Inl e \<Rightarrow> Inl e
      | Inr headline \<Rightarrow>
         (case read_summary_field raw TextField of
            Inl e \<Rightarrow> Inl e
          | Inr body \<Rightarrow>
             (case read_summary_field raw LeftField of
                Inl e \<Rightarrow> Inl e
              | Inr left \<Rightarrow> Inr \<lparr>summary_headline = text_or_empty headline, summary_text = text_or_empty body, summary_left = left\<rparr>)))"
| "normalizeTaskSummary _ = Inl SummaryNotObject"

fun isTaskSummaryContent :: "js_value \<Rightarrow> bool" where
  "isTaskSummaryContent (VObj raw) =
     (case normalizeTaskSummary (VObj raw) of
        Inl _ \<Rightarrow> False
      | Inr kept \<Rightarrow> js_get raw (summary_field_name HeadlineField) = Some (VText (summary_headline kept))
          \<and> js_get raw (summary_field_name TextField) = Some (VText (summary_text kept))
          \<and> js_get raw (summary_field_name LeftField) = map_option VText (summary_left kept))"
| "isTaskSummaryContent _ = False"

subsection \<open>A collapsed text stays as it is\<close>

fun collapsed :: "utext \<Rightarrow> bool" where
  "collapsed [] = True"
| "collapsed (c # s) = ((unit_space c \<longrightarrow> c = 32 \<or> unit_nbsp c) \<and> \<not> (unit_space c \<and> s \<noteq> [] \<and> unit_space (hd s)) \<and> collapsed s)"

lemma collapse_runs_head: "collapse_runs s \<noteq> [] \<Longrightarrow> unit_space (hd (collapse_runs s)) \<Longrightarrow> s \<noteq> [] \<and> unit_space (hd s)"
  by (cases s) (auto split: if_splits)

lemma collapse_runs_collapsed: "collapsed (collapse_runs s)"
proof (induction s rule: collapse_runs.induct)
  case (2 c s)
  have "\<not> (collapse_runs (dropWhile unit_space s) \<noteq> [] \<and> unit_space (hd (collapse_runs (dropWhile unit_space s))))"
    using collapse_runs_head hd_dropWhile by blast
  with 2 show ?case by auto
qed simp

lemma collapse_runs_id: "collapsed s \<Longrightarrow> collapse_runs s = s"
proof (induction s rule: collapse_runs.induct)
  case (2 c s)
  have "dropWhile unit_space s = s" "takeWhile unit_space s = []" if "unit_space c"
    using "2.prems" that by (cases s; simp)+
  with 2 show ?case by auto
qed simp

lemma collapsed_drop: "collapsed s \<Longrightarrow> collapsed (dropWhile P s)"
  by (induction s) auto

lemma collapsed_snoc: "collapsed (s @ [c]) \<longleftrightarrow> collapsed s \<and> (unit_space c \<longrightarrow> c = 32 \<or> unit_nbsp c) \<and> \<not> (s \<noteq> [] \<and> unit_space (last s) \<and> unit_space c)"
  by (induction s) auto

lemma collapsed_rev [simp]: "collapsed (rev s) = collapsed s"
  by (induction s) (auto simp: collapsed_snoc last_rev)

lemma collapseSpaces_collapsed: "collapsed (collapseSpaces s)"
  by (simp add: collapseSpaces_def unit_trim_def trim_left_def collapsed_drop collapse_runs_collapsed)

lemma collapseSpaces_idem [simp]: "collapseSpaces (collapseSpaces s) = collapseSpaces s"
  using collapse_runs_id [OF collapseSpaces_collapsed [of s]] by (simp add: collapseSpaces_def)

end
