(* ===== verification/Verdict.thy ===== *)
theory Verdict
  imports Unit_Text
begin

text \<open>
  How a stage of a pipeline reports its verdict, \<open>src/lib/pipelines/verdict.ts\<close>: ranked
  findings, the validation of a verdict record, the fenced blocks of a completed turn and the
  completion call that is the second input of the same form. \<open>JSON.parse\<close> is a parameter.
\<close>

section \<open>Findings\<close>

datatype verdict_status = PassStatus | FailStatus | NeedsDecisionStatus

datatype finding_severity = SevP0 | SevP1 | SevP2 | SevP3

definition STAGE_FINDING_SEVERITIES :: "(utext \<times> finding_severity) list" where
  "STAGE_FINDING_SEVERITIES =
     [(units ''P0'', SevP0), (units ''P1'', SevP1), (units ''P2'', SevP2), (units ''P3'', SevP3)]"

record stage_finding =
  severity :: "finding_severity option"
  finding_text :: utext

definition MAX_FINDINGS :: nat where "MAX_FINDINGS = 50"
definition MAX_FINDING_CHARS :: nat where "MAX_FINDING_CHARS = 2000"
definition MAX_OUTPUT_CHARS :: nat where "MAX_OUTPUT_CHARS = 32000"
definition MAX_STAGE_REPORT_SUMMARY_CHARS :: nat where "MAX_STAGE_REPORT_SUMMARY_CHARS = 2000"
definition MAX_STAGE_RESULT_CHARS :: nat where "MAX_STAGE_RESULT_CHARS = 160"

fun severity_rank :: "finding_severity option \<Rightarrow> nat" where
  "severity_rank (Some SevP0) = 0"
| "severity_rank (Some SevP1) = 1"
| "severity_rank (Some SevP2) = 2"
| "severity_rank (Some SevP3) = 3"
| "severity_rank None = 4"

fun severity_text :: "finding_severity \<Rightarrow> utext" where
  "severity_text SevP0 = units ''P0''"
| "severity_text SevP1 = units ''P1''"
| "severity_text SevP2 = units ''P2''"
| "severity_text SevP3 = units ''P3''"

definition is_dash :: "nat \<Rightarrow> bool" where
  "is_dash c \<longleftrightarrow> c = 8212 \<or> c = 8211 \<or> c = 45"

text \<open>The separator of a ranked finding: a dash with white space on both sides, or a colon.\<close>

definition after_separator :: "utext \<Rightarrow> utext option" where
  "after_separator s =
     (case trim_left s of
        [] \<Rightarrow> None
      | c # rest \<Rightarrow>
          if is_dash c \<and> trim_left s \<noteq> s \<and> rest \<noteq> [] \<and> unit_space (hd rest) then Some (trim_left rest)
          else if c = 58 then Some (trim_left rest)
          else None)"

definition ranked_match :: "utext \<Rightarrow> (finding_severity \<times> utext) option" where
  "ranked_match s =
     (case map_of STAGE_FINDING_SEVERITIES (take 2 s) of
        None \<Rightarrow> None
      | Some sev \<Rightarrow> map_option (\<lambda>body. (sev, body)) (after_separator (drop 2 s)))"

definition stageFindingFromText :: "utext \<Rightarrow> stage_finding" where
  "stageFindingFromText s =
     (case ranked_match (unit_trim s) of
        Some (sev, body) \<Rightarrow>
          if unit_trim body \<noteq> [] then \<lparr>severity = Some sev, finding_text = unit_trim body\<rparr>
          else \<lparr>severity = None, finding_text = unit_trim s\<rparr>
      | None \<Rightarrow> \<lparr>severity = None, finding_text = unit_trim s\<rparr>)"

definition stageFindingText :: "stage_finding \<Rightarrow> utext" where
  "stageFindingText f =
     (case severity f of Some sev \<Rightarrow> severity_text sev @ [32, 8212, 32] @ finding_text f | None \<Rightarrow> finding_text f)"

definition rankStageFindings :: "stage_finding list \<Rightarrow> stage_finding list" where
  "rankStageFindings findings = js_sort (\<lambda>f g. severity_rank (severity f) \<le> severity_rank (severity g)) findings"

section \<open>Verdicts\<close>

record stage_verdict =
  verdict_status :: verdict_status
  verdict_blocked :: "bool option"
  blockedReason :: "utext option"
  verdict_findings :: "utext list option"
  rankedFindings :: "stage_finding list option"
  verdict_confidence :: "rat option"

definition ALLOWED_KEYS :: "utext list" where
  "ALLOWED_KEYS = map units [''status'', ''findings'', ''rankedFindings'', ''confidence'', ''blocked'', ''blockedReason'']"

fun status_text :: "verdict_status \<Rightarrow> utext" where
  "status_text PassStatus = units ''pass''"
| "status_text FailStatus = units ''fail''"
| "status_text NeedsDecisionStatus = units ''needs_decision''"

definition status_of_text :: "utext \<Rightarrow> verdict_status option" where
  "status_of_text s = find (\<lambda>st. status_text st = s) [PassStatus, FailStatus, NeedsDecisionStatus]"

fun read_status :: "js_value option \<Rightarrow> verdict_status option" where
  "read_status (Some (VText s)) = status_of_text s"
| "read_status _ = None"

text \<open>\<open>blocked\<close> and \<open>blockedReason\<close>; \<open>None\<close> refuses the verdict.\<close>

fun read_blocked :: "js_value option \<Rightarrow> bool option option" where
  "read_blocked None = Some None"
| "read_blocked (Some (VBool b)) = Some (Some b)"
| "read_blocked (Some _) = None"

definition read_reason :: "verdict_status \<Rightarrow> bool option \<Rightarrow> js_value option \<Rightarrow> utext option option" where
  "read_reason status blocked reason =
     (if blocked = Some True then
        (case reason of
           Some (VText t) \<Rightarrow>
             if status \<noteq> FailStatus \<or> unit_trim t = [] \<or> length (unit_trim t) > MAX_STAGE_REPORT_SUMMARY_CHARS then None
             else Some (Some (unit_trim t))
         | _ \<Rightarrow> None)
      else if reason \<noteq> None then None
      else Some None)"

fun read_finding :: "bool \<Rightarrow> js_value \<Rightarrow> stage_finding option" where
  "read_finding legacy (VText t) =
     (let trimmed = unit_trim t in
      if trimmed = [] \<or> length trimmed > MAX_FINDING_CHARS then None
      else if \<not> legacy \<and> trimmed \<in> fst ` set STAGE_FINDING_SEVERITIES then None
      else Some (stageFindingFromText trimmed))"
| "read_finding legacy _ = None"

fun read_findings :: "bool \<Rightarrow> js_value option \<Rightarrow> stage_finding list option option" where
  "read_findings legacy None = Some None"
| "read_findings legacy (Some (VArr vs)) =
     (if length vs > MAX_FINDINGS then None
      else (case those (map (read_finding legacy) vs) of
          None \<Rightarrow> None
        | Some findings \<Rightarrow>
            (let ranked = rankStageFindings findings in
             if list_ex (\<lambda>f. length (stageFindingText f) > MAX_FINDING_CHARS) ranked then None else Some (Some ranked))))"
| "read_findings legacy (Some _) = None"

fun read_confidence :: "js_value option \<Rightarrow> rat option option" where
  "read_confidence None = Some None"
| "read_confidence (Some (VNum (Some c))) = (if c < 0 \<or> c > 1 then None else Some (Some c))"
| "read_confidence (Some _) = None"

definition ranked_of :: "stage_finding list option \<Rightarrow> stage_finding list option" where
  "ranked_of findings =
     (case findings of
        Some ranked \<Rightarrow> if list_ex (\<lambda>f. severity f \<noteq> None) ranked then Some ranked else None
      | None \<Rightarrow> None)"

fun stageVerdictFrom :: "js_value \<Rightarrow> bool \<Rightarrow> stage_verdict option" where
  "stageVerdictFrom (VObj raw) legacy =
     (if list_ex (\<lambda>k. k \<notin> set ALLOWED_KEYS) (js_keys raw) then None
      else (case read_status (js_get raw (units ''status'')) of
        None \<Rightarrow> None
      | Some status \<Rightarrow>
        (case read_blocked (js_get raw (units ''blocked'')) of
          None \<Rightarrow> None
        | Some blocked \<Rightarrow>
          (case read_reason status blocked (js_get raw (units ''blockedReason'')) of
            None \<Rightarrow> None
          | Some reason \<Rightarrow>
            (case read_findings legacy (js_get raw (units ''findings'')) of
              None \<Rightarrow> None
            | Some findings \<Rightarrow>
              (case read_confidence (js_get raw (units ''confidence'')) of
                None \<Rightarrow> None
              | Some confidence \<Rightarrow>
                  Some \<lparr>verdict_status = status, verdict_blocked = blocked, blockedReason = reason,
                    verdict_findings = map_option (map stageFindingText) findings,
                    rankedFindings = ranked_of findings, verdict_confidence = confidence\<rparr>))))))"
| "stageVerdictFrom _ legacy = None"

text \<open>A fenced completion: only the core fields are read, others are left in the transcript.\<close>

definition own_field :: "(utext \<times> js_value) list \<Rightarrow> string \<Rightarrow> (utext \<times> js_value) list" where
  "own_field raw name = (case js_get raw (units name) of None \<Rightarrow> [] | Some v \<Rightarrow> [(units name, v)])"

fun completionVerdictFrom :: "js_value \<Rightarrow> stage_verdict option" where
  "completionVerdictFrom (VObj raw) =
     stageVerdictFrom (VObj (own_field raw ''status'' @ own_field raw ''findings'' @ own_field raw ''confidence''
       @ own_field raw ''blocked'' @ own_field raw ''blockedReason'')) False"
| "completionVerdictFrom _ = None"

section \<open>Fenced blocks\<close>

record fenced_block =
  block_index :: nat
  block_line :: nat
  block_payload :: utext
  payloadStart :: nat
  payloadEnd :: nat

text \<open>
  What \<open>/^ {0,3}(`{3,}|~{3,})(.*)$/\<close> captures of a line: the token and the info string. A dot
  matches no line terminator.
\<close>

definition line_dot :: "utext \<Rightarrow> bool" where
  "line_dot s \<longleftrightarrow> 10 \<notin> set s \<and> 13 \<notin> set s \<and> 8232 \<notin> set s \<and> 8233 \<notin> set s"

definition fence_after :: "utext \<Rightarrow> (nat \<times> nat \<times> utext) option" where
  "fence_after s =
     (case s of
        [] \<Rightarrow> None
      | c # _ \<Rightarrow>
          (let token = takeWhile (\<lambda>d. d = c) s; info = dropWhile (\<lambda>d. d = c) s in
           if (c = 96 \<or> c = 126) \<and> length token \<ge> 3 \<and> line_dot info then Some (c, length token, info) else None))"

definition fence_line :: "utext \<Rightarrow> (nat \<times> nat \<times> utext) option" where
  "fence_line l =
     (if length (takeWhile (\<lambda>c. c = 32) l) \<le> 3 then fence_after (dropWhile (\<lambda>c. c = 32) l) else None)"

record open_fence =
  fence_marker :: nat
  fence_length :: nat
  fence_index :: nat
  fence_row :: nat
  fence_start :: nat

record fence_scan =
  scan_blocks :: "fenced_block list"
  scan_open :: "open_fence option"
  scan_offset :: nat
  scan_line :: nat

definition text_slice :: "utext \<Rightarrow> nat \<Rightarrow> nat \<Rightarrow> utext" where
  "text_slice s i j = take (j - i) (drop i s)"

definition closes_fence :: "open_fence \<Rightarrow> utext \<Rightarrow> bool" where
  "closes_fence f line =
     (case fence_line line of
        Some (c, n, info) \<Rightarrow> c = fence_marker f \<and> n \<ge> fence_length f \<and> unit_trim info = []
      | None \<Rightarrow> False)"

definition opens_fence :: "utext \<Rightarrow> (nat \<times> nat) option" where
  "opens_fence line =
     (case fence_line line of
        Some (c, n, info) \<Rightarrow> if c = 96 \<and> 96 \<in> set info then None else Some (c, n)
      | None \<Rightarrow> None)"

definition fence_step :: "utext \<Rightarrow> fence_scan \<Rightarrow> utext \<Rightarrow> fence_scan" where
  "fence_step body s rawLine =
     (let line = drop_cr rawLine; row = scan_line s + 1; offset = scan_offset s;
          s' = s\<lparr>scan_offset := offset + length rawLine + 1, scan_line := row\<rparr>
      in case scan_open s of
           Some f \<Rightarrow>
             if closes_fence f line
             then (let end = (if offset > fence_start f then offset - 1 else fence_start f) in
                   s'\<lparr>scan_blocks := scan_blocks s @ [\<lparr>block_index = fence_index f, block_line = fence_row f,
                        block_payload = text_slice body (fence_start f) end, payloadStart = fence_start f, payloadEnd = end\<rparr>],
                      scan_open := None\<rparr>)
             else s'
         | None \<Rightarrow>
             (case opens_fence line of
                Some (c, n) \<Rightarrow>
                  s'\<lparr>scan_open := Some \<lparr>fence_marker = c, fence_length = n, fence_index = offset, fence_row = row,
                       fence_start = min (offset + length rawLine + 1) (length body)\<rparr>\<rparr>
              | None \<Rightarrow> s'))"

definition scan_start :: fence_scan where
  "scan_start = \<lparr>scan_blocks = [], scan_open = None, scan_offset = 0, scan_line = 0\<rparr>"

text \<open>A block left open at the end of the text closes there.\<close>

definition scan_result :: "utext \<Rightarrow> fence_scan \<Rightarrow> fenced_block list" where
  "scan_result body s =
     (case scan_open s of
        None \<Rightarrow> scan_blocks s
      | Some f \<Rightarrow> scan_blocks s @ [\<lparr>block_index = fence_index f, block_line = fence_row f,
          block_payload = drop (fence_start f) body, payloadStart = fence_start f, payloadEnd = length body\<rparr>])"

definition fencedBlocks :: "utext \<Rightarrow> fenced_block list" where
  "fencedBlocks body = scan_result body (foldl (fence_step body) scan_start (split_lines body))"

section \<open>The verdict of a completed turn\<close>

datatype verdict_failure =
    MissingFence | MissingFields nat | MalformedJson nat | ConflictingVerdicts
  | PassWithFindings | NoFinalVerdict

definition block_verdict :: "(utext \<Rightarrow> js_value option) \<Rightarrow> fenced_block \<Rightarrow> verdict_failure + (nat \<times> stage_verdict)" where
  "block_verdict parse block =
     (case parse (block_payload block) of
        None \<Rightarrow> Inl (MalformedJson (block_line block))
      | Some raw \<Rightarrow>
          (case completionVerdictFrom raw of
             None \<Rightarrow> Inl (MissingFields (block_line block))
           | Some v \<Rightarrow> Inr (block_index block, v)))"

definition candidate_step ::
  "(utext \<Rightarrow> js_value option) \<Rightarrow> (nat \<times> stage_verdict) list \<times> verdict_failure \<Rightarrow> fenced_block
     \<Rightarrow> (nat \<times> stage_verdict) list \<times> verdict_failure" where
  "candidate_step parse s block =
     (case block_verdict parse block of Inl e \<Rightarrow> (fst s, e) | Inr c \<Rightarrow> (fst s @ [c], snd s))"

definition finalVerdictCandidate ::
  "(utext \<Rightarrow> js_value option) \<Rightarrow> utext \<Rightarrow> verdict_failure + (nat \<times> stage_verdict)" where
  "finalVerdictCandidate parse body =
     (let blocks = fencedBlocks body in
      if blocks = [] then Inl MissingFence
      else
        (case foldl (candidate_step parse) ([], MissingFields (block_line (last blocks))) blocks of
           (candidates, failure) \<Rightarrow>
             if candidates = [] then Inl failure
             else if length (uniq (map (verdict_status \<circ> snd) candidates)) > 1 then Inl ConflictingVerdicts
             else Inr (last candidates)))"

datatype prose_marker = ApproveMarker | RequestChangesMarker | CommentMarker | NoFindingsMarker

fun marker_status :: "prose_marker \<Rightarrow> verdict_status" where
  "marker_status ApproveMarker = PassStatus"
| "marker_status RequestChangesMarker = FailStatus"
| "marker_status CommentMarker = NeedsDecisionStatus"
| "marker_status NoFindingsMarker = PassStatus"

definition unit_lower :: "nat \<Rightarrow> nat" where
  "unit_lower c = (if 65 \<le> c \<and> c \<le> 90 then c + 32 else c)"

definition VERDICT_WORDS :: "(utext \<times> prose_marker) list" where
  "VERDICT_WORDS = [(units ''approve'', ApproveMarker), (units ''request_changes'', RequestChangesMarker), (units ''comment'', CommentMarker)]"

definition prose_marker_of :: "utext \<Rightarrow> prose_marker option" where
  "prose_marker_of line =
     (let t = map unit_lower (unit_trim line) in
      if t = units ''no findings'' then Some NoFindingsMarker
      else if take 8 t = units ''verdict:'' then map_of VERDICT_WORDS (trim_left (drop 8 t))
      else None)"

text \<open>\<open>prose.split(/\\r?\\n/)\<close>\<close>

definition prose_lines :: "utext \<Rightarrow> utext list" where
  "prose_lines prose = (let ls = split_lines prose in map drop_cr (butlast ls) @ [last ls])"

definition marker_step :: "prose_marker list \<times> (nat \<times> nat) option \<Rightarrow> utext \<Rightarrow> prose_marker list \<times> (nat \<times> nat) option" where
  "marker_step s line =
     (case fence_after (trim_left line) of
        Some (c, n, info) \<Rightarrow>
          (fst s,
           case snd s of
             None \<Rightarrow> Some (c, n)
           | Some (c', n') \<Rightarrow> if c' = c \<and> n \<ge> n' \<and> unit_trim info = [] then None else Some (c', n'))
      | None \<Rightarrow>
          if snd s \<noteq> None \<or> (trim_left line \<noteq> [] \<and> hd (trim_left line) = 62) then s
          else (case prose_marker_of line of Some m \<Rightarrow> (fst s @ [m], snd s) | None \<Rightarrow> s))"

definition proseVerdictMarkers :: "utext \<Rightarrow> prose_marker list" where
  "proseVerdictMarkers prose = fst (foldl marker_step ([], None) (prose_lines prose))"

definition verdictRoutesAsFail :: "stage_verdict \<Rightarrow> bool \<Rightarrow> bool" where
  "verdictRoutesAsFail verdict syntheticFindings \<longleftrightarrow>
     verdict_status verdict = FailStatus
     \<or> verdict_status verdict = NeedsDecisionStatus
       \<and> (case verdict_findings verdict of Some fs \<Rightarrow> fs \<noteq> [] | None \<Rightarrow> False) \<and> \<not> syntheticFindings"

datatype rejection = FailedVerdict verdict_failure | MarkerDisagrees prose_marker verdict_status

datatype parsed_verdict = ParsedVerdict stage_verdict utext | RejectedVerdict rejection utext

definition parseStageVerdict :: "(utext \<Rightarrow> js_value option) \<Rightarrow> utext \<Rightarrow> parsed_verdict option" where
  "parseStageVerdict parse body =
     (case finalVerdictCandidate parse body of
        Inl _ \<Rightarrow> None
      | Inr (index, verdict) \<Rightarrow>
          (let prose = unit_trim (take index body); output = take MAX_OUTPUT_CHARS prose in
           if verdict_status verdict = PassStatus \<and> (case verdict_findings verdict of Some fs \<Rightarrow> fs \<noteq> [] | None \<Rightarrow> False)
           then Some (RejectedVerdict (FailedVerdict PassWithFindings) output)
           else (case find (\<lambda>m. marker_status m \<noteq> verdict_status verdict) (proseVerdictMarkers prose) of
                Some m \<Rightarrow> Some (RejectedVerdict (MarkerDisagrees m (verdict_status verdict)) output)
              | None \<Rightarrow> Some (ParsedVerdict verdict output))))"

definition stageVerdictRejectionReason :: "(utext \<Rightarrow> js_value option) \<Rightarrow> utext \<Rightarrow> rejection" where
  "stageVerdictRejectionReason parse body =
     (case finalVerdictCandidate parse body of
        Inl e \<Rightarrow> FailedVerdict e
      | Inr _ \<Rightarrow>
          (case parseStageVerdict parse body of
             Some (RejectedVerdict e _) \<Rightarrow> e
           | _ \<Rightarrow> FailedVerdict NoFinalVerdict))"

definition stageVerdictProse :: "(utext \<Rightarrow> js_value option) \<Rightarrow> utext \<Rightarrow> utext" where
  "stageVerdictProse parse body =
     (case finalVerdictCandidate parse body of Inl _ \<Rightarrow> body | Inr (index, _) \<Rightarrow> take index body)"

section \<open>The completion call\<close>

record completion_input =
  in_verdict :: "js_value option"
  in_findings :: "js_value option"
  in_summary :: "js_value option"
  in_result :: "js_value option"
  in_taskSummary :: "js_value option"
  in_blocked :: "js_value option"
  in_blockedReason :: "js_value option"

record normalized_completion =
  done_verdict :: stage_verdict
  done_summary :: "utext option"
  done_result :: "utext option"
  done_taskSummary :: "summary_content option"

datatype refusal =
    BadVerdictStatus | FindingsNotArray | TooManyFindings | FindingNotObject | FindingBadSeverity | FindingNoText
  | FindingTooLong | ContradictoryFindings | BadVerdict | ResultNotText | ResultTooLong | BadTaskSummary summary_error

datatype refusal_code = StageReportInvalid | StageReportContradictory

fun code_of_refusal :: "refusal \<Rightarrow> refusal_code" where
  "code_of_refusal ContradictoryFindings = StageReportContradictory"
| "code_of_refusal _ = StageReportInvalid"

definition field_text :: "js_value option \<Rightarrow> utext" where
  "field_text v = (case v of Some (VText t) \<Rightarrow> unit_trim t | _ \<Rightarrow> [])"

fun read_ranked_finding :: "js_value \<Rightarrow> refusal + stage_finding" where
  "read_ranked_finding (VObj raw) =
     (case js_get raw (units ''severity'') of
        Some (VText s) \<Rightarrow>
          (case map_of STAGE_FINDING_SEVERITIES s of
             None \<Rightarrow> Inl FindingBadSeverity
           | Some sev \<Rightarrow>
               (let body = field_text (js_get raw (units ''text'')); f = \<lparr>severity = Some sev, finding_text = body\<rparr> in
                if body = [] then Inl FindingNoText
                else if length (stageFindingText f) > MAX_FINDING_CHARS then Inl FindingTooLong
                else Inr f))
      | _ \<Rightarrow> Inl FindingBadSeverity)"
| "read_ranked_finding _ = Inl FindingNotObject"

fun read_ranked_findings :: "js_value list \<Rightarrow> refusal + stage_finding list" where
  "read_ranked_findings [] = Inr []"
| "read_ranked_findings (v # vs) =
     (case read_ranked_finding v of
        Inl e \<Rightarrow> Inl e
      | Inr f \<Rightarrow> (case read_ranked_findings vs of Inl e \<Rightarrow> Inl e | Inr fs \<Rightarrow> Inr (f # fs)))"

fun reported_findings :: "js_value option \<Rightarrow> refusal + stage_finding list" where
  "reported_findings None = Inr []"
| "reported_findings (Some VNull) = Inr []"
| "reported_findings (Some (VArr vs)) =
     (if length vs > MAX_FINDINGS then Inl TooManyFindings else read_ranked_findings vs)"
| "reported_findings (Some _) = Inl FindingsNotArray"

definition reported_value :: "completion_input \<Rightarrow> verdict_status \<Rightarrow> stage_finding list \<Rightarrow> js_value" where
  "reported_value input status findings =
     (let rendered = map stageFindingText (rankStageFindings findings);
          given = (\<lambda>name v. case v of Some x \<Rightarrow> [(units name, x)] | None \<Rightarrow> [])
      in VObj ([(units ''status'', VText (status_text status))]
        @ (if rendered \<noteq> [] then [(units ''findings'', VArr (map VText rendered))] else [])
        @ given ''blocked'' (in_blocked input) @ given ''blockedReason'' (in_blockedReason input)))"

definition none_if_empty :: "utext \<Rightarrow> utext option" where
  "none_if_empty t = (if t = [] then None else Some t)"

definition read_result :: "js_value option \<Rightarrow> refusal + utext" where
  "read_result v =
     (case v of
        None \<Rightarrow> Inr []
      | Some (VText t) \<Rightarrow> if length (collapseSpaces t) > MAX_STAGE_RESULT_CHARS then Inl ResultTooLong else Inr (collapseSpaces t)
      | Some _ \<Rightarrow> Inl ResultNotText)"

definition read_task_summary :: "js_value option \<Rightarrow> refusal + summary_content option" where
  "read_task_summary v =
     (case v of
        None \<Rightarrow> Inr None
      | Some x \<Rightarrow> (case normalizeTaskSummary x of Inl e \<Rightarrow> Inl (BadTaskSummary e) | Inr s \<Rightarrow> Inr (Some s)))"

definition normalizeStageCompletion :: "completion_input \<Rightarrow> refusal + normalized_completion" where
  "normalizeStageCompletion input =
     (case read_status (in_verdict input) of
        None \<Rightarrow> Inl BadVerdictStatus
      | Some status \<Rightarrow>
        (case reported_findings (in_findings input) of
           Inl e \<Rightarrow> Inl e
         | Inr findings \<Rightarrow>
           if status = PassStatus \<and> findings \<noteq> [] then Inl ContradictoryFindings
           else (case stageVerdictFrom (reported_value input status findings) False of
               None \<Rightarrow> Inl BadVerdict
             | Some verdict \<Rightarrow>
               (case read_result (in_result input) of
                  Inl e \<Rightarrow> Inl e
                | Inr result \<Rightarrow>
                  (case read_task_summary (in_taskSummary input) of
                     Inl e \<Rightarrow> Inl e
                   | Inr summary \<Rightarrow>
                       Inr \<lparr>done_verdict = verdict,
                         done_summary = none_if_empty (take MAX_STAGE_REPORT_SUMMARY_CHARS (field_text (in_summary input))),
                         done_result = none_if_empty result, done_taskSummary = summary\<rparr>)))))"

end
