(* ===== verification/Verdict_Fences.thy ===== *)
theory Verdict_Fences
  imports Verdict
begin

text \<open>
  The offset arithmetic of \<open>fencedBlocks\<close> against a reader that works on lines: the same
  blocks, on the same lines, with the lines between the fences as payload.
\<close>

section \<open>Lines and offsets\<close>

text \<open>The lines with the newline that ends each of them; the offset of the line after them.\<close>

definition ended_lines :: "utext list \<Rightarrow> utext" where
  "ended_lines ls = concat (map (\<lambda>l. l @ [10]) ls)"

lemma ended_lines_simps [simp]:
  "ended_lines [] = []"
  "ended_lines (l # ls) = l @ 10 # ended_lines ls"
  "ended_lines (ks @ ls) = ended_lines ks @ ended_lines ls"
  by (simp_all add: ended_lines_def)

lemma ended_lines_empty [simp]: "ended_lines ls = [] \<longleftrightarrow> ls = []"
  by (cases ls) simp_all

lemma join_ended: "ls \<noteq> [] \<Longrightarrow> join_lines (ks @ ls) = ended_lines ks @ join_lines ls"
proof (induction ks)
  case (Cons k ks)
  then show ?case by (cases "ks @ ls") auto
qed simp

lemma ended_join: "ls \<noteq> [] \<Longrightarrow> ended_lines ls = join_lines ls @ [10]"
  by (induction ls rule: join_lines.induct) auto

section \<open>The line reader\<close>

definition closes_line :: "nat \<Rightarrow> nat \<Rightarrow> utext \<Rightarrow> bool" where
  "closes_line c n l =
     (case fence_line (drop_cr l) of
        Some (c', n', info) \<Rightarrow> c' = c \<and> n' \<ge> n \<and> unit_trim info = []
      | None \<Rightarrow> False)"

lemma closes_fence_line: "closes_fence f (drop_cr l) = closes_line (fence_marker f) (fence_length f) l"
  by (simp add: closes_fence_def closes_line_def)

text \<open>The line each block opens on, with its payload.\<close>

function line_blocks :: "nat \<Rightarrow> utext list \<Rightarrow> (nat \<times> utext) list" where
  "line_blocks k [] = []"
| "line_blocks k (l # ls) =
     (case opens_fence (drop_cr l) of
        None \<Rightarrow> line_blocks (k + 1) ls
      | Some (c, n) \<Rightarrow>
          (let payload = takeWhile (\<lambda>l. \<not> closes_line c n l) ls
           in (k, join_lines payload) # line_blocks (k + length payload + 2) (drop (length payload + 1) ls)))"
  by pat_completeness auto
termination by (relation "measure (length \<circ> snd)") auto

definition placed :: "utext \<Rightarrow> utext list \<Rightarrow> fenced_block \<Rightarrow> bool" where
  "placed body ls b \<longleftrightarrow> take (block_index b) body = ended_lines (take (block_line b - 1) ls)
     \<and> text_slice body (payloadStart b) (payloadEnd b) = block_payload b"

section \<open>The scan\<close>

lemma fence_step_closed:
  assumes "scan_open s = None" and "opens_fence (drop_cr l) = None"
  shows "fence_step body s l = s\<lparr>scan_offset := scan_offset s + length l + 1, scan_line := scan_line s + 1\<rparr>"
  using assms by (simp add: fence_step_def Let_def)

lemma fence_step_inside:
  assumes "scan_open s = Some f" and "\<not> closes_line (fence_marker f) (fence_length f) l"
  shows "fence_step body s l = s\<lparr>scan_offset := scan_offset s + length l + 1, scan_line := scan_line s + 1\<rparr>"
  using assms by (simp add: fence_step_def Let_def closes_fence_line)

lemma fold_inside:
  assumes "scan_open s = Some f" and "\<forall>l \<in> set ls. \<not> closes_line (fence_marker f) (fence_length f) l"
  shows "foldl (fence_step body) s ls =
    s\<lparr>scan_offset := scan_offset s + length (ended_lines ls), scan_line := scan_line s + length ls\<rparr>"
  using assms
proof (induction ls arbitrary: s)
  case (Cons l ls)
  then show ?case by (simp add: fence_step_inside)
qed simp

lemma fence_step_opens:
  assumes "scan_open s = None" and "opens_fence (drop_cr l) = Some (c, n)"
  shows "fence_step body s l = s\<lparr>scan_offset := scan_offset s + length l + 1, scan_line := scan_line s + 1,
    scan_open := Some \<lparr>fence_marker = c, fence_length = n, fence_index = scan_offset s, fence_row = scan_line s + 1,
      fence_start = min (scan_offset s + length l + 1) (length body)\<rparr>\<rparr>"
  using assms by (simp add: fence_step_def Let_def)

definition closed_block :: "utext \<Rightarrow> open_fence \<Rightarrow> nat \<Rightarrow> fenced_block" where
  "closed_block body f offset =
     (let end = (if offset > fence_start f then offset - 1 else fence_start f)
      in \<lparr>block_index = fence_index f, block_line = fence_row f,
           block_payload = text_slice body (fence_start f) end, payloadStart = fence_start f, payloadEnd = end\<rparr>)"

lemma fence_step_closes:
  assumes "scan_open s = Some f" and "closes_line (fence_marker f) (fence_length f) l"
  shows "fence_step body s l = s\<lparr>scan_offset := scan_offset s + length l + 1, scan_line := scan_line s + 1,
    scan_blocks := scan_blocks s @ [closed_block body f (scan_offset s)], scan_open := None\<rparr>"
  using assms by (simp add: fence_step_def Let_def closes_fence_line closed_block_def)

text \<open>The payload between the offset after the opening line and the one before the closing line.\<close>

lemma payload_slice:
  assumes "body = ended_lines (prior @ [l]) @ join_lines (payload @ cl # rest)"
  shows "text_slice body (length (ended_lines (prior @ [l])))
     (if payload = [] then length (ended_lines (prior @ [l])) else length (ended_lines (prior @ l # payload)) - 1) = join_lines payload"
proof (cases "payload = []")
  case False
  have "join_lines (payload @ cl # rest) = ended_lines payload @ join_lines (cl # rest)" by (rule join_ended) simp
  with assms False show ?thesis by (simp add: text_slice_def ended_join)
qed (simp add: text_slice_def)

lemma payload_rest:
  assumes "body = join_lines (prior @ l # payload)"
  shows "drop (min (length (ended_lines (prior @ [l]))) (length body)) body = join_lines payload"
proof (cases "payload = []")
  case True
  with assms show ?thesis using join_ended [of "[l]" prior] by simp
next
  case False
  with assms join_ended [of payload "prior @ [l]"] show ?thesis by simp
qed

text \<open>A scan between blocks, after the lines \<open>prior\<close>; what it must give for the rest.\<close>

definition between :: "utext list \<Rightarrow> fence_scan \<Rightarrow> bool" where
  "between prior s \<longleftrightarrow> scan_open s = None \<and> scan_offset s = length (ended_lines prior) \<and> scan_line s = length prior"

definition reads_rest :: "utext \<Rightarrow> utext list \<Rightarrow> utext list \<Rightarrow> fence_scan \<Rightarrow> bool" where
  "reads_rest body prior todo s \<longleftrightarrow>
     (\<exists>blocks. scan_result body (foldl (fence_step body) s todo) = scan_blocks s @ blocks
        \<and> map (\<lambda>b. (block_line b, block_payload b)) blocks = line_blocks (length prior + 1) todo
        \<and> (\<forall>b \<in> set blocks. placed body (split_lines body) b))"

lemma reads_rest_fence:
  assumes lines: "split_lines body = prior @ l # ls" and s: "between prior s"
    and cn: "opens_fence (drop_cr l) = Some (c, n)"
    and later: "\<And>prior' todo' s'. length todo' < length (l # ls) \<Longrightarrow> split_lines body = prior' @ todo' \<Longrightarrow> between prior' s' \<Longrightarrow>
      reads_rest body prior' todo' s'"
  shows "reads_rest body prior (l # ls) s"
proof -
  have body: "body = join_lines (prior @ l # ls)" using lines join_lines_split [of body] by simp
  define payload where "payload = takeWhile (\<lambda>l. \<not> closes_line c n l) ls"
  define rest where "rest = dropWhile (\<lambda>l. \<not> closes_line c n l) ls"
  have ls: "ls = payload @ rest" by (simp add: payload_def rest_def)
  define f where "f = \<lparr>fence_marker = c, fence_length = n, fence_index = scan_offset s, fence_row = scan_line s + 1,
      fence_start = min (scan_offset s + length l + 1) (length body)\<rparr>"
  define s1 where "s1 = fence_step body s l"
  have s1: "s1 = s\<lparr>scan_offset := scan_offset s + length l + 1, scan_line := scan_line s + 1, scan_open := Some f\<rparr>"
    unfolding s1_def f_def using s cn by (intro fence_step_opens) (simp_all add: between_def)
  define s2 where "s2 = foldl (fence_step body) s1 payload"
  have "\<forall>l \<in> set payload. \<not> closes_line (fence_marker f) (fence_length f) l"
    by (auto simp: payload_def f_def dest: set_takeWhileD)
  then have s2: "s2 = s1\<lparr>scan_offset := scan_offset s1 + length (ended_lines payload), scan_line := scan_line s1 + length payload\<rparr>"
    unfolding s2_def by (intro fold_inside) (simp_all add: s1)
  have index: "take (fence_index f) body = ended_lines prior" "fence_row f = length prior + 1"
    using body join_ended [of "l # ls" prior] s by (simp_all add: f_def between_def)
  have reader: "line_blocks (length prior + 1) (l # ls) =
      (length prior + 1, join_lines payload) # line_blocks (length prior + 1 + length payload + 2) (drop (length payload + 1) ls)"
    by (simp add: cn payload_def Let_def)
  show ?thesis
  proof (cases rest)
    case Nil
    define b where "b = \<lparr>block_index = fence_index f, block_line = fence_row f,
      block_payload = drop (fence_start f) body, payloadStart = fence_start f, payloadEnd = length body\<rparr>"
    have "scan_result body (foldl (fence_step body) s (l # ls)) = scan_blocks s @ [b]"
    proof -
      have "foldl (fence_step body) s (l # ls) = s2" using Nil ls by (simp add: s1_def s2_def)
      moreover have "scan_open s2 = Some f" "scan_blocks s2 = scan_blocks s" by (simp_all add: s2 s1)
      ultimately show ?thesis by (simp add: scan_result_def b_def)
    qed
    moreover have "block_payload b = join_lines payload"
      using payload_rest [of body prior l payload] body ls Nil s by (simp add: b_def f_def between_def)
    moreover have "placed body (split_lines body) b"
      using index lines by (simp add: placed_def b_def text_slice_def)
    moreover have "line_blocks (length prior + 1) (l # ls) = [(length prior + 1, join_lines payload)]"
      unfolding reader using Nil ls by simp
    ultimately show ?thesis unfolding reads_rest_def by (intro exI [of _ "[b]"]) (simp add: b_def index)
  next
    case (Cons cl after)
    then have closing: "closes_line c n cl" by (auto simp: rest_def dest!: dropWhile_eq_Cons_conv [THEN iffD1])
    define b where "b = closed_block body f (scan_offset s2)"
    define s3 where "s3 = fence_step body s2 cl"
    have s3: "s3 = s2\<lparr>scan_offset := scan_offset s2 + length cl + 1, scan_line := scan_line s2 + 1,
      scan_blocks := scan_blocks s2 @ [b], scan_open := None\<rparr>"
      unfolding s3_def b_def using closing by (intro fence_step_closes) (simp_all add: s2 s1 f_def)
    define prior' where "prior' = prior @ l # payload @ [cl]"
    have "between prior' s3" using s by (simp add: between_def s3 s2 s1 prior'_def)
    moreover have "split_lines body = prior' @ after" using lines ls Cons by (simp add: prior'_def)
    ultimately have "reads_rest body prior' after s3" using ls Cons by (intro later) simp_all
    then obtain blocks where blocks: "scan_result body (foldl (fence_step body) s3 after) = scan_blocks s3 @ blocks"
      "map (\<lambda>b. (block_line b, block_payload b)) blocks = line_blocks (length prior' + 1) after"
      "\<forall>b \<in> set blocks. placed body (split_lines body) b" unfolding reads_rest_def by blast
    have split: "body = ended_lines (prior @ [l]) @ join_lines (payload @ cl # after)"
      using body ls Cons join_ended [of "payload @ cl # after" "prior @ [l]"] by simp
    then have start: "fence_start f = length (ended_lines (prior @ [l]))" using s by (simp add: f_def between_def)
    have offset: "scan_offset s2 = length (ended_lines (prior @ l # payload))"
      using s by (simp add: s2 s1 between_def)
    have "block_payload b = join_lines payload"
      using payload_slice [OF split] by (cases "payload = []") (simp_all add: b_def closed_block_def Let_def start offset)
    moreover have "placed body (split_lines body) b"
      using index lines by (simp add: placed_def b_def closed_block_def Let_def)
    moreover have "line_blocks (length prior + 1) (l # ls)
      = (length prior + 1, join_lines payload) # line_blocks (length prior' + 1) after"
      unfolding reader using Cons ls by (simp add: prior'_def)
    moreover have "foldl (fence_step body) s (l # ls) = foldl (fence_step body) s3 after"
      using ls Cons by (simp add: s1_def s2_def s3_def)
    moreover have "block_line b = length prior + 1" using index by (simp add: b_def closed_block_def Let_def)
    ultimately show ?thesis unfolding reads_rest_def
      using blocks by (intro exI [of _ "b # blocks"]) (simp add: s3 s2 s1)
  qed
qed

lemma reads_rest_lines: "split_lines body = prior @ todo \<Longrightarrow> between prior s \<Longrightarrow> reads_rest body prior todo s"
proof (induction todo arbitrary: prior s rule: length_induct)
  case (1 todo)
  show ?case
  proof (cases todo)
    case Nil
    with "1.prems" show ?thesis by (simp add: reads_rest_def scan_result_def between_def)
  next
    case (Cons l ls)
    show ?thesis
    proof (cases "opens_fence (drop_cr l)")
      case None
      define s' where "s' = s\<lparr>scan_offset := scan_offset s + length l + 1, scan_line := scan_line s + 1\<rparr>"
      have "split_lines body = (prior @ [l]) @ ls" "between (prior @ [l]) s'"
        using "1.prems" Cons by (simp_all add: s'_def between_def)
      then have "reads_rest body (prior @ [l]) ls s'" using "1.IH" Cons by auto
      moreover have "fence_step body s l = s'"
        unfolding s'_def by (rule fence_step_closed) (use "1.prems" None in \<open>simp_all add: between_def\<close>)
      ultimately show ?thesis using Cons None by (simp add: reads_rest_def s'_def)
    next
      case (Some fence)
      obtain c n where "opens_fence (drop_cr l) = Some (c, n)" using Some by (cases fence) auto
      from reads_rest_fence [OF _ _ this] "1.prems" "1.IH" Cons show ?thesis by blast
    qed
  qed
qed

text \<open>C24. The fenced blocks of a text are those a reader of lines finds: a line that begins with a
  fence opens a block, the lines up to the next closing fence are its payload, a block left open
  ends with the text. The index is where the opening line starts, the line its number, and the
  bounds cut the payload out of the text. Backticks in the middle of a line count nowhere.\<close>

theorem fenced_blocks_by_lines:
  "map (\<lambda>b. (block_line b, block_payload b)) (fencedBlocks body) = line_blocks 1 (split_lines body)
   \<and> list_all (placed body (split_lines body)) (fencedBlocks body)"
proof -
  have "reads_rest body [] (split_lines body) scan_start"
    by (rule reads_rest_lines) (simp_all add: between_def scan_start_def)
  then show ?thesis by (auto simp: reads_rest_def fencedBlocks_def scan_start_def list_all_iff)
qed

end
