(* ===== verification/Verdict_Properties.thy ===== *)
theory Verdict_Properties
  imports Verdict_Fences
begin

text \<open>
  What an accepted verdict promises: its bounds, that the record it is stored as reads back as
  itself, and that a completion call and a fenced block are two inputs of one form.
\<close>

section \<open>A finding and its rendering\<close>

lemma units_inj [simp]: "units s = units t \<longleftrightarrow> s = t"
  by (simp add: units_def inj_map_eq_map inj_def of_char_eq_iff)

lemma length_units [simp]: "length (units s) = length s"
  by (simp add: units_def)

lemma severity_text_units: "severity_text sev \<in> {units ''P0'', units ''P1'', units ''P2'', units ''P3''}"
  by (cases sev) simp_all

lemma severity_text_facts [simp]:
  "length (severity_text sev) = 2"
  "map_of STAGE_FINDING_SEVERITIES (severity_text sev) = Some sev"
  "severity_text sev \<noteq> [] \<and> \<not> unit_space (hd (severity_text sev))"
  by (cases sev; simp add: STAGE_FINDING_SEVERITIES_def units_def unit_space_def)+

definition finding_ok :: "stage_finding \<Rightarrow> bool" where
  "finding_ok f \<longleftrightarrow> finding_text f \<noteq> [] \<and> trimmed (finding_text f)
     \<and> (severity f = None \<longrightarrow> stageFindingFromText (finding_text f) = f)"

lemma trimmed_append: "trimmed s \<Longrightarrow> trimmed t \<Longrightarrow> s \<noteq> [] \<Longrightarrow> t \<noteq> [] \<Longrightarrow> trimmed (s @ m @ t)"
  by (simp add: trimmed_def)

lemma severity_text_trimmed [simp]: "trimmed (severity_text sev)"
  by (cases sev) (simp_all add: trimmed_def units_def unit_space_def)

lemma rendered_trimmed: "finding_ok f \<Longrightarrow> stageFindingText f \<noteq> [] \<and> trimmed (stageFindingText f)"
  using trimmed_append [of "severity_text (the (severity f))" "finding_text f" "[32, 8212, 32]"]
  by (cases "severity f") (auto simp: stageFindingText_def finding_ok_def)

lemma after_rendered_separator:
  assumes "s \<noteq> []" and "trimmed s"
  shows "after_separator ([32, 8212, 32] @ s) = Some s"
proof -
  have "trim_left s = s" using assms by (simp add: trim_left_id trimmed_def)
  then have "trim_left (32 # s) = s" by (simp add: trim_left_def unit_space_def)
  moreover have "trim_left ([32, 8212, 32] @ s) = 8212 # 32 # s" by (simp add: trim_left_def unit_space_def)
  ultimately show ?thesis by (simp add: after_separator_def is_dash_def unit_space_def)
qed

lemma rendering_reads_back: "finding_ok f \<Longrightarrow> stageFindingFromText (stageFindingText f) = f"
proof (cases "severity f")
  case (Some sev)
  assume ok: "finding_ok f"
  then have body: "finding_text f \<noteq> []" "trimmed (finding_text f)" by (simp_all add: finding_ok_def)
  have drop: "drop 2 (severity_text sev @ t) = t" "take 2 (severity_text sev @ t) = severity_text sev" for t
    using severity_text_facts(1) [of sev] by simp_all
  have "ranked_match (stageFindingText f) = Some (sev, finding_text f)"
    using after_rendered_separator [OF body] Some by (simp add: ranked_match_def stageFindingText_def drop)
  moreover have "unit_trim (stageFindingText f) = stageFindingText f"
    using rendered_trimmed [OF ok] by (simp add: trimmed_id)
  ultimately show ?thesis using body Some by (simp add: stageFindingFromText_def trimmed_id)
next
  case None
  assume "finding_ok f"
  with None show ?thesis by (simp add: finding_ok_def stageFindingText_def)
qed

lemma read_text_ok: "unit_trim t \<noteq> [] \<Longrightarrow> finding_ok (stageFindingFromText t)"
  by (auto simp: stageFindingFromText_def finding_ok_def split: option.split prod.split)

lemma unranked_text: "severity (stageFindingFromText t) = None \<Longrightarrow> finding_text (stageFindingFromText t) = unit_trim t"
  by (auto simp: stageFindingFromText_def split: option.splits prod.splits if_splits)

section \<open>Findings of a record\<close>

lemma those_iff: "those xs = Some ys \<longleftrightarrow> xs = map Some ys"
proof (induction xs arbitrary: ys)
  case (Cons x xs)
  show ?case by (cases x; cases ys) (auto simp: Cons)
qed auto

definition bare_severity :: "utext \<Rightarrow> bool" where
  "bare_severity t \<longleftrightarrow> t \<in> fst ` set STAGE_FINDING_SEVERITIES"

lemma bare_severity_length: "bare_severity t \<Longrightarrow> length t = 2"
  by (auto simp: bare_severity_def STAGE_FINDING_SEVERITIES_def)

definition readable :: "bool \<Rightarrow> stage_finding \<Rightarrow> bool" where
  "readable legacy f \<longleftrightarrow> finding_ok f \<and> (legacy \<or> \<not> bare_severity (stageFindingText f))"

lemma read_finding_readable: "read_finding legacy v = Some f \<Longrightarrow> readable legacy f"
proof (cases v)
  case (VText t)
  assume "read_finding legacy v = Some f"
  with VText have t: "unit_trim t \<noteq> []" "legacy \<or> \<not> bare_severity (unit_trim t)" "f = stageFindingFromText (unit_trim t)"
    by (auto simp: Let_def bare_severity_def split: if_splits)
  from t have ok: "finding_ok f" by (simp add: read_text_ok)
  moreover have "\<not> bare_severity (stageFindingText f)" if "\<not> legacy"
  proof (cases "severity f")
    case None
    with t(3) have "stageFindingText f = unit_trim t" by (simp add: stageFindingText_def unranked_text)
    with t(2) that show ?thesis by simp
  next
    case (Some sev)
    then show ?thesis using bare_severity_length [of "stageFindingText f"] by (auto simp: stageFindingText_def)
  qed
  ultimately show ?thesis by (auto simp: readable_def)
qed simp_all

lemma read_finding_rendered:
  "readable legacy f \<Longrightarrow> length (stageFindingText f) \<le> MAX_FINDING_CHARS \<Longrightarrow>
     read_finding legacy (VText (stageFindingText f)) = Some f"
  using rendered_trimmed [of f] rendering_reads_back [of f]
  by (auto simp: readable_def trimmed_id bare_severity_def)

lemma js_sort_sorted: "sorted_wrt le xs \<Longrightarrow> js_sort le xs = xs"
proof (induction xs)
  case (Cons x xs)
  then have "js_sort le xs = xs" by simp
  with Cons.prems show ?case by (cases xs) (auto simp: js_sort_def)
qed (simp add: js_sort_def)

definition by_severity :: "stage_finding \<Rightarrow> stage_finding \<Rightarrow> bool" where
  "by_severity f g \<longleftrightarrow> severity_rank (severity f) \<le> severity_rank (severity g)"

lemma rank_sort: "rankStageFindings fs = js_sort by_severity fs"
  by (simp add: rankStageFindings_def by_severity_def [abs_def])

lemma ranked_sorted: "sorted_wrt by_severity (rankStageFindings fs)"
  unfolding rank_sort by (rule sorted_js_sort) (auto simp: by_severity_def transp_def)

lemma ranked_facts [simp]:
  "set (rankStageFindings fs) = set fs" "length (rankStageFindings fs) = length fs"
  "mset (rankStageFindings fs) = mset fs"
  by (simp_all add: rank_sort)

definition findings_ok :: "bool \<Rightarrow> stage_finding list \<Rightarrow> bool" where
  "findings_ok legacy fs \<longleftrightarrow> length fs \<le> MAX_FINDINGS \<and> sorted_wrt by_severity fs
     \<and> (\<forall>f \<in> set fs. readable legacy f \<and> length (stageFindingText f) \<le> MAX_FINDING_CHARS)"

lemma read_findings_ok: "read_findings legacy v = Some (Some fs) \<Longrightarrow> findings_ok legacy fs"
proof -
  assume read: "read_findings legacy v = Some (Some fs)"
  then obtain vs where v: "v = Some (VArr vs)" by (cases "(legacy, v)" rule: read_findings.cases) auto
  with read obtain gs where gs: "those (map (read_finding legacy) vs) = Some gs" "fs = rankStageFindings gs"
    "length vs \<le> MAX_FINDINGS" "\<forall>f \<in> set fs. length (stageFindingText f) \<le> MAX_FINDING_CHARS"
    by (auto simp: Let_def list_ex_iff not_less split: if_splits option.splits)
  from gs(1) have "map (read_finding legacy) vs = map Some gs" by (simp add: those_iff)
  then have "\<forall>f \<in> set gs. readable legacy f" "length gs = length vs"
    by (auto dest: map_eq_imp_length_eq) (metis (no_types, lifting) imageE image_eqI list.set_map read_finding_readable)
  with gs show ?thesis by (auto simp: findings_ok_def ranked_sorted)
qed

lemma read_findings_rendered:
  "findings_ok legacy fs \<Longrightarrow> read_findings legacy (Some (VArr (map VText (map stageFindingText fs)))) = Some (Some fs)"
proof -
  assume ok: "findings_ok legacy fs"
  then have "map (read_finding legacy) (map VText (map stageFindingText fs)) = map Some fs"
    by (simp add: findings_ok_def read_finding_rendered del: read_finding.simps)
  then have "those (map (read_finding legacy) (map VText (map stageFindingText fs))) = Some fs" by (simp only: those_iff)
  moreover have "rankStageFindings fs = fs" using ok by (simp add: rank_sort findings_ok_def js_sort_sorted)
  ultimately show ?thesis using ok by (auto simp: findings_ok_def Let_def list_ex_iff)
qed

section \<open>Verdict records\<close>

definition verdict_ok :: "bool \<Rightarrow> stage_verdict \<Rightarrow> bool" where
  "verdict_ok legacy v \<longleftrightarrow>
     (\<exists>findings. verdict_findings v = map_option (map stageFindingText) findings \<and> rankedFindings v = ranked_of findings
        \<and> (\<forall>fs. findings = Some fs \<longrightarrow> findings_ok legacy fs))
     \<and> (verdict_blocked v = Some True \<longleftrightarrow> blockedReason v \<noteq> None)
     \<and> (\<forall>r. blockedReason v = Some r \<longrightarrow> verdict_status v = FailStatus \<and> r \<noteq> [] \<and> trimmed r \<and> length r \<le> MAX_STAGE_REPORT_SUMMARY_CHARS)
     \<and> (\<forall>c. verdict_confidence v = Some c \<longrightarrow> 0 \<le> c \<and> c \<le> 1)"

text \<open>The record as it is stored: the fields the verdict has.\<close>

definition opt_field :: "string \<Rightarrow> ('a \<Rightarrow> js_value) \<Rightarrow> 'a option \<Rightarrow> (utext \<times> js_value) list" where
  "opt_field name f v = (case v of None \<Rightarrow> [] | Some x \<Rightarrow> [(units name, f x)])"

definition finding_value :: "stage_finding \<Rightarrow> js_value" where
  "finding_value f = VObj [(units ''severity'', case severity f of Some sev \<Rightarrow> VText (severity_text sev) | None \<Rightarrow> VNull),
     (units ''text'', VText (finding_text f))]"

definition verdict_value :: "stage_verdict \<Rightarrow> js_value" where
  "verdict_value v = VObj ([(units ''status'', VText (status_text (verdict_status v)))]
     @ opt_field ''blocked'' VBool (verdict_blocked v) @ opt_field ''blockedReason'' VText (blockedReason v)
     @ opt_field ''findings'' (\<lambda>fs. VArr (map VText fs)) (verdict_findings v)
     @ opt_field ''rankedFindings'' (\<lambda>fs. VArr (map finding_value fs)) (rankedFindings v)
     @ opt_field ''confidence'' (\<lambda>c. VNum (Some c)) (verdict_confidence v))"

lemma js_get_fields [simp]:
  "js_get ((k, v) # m) k' = (if k = k' then Some v else js_get m k')"
  "js_get (opt_field name f x @ m) k' = (if k' = units name \<and> x \<noteq> None then map_option f x else js_get m k')"
  "js_get (opt_field name f x) k' = (if k' = units name then map_option f x else None)"
  by (auto simp: js_get_def opt_field_def split: option.split)

lemma js_keys_fields [simp]:
  "js_keys ((k, v) # m) = k # js_keys m"
  "js_keys (m @ m') = js_keys m @ js_keys m'"
  by (simp_all add: js_keys_def)

lemma keys_opt_field: "set (js_keys (opt_field name f x)) \<subseteq> {units name}"
  by (auto simp: opt_field_def js_keys_def split: option.split)

lemma status_reads_back [simp]: "status_of_text (status_text st) = Some st"
  by (cases st) (simp_all add: status_of_text_def)

lemma stageVerdictFrom_ok: "stageVerdictFrom sent legacy = Some v \<Longrightarrow> verdict_ok legacy v"
proof (cases sent)
  case (VObj raw)
  assume "stageVerdictFrom sent legacy = Some v"
  with VObj obtain status blocked reason findings confidence where
    fields: "read_blocked (js_get raw (units ''blocked'')) = Some blocked"
      "read_reason status blocked (js_get raw (units ''blockedReason'')) = Some reason"
      "read_findings legacy (js_get raw (units ''findings'')) = Some findings"
      "read_confidence (js_get raw (units ''confidence'')) = Some confidence"
    and v: "v = \<lparr>verdict_status = status, verdict_blocked = blocked, blockedReason = reason,
        verdict_findings = map_option (map stageFindingText) findings,
        rankedFindings = ranked_of findings, verdict_confidence = confidence\<rparr>"
    by (auto split: if_splits option.splits)
  have "\<forall>fs. findings = Some fs \<longrightarrow> findings_ok legacy fs" using fields(3) read_findings_ok by blast
  moreover have "blocked = Some True \<longleftrightarrow> reason \<noteq> None"
    "\<forall>r. reason = Some r \<longrightarrow> status = FailStatus \<and> r \<noteq> [] \<and> trimmed r \<and> length r \<le> MAX_STAGE_REPORT_SUMMARY_CHARS"
    using fields(2) by (auto simp: read_reason_def split: if_splits option.splits js_value.splits)
  moreover have "\<forall>c. confidence = Some c \<longrightarrow> 0 \<le> c \<and> c \<le> 1"
    using fields(4) by (cases "js_get raw (units ''confidence'')" rule: read_confidence.cases) (auto split: if_splits)
  ultimately show ?thesis by (auto simp: verdict_ok_def v)
qed simp_all

lemma stored_reads_back:
  assumes "verdict_ok legacy v"
  shows "stageVerdictFrom (verdict_value v) legacy = Some v"
proof -
  from assms obtain findings where findings: "verdict_findings v = map_option (map stageFindingText) findings"
    "rankedFindings v = ranked_of findings" "\<forall>fs. findings = Some fs \<longrightarrow> findings_ok legacy fs"
    unfolding verdict_ok_def by blast
  obtain raw where raw: "verdict_value v = VObj raw" by (simp add: verdict_value_def)
  have get: "js_get raw (units ''status'') = Some (VText (status_text (verdict_status v)))"
    "js_get raw (units ''blocked'') = map_option VBool (verdict_blocked v)"
    "js_get raw (units ''blockedReason'') = map_option VText (blockedReason v)"
    "js_get raw (units ''findings'') = map_option (\<lambda>fs. VArr (map VText fs)) (verdict_findings v)"
    "js_get raw (units ''confidence'') = map_option (\<lambda>c. VNum (Some c)) (verdict_confidence v)"
    using raw by (auto simp: verdict_value_def)
  have "set (js_keys raw) \<subseteq> set ALLOWED_KEYS"
    using raw by (auto simp: verdict_value_def ALLOWED_KEYS_def dest!: subsetD [OF keys_opt_field])
  then have keys: "\<not> list_ex (\<lambda>k. k \<notin> set ALLOWED_KEYS) (js_keys raw)" by (auto simp: list_ex_iff)
  have blocked: "read_blocked (map_option VBool (verdict_blocked v)) = Some (verdict_blocked v)"
    by (cases "verdict_blocked v") simp_all
  have reason: "read_reason (verdict_status v) (verdict_blocked v) (map_option VText (blockedReason v)) = Some (blockedReason v)"
    using assms by (cases "blockedReason v") (auto simp: read_reason_def verdict_ok_def trimmed_id)
  have texts: "read_findings legacy (js_get raw (units ''findings'')) = Some findings"
    using findings read_findings_rendered by (cases findings) (auto simp: get(4))
  have confidence: "read_confidence (map_option (\<lambda>c. VNum (Some c)) (verdict_confidence v)) = Some (verdict_confidence v)"
    using assms by (cases "verdict_confidence v") (auto simp: verdict_ok_def)
  show ?thesis unfolding raw using findings(1,2)
    by (simp add: keys get(1-3,5) blocked reason texts confidence)
qed

section \<open>The two inputs\<close>

lemma own_field_opt: "own_field raw name = opt_field name (\<lambda>v. v) (js_get raw (units name))"
  by (simp add: own_field_def opt_field_def)

lemma completion_core:
  assumes "\<not> list_ex (\<lambda>k. k \<notin> set ALLOWED_KEYS) (js_keys raw)"
  shows "completionVerdictFrom (VObj raw) = stageVerdictFrom (VObj raw) False"
proof -
  define core where "core = own_field raw ''status'' @ own_field raw ''findings'' @ own_field raw ''confidence''
       @ own_field raw ''blocked'' @ own_field raw ''blockedReason''"
  have "\<not> list_ex (\<lambda>k. k \<notin> set ALLOWED_KEYS) (js_keys core)"
    by (auto simp: core_def own_field_opt list_ex_iff ALLOWED_KEYS_def dest!: subsetD [OF keys_opt_field])
  moreover have get: "js_get core (units ''status'') = js_get raw (units ''status'')"
    "js_get core (units ''blocked'') = js_get raw (units ''blocked'')"
    "js_get core (units ''blockedReason'') = js_get raw (units ''blockedReason'')"
    "js_get core (units ''findings'') = js_get raw (units ''findings'')"
    "js_get core (units ''confidence'') = js_get raw (units ''confidence'')"
    by (auto simp: core_def own_field_opt option.map_ident)
  ultimately show ?thesis using assms
    unfolding completionVerdictFrom.simps core_def [symmetric] stageVerdictFrom.simps get by simp
qed

lemma verdict_value_keys: "verdict_value v = VObj raw \<Longrightarrow> \<not> list_ex (\<lambda>k. k \<notin> set ALLOWED_KEYS) (js_keys raw)"
  by (auto simp: verdict_value_def list_ex_iff ALLOWED_KEYS_def dest!: subsetD [OF keys_opt_field])

lemma completion_ok: "completionVerdictFrom raw = Some v \<Longrightarrow> verdict_ok False v"
  by (cases raw) (auto intro: stageVerdictFrom_ok simp del: stageVerdictFrom.simps)

lemma candidate_fold:
  "\<forall>c \<in> set (fst s). verdict_ok False (snd c) \<Longrightarrow> c \<in> set (fst (foldl (candidate_step parse) s blocks)) \<Longrightarrow> verdict_ok False (snd c)"
proof (induction blocks arbitrary: s)
  case (Cons b blocks)
  have "\<forall>c \<in> set (fst (candidate_step parse s b)). verdict_ok False (snd c)"
    using Cons.prems(1) by (auto simp: candidate_step_def block_verdict_def completion_ok split: option.split)
  from Cons.IH [OF this] Cons.prems(2) show ?case by simp
qed simp

lemma final_candidate_ok:
  assumes "finalVerdictCandidate parse body = Inr (i, v)"
  shows "verdict_ok False v"
proof -
  define s where "s = foldl (candidate_step parse) ([], MissingFields (block_line (last (fencedBlocks body)))) (fencedBlocks body)"
  from assms have "fst s \<noteq> []" "(i, v) = last (fst s)"
    by (auto simp: finalVerdictCandidate_def Let_def s_def split: if_splits prod.splits)
  then have "(i, v) \<in> set (fst s)" by simp
  from candidate_fold [OF _ this [unfolded s_def]] show ?thesis by simp
qed

lemma read_ranked_finding_ok:
  "read_ranked_finding v = Inr f \<Longrightarrow> readable False f \<and> length (stageFindingText f) \<le> MAX_FINDING_CHARS"
proof (cases v)
  case (VObj raw)
  assume "read_ranked_finding v = Inr f"
  with VObj obtain sev where f: "f = \<lparr>severity = Some sev, finding_text = field_text (js_get raw (units ''text''))\<rparr>"
    "finding_text f \<noteq> []" "length (stageFindingText f) \<le> MAX_FINDING_CHARS"
    by (auto simp: Let_def not_less split: option.splits js_value.splits if_splits)
  moreover have "trimmed (field_text x)" for x
    by (auto simp: field_text_def trimmed_def [of "[]"] split: option.split js_value.split)
  ultimately have "finding_ok f" by (simp add: finding_ok_def)
  moreover have "\<not> bare_severity (stageFindingText f)"
    using bare_severity_length [of "stageFindingText f"] f(1) by (auto simp: stageFindingText_def)
  ultimately show ?thesis using f(3) by (simp add: readable_def)
qed simp_all

lemma read_ranked_findings_ok:
  "read_ranked_findings vs = Inr fs \<Longrightarrow> length fs = length vs
     \<and> (\<forall>f \<in> set fs. readable False f \<and> length (stageFindingText f) \<le> MAX_FINDING_CHARS)"
  by (induction vs arbitrary: fs) (auto dest: read_ranked_finding_ok split: sum.splits)

lemma reported_ranked: "reported_findings v = Inr fs \<Longrightarrow> \<forall>f \<in> set fs. severity f \<noteq> None"
proof -
  have one: "severity f \<noteq> None" if "read_ranked_finding x = Inr f" for x f
    using that by (cases x) (auto simp: Let_def split: option.splits js_value.splits if_splits)
  have "\<forall>f \<in> set fs. severity f \<noteq> None" if "read_ranked_findings vs = Inr fs" for vs fs
    using that by (induction vs arbitrary: fs) (auto dest: one split: sum.splits)
  then show "reported_findings v = Inr fs \<Longrightarrow> \<forall>f \<in> set fs. severity f \<noteq> None"
    by (cases v rule: reported_findings.cases) (auto split: if_splits)
qed

lemma reported_ok: "reported_findings v = Inr fs \<Longrightarrow> findings_ok False (rankStageFindings fs)"
  by (cases v rule: reported_findings.cases)
    (auto simp: findings_ok_def ranked_sorted not_less dest: read_ranked_findings_ok split: if_splits)

lemma reported_verdict:
  assumes "stageVerdictFrom (reported_value input status fs) False = Some v" and "findings_ok False (rankStageFindings fs)"
  shows "verdict_status v = status \<and> rankedFindings v = ranked_of (if fs = [] then None else Some (rankStageFindings fs))
    \<and> verdict_findings v = (if fs = [] then None else Some (map stageFindingText (rankStageFindings fs)))"
proof -
  have given: "(\<lambda>name v. case v of Some x \<Rightarrow> [(units name, x)] | None \<Rightarrow> []) = (\<lambda>name. opt_field name (\<lambda>x. x))"
    by (simp add: opt_field_def fun_eq_iff split: option.split)
  obtain raw where raw: "reported_value input status fs = VObj raw" by (simp add: reported_value_def Let_def)
  have empty: "rankStageFindings fs = [] \<longleftrightarrow> fs = []" by (metis length_0_conv ranked_facts(2))
  have get: "js_get raw (units ''status'') = Some (VText (status_text status))"
    "js_get raw (units ''findings'') = (if fs = [] then None else Some (VArr (map VText (map stageFindingText (rankStageFindings fs)))))"
    using raw unfolding reported_value_def given by (auto simp: Let_def empty)
  have "read_findings False (js_get raw (units ''findings'')) = Some (if fs = [] then None else Some (rankStageFindings fs))"
    using read_findings_rendered [OF assms(2)] by (simp add: get)
  with assms(1) raw get(1) show ?thesis by (auto split: option.splits if_splits)
qed

lemma normalizedE:
  assumes "normalizeStageCompletion input = Inr d"
  obtains status fs r where "read_status (in_verdict input) = Some status"
    "reported_findings (in_findings input) = Inr fs" "status = PassStatus \<longrightarrow> fs = []"
    "stageVerdictFrom (reported_value input status fs) False = Some (done_verdict d)"
    "done_summary d = none_if_empty (take MAX_STAGE_REPORT_SUMMARY_CHARS (field_text (in_summary input)))"
    "read_result (in_result input) = Inr r" "done_result d = none_if_empty r"
proof -
  from assms obtain status where status: "read_status (in_verdict input) = Some status"
    by (cases "read_status (in_verdict input)") (simp_all add: normalizeStageCompletion_def)
  from assms status obtain fs where fs: "reported_findings (in_findings input) = Inr fs" "status = PassStatus \<longrightarrow> fs = []"
    by (cases "reported_findings (in_findings input)") (auto simp: normalizeStageCompletion_def split: if_splits)
  from assms status fs obtain r where r: "read_result (in_result input) = Inr r"
    by (cases "read_result (in_result input)") (auto simp: normalizeStageCompletion_def split: option.splits)
  from assms status fs r show ?thesis
    by (intro that [OF status fs _ _ r]) (auto simp: normalizeStageCompletion_def split: option.splits sum.splits)
qed

section \<open>The properties\<close>

text \<open>C25. A verdict that was accepted, stored as a record and validated again is the same verdict,
  its ranked findings derived anew; a stored record of today's form that is fenced in a turn reads
  as that verdict too.\<close>

theorem verdict_reload:
  assumes "stageVerdictFrom sent legacy = Some v"
  shows "stageVerdictFrom (verdict_value v) legacy = Some v
    \<and> (\<not> legacy \<longrightarrow> completionVerdictFrom (verdict_value v) = Some v)"
proof -
  have reload: "stageVerdictFrom (verdict_value v) legacy = Some v"
    by (rule stored_reads_back) (rule stageVerdictFrom_ok [OF assms])
  obtain raw where raw: "verdict_value v = VObj raw" by (simp add: verdict_value_def)
  have "completionVerdictFrom (verdict_value v) = stageVerdictFrom (verdict_value v) False"
    unfolding raw by (rule completion_core) (rule verdict_value_keys [OF raw])
  with reload show ?thesis by (cases legacy) (simp_all del: stageVerdictFrom.simps)
qed

text \<open>C26. Whatever a turn or a call reports, an accepted verdict has at most fifty findings of at
  most two thousand units, most severe first, a reason exactly when it is blocked, and then it
  failed, a confidence between 0 and 1; a pass has no findings; the output, the summary and the
  result keep their limits, and no marker in the prose contradicts the verdict.\<close>

theorem verdict_accepted:
  "(\<forall>v out. parseStageVerdict parse body = Some (ParsedVerdict v out) \<longrightarrow>
      verdict_ok False v \<and> (verdict_status v = PassStatus \<longrightarrow> verdict_findings v \<in> {None, Some []})
      \<and> length out \<le> MAX_OUTPUT_CHARS
      \<and> (\<forall>m \<in> set (proseVerdictMarkers (unit_trim (stageVerdictProse parse body))). marker_status m = verdict_status v))
   \<and> (\<forall>d. normalizeStageCompletion input = Inr d \<longrightarrow>
      verdict_ok False (done_verdict d)
      \<and> (verdict_status (done_verdict d) = PassStatus \<longrightarrow> verdict_findings (done_verdict d) \<in> {None, Some []})
      \<and> (\<forall>s. done_summary d = Some s \<longrightarrow> s \<noteq> [] \<and> length s \<le> MAX_STAGE_REPORT_SUMMARY_CHARS)
      \<and> (\<forall>r. done_result d = Some r \<longrightarrow> r \<noteq> [] \<and> length r \<le> MAX_STAGE_RESULT_CHARS))"
proof (intro conjI allI impI)
  fix v out
  assume "parseStageVerdict parse body = Some (ParsedVerdict v out)"
  then obtain i where candidate: "finalVerdictCandidate parse body = Inr (i, v)"
    and pass: "\<not> (verdict_status v = PassStatus \<and> (case verdict_findings v of Some fs \<Rightarrow> fs \<noteq> [] | None \<Rightarrow> False))"
    and out: "out = take MAX_OUTPUT_CHARS (unit_trim (take i body))"
    and markers: "find (\<lambda>m. marker_status m \<noteq> verdict_status v) (proseVerdictMarkers (unit_trim (take i body))) = None"
    by (auto simp: parseStageVerdict_def Let_def split: sum.splits prod.splits if_splits option.splits)
  show "verdict_ok False v" by (rule final_candidate_ok [OF candidate])
  show "verdict_findings v \<in> {None, Some []}" if "verdict_status v = PassStatus"
    using that pass by (auto split: option.splits)
  show "length out \<le> MAX_OUTPUT_CHARS" by (simp add: out)
  show "\<forall>m \<in> set (proseVerdictMarkers (unit_trim (stageVerdictProse parse body))). marker_status m = verdict_status v"
    using find_NoneD [OF markers] by (auto simp: stageVerdictProse_def candidate)
next
  fix d
  assume "normalizeStageCompletion input = Inr d"
  then obtain status fs r where fs: "reported_findings (in_findings input) = Inr fs" "status = PassStatus \<longrightarrow> fs = []"
    and v: "stageVerdictFrom (reported_value input status fs) False = Some (done_verdict d)"
    and summary: "done_summary d = none_if_empty (take MAX_STAGE_REPORT_SUMMARY_CHARS (field_text (in_summary input)))"
    and result: "read_result (in_result input) = Inr r" "done_result d = none_if_empty r"
    by (rule normalizedE)
  show "verdict_ok False (done_verdict d)" by (rule stageVerdictFrom_ok [OF v])
  show "verdict_findings (done_verdict d) \<in> {None, Some []}" if "verdict_status (done_verdict d) = PassStatus"
    using reported_verdict [OF v reported_ok [OF fs(1)]] fs(2) that by auto
  show "s \<noteq> []" "length s \<le> MAX_STAGE_REPORT_SUMMARY_CHARS" if "done_summary d = Some s" for s
    using that summary by (auto simp: none_if_empty_def split: if_splits)
  show "t \<noteq> []" "length t \<le> MAX_STAGE_RESULT_CHARS" if "done_result d = Some t" for t
    using that result by (auto simp: none_if_empty_def read_result_def split: if_splits option.splits js_value.splits)
qed

text \<open>A completion call and a fenced block are inputs of one form: an accepted call keeps the
  caller's findings, each as it was given, ranked; and its record fenced in a turn reads as the
  very verdict of the call.\<close>

theorem completion_call_same_form:
  assumes "normalizeStageCompletion input = Inr d"
  shows "\<exists>fs. reported_findings (in_findings input) = Inr fs
    \<and> rankedFindings (done_verdict d) = (if fs = [] then None else Some (rankStageFindings fs))
    \<and> read_status (in_verdict input) = Some (verdict_status (done_verdict d))
    \<and> completionVerdictFrom (verdict_value (done_verdict d)) = Some (done_verdict d)"
proof -
  from assms obtain status fs where status: "read_status (in_verdict input) = Some status"
    and fs: "reported_findings (in_findings input) = Inr fs"
    and v: "stageVerdictFrom (reported_value input status fs) False = Some (done_verdict d)"
    by (rule normalizedE)
  have ranks: "severity f \<noteq> None" if "f \<in> set fs" for f
    using reported_ranked [OF fs] that by blast
  have "ranked_of (if fs = [] then None else Some (rankStageFindings fs)) = (if fs = [] then None else Some (rankStageFindings fs))"
    using ranks by (cases fs) (auto simp: ranked_of_def list_ex_iff)
  moreover have "completionVerdictFrom (verdict_value (done_verdict d)) = Some (done_verdict d)"
  proof -
    obtain raw where raw: "verdict_value (done_verdict d) = VObj raw" by (simp add: verdict_value_def)
    have "completionVerdictFrom (VObj raw) = stageVerdictFrom (VObj raw) False"
      by (rule completion_core) (rule verdict_value_keys [OF raw])
    with stored_reads_back [OF stageVerdictFrom_ok [OF v]] raw show ?thesis by simp
  qed
  ultimately show ?thesis using reported_verdict [OF v reported_ok [OF fs]] status fs by auto
qed

section \<open>One turn and one call\<close>

definition demo_verdict_json :: js_value where
  "demo_verdict_json = VObj [(units ''status'', VText (units ''fail'')),
     (units ''findings'', VArr [VText (units '' plain''), VText (units ''P1: x'')]), (units ''confidence'', VNum (Some (1/2)))]"

definition demo_verdict :: stage_verdict where
  "demo_verdict = \<lparr>verdict_status = FailStatus, verdict_blocked = None, blockedReason = None,
     verdict_findings = Some [units ''P1'' @ [32, 8212, 32] @ units ''x'', units ''plain''],
     rankedFindings = Some [\<lparr>severity = Some SevP1, finding_text = units ''x''\<rparr>, \<lparr>severity = None, finding_text = units ''plain''\<rparr>],
     verdict_confidence = Some (1/2)\<rparr>"

lemmas verdict_eval = units_def unit_trim_def trim_left_def unit_space_def MAX_FINDINGS_def MAX_FINDING_CHARS_def
  STAGE_FINDING_SEVERITIES_def stageFindingFromText_def ranked_match_def after_separator_def is_dash_def
  rankStageFindings_def js_sort_def stageFindingText_def ranked_of_def status_of_text_def read_reason_def ALLOWED_KEYS_def js_get_def

lemma demo_read: "stageVerdictFrom demo_verdict_json False = Some demo_verdict"
  unfolding demo_verdict_json_def demo_verdict_def by (simp add: verdict_eval)

definition demo_parse :: "utext \<Rightarrow> js_value option" where
  "demo_parse t = (if t = units ''X'' then Some demo_verdict_json else None)"

definition demo_turn :: utext where
  "demo_turn = units ''a ```b'' @ [10] @ units ''```json'' @ [10] @ units ''X'' @ [10] @ units ''```''"


lemmas fence_eval = fencedBlocks_def scan_result_def scan_start_def fence_step_def closes_fence_def opens_fence_def fence_line_def
  fence_after_def line_dot_def drop_cr_def text_slice_def unit_trim_def trim_left_def unit_space_def


lemma demo_blocks: "fencedBlocks demo_turn =
   [\<lparr>block_index = 7, block_line = 2, block_payload = units ''X'', payloadStart = 15, payloadEnd = 16\<rparr>]"
  by (simp add: demo_turn_def units_def fence_eval)

lemma demo_completion: "completionVerdictFrom demo_verdict_json = Some demo_verdict"
  unfolding demo_verdict_json_def demo_verdict_def by (simp add: verdict_eval own_field_def)

lemma demo_parsed: "parseStageVerdict demo_parse demo_turn = Some (ParsedVerdict demo_verdict (units ''a ```b''))"
proof -
  have "demo_parse (units ''X'') = Some demo_verdict_json" by (simp add: demo_parse_def)
  then have "finalVerdictCandidate demo_parse demo_turn = Inr (7, demo_verdict)"
    by (simp add: finalVerdictCandidate_def demo_blocks candidate_step_def block_verdict_def demo_completion uniq_def)
  moreover have "unit_trim (take 7 demo_turn) = units ''a ```b''"
    by (simp add: demo_turn_def units_def fence_eval)
  moreover have "proseVerdictMarkers (units ''a ```b'') = []"
    by (simp add: proseVerdictMarkers_def prose_lines_def marker_step_def prose_marker_of_def units_def fence_eval unit_lower_def VERDICT_WORDS_def)
  ultimately show ?thesis by (simp add: parseStageVerdict_def demo_verdict_def MAX_OUTPUT_CHARS_def units_def)
qed

definition demo_call :: completion_input where
  "demo_call = \<lparr>in_verdict = Some (VText (units ''fail'')),
     in_findings = Some (VArr [VObj [(units ''severity'', VText (units ''P1'')), (units ''text'', VText (units '' x ''))]]),
     in_summary = None, in_result = Some (VText (units ''done  now'')), in_taskSummary = None, in_blocked = None, in_blockedReason = None\<rparr>"

definition demo_done :: normalized_completion where
  "demo_done = \<lparr>done_verdict = demo_verdict\<lparr>verdict_findings := Some [units ''P1'' @ [32, 8212, 32] @ units ''x''],
      rankedFindings := Some [\<lparr>severity = Some SevP1, finding_text = units ''x''\<rparr>], verdict_confidence := None\<rparr>,
    done_summary = None, done_result = Some (units ''done now''), done_taskSummary = None\<rparr>"

lemma demo_reported: "normalizeStageCompletion demo_call = Inr demo_done"
  unfolding demo_call_def demo_done_def demo_verdict_def
  by (simp add: verdict_eval normalizeStageCompletion_def reported_value_def field_text_def read_result_def read_task_summary_def
    none_if_empty_def collapseSpaces_def MAX_STAGE_RESULT_CHARS_def MAX_STAGE_REPORT_SUMMARY_CHARS_def unit_nbsp_def)

theorem verdict_reload_witness: "completionVerdictFrom (verdict_value demo_verdict) = Some demo_verdict"
  using verdict_reload [OF demo_read] by simp

theorem verdict_accepted_witness:
  "verdict_ok False demo_verdict \<and> verdict_ok False (done_verdict demo_done)"
  using verdict_accepted [of demo_parse demo_turn demo_call] demo_parsed demo_reported by blast

theorem completion_call_same_form_witness:
  "completionVerdictFrom (verdict_value (done_verdict demo_done)) = Some (done_verdict demo_done)"
  using completion_call_same_form [OF demo_reported] by blast

end
