(* ===== verification/Pipeline_Lineage.thy ===== *)
theory Pipeline_Lineage
  imports Verdict Js_Text
begin

text \<open>
  What the review budget of a pipeline is read from, \<open>src/lib/pipelines/types.ts\<close>, and the
  readings of \<open>attemptSelection.ts\<close> and \<open>failEdgeBudget.ts\<close>. Loop budgets are never
  stored: they are derived from the activations the attempts carry. The loops that follow an
  attempt back along its activations share one shape, \<open>walk_lineage\<close>; it is
  \<open>None\<close> where the loop would not end. The key of an attempt, which the code prints as
  \<open>stage:number\<close>, is the pair. The fields of a record no definition reads are left out.
\<close>

section \<open>Records\<close>

datatype edge_kind = PassEdge | FailEdge

datatype exhaustion = AdvanceEdge | StopAfterFixEdge | ParkEdge

record fail_edge =
  edge_to :: string
  edge_maxRounds :: int
  edge_onExhausted :: "exhaustion option"

datatype stage_kind = RunKind | ReviewLoopKind

datatype repo_access = ReadOnlyAccess | ReadWriteAccess

record role_ref =
  role_id :: string
  role_params :: "(string \<times> json) list option"

text \<open>\<open>eff_rest\<close> holds the model, the effort, the tiers and the scaffold.\<close>

record effective_role =
  eff_roleId :: "string option"
  eff_engine :: string
  eff_access :: repo_access
  eff_rest :: json

text \<open>\<open>stage_rest\<close> holds the runtime, the engine, the model, the effort and the tiers a stage names.\<close>

record pipeline_stage =
  stage_id :: string
  stage_kind :: stage_kind
  stage_role :: "role_ref option"
  stage_access :: "repo_access option"
  stage_sandbox :: "string option"
  stage_agentMemory :: "json option"
  stage_account :: "json option"
  stage_outputs :: "string list option"
  stage_prompt :: utext
  stage_next :: "string option"
  stage_onFail :: "fail_edge option"
  stage_effectiveRole :: effective_role
  stage_rest :: json

record activation =
  act_stage :: string
  act_attempt :: nat
  act_edge :: edge_kind
  act_budgetSpent :: bool
  act_budgetRecheck :: bool

datatype attempt_state =
    AttemptPending | AttemptSpawning | AttemptRunning | AttemptReviewing | AttemptCommitting
  | AttemptPassed | AttemptFailed | AttemptNeedsDecision | AttemptSkipped

text \<open>Why a lane was stopped for the operator: the detail of its park.\<close>

datatype park_detail =
    ReviewPendingDetail | RecheckFailedDetail nat | BudgetExhaustedDetail nat | BudgetHandedDetail
  | ConvertedDetail string | RunMissingDetail

record stage_attempt =
  attempt_n :: nat
  attempt_state :: attempt_state
  attempt_historical :: bool
  attempt_legacyReview :: bool
  attempt_live :: bool
  attempt_activatedBy :: "activation option"
  attempt_verdict :: "stage_verdict option"
  attempt_startedAt :: "string option"
  attempt_completedAt :: "string option"
  attempt_budgetSpent :: bool
  attempt_reviewedHead :: "string option"
  attempt_reviewHeadSha :: "string option"
  attempt_error :: "park_detail option"

datatype pipeline_state =
    DraftPipe | ProvisioningPipe | RunningPipe | NeedsDecisionPipe | NeedsReviewPipe | PausedPipe | CompletedPipe | ClosedPipe

record review_pending =
  pending_terminalRecheck :: bool
  pending_stage :: string
  pending_attempt :: nat
  pending_fixStage :: string
  pending_fixAttempt :: nat
  pending_reviewedHead :: "string option"
  pending_currentHead :: string
  pending_verdict :: verdict_status
  pending_findings :: nat
  pending_at :: string

record review_grant =
  grant_stage :: string
  grant_terminalAttempt :: "nat option"
  grant_rounds :: int

record pipeline_cursor =
  cursor_stage :: string
  cursor_pending :: bool
  cursor_input :: "utext option"
  cursor_activatedBy :: "activation option"

text \<open>
  A conversion of a review-loop stage into run stages, with the definition it replaced. A conversion
  recorded before the detail was kept has none.
\<close>

datatype pause_actor = OperatorActor | AgentActor "string option" "string option" "string option"

datatype limit_source = RequestLimit | FlowLimit | DefaultLimit

record legacy_original =
  original_stages :: "pipeline_stage list"
  original_run :: "string \<times> stage_attempt list"
  original_cursor :: "pipeline_cursor option"
  original_detail :: "park_detail option option"

record legacy_revert =
  revert_request :: string
  revert_actor :: pause_actor
  revert_at :: string

record legacy_conversion =
  conv_request :: string
  conv_revision :: string
  conv_stage :: string
  conv_fixer :: string
  conv_implementer :: string
  conv_limit :: int
  conv_source :: limit_source
  conv_original :: legacy_original
  conv_digest :: string
  conv_actor :: pause_actor
  conv_at :: string
  conv_reverted :: "legacy_revert option"

record pipeline =
  pipe_state :: pipeline_state
  pipe_pausedState :: "pipeline_state option"
  pipe_detail :: "park_detail option"
  pipe_stages :: "pipeline_stage list"
  pipe_runs :: "(string \<times> stage_attempt list) list"
  pipe_cursor :: "pipeline_cursor option"
  pipe_lastPassedCommit :: string
  pipe_reviewPending :: "review_pending option"
  pipe_reviewGrants :: "review_grant list"
  pipe_conversions :: "legacy_conversion list"

section \<open>Attempts of a stage\<close>

definition attempts_of :: "pipeline \<Rightarrow> string \<Rightarrow> stage_attempt list" where
  "attempts_of p sid = (case js_get (pipe_runs p) sid of Some attempts \<Rightarrow> attempts | None \<Rightarrow> [])"

definition stage_of :: "pipeline \<Rightarrow> string \<Rightarrow> pipeline_stage option" where
  "stage_of p sid = find (\<lambda>s. stage_id s = sid) (pipe_stages p)"

definition own_attempts :: "pipeline \<Rightarrow> string \<Rightarrow> stage_attempt list" where
  "own_attempts p sid = filter (\<lambda>a. \<not> attempt_historical a) (attempts_of p sid)"

definition latestOperationalStageAttempt :: "pipeline \<Rightarrow> string \<Rightarrow> stage_attempt option" where
  "latestOperationalStageAttempt p sid = at_last (own_attempts p sid)"

type_synonym attempt_key = "string \<times> nat"

definition key_of :: "activation \<Rightarrow> attempt_key" where
  "key_of act = (act_stage act, act_attempt act)"

definition source_of :: "pipeline \<Rightarrow> activation \<Rightarrow> stage_attempt option" where
  "source_of p act = find (\<lambda>c. attempt_n c = act_attempt act \<and> \<not> attempt_historical c) (attempts_of p (act_stage act))"

section \<open>The walk back\<close>

datatype ('a, 'r) walk_move = Return 'r | Break | Follow 'a "activation option"

text \<open>
  One loop: \<open>before\<close> may return, a key seen before breaks, \<open>move\<close> returns, breaks or goes
  on to the next activation; a loop that runs out or breaks gives \<open>after\<close>.
\<close>

partial_function (option) walk_lineage ::
  "(activation \<Rightarrow> 'a \<Rightarrow> 'r option) \<Rightarrow> (activation \<Rightarrow> 'a \<Rightarrow> ('a, 'r) walk_move) \<Rightarrow> ('a \<Rightarrow> 'r)
     \<Rightarrow> attempt_key list \<Rightarrow> 'a \<Rightarrow> activation option \<Rightarrow> 'r option" where
  "walk_lineage before move after seen acc a =
     (case a of
        None \<Rightarrow> Some (after acc)
      | Some act \<Rightarrow>
          (case before act acc of
             Some r \<Rightarrow> Some r
           | None \<Rightarrow>
               if key_of act \<in> set seen then Some (after acc)
               else (case move act acc of
                   Return r \<Rightarrow> Some r
                 | Break \<Rightarrow> Some (after acc)
                 | Follow acc' next \<Rightarrow> walk_lineage before move after (key_of act # seen) acc' next)))"

declare walk_lineage.simps [code]

section \<open>The latest attempt of a pipeline\<close>

definition sameActivation :: "activation option \<Rightarrow> activation option \<Rightarrow> bool" where
  "sameActivation left right \<longleftrightarrow>
     (case (left, right) of
        (Some a, Some b) \<Rightarrow> act_stage a = act_stage b \<and> act_attempt a = act_attempt b \<and> act_edge a = act_edge b
      | (None, None) \<Rightarrow> True
      | _ \<Rightarrow> False)"

fun first_time :: "(string \<Rightarrow> int option) \<Rightarrow> string option list \<Rightarrow> int option" where
  "first_time parse [] = None"
| "first_time parse (t # ts) =
     (case (if truthy_text t then parse (the t) else None) of Some time \<Rightarrow> Some time | None \<Rightarrow> first_time parse ts)"

definition attemptTimestamp :: "(string \<Rightarrow> int option) \<Rightarrow> stage_attempt \<Rightarrow> int option" where
  "attemptTimestamp parse a = first_time parse [attempt_startedAt a, attempt_completedAt a]"

definition depth_move :: "(attempt_key, stage_attempt) js_map \<Rightarrow> activation \<Rightarrow> nat \<Rightarrow> (nat, nat) walk_move" where
  "depth_move attempts act depth =
     (case js_get attempts (key_of act) of
        None \<Rightarrow> Break
      | Some parent \<Rightarrow> Follow (depth + 1) (attempt_activatedBy parent))"

definition activationDepth :: "(attempt_key, stage_attempt) js_map \<Rightarrow> string \<Rightarrow> stage_attempt \<Rightarrow> nat option" where
  "activationDepth attempts sid attempt =
     walk_lineage (\<lambda>_ _. None) (depth_move attempts) (\<lambda>depth. depth) [(sid, attempt_n attempt)] 0 (attempt_activatedBy attempt)"

definition candidates_of :: "pipeline \<Rightarrow> (attempt_key \<times> stage_attempt) list" where
  "candidates_of p =
     concat (map (\<lambda>(sid, attempts). map (\<lambda>a. ((sid, attempt_n a), a)) (filter (\<lambda>a. \<not> attempt_historical a) attempts)) (pipe_runs p))"

record selected_attempt =
  selected :: stage_attempt
  selected_time :: "int option"
  selected_depth :: nat

definition later_attempt :: "int option \<Rightarrow> nat \<Rightarrow> selected_attempt \<Rightarrow> bool" where
  "later_attempt time depth s \<longleftrightarrow>
     (case time of
        Some t \<Rightarrow> (case selected_time s of None \<Rightarrow> True | Some t' \<Rightarrow> t > t')
      | None \<Rightarrow> False)
     \<or> time = selected_time s \<and> depth > selected_depth s"

fun select_attempt ::
  "(string \<Rightarrow> int option) \<Rightarrow> (attempt_key, stage_attempt) js_map \<Rightarrow> (attempt_key \<times> stage_attempt) list
     \<Rightarrow> selected_attempt option \<Rightarrow> selected_attempt option option" where
  "select_attempt parse attempts [] best = Some best"
| "select_attempt parse attempts ((key, a) # rest) best =
     (case activationDepth attempts (fst key) a of
        None \<Rightarrow> None
      | Some depth \<Rightarrow>
          (let time = attemptTimestamp parse a in
           select_attempt parse attempts rest
             (if (case best of None \<Rightarrow> True | Some s \<Rightarrow> later_attempt time depth s)
              then Some \<lparr>selected = a, selected_time = time, selected_depth = depth\<rparr> else best)))"

definition cursor_attempt :: "pipeline \<Rightarrow> stage_attempt option" where
  "cursor_attempt p =
     (case pipe_cursor p of
        None \<Rightarrow> None
      | Some c \<Rightarrow>
          (case latestOperationalStageAttempt p (cursor_stage c) of
             Some a \<Rightarrow> if \<not> cursor_pending c \<or> sameActivation (attempt_activatedBy a) (cursor_activatedBy c) then Some a else None
           | None \<Rightarrow> None))"

definition latestOperationalPipelineAttempt :: "(string \<Rightarrow> int option) \<Rightarrow> pipeline \<Rightarrow> stage_attempt option option" where
  "latestOperationalPipelineAttempt parse p =
     (case cursor_attempt p of
        Some a \<Rightarrow> Some (Some a)
      | None \<Rightarrow>
          map_option (map_option selected) (select_attempt parse (js_map_of (candidates_of p)) (candidates_of p) None))"

end
