(* ===== verification/Fail_Edge.thy ===== *)
theory Fail_Edge
  imports Pipeline_Lineage
begin

text \<open>
  The review budget of a fail edge, \<open>src/lib/pipelines/failEdgeBudget.ts\<close>, and where a failed
  attempt goes next, \<open>routeFailedAttempt\<close> of \<open>src/lib/pipelines/engine.ts\<close> with the grants
  it reads. A park is its effect on the attempt and the lane; the note it writes is I/O, and the
  delivery operation and the provider wait it may cancel are outside the record.
\<close>

section \<open>Rounds\<close>

definition terminalReviewBudgetSpent :: "stage_attempt \<Rightarrow> bool \<Rightarrow> bool" where
  "terminalReviewBudgetSpent a allowBlockedRetry \<longleftrightarrow>
     (case attempt_activatedBy a of Some act \<Rightarrow> act_budgetRecheck act | None \<Rightarrow> False)
     \<and> (case attempt_verdict a of
          None \<Rightarrow> False
        | Some v \<Rightarrow> attempt_state a \<in> {AttemptFailed, AttemptNeedsDecision} \<and> verdictRoutesAsFail v False
            \<and> \<not> (allowBlockedRetry \<and> verdict_blocked v = Some True))"

definition blocked_attempt :: "stage_attempt \<Rightarrow> bool" where
  "blocked_attempt a \<longleftrightarrow> (case attempt_verdict a of Some v \<Rightarrow> verdict_blocked v = Some True | None \<Rightarrow> False)"

definition passed_fix :: "pipeline \<Rightarrow> activation \<Rightarrow> bool" where
  "passed_fix p act \<longleftrightarrow> (case source_of p act of Some fix \<Rightarrow> attempt_state fix = AttemptPassed | None \<Rightarrow> False)"

definition recheck_pending :: "pipeline \<Rightarrow> pipeline_stage \<Rightarrow> stage_attempt \<Rightarrow> activation \<Rightarrow> bool" where
  "recheck_pending p stage a act \<longleftrightarrow>
     (case pipe_reviewPending p of
        None \<Rightarrow> True
      | Some pending \<Rightarrow> pending_terminalRecheck pending \<and> pending_stage pending = stage_id stage
          \<and> pending_attempt pending = attempt_n a \<and> pending_fixStage pending = act_stage act
          \<and> pending_fixAttempt pending = act_attempt act \<and> pending_currentHead pending = pipe_lastPassedCommit p)"

definition terminalReviewContinuationAvailable :: "pipeline \<Rightarrow> bool" where
  "terminalReviewContinuationAvailable p \<longleftrightarrow> pipe_state p = NeedsDecisionPipe \<and>
     (case pipe_cursor p of
        None \<Rightarrow> False
      | Some c \<Rightarrow>
        (case stage_of p (cursor_stage c) of
           None \<Rightarrow> False
         | Some stage \<Rightarrow>
           (case latestOperationalStageAttempt p (stage_id stage) of
              None \<Rightarrow> False
            | Some a \<Rightarrow>
              stage_onFail stage \<noteq> None \<and> stage_next stage = None \<and> truthy_text (attempt_completedAt a)
              \<and> terminalReviewBudgetSpent a False \<and> \<not> blocked_attempt a
              \<and> (case attempt_activatedBy a of
                   None \<Rightarrow> False
                 | Some act \<Rightarrow> act_edge act = PassEdge \<and> passed_fix p act \<and> recheck_pending p stage a act))))"

definition edge_key :: "string \<Rightarrow> edge_kind \<Rightarrow> stage_attempt \<Rightarrow> attempt_key list" where
  "edge_key from_stage kind a =
     (case attempt_activatedBy a of
        Some act \<Rightarrow>
          if \<not> attempt_historical a \<and> act_edge act = kind \<and> act_stage act = from_stage then [key_of act] else []
      | None \<Rightarrow> [])"

definition edgeRoundsUsed :: "pipeline \<Rightarrow> string \<Rightarrow> string \<Rightarrow> edge_kind \<Rightarrow> nat" where
  "edgeRoundsUsed p from_stage to_stage kind =
     length (uniq (concat (map (edge_key from_stage kind) (attempts_of p to_stage))))"

definition failEdgeRoundsUsed :: "pipeline \<Rightarrow> pipeline_stage \<Rightarrow> nat" where
  "failEdgeRoundsUsed p stage =
     (case stage_onFail stage of None \<Rightarrow> 0 | Some edge \<Rightarrow> edgeRoundsUsed p (stage_id stage) (edge_to edge) FailEdge)"

definition grants_of :: "pipeline \<Rightarrow> string \<Rightarrow> review_grant list" where
  "grants_of p sid = filter (\<lambda>g. grant_stage g = sid) (pipe_reviewGrants p)"

definition failEdgeMaxRounds :: "pipeline \<Rightarrow> pipeline_stage \<Rightarrow> int" where
  "failEdgeMaxRounds p stage =
     (case stage_onFail stage of
        None \<Rightarrow> 0
      | Some edge \<Rightarrow> edge_maxRounds edge + foldl (\<lambda>sum g. sum + grant_rounds g) 0 (grants_of p (stage_id stage)))"

definition failEdgeExhaustion :: "fail_edge \<Rightarrow> exhaustion" where
  "failEdgeExhaustion edge = (case edge_onExhausted edge of Some e \<Rightarrow> e | None \<Rightarrow> AdvanceEdge)"

definition defaultStageFailEdge :: "pipeline_stage \<Rightarrow> fail_edge option \<Rightarrow> fail_edge option" where
  "defaultStageFailEdge stage edge =
     map_option (\<lambda>e. if eff_roleId (stage_effectiveRole stage) = Some ''visual-critic'' \<and> edge_onExhausted e = None
        then e\<lparr>edge_onExhausted := Some ParkEdge\<rparr> else e) edge"

definition handoffs_of :: "pipeline \<Rightarrow> string \<Rightarrow> stage_attempt list" where
  "handoffs_of p sid = filter (\<lambda>a. \<not> attempt_historical a \<and> attempt_budgetSpent a) (attempts_of p sid)"

definition failEdgeBudgetSpent :: "pipeline \<Rightarrow> pipeline_stage \<Rightarrow> bool" where
  "failEdgeBudgetSpent p stage \<longleftrightarrow>
     length (handoffs_of p (stage_id stage)) > length (grants_of p (stage_id stage))"

definition advance_move :: "pipeline \<Rightarrow> pipeline_stage \<Rightarrow> activation \<Rightarrow> nat \<Rightarrow> (nat, bool) walk_move" where
  "advance_move p stage act firstAttempt =
     (if act_edge act = FailEdge \<and> act_stage act \<noteq> stage_id stage
      then Return (list_ex (\<lambda>s. \<not> attempt_historical s \<and> attempt_n s \<ge> firstAttempt \<and> attempt_budgetSpent s)
        (attempts_of p (stage_id stage)))
      else (case source_of p act of
          None \<Rightarrow> Break
        | Some source \<Rightarrow>
            Follow (if act_stage act = stage_id stage then min firstAttempt (attempt_n source) else firstAttempt)
              (attempt_activatedBy source)))"

definition advanceFailEdgeBudgetSpent :: "pipeline \<Rightarrow> pipeline_stage \<Rightarrow> stage_attempt \<Rightarrow> bool option" where
  "advanceFailEdgeBudgetSpent p stage a =
     walk_lineage (\<lambda>_ _. None) (advance_move p stage) (\<lambda>_. failEdgeBudgetSpent p stage) [] (attempt_n a) (attempt_activatedBy a)"

section \<open>What a stopped lane names\<close>

record review_summary =
  summary_stage :: string
  summary_reviewedHead :: "string option"
  summary_currentHead :: string
  summary_verdict :: verdict_status
  summary_findings :: nat

definition pipelineReviewSummary :: "pipeline \<Rightarrow> review_summary option" where
  "pipelineReviewSummary p =
     (case pipe_reviewPending p of
        None \<Rightarrow> None
      | Some pending \<Rightarrow>
          if pipe_state p \<noteq> NeedsReviewPipe \<and> pipe_pausedState p \<noteq> Some NeedsReviewPipe then None
          else Some \<lparr>summary_stage = pending_stage pending, summary_reviewedHead = pending_reviewedHead pending,
            summary_currentHead = pending_currentHead pending, summary_verdict = pending_verdict pending,
            summary_findings = pending_findings pending\<rparr>)"

record completed_unreviewed =
  unreviewed_stage :: string
  unreviewed_reviewedHead :: "string option"
  unreviewed_currentHead :: string
  unreviewed_findings :: nat

definition finding_count :: "stage_attempt \<Rightarrow> nat" where
  "finding_count a = (case attempt_verdict a of
     Some v \<Rightarrow> (case verdict_findings v of Some fs \<Rightarrow> length fs | None \<Rightarrow> 0) | None \<Rightarrow> 0)"

text \<open>The fix that took the findings a spent review handed on, if it passed.\<close>

definition handed_fix :: "pipeline \<Rightarrow> pipeline_stage \<Rightarrow> fail_edge \<Rightarrow> stage_attempt \<Rightarrow> stage_attempt option" where
  "handed_fix p stage edge review =
     find (\<lambda>a. \<not> attempt_historical a \<and> attempt_state a = AttemptPassed
        \<and> (case attempt_activatedBy a of
             Some act \<Rightarrow> act_edge act = FailEdge \<and> act_budgetSpent act \<and> act_stage act = stage_id stage
               \<and> act_attempt act = attempt_n review
           | None \<Rightarrow> False))
       (attempts_of p (edge_to edge))"

definition unreviewed_step ::
  "pipeline \<Rightarrow> (completed_unreviewed \<times> string) option \<Rightarrow> pipeline_stage \<Rightarrow> (completed_unreviewed \<times> string) option" where
  "unreviewed_step p latest stage =
     (case (stage_onFail stage, latestOperationalStageAttempt p (stage_id stage)) of
        (Some edge, Some review) \<Rightarrow>
          if \<not> attempt_budgetSpent review then latest
          else (case handed_fix p stage edge review of
              None \<Rightarrow> latest
            | Some fix \<Rightarrow>
                (let order = (case attempt_completedAt fix of Some t \<Rightarrow> t | None \<Rightarrow> []) in
                 if (case latest of Some (_, held) \<Rightarrow> str_less order held | None \<Rightarrow> False) then latest
                 else Some (\<lparr>unreviewed_stage = stage_id stage, unreviewed_reviewedHead = attempt_reviewedHead review,
                   unreviewed_currentHead = pipe_lastPassedCommit p, unreviewed_findings = finding_count review\<rparr>, order)))
      | _ \<Rightarrow> latest)"

definition pipelineCompletedUnreviewed :: "pipeline \<Rightarrow> completed_unreviewed option" where
  "pipelineCompletedUnreviewed p =
     (if pipe_state p \<noteq> CompletedPipe then None
      else map_option fst (foldl (unreviewed_step p) None (pipe_stages p)))"

section \<open>Grants\<close>

definition advances :: "pipeline_stage option \<Rightarrow> bool" where
  "advances stage \<longleftrightarrow>
     (case stage of Some s \<Rightarrow> (case stage_onFail s of Some e \<Rightarrow> failEdgeExhaustion e = AdvanceEdge | None \<Rightarrow> False) | None \<Rightarrow> False)"

definition root_grant :: "pipeline \<Rightarrow> activation \<Rightarrow> review_grant option" where
  "root_grant p act =
     (if act_edge act = FailEdge
      then find (\<lambda>g. grant_stage g = act_stage act \<and> grant_terminalAttempt g = Some (act_attempt act)) (pipe_reviewGrants p)
      else None)"

definition grant_before :: "pipeline \<Rightarrow> activation \<Rightarrow> string list \<Rightarrow> review_grant option option" where
  "grant_before p act fulfilled =
     (if act_edge act = FailEdge \<and> act_budgetSpent act
         \<and> (case source_of p act of
              Some s \<Rightarrow> (case attempt_activatedBy s of Some b \<Rightarrow> act_budgetRecheck b | None \<Rightarrow> False) | None \<Rightarrow> False)
         \<and> advances (stage_of p (act_stage act))
      then Some None
      else (case root_grant p act of
          Some g \<Rightarrow>
            if grant_stage g \<in> set fulfilled then None
            else Some (case stage_of p (grant_stage g) of
                Some review \<Rightarrow> if stage_onFail review \<noteq> None then Some g else None
              | None \<Rightarrow> None)
        | None \<Rightarrow> None))"

definition grant_move :: "pipeline \<Rightarrow> activation \<Rightarrow> string list \<Rightarrow> (string list, review_grant option) walk_move" where
  "grant_move p act fulfilled =
     (case source_of p act of
        None \<Rightarrow> Break
      | Some s \<Rightarrow> Follow (if attempt_state s = AttemptPassed then act_stage act # fulfilled else fulfilled) (attempt_activatedBy s))"

definition terminalReviewGrantForAttempt :: "pipeline \<Rightarrow> pipeline_stage \<Rightarrow> stage_attempt \<Rightarrow> review_grant option option" where
  "terminalReviewGrantForAttempt p stage a =
     walk_lineage (grant_before p) (grant_move p) (\<lambda>_. None) []
       (if attempt_state a = AttemptPassed then [stage_id stage] else []) (attempt_activatedBy a)"

definition round_before :: "pipeline \<Rightarrow> string \<Rightarrow> nat \<Rightarrow> activation \<Rightarrow> unit \<Rightarrow> bool option" where
  "round_before p sid terminal act u =
     (if act_edge act = FailEdge \<and> act_stage act = sid \<and> act_attempt act = terminal then Some True
      else if act_edge act = FailEdge \<and> act_stage act = sid
        \<and> list_ex (\<lambda>g. grant_stage g = sid \<and> grant_terminalAttempt g = Some (act_attempt act)) (pipe_reviewGrants p)
      then Some False
      else None)"

definition round_move :: "pipeline \<Rightarrow> activation \<Rightarrow> unit \<Rightarrow> (unit, bool) walk_move" where
  "round_move p act u = (case source_of p act of None \<Rightarrow> Break | Some s \<Rightarrow> Follow () (attempt_activatedBy s))"

definition completed_review :: "nat \<Rightarrow> stage_attempt \<Rightarrow> activation option" where
  "completed_review terminal c =
     (if attempt_n c \<le> terminal \<or> attempt_historical c \<or> attempt_verdict c = None \<or> blocked_attempt c
         \<or> \<not> truthy_text (attempt_completedAt c) \<or> attempt_state c \<notin> {AttemptPassed, AttemptFailed, AttemptNeedsDecision}
      then None
      else (case attempt_activatedBy c of Some act \<Rightarrow> if act_edge act = PassEdge then Some act else None | None \<Rightarrow> None))"

definition review_key :: "pipeline \<Rightarrow> string \<Rightarrow> nat \<Rightarrow> stage_attempt \<Rightarrow> attempt_key list option" where
  "review_key p sid terminal c =
     (case completed_review terminal c of
        None \<Rightarrow> Some []
      | Some act \<Rightarrow>
          map_option (\<lambda>own. if own then [key_of act] else [])
            (walk_lineage (round_before p sid terminal) (round_move p) (\<lambda>_. False) [] () (Some act)))"

definition terminalGrantIsLastRound :: "pipeline \<Rightarrow> review_grant \<Rightarrow> bool option" where
  "terminalGrantIsLastRound p grant =
     (case (grant_terminalAttempt grant, stage_of p (grant_stage grant)) of
        (Some terminal, Some _) \<Rightarrow>
          map_option (\<lambda>keys. int (length (uniq (concat keys))) \<ge> grant_rounds grant - 1)
            (those (map (review_key p (grant_stage grant) terminal)
              (concat (map snd (filter (\<lambda>run. fst run = grant_stage grant) (pipe_runs p))))))
      | _ \<Rightarrow> Some False)"

definition terminalReviewPendingFromAttempt :: "pipeline \<Rightarrow> pipeline_stage \<Rightarrow> stage_attempt \<Rightarrow> review_pending option" where
  "terminalReviewPendingFromAttempt p stage a =
     (case (attempt_activatedBy a, attempt_verdict a) of
        (Some act, Some v) \<Rightarrow>
          if stage_onFail stage = None \<or> stage_next stage \<noteq> None \<or> act_edge act \<noteq> PassEdge \<or> \<not> act_budgetRecheck act
             \<or> verdict_blocked v = Some True \<or> \<not> truthy_text (attempt_completedAt a)
             \<or> attempt_state a \<notin> {AttemptFailed, AttemptNeedsDecision} \<or> \<not> verdictRoutesAsFail v False
          then None
          else (case source_of p act of
              None \<Rightarrow> None
            | Some fix \<Rightarrow>
                if attempt_state fix \<noteq> AttemptPassed then None
                else Some \<lparr>pending_terminalRecheck = True, pending_stage = stage_id stage, pending_attempt = attempt_n a,
                  pending_fixStage = act_stage act, pending_fixAttempt = attempt_n fix,
                  pending_reviewedHead = (case attempt_reviewHeadSha a of Some h \<Rightarrow> Some h | None \<Rightarrow> Some (pipe_lastPassedCommit p)),
                  pending_currentHead = pipe_lastPassedCommit p, pending_verdict = verdict_status v,
                  pending_findings = finding_count a, pending_at = the (attempt_completedAt a)\<rparr>)
      | _ \<Rightarrow> None)"

section \<open>The route of a failed attempt\<close>

text \<open>The attempt a stage's run holds at a position, changed where it stands.\<close>

definition update_attempt :: "string \<Rightarrow> nat \<Rightarrow> (stage_attempt \<Rightarrow> stage_attempt) \<Rightarrow> pipeline \<Rightarrow> pipeline" where
  "update_attempt sid i f p =
     (let attempts = attempts_of p sid in
      if i < length attempts then p\<lparr>pipe_runs := js_set sid (attempts[i := f (attempts ! i)]) (pipe_runs p)\<rparr> else p)"

definition parkPipelineState :: "string \<Rightarrow> nat \<Rightarrow> park_detail \<Rightarrow> pipeline \<Rightarrow> pipeline" where
  "parkPipelineState sid i detail p =
     (update_attempt sid i (\<lambda>a. a\<lparr>attempt_state := (if attempt_state a \<noteq> AttemptFailed then AttemptNeedsDecision else AttemptFailed),
        attempt_error := Some detail\<rparr>) p)
       \<lparr>pipe_state := NeedsDecisionPipe, pipe_pausedState := None, pipe_detail := Some detail\<rparr>"

definition send_along :: "pipeline_stage \<Rightarrow> utext option \<Rightarrow> activation \<Rightarrow> pipeline \<Rightarrow> pipeline" where
  "send_along target input act p =
     p\<lparr>pipe_cursor := Some \<lparr>cursor_stage = stage_id target, cursor_pending = True, cursor_input = input, cursor_activatedBy = Some act\<rparr>,
       pipe_state := RunningPipe, pipe_detail := None, pipe_pausedState := None\<rparr>"

definition granted_to :: "review_grant option \<Rightarrow> string \<Rightarrow> bool" where
  "granted_to grant sid \<longleftrightarrow> (case grant of Some g \<Rightarrow> grant_stage g = sid | None \<Rightarrow> False)"

definition route_recheck :: "pipeline \<Rightarrow> pipeline_stage \<Rightarrow> nat \<Rightarrow> bool \<Rightarrow> pipeline" where
  "route_recheck p stage i reviewed =
     (let a = attempts_of p (stage_id stage) ! i in
      case (if reviewed then terminalReviewPendingFromAttempt p stage a else None) of
        Some pending \<Rightarrow> parkPipelineState (stage_id stage) i ReviewPendingDetail (p\<lparr>pipe_reviewPending := Some pending\<rparr>)
      | None \<Rightarrow> parkPipelineState (stage_id stage) i (RecheckFailedDetail (finding_count a)) p)"

definition route_spent ::
  "pipeline \<Rightarrow> pipeline_stage \<Rightarrow> fail_edge \<Rightarrow> nat \<Rightarrow> utext option \<Rightarrow> bool \<Rightarrow> bool \<Rightarrow> review_grant option \<Rightarrow> bool \<Rightarrow> pipeline \<times> bool" where
  "route_spent p stage edge i input parkOnExhaustedBudget reviewed grant spent =
     (let sid = stage_id stage; a = attempts_of p sid ! i; target = stage_of p (edge_to edge);
          used = failEdgeRoundsUsed p stage;
          advancesWhenSpent = (reviewed \<and> failEdgeExhaustion edge \<noteq> ParkEdge);
          loopRounds = (if advancesWhenSpent then failEdgeMaxRounds p stage - 1 else failEdgeMaxRounds p stage);
          along = \<lparr>act_stage = sid, act_attempt = attempt_n a, act_edge = FailEdge, act_budgetSpent = False, act_budgetRecheck = False\<rparr>
      in case target of
           Some t \<Rightarrow>
             if granted_to grant sid \<or> int used < loopRounds then (send_along t input along p, True)
             else if advancesWhenSpent \<and> \<not> spent then
               (send_along t input (along\<lparr>act_budgetSpent := True\<rparr>)
                  (update_attempt sid i (\<lambda>a. a\<lparr>attempt_budgetSpent := True,
                     attempt_reviewedHead := (case attempt_reviewHeadSha a of Some h \<Rightarrow> Some h | None \<Rightarrow> Some (pipe_lastPassedCommit p))\<rparr>) p),
                True)
             else if parkOnExhaustedBudget then (parkPipelineState sid i (BudgetExhaustedDetail used) p, True)
             else (p, False)
         | None \<Rightarrow> (p, False))"

definition routeFailedAttempt ::
  "pipeline \<Rightarrow> pipeline_stage \<Rightarrow> nat \<Rightarrow> utext option \<Rightarrow> bool \<Rightarrow> bool \<Rightarrow> (pipeline \<times> bool) option" where
  "routeFailedAttempt p stage i input parkOnExhaustedBudget reviewed =
     (let a = attempts_of p (stage_id stage) ! i in
      case stage_onFail stage of
        None \<Rightarrow> Some (p, False)
      | Some edge \<Rightarrow>
        (case terminalReviewGrantForAttempt p stage a of
           None \<Rightarrow> None
         | Some grant \<Rightarrow>
           if \<not> reviewed \<and> granted_to grant (stage_id stage) then Some (p, False)
           else if (case attempt_activatedBy a of Some act \<Rightarrow> act_budgetRecheck act | None \<Rightarrow> False)
           then Some (route_recheck p stage i reviewed, True)
           else
             map_option (route_spent p stage edge i input parkOnExhaustedBudget reviewed grant)
               (if failEdgeExhaustion edge = AdvanceEdge then advanceFailEdgeBudgetSpent p stage a
                else Some (failEdgeBudgetSpent p stage))))"

end
