(* ===== verification/Stage_Graph.thy ===== *)
theory Stage_Graph
  imports Fail_Edge
begin

text \<open>
  The graph of a pipeline's stages, \<open>pipelineGraphError\<close> of \<open>src/lib/pipelines/store.ts\<close> with the
  reachability of \<open>legacyReviewDefinition.ts\<close>: every write of a pipeline's stages passes it. An
  error is a constructor with the stage its message names. The edges of a stage have their declared
  types, so an exhaustion nobody knows and a round count that is no integer do not occur.
\<close>

definition MAX_FAIL_EDGE_ROUNDS :: int where "MAX_FAIL_EDGE_ROUNDS = 9"
definition MAX_PIPELINE_STAGES :: nat where "MAX_PIPELINE_STAGES = 8"

definition isLegacyReviewLoopStage :: "pipeline_stage \<Rightarrow> bool" where
  "isLegacyReviewLoopStage s \<longleftrightarrow> stage_kind s = ReviewLoopKind"

datatype graph_error =
    NextUnknown string | NextItself string | LoopWithFailEdge string | FailUnknown string | FailRounds string
  | PassCycle string | LoopNoRun string | LoopUnreached string string

text \<open>\<open>nextOf.get\<close>: a later stage with the same id wins.\<close>

definition next_of :: "pipeline_stage list \<Rightarrow> string \<Rightarrow> string option" where
  "next_of stages i = Option.bind (js_get (js_map_of (map (\<lambda>s. (stage_id s, stage_next s)) stages)) i) (\<lambda>t. t)"

definition stage_error :: "pipeline_stage list \<Rightarrow> pipeline_stage \<Rightarrow> graph_error option" where
  "stage_error stages s =
     (let ids = stage_id ` set stages in
      if (case stage_next s of Some t \<Rightarrow> t \<notin> ids | None \<Rightarrow> False) then Some (NextUnknown (stage_id s))
      else if stage_next s = Some (stage_id s) then Some (NextItself (stage_id s))
      else (case stage_onFail s of
          None \<Rightarrow> None
        | Some edge \<Rightarrow>
            if isLegacyReviewLoopStage s then Some (LoopWithFailEdge (stage_id s))
            else if edge_to edge \<notin> ids then Some (FailUnknown (stage_id s))
            else if edge_maxRounds edge < 1 \<or> edge_maxRounds edge > MAX_FAIL_EDGE_ROUNDS then Some (FailRounds (stage_id s))
            else None))"

text \<open>The walk from a stage along its pass edges, at most one hop more than there are stages.\<close>

function pass_cycle :: "('a \<Rightarrow> 'a option) \<Rightarrow> nat \<Rightarrow> 'a \<Rightarrow> nat \<Rightarrow> 'a option \<Rightarrow> bool" where
  "pass_cycle succ limit sid hops None = False"
| "pass_cycle succ limit sid hops (Some c) =
     (if c = sid \<or> hops > limit then True else pass_cycle succ limit sid (Suc hops) (succ c))"
  by pat_completeness auto
termination by (relation "measure (\<lambda>(succ, limit, sid, hops, cursor). Suc limit - hops)") auto

function pass_reaches :: "('a \<Rightarrow> 'a option) \<Rightarrow> nat \<Rightarrow> 'a \<Rightarrow> nat \<Rightarrow> 'a option \<Rightarrow> bool" where
  "pass_reaches succ limit sid hops None = False"
| "pass_reaches succ limit sid hops (Some c) =
     (if hops > limit then False else if c = sid then True else pass_reaches succ limit sid (Suc hops) (succ c))"
  by pat_completeness auto
termination by (relation "measure (\<lambda>(succ, limit, sid, hops, cursor). Suc limit - hops)") auto

definition legacyReviewLoopReachable :: "pipeline_stage list \<Rightarrow> string \<Rightarrow> bool" where
  "legacyReviewLoopReachable stages sid \<longleftrightarrow>
     list_ex (\<lambda>s. stage_kind s = RunKind \<and> pass_reaches (next_of stages) (length stages) sid 0 (stage_next s)) stages"

definition unreached_error :: "pipeline_stage list \<Rightarrow> pipeline_stage \<Rightarrow> graph_error option" where
  "unreached_error stages s =
     (if \<not> isLegacyReviewLoopStage s \<or> legacyReviewLoopReachable stages (stage_id s) then None
      else
        (let runs = filter (\<lambda>c. stage_kind c = RunKind) stages in
         if runs = [] then Some (LoopNoRun (stage_id s))
         else Some (LoopUnreached (stage_id s)
           (stage_id (case find (\<lambda>c. stage_next c = None) (rev runs) of Some c \<Rightarrow> c | None \<Rightarrow> last runs)))))"

text \<open>The first error a pass over the stages finds.\<close>

fun first_error :: "('a \<Rightarrow> 'e option) \<Rightarrow> 'a list \<Rightarrow> 'e option" where
  "first_error f [] = None"
| "first_error f (x # xs) = (case f x of Some e \<Rightarrow> Some e | None \<Rightarrow> first_error f xs)"

definition pipelineGraphError :: "pipeline_stage list \<Rightarrow> bool \<Rightarrow> graph_error option" where
  "pipelineGraphError stages legacyReachability =
     (case first_error (stage_error stages) stages of
        Some e \<Rightarrow> Some e
      | None \<Rightarrow>
          (case first_error (\<lambda>s. if pass_cycle (next_of stages) (length stages) (stage_id s) 0 (stage_next s)
              then Some (PassCycle (stage_id s)) else None) stages of
             Some e \<Rightarrow> Some e
           | None \<Rightarrow> if legacyReachability then first_error (unreached_error stages) stages else None))"

end
