(* ===== verification/Legacy_Review.thy ===== *)
theory Legacy_Review
  imports Stage_Graph
begin

text \<open>
  The conversion of a review-loop stage into run stages, \<open>src/lib/pipelines/legacyReviewDefinition.ts\<close>:
  the preview with every refusal, the conversion, its revert, and the conversion of the stages a
  request adds. A refusal is a constructor with what its message names. The registry that resolves
  the role of the fix stage and the digest of a graph are parameters.
\<close>

definition LEGACY_REVIEW_FLOW_ROUND_LIMIT :: int where "LEGACY_REVIEW_FLOW_ROUND_LIMIT = 3"
definition RECOMMENDED_REVIEW_LIMIT :: int where "RECOMMENDED_REVIEW_LIMIT = 3"

definition legacyReviewLoopShapeValid :: "pipeline_stage \<Rightarrow> bool" where
  "legacyReviewLoopShapeValid s \<longleftrightarrow> stage_outputs s = None \<and> stage_onFail s = None
     \<and> eff_access (stage_effectiveRole s) = ReadOnlyAccess"

definition reviewerActivationsForLimit :: "int \<Rightarrow> exhaustion \<Rightarrow> int" where
  "reviewerActivationsForLimit maxRounds onExhausted = (if onExhausted = ParkEdge then maxRounds + 1 else maxRounds)"

section \<open>The preview\<close>

record legacy_options =
  opt_stage :: "string option"
  opt_limit :: "int option"
  opt_implementer :: "string option"

record legacy_context =
  ctx_flowLimit :: "int option"
  ctx_graphError :: "pipeline_stage list \<Rightarrow> graph_error option"
  ctx_resolve :: "role_ref \<Rightarrow> repo_access option \<Rightarrow> effective_role option"

datatype legacy_refusal =
    NoLegacyStage | AmbiguousStage "string list" | NotLegacy string | StageLive string
  | NoImplementer "string option" string | AmbiguousImplementer string "string list" | ImplementerReadOnly string
  | UnlimitedLimit | LimitOutOfRange int | LimitIncrease string int | StageCount nat | FixerId string
  | FixerRole | GraphInvalid graph_error

record legacy_plan =
  plan_stage :: string
  plan_implementer :: string
  plan_fixer :: string
  plan_limit :: int
  plan_source :: limit_source
  plan_activations :: int
  plan_attempts :: nat
  plan_stages :: "pipeline_stage list"

record legacy_refused =
  refused_stage :: "string option"
  refused_refusals :: "legacy_refusal list"
  refused_limit :: "int option"
  refused_recommended :: int
  refused_candidates :: "string list"

definition limit_increased :: "legacy_refusal \<Rightarrow> bool" where
  "limit_increased r \<longleftrightarrow> (case r of LimitIncrease _ _ \<Rightarrow> True | _ \<Rightarrow> False)"

definition refused_preview :: "legacy_refusal list \<Rightarrow> string option \<Rightarrow> int option \<Rightarrow> string list \<Rightarrow> legacy_refused" where
  "refused_preview refusals sid reviewLimit candidates =
     \<lparr>refused_stage = sid, refused_refusals = refusals, refused_limit = reviewLimit,
      refused_recommended = (case reviewLimit of
          Some limit \<Rightarrow> if list_ex limit_increased refusals then min RECOMMENDED_REVIEW_LIMIT limit else RECOMMENDED_REVIEW_LIMIT
        | None \<Rightarrow> RECOMMENDED_REVIEW_LIMIT),
      refused_candidates = candidates\<rparr>"

definition settled_state :: "attempt_state \<Rightarrow> bool" where
  "settled_state s \<longleftrightarrow> s \<in> {AttemptPassed, AttemptFailed, AttemptNeedsDecision, AttemptSkipped}"

definition fixerPrompt :: "string \<Rightarrow> utext" where
  "fixerPrompt reviewId =
     join_lines
       [units ''Fix the findings stage '' @ units reviewId @ units '' reported for: {{task}}'',
        [],
        units ''Review findings:'',
        units ''{{prev.output}}'',
        [],
        units ''Fix each finding at the place it names in this pipeline's worktree, add or adjust the check that shows it where the project has one, commit, and report what changed. A finding you judge wrong stays unfixed: give the evidence in your summary, which the next reviewer reads. The review runs again on your result unless its budget is spent. The pinned specification below is what the whole lane must achieve, and the reviewer judges the lane against it; this round fixes the findings, and the specification's steps for the first build (where to branch, whether to open a pull request) are already done.'']"

definition fixerRole :: "pipeline_stage \<Rightarrow> role_ref" where
  "fixerRole implementer =
     (let params = (case stage_role implementer of
            Some r \<Rightarrow> if role_id r = ''builder'' then (case role_params r of Some ps \<Rightarrow> ps | None \<Rightarrow> []) else []
          | None \<Rightarrow> []);
          held = (\<lambda>key. case js_get params key of Some v \<Rightarrow> [(key, v)] | None \<Rightarrow> [])
      in \<lparr>role_id = ''builder'', role_params = Some ((''mode'', JStr ''apply-fixes'') # held ''domain'' @ held ''size'')\<rparr>)"

definition fixer_candidate :: "string \<Rightarrow> nat \<Rightarrow> string" where
  "fixer_candidate reviewId index =
     (let base = take 57 reviewId @ ''-fix'' in if index = 1 then base else base @ ''-'' @ int_text (int index))"

definition fixerStageId :: "string \<Rightarrow> string set \<Rightarrow> string option" where
  "fixerStageId reviewId taken = find (\<lambda>i. i \<notin> taken) (map (fixer_candidate reviewId) [1..<100])"

definition resolveLimit :: "int option \<Rightarrow> legacy_context \<Rightarrow> int \<times> limit_source" where
  "resolveLimit requested ctx =
     (case requested of
        Some n \<Rightarrow> (n, RequestLimit)
      | None \<Rightarrow> (case ctx_flowLimit ctx of Some n \<Rightarrow> (n, FlowLimit) | None \<Rightarrow> (LEGACY_REVIEW_FLOW_ROUND_LIMIT, DefaultLimit)))"

definition chosen_review :: "pipeline_stage list \<Rightarrow> string option \<Rightarrow> legacy_refusal + pipeline_stage" where
  "chosen_review stages sid =
     (case sid of
        Some i \<Rightarrow>
          (case find (\<lambda>s. stage_id s = i) stages of
             Some s \<Rightarrow> if isLegacyReviewLoopStage s then Inr s else Inl (NotLegacy i)
           | None \<Rightarrow> Inl (NotLegacy i))
      | None \<Rightarrow>
          (case filter isLegacyReviewLoopStage stages of
             [] \<Rightarrow> Inl NoLegacyStage
           | [s] \<Rightarrow> Inr s
           | legacy \<Rightarrow> Inl (AmbiguousStage (map stage_id legacy))))"

definition implementers :: "pipeline_stage list \<Rightarrow> string \<Rightarrow> pipeline_stage list" where
  "implementers stages sid = filter (\<lambda>s. stage_kind s = RunKind \<and> stage_next s = Some sid) stages"

definition chosen_implementer :: "pipeline_stage list \<Rightarrow> string \<Rightarrow> string option \<Rightarrow> legacy_refusal + pipeline_stage" where
  "chosen_implementer stages sid named =
     (let candidates = implementers stages sid in
      case named of
        Some i \<Rightarrow> (case find (\<lambda>s. stage_id s = i) candidates of Some s \<Rightarrow> Inr s | None \<Rightarrow> Inl (NoImplementer (Some i) sid))
      | None \<Rightarrow>
          (case candidates of
             [] \<Rightarrow> Inl (NoImplementer None sid)
           | [s] \<Rightarrow> Inr s
           | _ \<Rightarrow> Inl (AmbiguousImplementer sid (map stage_id candidates))))"

definition implementer_refusals :: "legacy_refusal + pipeline_stage \<Rightarrow> legacy_refusal list" where
  "implementer_refusals chosen =
     (case chosen of
        Inl r \<Rightarrow> [r]
      | Inr s \<Rightarrow> if eff_access (stage_effectiveRole s) \<noteq> ReadWriteAccess then [ImplementerReadOnly (stage_id s)] else [])"

text \<open>The limit of a started gate is never raised.\<close>

definition limit_raised :: "stage_attempt list \<Rightarrow> int option \<Rightarrow> legacy_context \<Rightarrow> bool" where
  "limit_raised own requested ctx \<longleftrightarrow>
     (let r = fst (resolveLimit requested ctx); recorded = fst (resolveLimit None ctx)
      in own \<noteq> [] \<and> r \<le> MAX_FAIL_EDGE_ROUNDS \<and> recorded > 0 \<and> r > recorded)"

definition chosen_limit :: "stage_attempt list \<Rightarrow> int option \<Rightarrow> legacy_context \<Rightarrow> int \<times> limit_source" where
  "chosen_limit own requested ctx = resolveLimit (if limit_raised own requested ctx then None else requested) ctx"

definition limit_refusals :: "string \<Rightarrow> stage_attempt list \<Rightarrow> int option \<Rightarrow> legacy_context \<Rightarrow> legacy_refusal list" where
  "limit_refusals sid own requested ctx =
     (let limit = fst (chosen_limit own requested ctx) in
      (if limit_raised own requested ctx then [LimitIncrease sid (fst (resolveLimit None ctx))] else [])
      @ (if limit = 0 then [UnlimitedLimit]
         else if limit < 1 \<or> limit > MAX_FAIL_EDGE_ROUNDS then [LimitOutOfRange limit] else []))"

definition finite_limit :: "int \<Rightarrow> int option" where
  "finite_limit limit = (if limit < 1 \<or> limit > MAX_FAIL_EDGE_ROUNDS then None else Some limit)"

definition converted_reviewer :: "pipeline_stage \<Rightarrow> string \<Rightarrow> int \<Rightarrow> pipeline_stage" where
  "converted_reviewer review fixer limit =
     review\<lparr>stage_kind := RunKind,
       stage_onFail := Some \<lparr>edge_to = fixer, edge_maxRounds = limit, edge_onExhausted = Some AdvanceEdge\<rparr>\<rparr>"

definition fix_stage_of :: "pipeline_stage \<Rightarrow> effective_role \<Rightarrow> string \<Rightarrow> string \<Rightarrow> pipeline_stage" where
  "fix_stage_of implementer role reviewId fixer =
     \<lparr>stage_id = fixer, stage_kind = RunKind, stage_role = Some (fixerRole implementer), stage_access = stage_access implementer,
      stage_sandbox = stage_sandbox implementer, stage_agentMemory = stage_agentMemory implementer,
      stage_account = (if eff_engine role = eff_engine (stage_effectiveRole implementer) then stage_account implementer else None),
      stage_outputs = None, stage_prompt = fixerPrompt reviewId, stage_next = Some reviewId, stage_onFail = None,
      stage_effectiveRole = role, stage_rest = JObj []\<rparr>"

definition converted_stages :: "pipeline_stage list \<Rightarrow> string \<Rightarrow> pipeline_stage \<Rightarrow> pipeline_stage \<Rightarrow> pipeline_stage list" where
  "converted_stages stages reviewId reviewer fixer = concat (map (\<lambda>s. if stage_id s = reviewId then [reviewer, fixer] else [s]) stages)"

text \<open>Every condition of the preview that would need a guess, all of them at once.\<close>

definition review_refusals :: "pipeline_stage list \<Rightarrow> stage_attempt list \<Rightarrow> legacy_options \<Rightarrow> legacy_context \<Rightarrow> string \<Rightarrow> legacy_refusal list" where
  "review_refusals stages own opts ctx sid =
     (if list_ex (\<lambda>a. \<not> settled_state (attempt_state a) \<or> attempt_live a) own then [StageLive sid] else [])
     @ implementer_refusals (chosen_implementer stages sid (opt_implementer opts))
     @ limit_refusals sid own (opt_limit opts) ctx
     @ (if length stages + 1 > MAX_PIPELINE_STAGES then [StageCount (length stages + 1)] else [])
     @ (if fixerStageId sid (stage_id ` set stages) = None then [FixerId sid] else [])"

text \<open>The plan of a stage nothing is refused for: its fix stage resolves a role and the graph is checked.\<close>

definition planned_conversion ::
  "pipeline_stage list \<Rightarrow> stage_attempt list \<Rightarrow> legacy_context \<Rightarrow> pipeline_stage \<Rightarrow> pipeline_stage \<Rightarrow> string \<Rightarrow> int \<Rightarrow> limit_source \<Rightarrow> legacy_refused + legacy_plan" where
  "planned_conversion stages own ctx review implementer fixer reviewLimit source =
     (let sid = stage_id review; candidates = map stage_id (implementers stages sid) in
      case ctx_resolve ctx (fixerRole implementer) (stage_access implementer) of
        None \<Rightarrow> Inl (refused_preview [FixerRole] (Some sid) (Some reviewLimit) candidates)
      | Some role \<Rightarrow>
          (let converted = converted_stages stages sid (converted_reviewer review fixer reviewLimit) (fix_stage_of implementer role sid fixer)
           in case ctx_graphError ctx converted of
                Some e \<Rightarrow> Inl (refused_preview [GraphInvalid e] (Some sid) (Some reviewLimit) candidates)
              | None \<Rightarrow> Inr \<lparr>plan_stage = sid, plan_implementer = stage_id implementer, plan_fixer = fixer, plan_limit = reviewLimit,
                  plan_source = source, plan_activations = reviewerActivationsForLimit reviewLimit AdvanceEdge,
                  plan_attempts = length own, plan_stages = converted\<rparr>))"

definition preview_review ::
  "pipeline_stage list \<Rightarrow> stage_attempt list \<Rightarrow> legacy_options \<Rightarrow> legacy_context \<Rightarrow> pipeline_stage \<Rightarrow> legacy_refused + legacy_plan" where
  "preview_review stages attempts opts ctx review =
     (let sid = stage_id review;
          own = filter (\<lambda>a. \<not> attempt_historical a) attempts;
          limit = chosen_limit own (opt_limit opts) ctx;
          refusals = review_refusals stages own opts ctx sid
      in case (refusals, chosen_implementer stages sid (opt_implementer opts), fixerStageId sid (stage_id ` set stages), finite_limit (fst limit)) of
           ([], Inr implementer, Some fixer, Some reviewLimit) \<Rightarrow>
             planned_conversion stages own ctx review implementer fixer reviewLimit (snd limit)
         | _ \<Rightarrow> Inl (refused_preview refusals (Some sid) (finite_limit (fst limit)) (map stage_id (implementers stages sid))))"

definition previewLegacyReviewConversion ::
  "pipeline_stage list \<Rightarrow> (string \<times> stage_attempt list) list \<Rightarrow> legacy_options \<Rightarrow> legacy_context \<Rightarrow> legacy_refused + legacy_plan" where
  "previewLegacyReviewConversion stages runs opts ctx =
     (case chosen_review stages (opt_stage opts) of
        Inl r \<Rightarrow> Inl (refused_preview [r] (opt_stage opts) None [])
      | Inr review \<Rightarrow>
          preview_review stages (case js_get runs (stage_id review) of Some attempts \<Rightarrow> attempts | None \<Rightarrow> []) opts ctx review)"

section \<open>The conversion\<close>

definition to_history :: "stage_attempt \<Rightarrow> stage_attempt" where
  "to_history a = (if attempt_historical a then a else a\<lparr>attempt_historical := True, attempt_legacyReview := True\<rparr>)"

definition with_fix_run :: "string \<Rightarrow> string \<Rightarrow> (string \<times> stage_attempt list) list \<Rightarrow> (string \<times> stage_attempt list) list" where
  "with_fix_run sid fixer runs = concat (map (\<lambda>r. if fst r = sid then [r, (fixer, [])] else [r]) runs)"

definition conversion_of :: "(pipeline_stage list \<Rightarrow> string) \<Rightarrow> pipeline \<Rightarrow> legacy_plan \<Rightarrow> stage_attempt list \<Rightarrow> string \<Rightarrow> string \<Rightarrow> pause_actor \<Rightarrow> string \<Rightarrow> legacy_conversion" where
  "conversion_of digest p plan attempts request revision actor at_time =
     \<lparr>conv_request = request, conv_revision = revision, conv_stage = plan_stage plan, conv_fixer = plan_fixer plan,
      conv_implementer = plan_implementer plan, conv_limit = plan_limit plan, conv_source = plan_source plan,
      conv_original = \<lparr>original_stages = pipe_stages p, original_run = (plan_stage plan, attempts), original_cursor = pipe_cursor p,
        original_detail = Some (pipe_detail p)\<rparr>,
      conv_digest = digest (plan_stages plan), conv_actor = actor, conv_at = at_time, conv_reverted = None\<rparr>"

text \<open>\<open>None\<close> is the throw over a stage without a record of its runs.\<close>

definition applyLegacyReviewConversion ::
  "(pipeline_stage list \<Rightarrow> string) \<Rightarrow> pipeline \<Rightarrow> legacy_plan \<Rightarrow> string \<Rightarrow> string \<Rightarrow> pause_actor \<Rightarrow> string \<Rightarrow> (pipeline \<times> legacy_conversion) option" where
  "applyLegacyReviewConversion digest p plan request revision actor at_time =
     (case js_get (pipe_runs p) (plan_stage plan) of
        None \<Rightarrow> None
      | Some attempts \<Rightarrow>
          (let sid = plan_stage plan; conversion = conversion_of digest p plan attempts request revision actor at_time;
               here = (case pipe_cursor p of Some c \<Rightarrow> cursor_stage c = sid | None \<Rightarrow> False);
               waits = pipe_state p = NeedsDecisionPipe \<or> pipe_pausedState p = Some NeedsDecisionPipe
           in Some (p\<lparr>pipe_detail := (if here \<and> waits then Some (ConvertedDetail sid) else pipe_detail p),
               pipe_stages := plan_stages plan,
               pipe_runs := with_fix_run sid (plan_fixer plan)
                 (update_first (\<lambda>r. fst r = sid) (\<lambda>r. (fst r, map to_history (snd r))) (pipe_runs p)),
               pipe_cursor := (if here then map_option (\<lambda>c. c\<lparr>cursor_pending := True\<rparr>) (pipe_cursor p) else pipe_cursor p),
               pipe_conversions := pipe_conversions p @ [conversion]\<rparr>, conversion)))"

section \<open>The revert\<close>

datatype legacy_revert_error = NothingToRevert string | RanUnderConversion string | GraphChanged string

definition open_conversion :: "string \<Rightarrow> legacy_conversion \<Rightarrow> bool" where
  "open_conversion sid c \<longleftrightarrow> conv_stage c = sid \<and> conv_reverted c = None"

definition ran_since :: "legacy_conversion \<Rightarrow> pipeline \<Rightarrow> bool" where
  "ran_since c p \<longleftrightarrow>
     list_ex (\<lambda>r. (fst r = conv_stage c \<or> fst r = conv_fixer c) \<and> list_ex (\<lambda>a. \<not> attempt_historical a) (snd r)) (pipe_runs p)"

definition restored_cursor :: "legacy_conversion \<Rightarrow> pipeline_cursor option \<Rightarrow> pipeline_cursor option" where
  "restored_cursor c cursor =
     (case cursor of
        Some k \<Rightarrow> if cursor_stage k = conv_stage c \<or> cursor_stage k = conv_fixer c then original_cursor (conv_original c) else cursor
      | None \<Rightarrow> None)"

definition revertLegacyReviewConversion ::
  "(pipeline_stage list \<Rightarrow> string) \<Rightarrow> pipeline \<Rightarrow> string \<Rightarrow> legacy_revert \<Rightarrow> legacy_revert_error + (pipeline \<times> legacy_conversion)" where
  "revertLegacyReviewConversion digest p sid receipt =
     (case find (open_conversion sid) (rev (pipe_conversions p)) of
        None \<Rightarrow> Inl (NothingToRevert sid)
      | Some c \<Rightarrow>
          if ran_since c p then Inl (RanUnderConversion sid)
          else if digest (pipe_stages p) \<noteq> conv_digest c then Inl (GraphChanged sid)
          else
            (let reverted = c\<lparr>conv_reverted := Some receipt\<rparr>; original = conv_original c
             in Inr (p\<lparr>pipe_detail := (case original_detail original of Some detail \<Rightarrow> detail | None \<Rightarrow> pipe_detail p),
                 pipe_stages := original_stages original,
                 pipe_runs := map (\<lambda>r. if fst r = conv_stage c then original_run original else r)
                   (filter (\<lambda>r. fst r \<noteq> conv_fixer c) (pipe_runs p)),
                 pipe_cursor := restored_cursor c (pipe_cursor p),
                 pipe_conversions := rev (update_first (open_conversion sid) (\<lambda>_. reverted) (rev (pipe_conversions p)))\<rparr>, reverted)))"

section \<open>Stages a request adds\<close>

record new_review_outcome =
  outcome_stages :: "pipeline_stage list"
  outcome_converted :: "(string \<times> string) list"
  outcome_legacy :: "(string \<times> legacy_refusal list) list"

definition convert_added :: "legacy_context \<Rightarrow> new_review_outcome \<Rightarrow> string \<Rightarrow> new_review_outcome" where
  "convert_added ctx so sid =
     (case previewLegacyReviewConversion (outcome_stages so) [] \<lparr>opt_stage = Some sid, opt_limit = None, opt_implementer = None\<rparr> ctx of
        Inr plan \<Rightarrow> so\<lparr>outcome_stages := plan_stages plan, outcome_converted := outcome_converted so @ [(sid, plan_fixer plan)]\<rparr>
      | Inl r \<Rightarrow> so\<lparr>outcome_legacy := outcome_legacy so @ [(sid, refused_refusals r)]\<rparr>)"

definition convertNewLegacyReviewStages ::
  "pipeline_stage list \<Rightarrow> string set \<Rightarrow> legacy_context \<Rightarrow> new_review_outcome" where
  "convertNewLegacyReviewStages stages preserved ctx =
     (let added = map stage_id (filter (\<lambda>s. isLegacyReviewLoopStage s \<and> stage_id s \<notin> preserved) stages)
      in foldl (convert_added (ctx\<lparr>ctx_flowLimit := None\<rparr>)) \<lparr>outcome_stages = stages, outcome_converted = [], outcome_legacy = []\<rparr> added)"

end
