(* ===== verification/Live_Text.thy ===== *)
theory Live_Text
  imports Unit_Text
begin

text \<open>
  Text as code points and as UTF-8 bytes, for the code of \<open>src/lib/runtime/liveTurn.ts\<close> that
  counts characters and cuts at bytes: \<open>[...value]\<close>, \<open>TextEncoder\<close> and \<open>TextDecoder\<close> of the
  language's library, \<open>JSON.stringify\<close>, and the functions over them.
\<close>

section \<open>Code points\<close>

definition high_unit :: "nat \<Rightarrow> bool" where "high_unit u \<longleftrightarrow> 55296 \<le> u \<and> u < 56320"
definition low_unit :: "nat \<Rightarrow> bool" where "low_unit u \<longleftrightarrow> 56320 \<le> u \<and> u < 57344"

text \<open>\<open>[...value]\<close>: a surrogate that has no partner stands for itself.\<close>

fun points :: "utext \<Rightarrow> nat list" where
  "points [] = []"
| "points [u] = [u]"
| "points (u # v # s) =
     (if high_unit u \<and> low_unit v then (65536 + (u - 55296) * 1024 + (v - 56320)) # points s else u # points (v # s))"

definition point_units :: "nat \<Rightarrow> utext" where
  "point_units p = (if p < 65536 then [p] else [55296 + (p - 65536) div 1024, 56320 + (p - 65536) mod 1024])"

definition point_text :: "nat list \<Rightarrow> utext" where
  "point_text ps = concat (map point_units ps)"

definition char_count :: "utext \<Rightarrow> nat" where "char_count s = length (points s)"

definition scalar :: "nat \<Rightarrow> bool" where
  "scalar p \<longleftrightarrow> p < 55296 \<or> 57344 \<le> p \<and> p < 1114112"

lemma point_text_simps [simp]: "point_text [] = []" "point_text (p # ps) = point_units p @ point_text ps"
  "point_text (ps @ qs) = point_text ps @ point_text qs"
  by (simp_all add: point_text_def)

lemma points_scalar_step: "scalar p \<Longrightarrow> points (point_units p @ s) = p # points s"
proof (cases "p < 65536")
  case True
  assume "scalar p"
  with True have "\<not> high_unit p" by (auto simp: scalar_def high_unit_def)
  with True show ?thesis by (cases s) (simp_all add: point_units_def)
next
  case False
  assume p: "scalar p"
  let ?q = "p - 65536"
  from p False have "?q < 1048576" by (auto simp: scalar_def)
  then have "?q div 1024 < 1024" by (simp add: less_mult_imp_div_less)
  then have "high_unit (55296 + ?q div 1024)" "low_unit (56320 + ?q mod 1024)" by (simp_all add: high_unit_def low_unit_def)
  moreover have "65536 + (?q div 1024 * 1024 + ?q mod 1024) = p" using False by simp
  ultimately show ?thesis using False by (simp add: point_units_def add.assoc)
qed

text \<open>Texts of whole characters: every code point is a scalar value.\<close>

lemma points_point_text: "\<forall>p \<in> set ps. scalar p \<Longrightarrow> points (point_text ps) = ps"
  by (induction ps) (simp_all add: points_scalar_step)

lemma points_append:
  "\<forall>p \<in> set (points s). scalar p \<Longrightarrow> points (s @ t) = points s @ points t"
proof (induction s rule: points.induct)
  case (2 u)
  then have "\<not> high_unit u" by (auto simp: scalar_def high_unit_def)
  then show ?case by (cases t) simp_all
qed auto

lemma points_append_single: "points s \<noteq> [] \<longleftrightarrow> s \<noteq> []"
  by (cases s rule: points.cases) auto

lemma char_count_append: "\<forall>p \<in> set (points s). scalar p \<Longrightarrow> char_count (s @ t) = char_count s + char_count t"
  by (simp add: char_count_def points_append)

lemma points_bound: "\<forall>u \<in> set s. u < 65536 \<Longrightarrow> p \<in> set (points s) \<Longrightarrow> p < 1114112"
proof (induction s rule: points.induct)
  case (3 u v s)
  show ?case
  proof (cases "high_unit u \<and> low_unit v")
    case True
    then have "u - 55296 \<le> 1023" "v - 56320 \<le> 1023" by (auto simp: high_unit_def low_unit_def)
    with True 3 show ?thesis by auto
  next
    case False
    with 3 show ?thesis by auto
  qed
qed auto

section \<open>UTF-8\<close>

definition point_bytes :: "nat \<Rightarrow> nat list" where
  "point_bytes p =
     (if p < 128 then [p]
      else if p < 2048 then [192 + p div 64, 128 + p mod 64]
      else if p < 65536 then [224 + p div 4096, 128 + p div 64 mod 64, 128 + p mod 64]
      else [240 + p div 262144, 128 + p div 4096 mod 64, 128 + p div 64 mod 64, 128 + p mod 64])"

text \<open>\<open>TextEncoder\<close>: a surrogate without a partner is encoded as the replacement character.\<close>

definition as_scalar :: "nat \<Rightarrow> nat" where
  "as_scalar p = (if scalar p then p else 65533)"

definition utf8 :: "utext \<Rightarrow> nat list" where
  "utf8 s = concat (map (point_bytes \<circ> as_scalar) (points s))"

definition utf8Length :: "utext \<Rightarrow> nat" where
  "utf8Length s = length (utf8 s)"

definition continuation :: "nat \<Rightarrow> bool" where
  "continuation b \<longleftrightarrow> 128 \<le> b \<and> b < 192"

definition continuations :: "nat \<Rightarrow> nat option" where
  "continuations b =
     (if b < 128 then Some 0 else if b < 192 then None else if b < 224 then Some 1
      else if b < 240 then Some 2 else if b < 248 then Some 3 else None)"

definition joined :: "nat \<Rightarrow> nat list \<Rightarrow> nat" where
  "joined b cs = foldl (\<lambda>p c. p * 64 + (c - 128))
     (case length cs of 0 \<Rightarrow> b | Suc 0 \<Rightarrow> b - 192 | Suc (Suc 0) \<Rightarrow> b - 224 | _ \<Rightarrow> b - 240) cs"

text \<open>
  \<open>TextDecoder\<close>: a byte that starts no character is the replacement character, which no caller
  here meets, and one byte order mark at the start is dropped.
\<close>

fun utf8_points :: "nat list \<Rightarrow> nat list" where
  "utf8_points [] = []"
| "utf8_points (b # bs) =
     (case continuations b of
        None \<Rightarrow> 65533 # utf8_points bs
      | Some n \<Rightarrow>
          if n \<le> length bs \<and> list_all continuation (take n bs)
          then joined b (take n bs) # utf8_points (drop n bs) else 65533 # utf8_points bs)"

definition drop_mark :: "nat list \<Rightarrow> nat list" where
  "drop_mark ps = (case ps of p # rest \<Rightarrow> if p = 65279 then rest else ps | [] \<Rightarrow> [])"

definition utf8_text :: "nat list \<Rightarrow> utext" where
  "utf8_text bs = point_text (drop_mark (utf8_points bs))"

lemma mod64_bytes: "continuation (128 + n mod 64)"
  by (simp add: continuation_def)

lemma div_block: "n div (m * k) * k + n div m mod k = n div (m :: nat)"
  by (simp add: div_mult2_eq)

lemma utf8_points_step: "scalar p \<Longrightarrow> utf8_points (point_bytes p @ bs) = p # utf8_points bs"
proof -
  assume p: "scalar p"
  then have top: "p < 1114112" by (auto simp: scalar_def)
  consider "p < 128" | "128 \<le> p" "p < 2048" | "2048 \<le> p" "p < 65536" | "65536 \<le> p" by linarith
  then show ?thesis
  proof cases
    case 1
    then show ?thesis by (simp add: point_bytes_def continuations_def joined_def)
  next
    case 2
    then have "p div 64 < 32" "2 \<le> p div 64" by (auto simp: div_less_iff_less_mult less_eq_div_iff_mult_less_eq)
    with 2 show ?thesis by (simp add: point_bytes_def continuations_def joined_def mod64_bytes)
  next
    case 3
    then have "p div 4096 < 16" by (simp add: div_less_iff_less_mult)
    moreover note div_block [of p 64 64]
    ultimately show ?thesis using 3 by (simp add: point_bytes_def continuations_def joined_def mod64_bytes)
  next
    case 4
    have "p div 262144 < 5" using top by (simp add: div_less_iff_less_mult)
    moreover note div_block [of p 4096 64] div_block [of p 64 64]
    ultimately show ?thesis using 4 by (simp add: point_bytes_def continuations_def joined_def mod64_bytes)
  qed
qed

lemma utf8_points_all: "\<forall>p \<in> set ps. scalar p \<Longrightarrow> utf8_points (concat (map point_bytes ps)) = ps"
  by (induction ps) (simp_all add: utf8_points_step)

lemma as_scalar [simp]: "scalar (as_scalar p)" "scalar p \<Longrightarrow> as_scalar p = p"
  by (simp_all add: as_scalar_def scalar_def)

definition clean_text :: "utext \<Rightarrow> bool" where
  "clean_text s \<longleftrightarrow> (\<forall>p \<in> set (points s). scalar p \<and> p \<noteq> 65279)"

text \<open>The code points of a text as the encoder sees them, and the bytes they take.\<close>

definition scalar_points :: "utext \<Rightarrow> nat list" where
  "scalar_points s = map as_scalar (points s)"

definition byte_size :: "nat list \<Rightarrow> nat" where
  "byte_size ps = length (concat (map point_bytes ps))"

lemma scalars_all [simp]: "\<forall>p \<in> set (scalar_points s). scalar p"
  by (simp add: scalar_points_def)

lemma scalars_id: "\<forall>p \<in> set (points s). scalar p \<Longrightarrow> scalar_points s = points s"
  unfolding scalar_points_def by (rule map_idI) simp

lemma scalars_point_text: "\<forall>p \<in> set ps. scalar p \<Longrightarrow> scalar_points (point_text ps) = ps"
  by (simp add: scalars_id points_point_text)

lemma utf8_scalars: "utf8 s = concat (map point_bytes (scalar_points s))"
  by (simp add: utf8_def scalar_points_def comp_def)

lemma utf8Length_scalars: "utf8Length s = byte_size (scalar_points s)"
  by (simp add: utf8Length_def utf8_scalars byte_size_def)

lemma byte_size_simps [simp]: "byte_size [] = 0" "byte_size (p # ps) = length (point_bytes p) + byte_size ps"
  "byte_size (ps @ qs) = byte_size ps + byte_size qs"
  by (simp_all add: byte_size_def)

lemma utf8Length_Nil [simp]: "utf8Length [] = 0"
  by (simp add: utf8Length_scalars scalar_points_def)

lemma utf8Length_point_text: "\<forall>p \<in> set ps. scalar p \<Longrightarrow> utf8Length (point_text ps) = byte_size ps"
  by (simp add: utf8Length_scalars scalars_point_text)

lemma drop_mark_size: "byte_size (drop_mark ps) \<le> byte_size ps"
  by (cases ps) (simp_all add: drop_mark_def)

lemma drop_mark_scalar: "\<forall>p \<in> set ps. scalar p \<Longrightarrow> \<forall>p \<in> set (drop_mark ps). scalar p"
  by (cases ps) (simp_all add: drop_mark_def)

lemma drop_mark_none: "65279 \<notin> set ps \<Longrightarrow> drop_mark ps = ps"
  by (cases ps) (auto simp: drop_mark_def)

section \<open>Cutting the start of a text\<close>

text \<open>The first byte at or after \<open>bytes\<close> that starts a character.\<close>

definition cut_start :: "nat list \<Rightarrow> nat \<Rightarrow> nat" where
  "cut_start encoded bytes =
     (let start = min bytes (length encoded) in start + length (takeWhile continuation (drop start encoded)))"

definition trimUtf8Start :: "utext \<Rightarrow> nat \<Rightarrow> nat \<times> utext" where
  "trimUtf8Start s bytes =
     (let encoded = utf8 s; start = cut_start encoded bytes
      in (char_count (utf8_text (take start encoded)), utf8_text (drop start encoded)))"

lemma point_bytes_shape:
  assumes "scalar p"
  obtains b cs where "point_bytes p = b # cs" "\<not> continuation b" "list_all continuation cs"
proof -
  from assms have top: "p < 1114112" by (auto simp: scalar_def)
  consider "p < 128" | "128 \<le> p" "p < 2048" | "2048 \<le> p" "p < 65536" | "65536 \<le> p" by linarith
  then show thesis
  proof cases
    case 1
    then show thesis by (intro that [of p "[]"]) (simp_all add: point_bytes_def continuation_def)
  next
    case 2
    then show thesis by (intro that [of "192 + p div 64" "[128 + p mod 64]"]) (simp_all add: point_bytes_def continuation_def)
  next
    case 3
    then show thesis by (intro that [of "224 + p div 4096" "[128 + p div 64 mod 64, 128 + p mod 64]"])
        (simp_all add: point_bytes_def continuation_def)
  next
    case 4
    then show thesis by (intro that [of "240 + p div 262144" "[128 + p div 4096 mod 64, 128 + p div 64 mod 64, 128 + p mod 64]"])
        (simp_all add: point_bytes_def continuation_def)
  qed
qed

lemma take_continuations:
  assumes "\<forall>p \<in> set ps. scalar p"
  shows "takeWhile continuation (concat (map point_bytes ps)) = []"
  using assms by (cases ps) (auto elim!: point_bytes_shape)

lemma cut_at_character:
  assumes "\<forall>p \<in> set ps. scalar p"
  obtains k where "k \<le> length ps" "cut_start (concat (map point_bytes ps)) n = byte_size (take k ps)"
    "min n (byte_size ps) \<le> byte_size (take k ps)"
proof -
  have "\<exists>k. k \<le> length ps \<and> cut_start (concat (map point_bytes ps)) n = byte_size (take k ps)
    \<and> min n (byte_size ps) \<le> byte_size (take k ps)"
    using assms
  proof (induction ps arbitrary: n)
    case (Cons p ps)
    let ?all = "concat (map point_bytes (p # ps))" and ?rest = "concat (map point_bytes ps)"
    from Cons.prems obtain b cs where p: "point_bytes p = b # cs" "\<not> continuation b" "list_all continuation cs"
      by (auto elim: point_bytes_shape)
    consider (zero) "n = 0" | (inside) "0 < n" "n < length (point_bytes p)" | (past) "length (point_bytes p) \<le> n" by linarith
    then show ?case
    proof cases
      case zero
      then show ?thesis using p by (intro exI [of _ 0]) (simp add: cut_start_def)
    next
      case inside
      from inside p have "\<forall>x \<in> set (drop n (point_bytes p)). continuation x"
        by (cases n) (auto simp: list_all_iff dest: in_set_dropD)
      then have "takeWhile continuation (drop n ?all) = drop n (point_bytes p)"
        using inside take_continuations [of ps] Cons.prems by (simp add: takeWhile_append2)
      with inside show ?thesis by (intro exI [of _ 1]) (simp add: cut_start_def Let_def min_def)
    next
      case past
      from Cons.IH [of "n - length (point_bytes p)"] Cons.prems obtain k where k: "k \<le> length ps"
        "cut_start ?rest (n - length (point_bytes p)) = byte_size (take k ps)"
        "min (n - length (point_bytes p)) (byte_size ps) \<le> byte_size (take k ps)" by auto
      have "min n (length (point_bytes p) + length ?rest) = length (point_bytes p) + min (n - length (point_bytes p)) (length ?rest)"
        using past by simp
      then have "cut_start ?all n = length (point_bytes p) + cut_start ?rest (n - length (point_bytes p))"
        by (simp add: cut_start_def Let_def)
      with k past show ?thesis by (intro exI [of _ "Suc k"]) simp
    qed
  qed (simp add: cut_start_def)
  then show thesis using that by blast
qed

lemma trim_parts:
  obtains k where "k \<le> length (scalar_points s)" "min n (utf8Length s) \<le> byte_size (take k (scalar_points s))"
    "trimUtf8Start s n = (length (drop_mark (take k (scalar_points s))), point_text (drop_mark (drop k (scalar_points s))))"
proof -
  let ?ps = "scalar_points s"
  from cut_at_character [OF scalars_all, of s n] obtain k where k: "k \<le> length ?ps"
    "cut_start (concat (map point_bytes ?ps)) n = byte_size (take k ?ps)" "min n (byte_size ?ps) \<le> byte_size (take k ?ps)" .
  have split: "concat (map point_bytes ?ps) = concat (map point_bytes (take k ?ps)) @ concat (map point_bytes (drop k ?ps))"
    by (metis append_take_drop_id concat_append map_append)
  have parts: "\<forall>p \<in> set (take k ?ps). scalar p" "\<forall>p \<in> set (drop k ?ps). scalar p"
    using scalars_all [of s] by (auto dest: in_set_takeD in_set_dropD)
  have cuts: "take (byte_size (take k ?ps)) (utf8 s) = concat (map point_bytes (take k ?ps))"
    "drop (byte_size (take k ?ps)) (utf8 s) = concat (map point_bytes (drop k ?ps))"
    unfolding utf8_scalars split byte_size_def by simp_all
  have "trimUtf8Start s n = (length (drop_mark (take k ?ps)), point_text (drop_mark (drop k ?ps)))"
    unfolding trimUtf8Start_def Let_def utf8_scalars k(2) unfolding utf8_scalars [symmetric] cuts
    using drop_mark_scalar [OF parts(1)] by (simp add: utf8_text_def utf8_points_all parts char_count_def points_point_text)
  with k that show thesis by (simp add: utf8Length_scalars)
qed

text \<open>Trimming frees at least the bytes asked for, or the whole text.\<close>

lemma trim_frees: "utf8Length (snd (trimUtf8Start s n)) \<le> utf8Length s - n"
proof -
  from trim_parts [of s n] obtain k where k: "min n (utf8Length s) \<le> byte_size (take k (scalar_points s))"
    "trimUtf8Start s n = (length (drop_mark (take k (scalar_points s))), point_text (drop_mark (drop k (scalar_points s))))" by blast
  have "\<forall>p \<in> set (drop k (scalar_points s)). scalar p" using scalars_all [of s] by (auto dest: in_set_dropD)
  then have "utf8Length (snd (trimUtf8Start s n)) \<le> byte_size (drop k (scalar_points s))"
    using k(2) drop_mark_size by (simp add: utf8Length_point_text drop_mark_scalar)
  moreover have "byte_size (take k (scalar_points s)) + byte_size (drop k (scalar_points s)) = utf8Length s"
    by (metis append_take_drop_id byte_size_simps(3) utf8Length_scalars)
  ultimately show ?thesis using k(1) by linarith
qed

text \<open>What is trimmed is counted, and what stays is as clean as it was.\<close>

lemma trim_counts:
  assumes "clean_text s"
  shows "fst (trimUtf8Start s n) + char_count (snd (trimUtf8Start s n)) = char_count s"
    and "clean_text (snd (trimUtf8Start s n))"
proof -
  from assms have ps: "scalar_points s = points s" by (intro scalars_id) (simp add: clean_text_def)
  from trim_parts [of s n] obtain k where k: "k \<le> length (points s)"
    "trimUtf8Start s n = (length (drop_mark (take k (points s))), point_text (drop_mark (drop k (points s))))" unfolding ps by blast
  have "65279 \<notin> set (take k (points s))" "65279 \<notin> set (drop k (points s))" and sc: "\<forall>p \<in> set (drop k (points s)). scalar p"
    using assms by (auto simp: clean_text_def dest: in_set_takeD in_set_dropD)
  then have t: "trimUtf8Start s n = (k, point_text (drop k (points s)))" using k by (simp add: drop_mark_none)
  show "fst (trimUtf8Start s n) + char_count (snd (trimUtf8Start s n)) = char_count s"
    using k(1) sc by (simp add: t char_count_def points_point_text)
  show "clean_text (snd (trimUtf8Start s n))"
    using assms sc by (auto simp: t clean_text_def points_point_text dest: in_set_dropD)
qed

lemma clean_append: "clean_text s \<Longrightarrow> clean_text t \<Longrightarrow> clean_text (s @ t) \<and> char_count (s @ t) = char_count s + char_count t"
  using points_append [of s t] by (auto simp: clean_text_def char_count_append)

section \<open>Clipping and JSON\<close>

definition clipChars :: "utext \<Rightarrow> nat \<Rightarrow> utext" where
  "clipChars s limit = (if length (points s) > limit then point_text (take (limit - 1) (points s)) @ [8230] else s)"

text \<open>\<open>JSON.stringify\<close>; \<open>num\<close> is how the language writes a finite number.\<close>

definition hex_unit :: "nat \<Rightarrow> nat" where
  "hex_unit d = (if d < 10 then 48 + d else 87 + d)"

definition escaped :: "nat \<Rightarrow> utext" where
  "escaped u = [92, 117, hex_unit (u div 4096), hex_unit (u div 256 mod 16), hex_unit (u div 16 mod 16), hex_unit (u mod 16)]"

definition quoted_point :: "nat \<Rightarrow> utext" where
  "quoted_point p =
     (if p = 34 then [92, 34] else if p = 92 then [92, 92]
      else if p = 8 then [92, 98] else if p = 12 then [92, 102] else if p = 10 then [92, 110]
      else if p = 13 then [92, 114] else if p = 9 then [92, 116]
      else if p < 32 \<or> \<not> scalar p then escaped p else point_units p)"

definition quoted :: "utext \<Rightarrow> utext" where
  "quoted s = 34 # concat (map quoted_point (points s)) @ [34]"

fun comma_join :: "utext list \<Rightarrow> utext" where
  "comma_join [] = []"
| "comma_join [t] = t"
| "comma_join (t # u # ts) = t @ 44 # comma_join (u # ts)"

lemma size_value_field [termination_simp]: "(k, v) \<in> set es \<Longrightarrow> size v < Suc (size_list (size_prod (\<lambda>x. 0) size) es)"
  for v :: js_value
  by (induction es) auto

fun stringify :: "(rat \<Rightarrow> utext) \<Rightarrow> js_value \<Rightarrow> utext" where
  "stringify num VNull = units ''null''"
| "stringify num (VBool b) = units (if b then ''true'' else ''false'')"
| "stringify num (VNum None) = units ''null''"
| "stringify num (VNum (Some r)) = num r"
| "stringify num (VText t) = quoted t"
| "stringify num (VArr vs) = 91 # comma_join (map (stringify num) vs) @ [93]"
| "stringify num (VObj es) = 123 # comma_join (map (\<lambda>(k, v). quoted k @ 58 # stringify num v) es) @ [125]"

declare stringify.simps [simp del]

text \<open>
  The decoder drops a byte order mark that leads what it decodes, so a mark at the start of a text,
  or at the place of the cut, is neither kept nor counted.
\<close>

lemma leading_mark_uncounted: "trimUtf8Start [65279, 97, 98] 1 = (0, [97, 98])"
  by (simp add: trimUtf8Start_def utf8_def as_scalar_def scalar_def point_bytes_def cut_start_def continuation_def utf8_text_def
      continuations_def joined_def drop_mark_def char_count_def point_units_def high_unit_def)

end
