(* ===== verification/Pass_Edge.thy ===== *)
theory Pass_Edge
  imports Fail_Edge Live_Text
begin

text \<open>
  Where a passed attempt goes next, \<open>advancePipeline\<close> of \<open>src/lib/pipelines/engine.ts\<close> with the
  successor it reads and the relay it hands on. The output of the attempt is an argument; the notes
  and summaries it writes, the closing time and the reap of the hosts are outside the record.
\<close>

section \<open>The relay\<close>

definition MAX_STAGE_RELAY_BYTES :: int where "MAX_STAGE_RELAY_BYTES = 61440"

definition STAGE_RELAY_TRUNCATED :: utext where
  "STAGE_RELAY_TRUNCATED = [10, 10] @ units ''[Previous stage output truncated to fit the 60 KiB relay]''"

text \<open>The last byte at or before a position that starts a character.\<close>

fun boundary_before :: "nat list \<Rightarrow> nat \<Rightarrow> nat" where
  "boundary_before encoded 0 = 0"
| "boundary_before encoded (Suc n) =
     (if Suc n < length encoded \<and> continuation (encoded ! Suc n) then boundary_before encoded n else Suc n)"

definition boundedStageRelay :: "utext \<Rightarrow> int \<Rightarrow> utext" where
  "boundedStageRelay s maxBytes =
     (let encoded = utf8 s in
      if int (length encoded) \<le> maxBytes then s
      else point_text (utf8_points (take (boundary_before encoded (nat (maxBytes - int (utf8Length STAGE_RELAY_TRUNCATED)))) encoded))
             @ STAGE_RELAY_TRUNCATED)"

definition FAIL_EDGE_BUDGET_SPENT_DETAIL :: utext where
  "FAIL_EDGE_BUDGET_SPENT_DETAIL = units ''budget spent: last findings handed to the fix stage, not re-reviewed''"

type_synonym spent_handoff = "pipeline_stage \<times> stage_attempt option"

definition handoff_findings :: "spent_handoff \<Rightarrow> utext list" where
  "handoff_findings handoff =
     (case snd handoff of
        None \<Rightarrow> []
      | Some review \<Rightarrow> (case attempt_verdict review of
            Some v \<Rightarrow> (case verdict_findings v of Some findings \<Rightarrow> findings | None \<Rightarrow> []) | None \<Rightarrow> []))"

definition spent_note :: "spent_handoff \<Rightarrow> utext" where
  "spent_note handoff =
     join_lines ((FAIL_EDGE_BUDGET_SPENT_DETAIL @ units '' (review stage '' @ units (stage_id (fst handoff)) @ units '').'')
       # (if handoff_findings handoff = [] then []
          else units ''Unreviewed findings:'' # map (\<lambda>finding. units ''- '' @ finding) (handoff_findings handoff)))"

definition budgetSpentInput :: "utext option \<Rightarrow> spent_handoff \<Rightarrow> utext" where
  "budgetSpentInput output handoff =
     (case output of
        None \<Rightarrow> spent_note handoff
      | Some text \<Rightarrow>
          if text = [] then spent_note handoff
          else boundedStageRelay text (MAX_STAGE_RELAY_BYTES - int (utf8Length (spent_note handoff)) - 2) @ [10, 10] @ spent_note handoff)"

section \<open>The gate a final fix returns to\<close>

definition terminal_gate :: "pipeline_stage option \<Rightarrow> bool" where
  "terminal_gate source \<longleftrightarrow> advances source \<and> (case source of Some s \<Rightarrow> stage_next s = None | None \<Rightarrow> False)"

type_synonym gate_walk = "string \<times> string list"

definition rechecked :: "activation \<Rightarrow> gate_walk \<Rightarrow> string list" where
  "rechecked act acc = (if act_budgetRecheck act then fst acc # snd acc else snd acc)"

definition gate_before :: "pipeline \<Rightarrow> activation \<Rightarrow> gate_walk \<Rightarrow> pipeline_stage option option" where
  "gate_before p act acc =
     (case stage_of p (act_stage act) of
        Some source \<Rightarrow>
          if act_edge act = FailEdge \<and> act_budgetSpent act \<and> terminal_gate (Some source)
            \<and> stage_id source \<notin> set (rechecked act acc) then Some (Some source) else None
      | None \<Rightarrow> None)"

definition gate_move :: "pipeline \<Rightarrow> activation \<Rightarrow> gate_walk \<Rightarrow> (gate_walk, pipeline_stage option) walk_move" where
  "gate_move p act acc =
     (case source_of p act of
        None \<Rightarrow> Break
      | Some s \<Rightarrow> Follow (act_stage act, rechecked act acc) (attempt_activatedBy s))"

definition terminalAdvanceGateForAttempt :: "pipeline \<Rightarrow> pipeline_stage \<Rightarrow> stage_attempt \<Rightarrow> pipeline_stage option option" where
  "terminalAdvanceGateForAttempt p stage a =
     walk_lineage (gate_before p) (gate_move p) (\<lambda>_. None) [] (stage_id stage, []) (attempt_activatedBy a)"

section \<open>The successor of a passed attempt\<close>

record pass_successor =
  succ_next :: "string option"
  succ_handoff :: "spent_handoff option"
  succ_recheck :: bool

definition spent_source :: "pipeline \<Rightarrow> activation option \<Rightarrow> pipeline_stage option" where
  "spent_source p act =
     (case act of Some act \<Rightarrow> if act_edge act = FailEdge \<and> act_budgetSpent act then stage_of p (act_stage act) else None | None \<Rightarrow> None)"

text \<open>\<open>attempts[activation.attempt - 1]\<close>, a position.\<close>

definition attempt_at :: "pipeline \<Rightarrow> activation \<Rightarrow> stage_attempt option" where
  "attempt_at p act =
     (let attempts = attempts_of p (act_stage act) in
      if 1 \<le> act_attempt act \<and> act_attempt act \<le> length attempts then Some (attempts ! (act_attempt act - 1)) else None)"

definition settle_successor ::
  "pipeline \<Rightarrow> pipeline_stage \<Rightarrow> stage_attempt option \<Rightarrow> review_grant option \<Rightarrow> bool \<Rightarrow> pipeline_stage option \<Rightarrow> pass_successor" where
  "settle_successor p stage a terminalGrant lastRound gate =
     (let act = (case a of Some a \<Rightarrow> attempt_activatedBy a | None \<Rightarrow> None);
          source = spent_source p act;
          toGrant = (\<lambda>g. \<lparr>succ_next = Some (grant_stage g), succ_handoff = None, succ_recheck = lastRound\<rparr>);
          next = (case source of Some s \<Rightarrow> stage_next s | None \<Rightarrow> stage_next stage);
          plain = (case (source, act) of
            (Some s, Some act) \<Rightarrow> \<lparr>succ_next = stage_next s, succ_handoff = Some (s, attempt_at p act), succ_recheck = False\<rparr>
          | _ \<Rightarrow> \<lparr>succ_next = stage_next stage, succ_handoff = None, succ_recheck = False\<rparr>)
      in case terminalGrant of
           Some g \<Rightarrow>
             if terminal_gate source \<and> (case source of Some s \<Rightarrow> grant_stage g = stage_id s | None \<Rightarrow> False)
               \<and> stage_next stage \<noteq> None \<and> stage_next stage \<noteq> Some (grant_stage g)
             then \<lparr>succ_next = stage_next stage, succ_handoff = None, succ_recheck = False\<rparr>
             else if next = Some (grant_stage g) \<or> next = None then toGrant g
             else plain
         | None \<Rightarrow>
             (case gate of
                Some g \<Rightarrow> \<lparr>succ_next = Some (stage_id g), succ_handoff = None, succ_recheck = True\<rparr>
              | None \<Rightarrow> plain))"

definition passSuccessor :: "pipeline \<Rightarrow> pipeline_stage \<Rightarrow> stage_attempt option \<Rightarrow> pass_successor option" where
  "passSuccessor p stage a =
     (case a of
        None \<Rightarrow> Some (settle_successor p stage None None False None)
      | Some attempt \<Rightarrow>
        (case terminalReviewGrantForAttempt p stage attempt of
           None \<Rightarrow> None
         | Some (Some g) \<Rightarrow> map_option (\<lambda>lastRound. settle_successor p stage a (Some g) lastRound None) (terminalGrantIsLastRound p g)
         | Some None \<Rightarrow> map_option (settle_successor p stage a None False) (terminalAdvanceGateForAttempt p stage attempt)))"

section \<open>The advance\<close>

definition unreviewed_head :: "pipeline \<Rightarrow> spent_handoff \<Rightarrow> bool" where
  "unreviewed_head p handoff \<longleftrightarrow>
     (case stage_onFail (fst handoff) of Some edge \<Rightarrow> failEdgeExhaustion edge = StopAfterFixEdge | None \<Rightarrow> False)
     \<and> (case snd handoff of Some review \<Rightarrow> attempt_reviewedHead review | None \<Rightarrow> None) \<noteq> Some (pipe_lastPassedCommit p)"

definition parkForReview :: "string \<Rightarrow> pipeline_stage \<Rightarrow> stage_attempt \<Rightarrow> spent_handoff \<Rightarrow> pipeline \<Rightarrow> pipeline" where
  "parkForReview now fixStage fixAttempt handoff p =
     p\<lparr>pipe_reviewPending := Some
         \<lparr>pending_terminalRecheck = False, pending_stage = stage_id (fst handoff),
          pending_attempt = (case snd handoff of Some review \<Rightarrow> attempt_n review | None \<Rightarrow> 0),
          pending_fixStage = stage_id fixStage, pending_fixAttempt = attempt_n fixAttempt,
          pending_reviewedHead = (case snd handoff of Some review \<Rightarrow> attempt_reviewedHead review | None \<Rightarrow> None),
          pending_currentHead = pipe_lastPassedCommit p,
          pending_verdict = (case snd handoff of
              Some review \<Rightarrow> (case attempt_verdict review of Some v \<Rightarrow> verdict_status v | None \<Rightarrow> FailStatus) | None \<Rightarrow> FailStatus),
          pending_findings = length (handoff_findings handoff), pending_at = now\<rparr>,
       pipe_cursor := None, pipe_state := NeedsReviewPipe, pipe_pausedState := None, pipe_detail := Some ReviewPendingDetail\<rparr>"

definition take_pass_edge :: "pass_successor \<Rightarrow> pipeline_stage \<Rightarrow> stage_attempt option \<Rightarrow> utext option \<Rightarrow> pipeline \<Rightarrow> pipeline" where
  "take_pass_edge successor stage a output p =
     (let detail = (if succ_handoff successor \<noteq> None \<and> \<not> succ_recheck successor then Some BudgetHandedDetail else None) in
      case succ_next successor of
        None \<Rightarrow> p\<lparr>pipe_cursor := None, pipe_state := CompletedPipe, pipe_detail := detail, pipe_pausedState := None\<rparr>
      | Some target \<Rightarrow>
          p\<lparr>pipe_cursor := Some
              \<lparr>cursor_stage = target, cursor_pending = True,
               cursor_input = (case succ_handoff successor of
                   Some handoff \<Rightarrow> if \<not> succ_recheck successor then Some (budgetSpentInput output handoff) else output
                 | None \<Rightarrow> output),
               cursor_activatedBy = map_option (\<lambda>attempt. \<lparr>act_stage = stage_id stage, act_attempt = attempt_n attempt, act_edge = PassEdge,
                 act_budgetSpent = False, act_budgetRecheck = succ_recheck successor\<rparr>) a\<rparr>,
            pipe_state := RunningPipe, pipe_detail := detail, pipe_pausedState := None\<rparr>)"

definition advancePipeline ::
  "string \<Rightarrow> pipeline \<Rightarrow> pipeline_stage \<Rightarrow> stage_attempt option \<Rightarrow> utext option \<Rightarrow> bool \<Rightarrow> pipeline option" where
  "advancePipeline now p stage a output accepted =
     map_option (\<lambda>successor.
       case (a, succ_handoff successor) of
         (Some attempt, Some handoff) \<Rightarrow>
           if \<not> accepted \<and> unreviewed_head p handoff then parkForReview now stage attempt handoff p
           else take_pass_edge successor stage a output p
       | _ \<Rightarrow> take_pass_edge successor stage a output p)
     (passSuccessor p stage a)"

section \<open>The next attempt\<close>

text \<open>A pipeline without a record of the stage's runs is parked.\<close>

definition fresh_attempt :: "nat \<Rightarrow> activation option \<Rightarrow> stage_attempt" where
  "fresh_attempt n act =
     \<lparr>attempt_n = n, attempt_state = AttemptPending, attempt_historical = False, attempt_legacyReview = False, attempt_live = False,
      attempt_activatedBy = act, attempt_verdict = None, attempt_startedAt = None, attempt_completedAt = None,
      attempt_budgetSpent = False, attempt_reviewedHead = None, attempt_reviewHeadSha = None, attempt_error = None\<rparr>"

definition newAttempt :: "pipeline \<Rightarrow> pipeline_stage \<Rightarrow> pipeline \<times> stage_attempt option" where
  "newAttempt p stage =
     (case js_get (pipe_runs p) (stage_id stage) of
        None \<Rightarrow> (p\<lparr>pipe_state := NeedsDecisionPipe, pipe_pausedState := None, pipe_detail := Some RunMissingDetail\<rparr>, None)
      | Some attempts \<Rightarrow>
          (let attempt = fresh_attempt (length attempts + 1)
                 (case pipe_cursor p of
                    Some c \<Rightarrow> if cursor_stage c = stage_id stage then cursor_activatedBy c else None
                  | None \<Rightarrow> None)
           in (p\<lparr>pipe_runs := js_set (stage_id stage) (attempts @ [attempt]) (pipe_runs p)\<rparr>, Some attempt)))"

end
