(* ===== verification/Fail_Edge_Properties.thy ===== *)
theory Fail_Edge_Properties
  imports Fail_Edge
begin

text \<open>
  The review budget keeps its promises: every walk back along the activations ends, a retry
  spends no round and a traversal exactly one, and a lane that stops after its last fix never
  spends more rounds than were granted.
\<close>

section \<open>The walks end\<close>

text \<open>
  A walk goes on only over a key that is recorded, and never twice over the same key.
\<close>

locale lineage_walk =
  fixes known :: "attempt_key set"
    and move :: "activation \<Rightarrow> 'a \<Rightarrow> ('a, 'r) walk_move"
  assumes finite_known: "finite known"
    and follow_known: "move act acc = Follow acc' next \<Longrightarrow> key_of act \<in> known"
begin

lemma walk_returns: "\<exists>r. walk_lineage before move after seen acc a = Some r"
proof (induction "card (known - set seen)" arbitrary: seen acc a rule: less_induct)
  case less
  show ?case
  proof (cases a)
    case None
    then show ?thesis by (simp add: walk_lineage.simps)
  next
    case (Some act)
    show ?thesis
    proof (cases "before act acc = None \<and> key_of act \<notin> set seen \<and> (\<exists>acc' next. move act acc = Follow acc' next)")
      case True
      then obtain acc' "next" where step: "before act acc = None" "key_of act \<notin> set seen" "move act acc = Follow acc' next" by blast
      from follow_known [OF step(3)] step(2) finite_known
      have "card (known - set (key_of act # seen)) < card (known - set seen)" by (intro psubset_card_mono) auto
      from less [OF this] step Some show ?thesis by (simp add: walk_lineage.simps [of _ _ _ seen])
    next
      case False
      with Some show ?thesis
        by (auto simp: walk_lineage.simps [of _ _ _ seen] split: option.split walk_move.split)
    qed
  qed
qed

end

definition recorded_keys :: "pipeline \<Rightarrow> attempt_key set" where
  "recorded_keys p = (\<Union>(sid, attempts) \<in> set (pipe_runs p). (\<lambda>a. (sid, attempt_n a)) ` set attempts)"

lemma finite_recorded [simp]: "finite (recorded_keys p)"
  by (auto simp: recorded_keys_def)

lemma attempts_recorded: "a \<in> set (attempts_of p sid) \<Longrightarrow> (sid, attempt_n a) \<in> recorded_keys p"
proof -
  assume a: "a \<in> set (attempts_of p sid)"
  then obtain attempts where "js_get (pipe_runs p) sid = Some attempts" "a \<in> set attempts"
    by (cases "js_get (pipe_runs p) sid") (simp_all add: attempts_of_def)
  then have "(sid, attempts) \<in> set (pipe_runs p)" "a \<in> set attempts" by (simp_all add: js_get_def map_of_SomeD)
  then show ?thesis unfolding recorded_keys_def by blast
qed

lemma source_recorded: "source_of p act = Some s \<Longrightarrow> key_of act \<in> recorded_keys p"
  using attempts_recorded [of s p "act_stage act"] by (auto simp: source_of_def key_of_def dest: find_SomeD)

interpretation aw: lineage_walk "recorded_keys p" "advance_move p stage" for p stage
  by unfold_locales (auto simp: advance_move_def split: if_splits option.splits dest: source_recorded)

interpretation gw: lineage_walk "recorded_keys p" "grant_move p" for p
  by unfold_locales (auto simp: grant_move_def split: option.splits dest: source_recorded)

interpretation rw: lineage_walk "recorded_keys p" "round_move p" for p
  by unfold_locales (auto simp: round_move_def split: option.splits dest: source_recorded)

interpretation dw: lineage_walk "set (js_keys attempts)" "depth_move attempts" for attempts
proof
  fix act acc acc' "next"
  assume "depth_move attempts act acc = Follow acc' next"
  then have "js_get attempts (key_of act) \<noteq> None" by (auto simp: depth_move_def split: option.splits)
  then show "key_of act \<in> set (js_keys attempts)" using js_get_None_iff by metis
qed simp

lemma select_returns: "\<exists>r. select_attempt parse attempts cs best = Some r"
proof (induction parse attempts cs best rule: select_attempt.induct)
  case (2 parse attempts key a rest best)
  obtain depth where "activationDepth attempts (fst key) a = Some depth"
    using dw.walk_returns unfolding activationDepth_def by blast
  with 2 show ?case by (simp add: Let_def)
qed simp

lemma fail_edge_rounds_decided: "\<exists>b. terminalGrantIsLastRound p grant = Some b"
proof -
  have "\<exists>keys. review_key p sid terminal c = Some keys" for sid terminal c
  proof (cases "completed_review terminal c")
    case (Some act)
    obtain own where "walk_lineage (round_before p sid terminal) (round_move p) (\<lambda>_. False) [] () (Some act) = Some own"
      using rw.walk_returns by blast
    with Some show ?thesis by (simp add: review_key_def)
  qed (simp add: review_key_def)
  then show ?thesis by (auto simp: terminalGrantIsLastRound_def those_Some split: option.split)
qed

lemma fail_edge_walks_end:
  "(\<exists>r. routeFailedAttempt p stage i input parkOnExhaustedBudget reviewed = Some r)
   \<and> (\<exists>b. terminalGrantIsLastRound p grant = Some b)
   \<and> (\<exists>a. latestOperationalPipelineAttempt parse p = Some a)"
proof (intro conjI)
  define a where "a = attempts_of p (stage_id stage) ! i"
  obtain g where "terminalReviewGrantForAttempt p stage a = Some g"
    using gw.walk_returns unfolding terminalReviewGrantForAttempt_def by blast
  moreover obtain spent where "advanceFailEdgeBudgetSpent p stage a = Some spent"
    using aw.walk_returns unfolding advanceFailEdgeBudgetSpent_def by blast
  ultimately show "\<exists>r. routeFailedAttempt p stage i input parkOnExhaustedBudget reviewed = Some r"
    by (auto simp: routeFailedAttempt_def Let_def a_def split: option.split)
  show "\<exists>b. terminalGrantIsLastRound p grant = Some b" by (rule fail_edge_rounds_decided)
  show "\<exists>a. latestOperationalPipelineAttempt parse p = Some a"
    using select_returns by (fastforce simp: latestOperationalPipelineAttempt_def split: option.split)
qed

section \<open>Rounds are counted once\<close>

definition record_attempt :: "string \<Rightarrow> stage_attempt \<Rightarrow> pipeline \<Rightarrow> pipeline" where
  "record_attempt sid a p = p\<lparr>pipe_runs := js_set sid (attempts_of p sid @ [a]) (pipe_runs p)\<rparr>"

lemma attempts_record [simp]:
  "attempts_of (record_attempt sid a p) sid' = (if sid' = sid then attempts_of p sid @ [a] else attempts_of p sid')"
  by (simp add: attempts_of_def record_attempt_def)

definition round_keys :: "pipeline \<Rightarrow> string \<Rightarrow> string \<Rightarrow> edge_kind \<Rightarrow> attempt_key set" where
  "round_keys p from_stage to_stage kind = (\<Union>a \<in> set (attempts_of p to_stage). set (edge_key from_stage kind a))"

lemma rounds_card: "edgeRoundsUsed p from_stage to_stage kind = card (round_keys p from_stage to_stage kind)"
proof -
  have "length (uniq xs) = card (set xs)" for xs :: "attempt_key list"
    using distinct_card [OF distinct_uniq [of xs]] by simp
  then show ?thesis by (simp add: edgeRoundsUsed_def round_keys_def)
qed

lemma finite_round_keys [simp]: "finite (round_keys p from_stage to_stage kind)"
  by (simp add: round_keys_def)

text \<open>An attempt over a traversal that no own attempt of the target carries yet.\<close>

definition new_traversal :: "pipeline \<Rightarrow> string \<Rightarrow> string \<Rightarrow> edge_kind \<Rightarrow> stage_attempt \<Rightarrow> bool" where
  "new_traversal p from_stage to_stage kind a \<longleftrightarrow> \<not> attempt_historical a \<and>
     (\<exists>act. attempt_activatedBy a = Some act \<and> act_edge act = kind \<and> act_stage act = from_stage
        \<and> (\<forall>b \<in> set (own_attempts p to_stage). \<not> sameActivation (Some act) (attempt_activatedBy b)))"

lemma edge_key_iff:
  "k \<in> set (edge_key from_stage kind a) \<longleftrightarrow> \<not> attempt_historical a \<and>
     (\<exists>act. attempt_activatedBy a = Some act \<and> act_edge act = kind \<and> act_stage act = from_stage \<and> k = key_of act)"
  by (cases "attempt_activatedBy a") (auto simp: edge_key_def)

lemma round_keys_record:
  "round_keys (record_attempt to_stage a p) from_stage to_stage kind
     = set (edge_key from_stage kind a) \<union> round_keys p from_stage to_stage kind"
  by (auto simp: round_keys_def)

lemma fail_edge_rounds_counted:
  "edgeRoundsUsed (record_attempt to_stage a p) from_stage to_stage kind
     = edgeRoundsUsed p from_stage to_stage kind + (if new_traversal p from_stage to_stage kind a then 1 else 0)"
proof (cases "new_traversal p from_stage to_stage kind a")
  case True
  then obtain act where act: "\<not> attempt_historical a" "attempt_activatedBy a = Some act" "act_edge act = kind" "act_stage act = from_stage"
    "\<forall>b \<in> set (own_attempts p to_stage). \<not> sameActivation (Some act) (attempt_activatedBy b)"
    unfolding new_traversal_def by blast
  then have "set (edge_key from_stage kind a) = {key_of act}" by (simp add: edge_key_def)
  moreover have "key_of act \<notin> round_keys p from_stage to_stage kind"
    using act(3-5) by (auto simp: round_keys_def edge_key_iff own_attempts_def sameActivation_def key_of_def)
  ultimately show ?thesis using True by (simp add: rounds_card round_keys_record)
next
  case False
  have "set (edge_key from_stage kind a) \<subseteq> round_keys p from_stage to_stage kind"
  proof
    fix k
    assume "k \<in> set (edge_key from_stage kind a)"
    then obtain act where act: "\<not> attempt_historical a" "attempt_activatedBy a = Some act" "act_edge act = kind" "act_stage act = from_stage"
      "k = key_of act" by (auto simp: edge_key_iff)
    with False obtain b where "b \<in> set (own_attempts p to_stage)" "sameActivation (Some act) (attempt_activatedBy b)"
      unfolding new_traversal_def by blast
    with act show "k \<in> round_keys p from_stage to_stage kind"
      by (auto simp: round_keys_def edge_key_iff own_attempts_def sameActivation_def key_of_def split: option.splits)
  qed
  then show ?thesis using False by (simp add: rounds_card round_keys_record Un_absorb1)
qed

text \<open>A round is one traversal: an attempt recorded on the target of an edge adds one round if it
  is the target's own work over an activation of that edge that no own attempt carries yet, and
  none otherwise, be it a retry over the same activation, adopted history, or another edge.\<close>

theorem fail_edge_rounds_counted_once:
  "edgeRoundsUsed (record_attempt to_stage a p) from_stage to_stage kind
     = edgeRoundsUsed p from_stage to_stage kind + (if new_traversal p from_stage to_stage kind a then 1 else 0)"
  by (rule fail_edge_rounds_counted)

section \<open>A lane keeps its budget\<close>

text \<open>What a walk gives, when an invariant of the activations it meets says so of each step.\<close>

definition kept_along :: "(activation \<Rightarrow> bool) \<Rightarrow> activation option \<Rightarrow> bool" where
  "kept_along Q a \<longleftrightarrow> (case a of Some act \<Rightarrow> Q act | None \<Rightarrow> True)"

definition walk_sound ::
  "(activation \<Rightarrow> bool) \<Rightarrow> ('r \<Rightarrow> bool) \<Rightarrow> (activation \<Rightarrow> 'a \<Rightarrow> 'r option) \<Rightarrow> (activation \<Rightarrow> 'a \<Rightarrow> ('a, 'r) walk_move) \<Rightarrow> ('a \<Rightarrow> 'r) \<Rightarrow> bool" where
  "walk_sound Q P before move after \<longleftrightarrow>
     (\<forall>act acc r. Q act \<longrightarrow> before act acc = Some r \<longrightarrow> P r) \<and> (\<forall>act acc r. Q act \<longrightarrow> move act acc = Return r \<longrightarrow> P r)
     \<and> (\<forall>act acc acc' a'. Q act \<longrightarrow> move act acc = Follow acc' a' \<longrightarrow> kept_along Q a') \<and> (\<forall>acc. P (after acc))"

lemma walk_kept:
  assumes "walk_lineage before move after seen acc a = Some r" "walk_sound Q P before move after" "kept_along Q a"
  shows "P r"
proof -
  have "walk_sound Q P before move after \<longrightarrow> kept_along Q a \<longrightarrow> P r"
  proof (rule walk_lineage.raw_induct [OF _ assms(1)])
    fix walk before move after seen acc a y
    assume IH: "\<And>before move after seen acc a y. walk before move after seen acc a = Some y \<Longrightarrow>
        walk_sound Q P before move after \<longrightarrow> kept_along Q a \<longrightarrow> P y"
      and step: "(case a of None \<Rightarrow> Some (after acc)
        | Some act \<Rightarrow> (case before act acc of Some r \<Rightarrow> Some r
           | None \<Rightarrow> if key_of act \<in> set seen then Some (after acc)
               else (case move act acc of Return r \<Rightarrow> Some r | Break \<Rightarrow> Some (after acc)
                 | Follow acc' next \<Rightarrow> walk before move after (key_of act # seen) acc' next))) = Some y"
    show "walk_sound Q P before move after \<longrightarrow> kept_along Q a \<longrightarrow> P y"
    proof (intro impI)
      assume sound: "walk_sound Q P before move after" "kept_along Q a"
      from step show "P y"
        using sound IH [of before move after] unfolding walk_sound_def
        by (auto simp: kept_along_def split: option.splits walk_move.splits if_splits)
    qed
  qed
  with assms(2,3) show ?thesis by blast
qed

lemma walk_result:
  assumes "walk_lineage before move after seen acc a = Some r"
    and "\<And>act acc r. before act acc = Some r \<Longrightarrow> P r" and "\<And>act acc r. move act acc = Return r \<Longrightarrow> P r" and "\<And>acc. P (after acc)"
  shows "P r"
  by (rule walk_kept [OF assms(1), of "\<lambda>_. True"]) (auto simp: walk_sound_def kept_along_def assms(2-4) split: option.split)

definition no_root_grants :: "pipeline \<Rightarrow> bool" where
  "no_root_grants p \<longleftrightarrow> (\<forall>g \<in> set (pipe_reviewGrants p). grant_terminalAttempt g = None)"

lemma no_root_grant: "no_root_grants p \<Longrightarrow> terminalReviewGrantForAttempt p stage a = Some g \<Longrightarrow> g = None"
proof -
  assume none: "no_root_grants p" and walk: "terminalReviewGrantForAttempt p stage a = Some g"
  have root: "root_grant p act = None" for act
    using none by (auto simp: root_grant_def no_root_grants_def find_None_iff)
  show "g = None"
    by (rule walk_result [OF walk [unfolded terminalReviewGrantForAttempt_def]])
      (auto simp: grant_before_def grant_move_def root split: if_splits option.splits)
qed

text \<open>A grant for a terminal re-check belongs to an advancing gate; none of the stage's own is one.\<close>

definition plain_grants :: "pipeline \<Rightarrow> string \<Rightarrow> bool" where
  "plain_grants p sid \<longleftrightarrow> (\<forall>g \<in> set (grants_of p sid). grant_terminalAttempt g = None)"

lemma no_own_grant:
  assumes "plain_grants p sid" "terminalReviewGrantForAttempt p stage a = Some g"
  shows "\<not> granted_to g sid"
proof -
  have root: "grant_stage g \<noteq> sid" if "root_grant p act = Some g" for act g
    using that assms(1) by (auto simp: root_grant_def plain_grants_def grants_of_def find_Some_iff split: if_splits)
  show ?thesis
    by (rule walk_result [OF assms(2) [unfolded terminalReviewGrantForAttempt_def]])
      (auto simp: grant_before_def grant_move_def granted_to_def dest: root split: if_splits option.splits)
qed

text \<open>The numbers a lane is measured by.\<close>

abbreviation rounds_used :: "pipeline \<Rightarrow> pipeline_stage \<Rightarrow> nat" where
  "rounds_used \<equiv> failEdgeRoundsUsed"

definition handoff_count :: "pipeline \<Rightarrow> pipeline_stage \<Rightarrow> nat" where
  "handoff_count p stage = length (handoffs_of p (stage_id stage))"

definition grant_count :: "pipeline \<Rightarrow> pipeline_stage \<Rightarrow> nat" where
  "grant_count p stage = length (grants_of p (stage_id stage))"

text \<open>
  A lane of one review stage and its fail edge: failures are routed and, when the route goes on,
  launched on the target; a grant of at least one round comes only after the budget was spent;
  anything else happens that keeps the edge's rounds and handoffs and the stage's grants. A failure
  may carry no verdict, as one of a host that died does; \<open>lost\<close> says that one of those was routed.
\<close>

inductive review_lane :: "pipeline_stage \<Rightarrow> fail_edge \<Rightarrow> bool \<Rightarrow> pipeline \<Rightarrow> bool" for stage edge where
  unspent: "rounds_used p stage = 0 \<Longrightarrow> handoff_count p stage = 0 \<Longrightarrow> grants_of p (stage_id stage) = [] \<Longrightarrow> review_lane stage edge False p"
| failed: "review_lane stage edge lost p \<Longrightarrow> i < length (attempts_of p (stage_id stage)) \<Longrightarrow>
    \<not> attempt_budgetSpent (attempts_of p (stage_id stage) ! i) \<Longrightarrow> \<not> attempt_historical (attempts_of p (stage_id stage) ! i) \<Longrightarrow>
    routeFailedAttempt p stage i input parks reviewed = Some (p', True) \<Longrightarrow> pipe_state p' = RunningPipe \<Longrightarrow>
    \<not> attempt_budgetSpent a \<Longrightarrow> review_lane stage edge (lost \<or> \<not> reviewed) (record_attempt (edge_to edge) a p')"
| granted: "review_lane stage edge lost p \<Longrightarrow> failEdgeBudgetSpent p stage \<Longrightarrow> grant_stage g = stage_id stage \<Longrightarrow>
    1 \<le> grant_rounds g \<Longrightarrow> grant_terminalAttempt g = None \<Longrightarrow>
    review_lane stage edge lost (p\<lparr>pipe_reviewGrants := pipe_reviewGrants p @ [g]\<rparr>)"
| worked: "review_lane stage edge lost p \<Longrightarrow> rounds_used p' stage = rounds_used p stage \<Longrightarrow>
    handoff_count p' stage = handoff_count p stage \<Longrightarrow> grants_of p' (stage_id stage) = grants_of p (stage_id stage) \<Longrightarrow>
    review_lane stage edge lost p'"

text \<open>The rounds a lane may have used: a routed failure without a verdict may take the last one.\<close>

definition lane_ok :: "pipeline_stage \<Rightarrow> bool \<Rightarrow> pipeline \<Rightarrow> bool" where
  "lane_ok stage lost p \<longleftrightarrow> plain_grants p (stage_id stage)
     \<and> (int (rounds_used p stage) < failEdgeMaxRounds p stage + of_bool lost \<and> handoff_count p stage = grant_count p stage
       \<or> int (rounds_used p stage) \<le> failEdgeMaxRounds p stage + of_bool lost \<and> handoff_count p stage = grant_count p stage + 1)"

subsection \<open>What a route changes\<close>

lemma attempts_update [simp]:
  "attempts_of (update_attempt sid i f p) sid' =
     (if sid' = sid \<and> i < length (attempts_of p sid) then (attempts_of p sid)[i := f (attempts_of p sid ! i)] else attempts_of p sid')"
  by (simp add: update_attempt_def Let_def attempts_of_def)

lemma grants_update [simp]: "pipe_reviewGrants (update_attempt sid i f p) = pipe_reviewGrants p"
  by (simp add: update_attempt_def Let_def)

lemma attempts_send [simp]: "attempts_of (send_along target input act p) sid = attempts_of p sid"
  "pipe_reviewGrants (send_along target input act p) = pipe_reviewGrants p"
  by (simp_all add: send_along_def attempts_of_def)

lemma grants_record [simp]: "pipe_reviewGrants (record_attempt sid a p) = pipe_reviewGrants p"
  by (simp add: record_attempt_def)

lemma map_upd_id: "i < length xs \<Longrightarrow> f y = f (xs ! i) \<Longrightarrow> map f (xs[i := y]) = map f xs"
  by (simp add: map_update) (metis length_map list_update_id nth_map)

lemma rounds_same_attempts:
  assumes "\<And>sid. map (\<lambda>a. (attempt_activatedBy a, attempt_historical a)) (attempts_of p' sid)
     = map (\<lambda>a. (attempt_activatedBy a, attempt_historical a)) (attempts_of p sid)"
  shows "rounds_used p' stage = rounds_used p stage"
proof -
  have "map (edge_key f k) (attempts_of p' sid) = map (edge_key f k) (attempts_of p sid)" for f k sid
    using arg_cong [OF assms [of sid], of "map (\<lambda>(act, hist). case act of Some act \<Rightarrow>
        if \<not> hist \<and> act_edge act = k \<and> act_stage act = f then [key_of act] else [] | None \<Rightarrow> [])"]
    by (simp add: comp_def edge_key_def [abs_def])
  then show ?thesis by (simp add: failEdgeRoundsUsed_def edgeRoundsUsed_def split: option.split)
qed

lemma rounds_record: "rounds_used (record_attempt sid a p) stage \<le> rounds_used p stage + 1"
proof (cases "stage_onFail stage")
  case (Some edge)
  have "edgeRoundsUsed (record_attempt sid a p) (stage_id stage) (edge_to edge) FailEdge \<le>
      edgeRoundsUsed p (stage_id stage) (edge_to edge) FailEdge + 1"
  proof (cases "sid = edge_to edge")
    case True
    then show ?thesis by (simp add: fail_edge_rounds_counted)
  next
    case False
    then show ?thesis by (simp add: edgeRoundsUsed_def)
  qed
  with Some show ?thesis by (simp add: failEdgeRoundsUsed_def)
qed (simp add: failEdgeRoundsUsed_def)

lemma max_rounds_grants:
  "grants_of p' (stage_id stage) = grants_of p (stage_id stage) \<Longrightarrow> failEdgeMaxRounds p' stage = failEdgeMaxRounds p stage"
  by (simp add: failEdgeMaxRounds_def split: option.split)

lemma park_state: "pipe_state (parkPipelineState sid i detail p) = NeedsDecisionPipe"
  by (simp add: parkPipelineState_def)

lemma handoffs_mark:
  assumes "i < length attempts" "\<not> attempt_budgetSpent (attempts ! i)" "\<not> attempt_historical (attempts ! i)"
    and "attempt_budgetSpent (f (attempts ! i))" "\<not> attempt_historical (f (attempts ! i))"
  shows "length (filter (\<lambda>a. \<not> attempt_historical a \<and> attempt_budgetSpent a) (attempts[i := f (attempts ! i)]))
    = length (filter (\<lambda>a. \<not> attempt_historical a \<and> attempt_budgetSpent a) attempts) + 1"
  using assms
  by (subst (2) id_take_nth_drop [OF assms(1)]) (simp add: upd_conv_take_nth_drop)

text \<open>A route that goes on either loops within the budget or is the one handoff past it.\<close>

lemma route_goes_on:
  assumes route: "routeFailedAttempt p stage i input parks reviewed = Some (p', True)" and on: "pipe_state p' = RunningPipe"
    and edge: "stage_onFail stage = Some edge" "failEdgeExhaustion edge = StopAfterFixEdge"
    and i: "i < length (attempts_of p (stage_id stage))" "\<not> attempt_budgetSpent (attempts_of p (stage_id stage) ! i)"
      "\<not> attempt_historical (attempts_of p (stage_id stage) ! i)" and grants: "plain_grants p (stage_id stage)"
  shows "pipe_reviewGrants p' = pipe_reviewGrants p \<and> rounds_used p' stage = rounds_used p stage
    \<and> (int (rounds_used p stage) < failEdgeMaxRounds p stage - of_bool reviewed \<and> handoff_count p' stage = handoff_count p stage
       \<or> reviewed \<and> \<not> failEdgeBudgetSpent p stage \<and> handoff_count p' stage = handoff_count p stage + 1)"
proof -
  define a where "a = attempts_of p (stage_id stage) ! i"
  obtain g where walk: "terminalReviewGrantForAttempt p stage a = Some g"
    using gw.walk_returns unfolding terminalReviewGrantForAttempt_def by blast
  with grants have none: "\<not> granted_to g (stage_id stage)" by (rule no_own_grant)
  have "pipe_state (route_recheck p stage i reviewed) = NeedsDecisionPipe"
    by (simp add: route_recheck_def Let_def park_state split: option.split)
  with route on walk edge none
  have spent: "route_spent p stage edge i input parks reviewed g (failEdgeBudgetSpent p stage) = (p', True)"
    by (auto simp: routeFailedAttempt_def a_def [symmetric] Let_def split: if_splits)
  then obtain t where t: "stage_of p (edge_to edge) = Some t"
    by (cases "stage_of p (edge_to edge)") (auto simp: route_spent_def Let_def)
  show ?thesis
  proof (cases "int (rounds_used p stage) < failEdgeMaxRounds p stage - of_bool reviewed")
    case True
    with spent t edge obtain act where "p' = send_along t input act p"
      by (cases reviewed) (auto simp: route_spent_def Let_def none)
    then show ?thesis using True rounds_same_attempts [of p' p stage] by (simp add: handoff_count_def handoffs_of_def)
  next
    case False
    with spent t edge on have fresh: "reviewed" "\<not> failEdgeBudgetSpent p stage"
      by (cases reviewed; auto simp: route_spent_def Let_def none park_state split: if_splits)+
    define mark :: "stage_attempt \<Rightarrow> stage_attempt" where "mark = (\<lambda>a. a\<lparr>attempt_budgetSpent := True,
       attempt_reviewedHead := (case attempt_reviewHeadSha a of Some h \<Rightarrow> Some h | None \<Rightarrow> Some (pipe_lastPassedCommit p))\<rparr>)"
    from spent t edge False fresh obtain act where p': "p' = send_along t input act (update_attempt (stage_id stage) i mark p)"
      by (auto simp: route_spent_def Let_def none mark_def)
    have "rounds_used p' stage = rounds_used p stage"
      by (rule rounds_same_attempts) (auto simp: p' mark_def intro!: map_upd_id)
    moreover have "handoff_count p' stage = handoff_count p stage + 1"
      using handoffs_mark [OF i, of mark] i by (simp add: handoff_count_def handoffs_of_def p' mark_def)
    ultimately show ?thesis using fresh by (simp add: p')
  qed
qed

lemma review_lane_ok:
  assumes "review_lane stage edge lost p" and edge: "stage_onFail stage = Some edge" "failEdgeExhaustion edge = StopAfterFixEdge"
    and max_rounds: "1 \<le> edge_maxRounds edge"
  shows "lane_ok stage lost p"
  using assms(1)
proof (induction rule: review_lane.induct)
  case (unspent p)
  then show ?case using edge(1) max_rounds
    by (simp add: lane_ok_def plain_grants_def failEdgeMaxRounds_def grant_count_def)
next
  case (failed lost p i input parks reviewed p' a)
  from failed.IH have ok: "plain_grants p (stage_id stage)" by (simp add: lane_ok_def)
  note on = route_goes_on [OF failed.hyps(5,6) edge failed.hyps(2,3,4) ok]
  define q where "q = record_attempt (edge_to edge) a p'"
  have same: "grants_of q (stage_id stage) = grants_of p (stage_id stage)" using on by (simp add: q_def grants_of_def)
  then have grants: "grant_count q stage = grant_count p stage" "failEdgeMaxRounds q stage = failEdgeMaxRounds p stage"
    using max_rounds_grants [OF same] by (simp_all add: grant_count_def)
  have rounds: "rounds_used q stage \<le> rounds_used p stage + 1"
    using on rounds_record [of "edge_to edge" a p' stage] by (simp add: q_def)
  have handoffs: "handoff_count q stage = handoff_count p' stage"
    using failed.hyps(7) by (simp add: handoff_count_def handoffs_of_def q_def)
  have spent: "\<not> failEdgeBudgetSpent p stage \<longleftrightarrow> handoff_count p stage \<le> grant_count p stage"
    by (simp add: failEdgeBudgetSpent_def handoff_count_def grant_count_def not_less)
  from failed.IH have before: "int (rounds_used p stage) < failEdgeMaxRounds p stage + of_bool lost \<and> handoff_count p stage = grant_count p stage
       \<or> int (rounds_used p stage) \<le> failEdgeMaxRounds p stage + of_bool lost \<and> handoff_count p stage = grant_count p stage + 1"
    by (simp add: lane_ok_def)
  from on [unfolded spent] have "int (rounds_used p stage) < failEdgeMaxRounds p stage - of_bool reviewed \<and> handoff_count q stage = handoff_count p stage
       \<or> handoff_count p stage \<le> grant_count p stage \<and> handoff_count q stage = handoff_count p stage + 1"
    unfolding handoffs by blast
  with before rounds have "int (rounds_used q stage) < failEdgeMaxRounds p stage + of_bool (lost \<or> \<not> reviewed) \<and> handoff_count q stage = grant_count p stage
       \<or> int (rounds_used q stage) \<le> failEdgeMaxRounds p stage + of_bool (lost \<or> \<not> reviewed) \<and> handoff_count q stage = grant_count p stage + 1"
    by (cases lost; cases reviewed) auto
  moreover have "plain_grants q (stage_id stage)" using ok by (simp add: plain_grants_def same)
  ultimately show ?case unfolding q_def [symmetric] lane_ok_def grants by blast
next
  case (granted lost p g)
  let ?q = "p\<lparr>pipe_reviewGrants := pipe_reviewGrants p @ [g]\<rparr>"
  have same: "rounds_used ?q stage = rounds_used p stage" "handoff_count ?q stage = handoff_count p stage"
    by (simp_all add: failEdgeRoundsUsed_def edgeRoundsUsed_def handoff_count_def handoffs_of_def attempts_of_def split: option.split)
  have "grant_count ?q stage = grant_count p stage + 1" "failEdgeMaxRounds ?q stage \<ge> failEdgeMaxRounds p stage + 1"
    using granted.hyps edge(1) by (simp_all add: grant_count_def grants_of_def failEdgeMaxRounds_def)
  moreover have "handoff_count p stage > grant_count p stage"
    using granted.hyps(2) by (simp add: failEdgeBudgetSpent_def handoff_count_def grant_count_def)
  moreover have "plain_grants ?q (stage_id stage)"
    using granted.IH granted.hyps(5) by (auto simp: lane_ok_def plain_grants_def grants_of_def)
  ultimately show ?case using granted.IH unfolding lane_ok_def same by auto
next
  case (worked lost p p')
  then show ?case using max_rounds_grants [OF worked.hyps(4)] unfolding lane_ok_def
    by (simp add: plain_grants_def grant_count_def)
qed

text \<open>C27. A lane whose edge stops after its last fix, of at least one round, where each grant of its own
  comes once the budget is spent and is for no terminal re-check. While every failure routed was a
  reviewed one the edge never spends more rounds than its maximum with every grant; where failures
  without a verdict were routed too, at most one round more. Findings are handed past a spent budget
  at most once more than was granted, however the failures came.\<close>

theorem review_lane_budget:
  assumes "review_lane stage edge lost p" and "stage_onFail stage = Some edge" and "failEdgeExhaustion edge = StopAfterFixEdge"
    and "1 \<le> edge_maxRounds edge"
  shows "int (failEdgeRoundsUsed p stage) \<le> failEdgeMaxRounds p stage + (if lost then 1 else 0)
    \<and> length (handoffs_of p (stage_id stage)) \<le> length (grants_of p (stage_id stage)) + 1"
  using review_lane_ok [OF assms] by (auto simp: lane_ok_def handoff_count_def grant_count_def split: if_splits)

section \<open>One lane\<close>

definition demo_edge :: fail_edge where
  "demo_edge = \<lparr>edge_to = ''fix'', edge_maxRounds = 1, edge_onExhausted = Some StopAfterFixEdge\<rparr>"

definition demo_role :: effective_role where
  "demo_role = \<lparr>eff_roleId = None, eff_engine = ''codex'', eff_access = ReadWriteAccess, eff_rest = JNull\<rparr>"

definition plain_stage :: "string \<Rightarrow> stage_kind \<Rightarrow> string option \<Rightarrow> fail_edge option \<Rightarrow> pipeline_stage" where
  "plain_stage sid kind succ edge = \<lparr>stage_id = sid, stage_kind = kind, stage_role = None, stage_access = None, stage_sandbox = None,
     stage_agentMemory = None, stage_account = None, stage_outputs = None, stage_prompt = [], stage_next = succ,
     stage_onFail = edge, stage_effectiveRole = demo_role, stage_rest = JNull\<rparr>"

lemma plain_stage_fields [simp]:
  "stage_id (plain_stage sid kind succ edge) = sid" "stage_kind (plain_stage sid kind succ edge) = kind"
  "stage_next (plain_stage sid kind succ edge) = succ" "stage_onFail (plain_stage sid kind succ edge) = edge"
  by (simp_all add: plain_stage_def)

definition demo_review_stage :: pipeline_stage where
  "demo_review_stage = plain_stage ''review'' RunKind None (Some demo_edge)"

definition demo_attempt :: "nat \<Rightarrow> attempt_state \<Rightarrow> activation option \<Rightarrow> stage_attempt" where
  "demo_attempt n st act = \<lparr>attempt_n = n, attempt_state = st, attempt_historical = False, attempt_legacyReview = False, attempt_live = False, attempt_activatedBy = act, attempt_verdict = None,
     attempt_startedAt = None, attempt_completedAt = None, attempt_budgetSpent = False, attempt_reviewedHead = None, attempt_reviewHeadSha = None, attempt_error = None\<rparr>"

definition demo_pipe :: pipeline where
  "demo_pipe = \<lparr>pipe_state = RunningPipe, pipe_pausedState = None, pipe_detail = None,
     pipe_stages = [demo_review_stage, plain_stage ''fix'' RunKind (Some ''review'') None],
     pipe_runs = [(''review'', [demo_attempt 1 AttemptFailed None])], pipe_cursor = None, pipe_lastPassedCommit = ''c0'',
     pipe_reviewPending = None, pipe_reviewGrants = [], pipe_conversions = []\<rparr>"

definition demo_routed :: pipeline where
  "demo_routed = fst (the (routeFailedAttempt demo_pipe demo_review_stage 0 None True True))"

definition demo_fix :: stage_attempt where
  "demo_fix = demo_attempt 1 AttemptPending (cursor_activatedBy (the (pipe_cursor demo_routed)))"

lemma demo_route:
  "routeFailedAttempt demo_pipe demo_review_stage 0 None True True = Some (demo_routed, True)"
  "pipe_state demo_routed = RunningPipe" "failEdgeRoundsUsed (record_attempt ''fix'' demo_fix demo_routed) demo_review_stage = 1"
  by code_simp+

theorem review_lane_budget_witness:
  "failEdgeRoundsUsed (record_attempt ''fix'' demo_fix demo_routed) demo_review_stage = 1
   \<and> int (failEdgeRoundsUsed (record_attempt ''fix'' demo_fix demo_routed) demo_review_stage)
      \<le> failEdgeMaxRounds (record_attempt ''fix'' demo_fix demo_routed) demo_review_stage"
proof -
  have "review_lane demo_review_stage demo_edge False demo_pipe"
    by (rule unspent) (code_simp+)
  then have "review_lane demo_review_stage demo_edge (False \<or> \<not> True) (record_attempt (edge_to demo_edge) demo_fix demo_routed)"
    by (rule failed [OF _ _ _ _ demo_route(1,2)]) (code_simp+)
  then have "review_lane demo_review_stage demo_edge False (record_attempt ''fix'' demo_fix demo_routed)"
    by (simp add: demo_edge_def)
  moreover have "stage_onFail demo_review_stage = Some demo_edge" "failEdgeExhaustion demo_edge = StopAfterFixEdge" "1 \<le> edge_maxRounds demo_edge"
    by (simp_all add: demo_review_stage_def demo_edge_def failEdgeExhaustion_def)
  ultimately show ?thesis using review_lane_budget [of demo_review_stage demo_edge False] demo_route(3) by fastforce
qed

section \<open>The round a lost failure takes\<close>

text \<open>
  With one round, a review that failed without a verdict takes it, and the next failed review still
  hands its findings on: two traversals of an edge whose maximum is one.
\<close>

definition lost_pipe :: pipeline where
  "lost_pipe = record_attempt ''review'' (demo_attempt 2 AttemptFailed None)
     (record_attempt ''fix'' (demo_attempt 1 AttemptPassed (Some \<lparr>act_stage = ''review'', act_attempt = 1, act_edge = FailEdge,
        act_budgetSpent = False, act_budgetRecheck = False\<rparr>))
       (fst (the (routeFailedAttempt demo_pipe demo_review_stage 0 None True False))))"

definition lost_handoff :: pipeline where
  "lost_handoff = fst (the (routeFailedAttempt lost_pipe demo_review_stage 1 None True True))"

lemma lost_failure_takes_extra_round:
  "map_option snd (routeFailedAttempt demo_pipe demo_review_stage 0 None True False) = Some True"
  "map_option snd (routeFailedAttempt lost_pipe demo_review_stage 1 None True True) = Some True"
  "pipe_state lost_handoff = RunningPipe"
  "failEdgeRoundsUsed (record_attempt ''fix'' (demo_attempt 2 AttemptPending (cursor_activatedBy (the (pipe_cursor lost_handoff)))) lost_handoff)
     demo_review_stage = 2"
  "failEdgeMaxRounds lost_handoff demo_review_stage = 1"
  by code_simp+

end
