(* ===== verification/Pass_Edge_Properties.thy ===== *)
theory Pass_Edge_Properties
  imports Pass_Edge Fail_Edge_Properties
begin

text \<open>
  What a lane that completes has behind it: its last fix was checked again by the reviewer that
  handed it on, or its head is the reviewed one; and the routes of an attempt are always decided.
\<close>

section \<open>The lineage of an attempt\<close>

text \<open>The activations behind an attempt, latest first, each with the stage it started.\<close>

inductive lineage :: "pipeline \<Rightarrow> string \<Rightarrow> activation option \<Rightarrow> (string \<times> activation) list \<Rightarrow> bool" for p where
  origin: "lineage p sid None []"
| lost: "source_of p act = None \<Longrightarrow> lineage p sid (Some act) [(sid, act)]"
| activated: "source_of p act = Some s \<Longrightarrow> lineage p (act_stage act) (attempt_activatedBy s) rest \<Longrightarrow>
    lineage p sid (Some act) ((sid, act) # rest)"

inductive_cases lineage_activated: "lineage p sid (Some act) chain"
inductive_simps lineage_origin [simp]: "lineage p sid None chain"

lemma source_by_key: "key_of act = key_of act' \<Longrightarrow> source_of p act = source_of p act'"
  by (simp add: key_of_def source_of_def)

lemma lineage_unique: "lineage p sid a chain \<Longrightarrow> lineage p sid a chain' \<Longrightarrow> chain' = chain"
proof (induction arbitrary: chain' rule: lineage.induct)
  case (lost act sid)
  then show ?case by (auto elim: lineage_activated)
next
  case (activated act s rest sid)
  from activated.prems activated.hyps(1) obtain rest' where
    "chain' = (sid, act) # rest'" "lineage p (act_stage act) (attempt_activatedBy s) rest'"
    by (auto elim: lineage_activated)
  with activated.IH show ?case by blast
qed simp

lemma lineage_length_key:
  assumes "lineage p sid (Some act) chain" "lineage p sid' (Some act') chain'" "key_of act = key_of act'"
  shows "length chain = length chain'"
proof (cases "source_of p act")
  case None
  with source_by_key [OF assms(3), of p] assms(1,2) show ?thesis by (auto elim!: lineage_activated)
next
  case (Some s)
  with source_by_key [OF assms(3), of p] have s': "source_of p act' = Some s" by simp
  from assms(3) have same: "act_stage act' = act_stage act" by (simp add: key_of_def)
  from assms(1) Some obtain rest where "chain = (sid, act) # rest" "lineage p (act_stage act) (attempt_activatedBy s) rest"
    by (auto elim: lineage_activated)
  moreover from assms(2) s' same obtain rest' where "chain' = (sid', act') # rest'" "lineage p (act_stage act) (attempt_activatedBy s) rest'"
    by (auto elim: lineage_activated)
  ultimately show ?thesis using lineage_unique [of p "act_stage act" "attempt_activatedBy s" rest rest'] by simp
qed

lemma lineage_suffix:
  assumes "lineage p sid a chain" "(sid', act) \<in> set chain"
  shows "\<exists>chain'. lineage p sid' (Some act) chain' \<and> length chain' \<le> length chain"
  using assms
proof (induction rule: lineage.induct)
  case (activated act1 s rest sid)
  show ?case
  proof (cases "(sid', act) = (sid, act1)")
    case True
    then show ?thesis using lineage.activated [OF activated.hyps(1,2), of sid] by auto
  next
    case False
    with activated.prems activated.IH show ?thesis by (auto intro: le_SucI)
  qed
qed (auto intro: lineage.intros)

text \<open>A lineage that ends has no key twice.\<close>

lemma lineage_distinct: "lineage p sid a chain \<Longrightarrow> distinct (map (\<lambda>(sid, act). key_of act) chain)"
proof (induction rule: lineage.induct)
  case (activated act s rest sid)
  have "key_of act' \<noteq> key_of act" if "(sid', act') \<in> set rest" for sid' act'
  proof
    assume same: "key_of act' = key_of act"
    from lineage_suffix [OF activated.hyps(2) that] obtain chain' where
      chain': "lineage p sid' (Some act') chain'" "length chain' \<le> length rest" by blast
    from lineage.activated [OF activated.hyps(1,2), of sid] have "lineage p sid (Some act) ((sid, act) # rest)" .
    from lineage_length_key [OF this chain'(1)] same chain'(2) show False by simp
  qed
  then have "key_of act \<notin> (\<lambda>(sid, act). key_of act) ` set rest" by fastforce
  with activated.IH show ?case by simp
qed simp_all

section \<open>The gate of a final fix\<close>

text \<open>The terminal reviewer that handed its last findings to a fix and is owed the check of that fix; a
  reviewer with a pass edge is owed none.\<close>

definition final_fix_gate :: "pipeline \<Rightarrow> activation \<Rightarrow> pipeline_stage option" where
  "final_fix_gate p act =
     (if act_edge act = FailEdge \<and> act_budgetSpent act \<and> terminal_gate (stage_of p (act_stage act)) then stage_of p (act_stage act) else None)"

lemma gate_before_final: "gate_before p act acc = None \<Longrightarrow> final_fix_gate p act = Some g \<Longrightarrow> stage_id g \<in> set (rechecked act acc)"
  by (auto simp: gate_before_def final_fix_gate_def split: option.splits if_splits)

lemma gate_before_result: "gate_before p act acc \<noteq> Some None"
  by (auto simp: gate_before_def split: option.splits)

definition checked_again :: "string list \<Rightarrow> (string \<times> activation) list \<Rightarrow> string \<Rightarrow> bool" where
  "checked_again checked chain sid \<longleftrightarrow> sid \<in> set checked \<or> (\<exists>act. (sid, act) \<in> set chain \<and> act_budgetRecheck act)"

lemma gate_walk_checked:
  assumes "lineage p sid a chain" "distinct (map (\<lambda>(sid, act). key_of act) chain)"
    and "\<forall>(sid, act) \<in> set chain. key_of act \<notin> set seen"
    and "walk_lineage (gate_before p) (gate_move p) (\<lambda>_. None) seen (sid, checked) a = Some None"
    and "k < length chain" "final_fix_gate p (snd (chain ! k)) = Some g"
  shows "checked_again checked (take (Suc k) chain) (stage_id g)"
  using assms
proof (induction arbitrary: seen checked k rule: lineage.induct)
  case (lost act sid)
  then have "gate_before p act (sid, checked) = None"
    using gate_before_result [of p act "(sid, checked)"] by (auto simp: walk_lineage.simps [of _ _ _ seen] split: option.splits)
  from lost.prems have "k = 0" "final_fix_gate p act = Some g" by simp_all
  with gate_before_final [OF \<open>gate_before p act (sid, checked) = None\<close>] show ?case
    by (auto simp: checked_again_def rechecked_def split: if_splits)
next
  case (activated act s rest sid)
  note walk = activated.prems(3) [unfolded walk_lineage.simps [of _ _ _ seen]]
  from walk gate_before_result [of p act "(sid, checked)"] have before: "gate_before p act (sid, checked) = None"
    by (auto split: option.splits)
  from activated.prems(2) have fresh: "key_of act \<notin> set seen" by simp
  from activated.hyps(1) have move: "gate_move p act (sid, checked) = Follow (act_stage act, rechecked act (sid, checked)) (attempt_activatedBy s)"
    by (simp add: gate_move_def)
  from walk before fresh move have rest: "walk_lineage (gate_before p) (gate_move p) (\<lambda>_. None) (key_of act # seen)
      (act_stage act, rechecked act (sid, checked)) (attempt_activatedBy s) = Some None" by simp
  show ?case
  proof (cases k)
    case 0
    with activated.prems(5) have "final_fix_gate p act = Some g" by simp
    from gate_before_final [OF before this] show ?thesis by (auto simp: 0 checked_again_def rechecked_def split: if_splits)
  next
    case (Suc m)
    have "\<forall>(sid', act') \<in> set rest. key_of act' \<notin> set (key_of act # seen)"
      using activated.prems(1,2) by (auto simp: image_iff)
    moreover have "m < length rest" "final_fix_gate p (snd (rest ! m)) = Some g" using Suc activated.prems(4,5) by simp_all
    ultimately have "checked_again (rechecked act (sid, checked)) (take (Suc m) rest) (stage_id g)"
      using activated.IH [OF _ _ rest] activated.prems(1) by simp
    then show ?thesis by (auto simp: Suc checked_again_def rechecked_def split: if_splits)
  qed
qed simp

section \<open>Completion\<close>

lemma completed_successor:
  assumes "advancePipeline now p stage a output accepted = Some p'" "pipe_state p' = CompletedPipe"
  obtains successor where "passSuccessor p stage a = Some successor" "succ_next successor = None"
    "\<And>attempt handoff. a = Some attempt \<Longrightarrow> succ_handoff successor = Some handoff \<Longrightarrow> accepted \<or> \<not> unreviewed_head p handoff"
proof -
  from assms(1) obtain successor where s: "passSuccessor p stage a = Some successor"
    "p' = (case (a, succ_handoff successor) of
         (Some attempt, Some handoff) \<Rightarrow>
           if \<not> accepted \<and> unreviewed_head p handoff then parkForReview now stage attempt handoff p
           else take_pass_edge successor stage a output p
       | _ \<Rightarrow> take_pass_edge successor stage a output p)"
    by (auto simp: advancePipeline_def)
  have parked: "pipe_state (parkForReview now stage attempt handoff p) \<noteq> CompletedPipe" for attempt handoff
    by (simp add: parkForReview_def)
  with s(2) assms(2) have p': "p' = take_pass_edge successor stage a output p"
    and accepted: "\<And>attempt handoff. a = Some attempt \<Longrightarrow> succ_handoff successor = Some handoff \<Longrightarrow> accepted \<or> \<not> unreviewed_head p handoff"
    by (auto split: option.splits if_splits)
  from p' assms(2) have "succ_next successor = None" by (auto simp: take_pass_edge_def Let_def split: option.splits)
  with s(1) accepted that show thesis by blast
qed

lemma last_successor:
  assumes "passSuccessor p stage (Some a) = Some successor" "succ_next successor = None"
  shows "terminalAdvanceGateForAttempt p stage a = Some None" and "successor = settle_successor p stage (Some a) None False None"
proof -
  have none: "spent_source p None = None" by (simp add: spent_source_def)
  have granted: "succ_next (settle_successor p stage (Some a) (Some g) lastRound gate) \<noteq> None" for g lastRound gate
    by (auto simp: settle_successor_def none Let_def split: option.splits)
  have gated: "succ_next (settle_successor p stage (Some a) None lastRound (Some g)) \<noteq> None" for g lastRound
    by (simp add: settle_successor_def Let_def)
  have "terminalReviewGrantForAttempt p stage a = Some None"
    using assms by (auto simp: passSuccessor_def dest: granted [THEN notE] split: option.splits)
  then obtain gate where gate: "terminalAdvanceGateForAttempt p stage a = Some gate"
    "successor = settle_successor p stage (Some a) None False gate"
    using assms(1) by (auto simp: passSuccessor_def)
  with assms(2) gated have "gate = None" by (cases gate) simp_all
  with gate show "terminalAdvanceGateForAttempt p stage a = Some None" "successor = settle_successor p stage (Some a) None False None"
    by simp_all
qed

text \<open>C28. When a passed attempt completes its lane and nobody accepted the head, two debts of its lineage
  are paid, where that lineage ends. A terminal advancing gate (a reviewer with no pass edge whose
  exhausted fail edge advances) that handed its last findings to a fix on the lineage has checked
  the lane again since. And if the completing attempt itself is the last fix of a stop-after-fix
  reviewer, it left the reviewed head as it was. A gate with a pass edge is owed no check: its last
  fix takes that edge, its findings relayed as unreviewed, and the theorem says nothing of it.\<close>

theorem completed_lane_was_reviewed:
  assumes "advancePipeline now p stage (Some a) output False = Some p'" "pipe_state p' = CompletedPipe"
    and "lineage p (stage_id stage) (attempt_activatedBy a) chain"
  shows "(\<forall>k < length chain. \<forall>g. final_fix_gate p (snd (chain ! k)) = Some g \<longrightarrow>
      (\<exists>act. (stage_id g, act) \<in> set (take (Suc k) chain) \<and> act_budgetRecheck act))
    \<and> (\<forall>act g edge. attempt_activatedBy a = Some act \<longrightarrow> spent_source p (Some act) = Some g \<longrightarrow> stage_onFail g = Some edge \<longrightarrow>
      failEdgeExhaustion edge = StopAfterFixEdge \<longrightarrow>
      (\<exists>review. attempt_at p act = Some review \<and> attempt_reviewedHead review = Some (pipe_lastPassedCommit p)))"
proof -
  from assms(1,2) obtain successor where s: "passSuccessor p stage (Some a) = Some successor" "succ_next successor = None"
    "\<And>handoff. succ_handoff successor = Some handoff \<Longrightarrow> \<not> unreviewed_head p handoff"
    by (elim completed_successor) auto
  note last = last_successor [OF s(1,2)]
  have "\<exists>act. (stage_id g, act) \<in> set (take (Suc k) chain) \<and> act_budgetRecheck act"
    if "k < length chain" "final_fix_gate p (snd (chain ! k)) = Some g" for k g
    using gate_walk_checked [OF assms(3) lineage_distinct [OF assms(3)] _ last(1) [unfolded terminalAdvanceGateForAttempt_def] that]
    by (simp add: checked_again_def)
  moreover have "\<exists>review. attempt_at p act = Some review \<and> attempt_reviewedHead review = Some (pipe_lastPassedCommit p)"
    if "attempt_activatedBy a = Some act" "spent_source p (Some act) = Some g" "stage_onFail g = Some edge"
      "failEdgeExhaustion edge = StopAfterFixEdge" for act g edge
  proof -
    have "succ_handoff successor = Some (g, attempt_at p act)" using that(1,2) by (simp add: last(2) settle_successor_def)
    from s(3) [OF this] that(3,4) show ?thesis by (simp add: unreviewed_head_def split: option.splits)
  qed
  ultimately show ?thesis by blast
qed

section \<open>One lane, completed\<close>

definition gate_edge :: fail_edge where
  "gate_edge = \<lparr>edge_to = ''fix'', edge_maxRounds = 1, edge_onExhausted = Some AdvanceEdge\<rparr>"

definition fix_stage :: pipeline_stage where
  "fix_stage = plain_stage ''fix'' RunKind (Some ''review'') None"

definition gate_stage :: pipeline_stage where
  "gate_stage = plain_stage ''review'' RunKind None (Some gate_edge)"

text \<open>A fix, a review that fails with the budget spent, the final fix and the check of it.\<close>

definition first_check :: activation where
  "first_check = \<lparr>act_stage = ''fix'', act_attempt = 1, act_edge = PassEdge, act_budgetSpent = False, act_budgetRecheck = False\<rparr>"

definition last_findings :: activation where
  "last_findings = \<lparr>act_stage = ''review'', act_attempt = 1, act_edge = FailEdge, act_budgetSpent = True, act_budgetRecheck = False\<rparr>"

definition second_check :: activation where
  "second_check = \<lparr>act_stage = ''fix'', act_attempt = 2, act_edge = PassEdge, act_budgetSpent = False, act_budgetRecheck = True\<rparr>"

definition last_review :: stage_attempt where
  "last_review = demo_attempt 2 AttemptPassed (Some second_check)"

definition checked_pipe :: pipeline where
  "checked_pipe = \<lparr>pipe_state = RunningPipe, pipe_pausedState = None, pipe_detail = None, pipe_stages = [fix_stage, gate_stage],
     pipe_runs = [(''fix'', [demo_attempt 1 AttemptPassed None, demo_attempt 2 AttemptPassed (Some last_findings)]),
       (''review'', [demo_attempt 1 AttemptFailed (Some first_check), last_review])],
     pipe_cursor = None, pipe_lastPassedCommit = ''c1'', pipe_reviewPending = None, pipe_reviewGrants = [], pipe_conversions = []\<rparr>"

definition checked_chain :: "(string \<times> activation) list" where
  "checked_chain = [(''review'', second_check), (''fix'', last_findings), (''review'', first_check)]"

lemma checked_sources:
  "source_of checked_pipe second_check = Some (demo_attempt 2 AttemptPassed (Some last_findings))"
  "source_of checked_pipe last_findings = Some (demo_attempt 1 AttemptFailed (Some first_check))"
  "source_of checked_pipe first_check = Some (demo_attempt 1 AttemptPassed None)"
  by code_simp+

lemma checked_lineage: "lineage checked_pipe (stage_id gate_stage) (attempt_activatedBy last_review) checked_chain"
proof -
  have "lineage checked_pipe ''review'' (Some first_check) [(''review'', first_check)]"
    by (rule activated [OF checked_sources(3)]) (simp add: demo_attempt_def)
  then have "lineage checked_pipe ''fix'' (Some last_findings) [(''fix'', last_findings), (''review'', first_check)]"
    by (intro activated [OF checked_sources(2)]) (simp add: demo_attempt_def last_findings_def)
  then have "lineage checked_pipe ''review'' (Some second_check) checked_chain"
    unfolding checked_chain_def by (intro activated [OF checked_sources(1)]) (simp add: demo_attempt_def second_check_def)
  then show ?thesis by (simp add: last_review_def demo_attempt_def gate_stage_def)
qed

definition done_pipe :: pipeline where
  "done_pipe = the (advancePipeline ''now'' checked_pipe gate_stage (Some last_review) None False)"

lemma checked_completes:
  "advancePipeline ''now'' checked_pipe gate_stage (Some last_review) None False = Some done_pipe"
  "pipe_state done_pipe = CompletedPipe" "final_fix_gate checked_pipe (snd (checked_chain ! 1)) = Some gate_stage"
  by code_simp+

theorem completed_lane_was_reviewed_witness:
  "pipe_state done_pipe = CompletedPipe \<and> (\<exists>act. (''review'', act) \<in> set (take 2 checked_chain) \<and> act_budgetRecheck act)"
proof -
  note fact = completed_lane_was_reviewed [OF checked_completes(1,2) checked_lineage, THEN conjunct1]
  have "1 < length checked_chain" by (simp add: checked_chain_def)
  with fact checked_completes(3) have "\<exists>act. (stage_id gate_stage, act) \<in> set (take (Suc 1) checked_chain) \<and> act_budgetRecheck act"
    by blast
  then show ?thesis by (simp add: checked_completes(2) gate_stage_def numeral_2_eq_2)
qed

section \<open>The cut of a relay\<close>

text \<open>A bound the marker does not fit leaves the marker alone, which is over the bound.\<close>

lemma relay_over_bound:
  assumes "maxBytes < int (utf8Length STAGE_RELAY_TRUNCATED)" "maxBytes < int (utf8Length s)"
  shows "boundedStageRelay s maxBytes = STAGE_RELAY_TRUNCATED" and "int (utf8Length (boundedStageRelay s maxBytes)) > maxBytes"
  using assms by (simp_all add: boundedStageRelay_def utf8Length_def Let_def)

section \<open>The routes are decided\<close>

interpretation pw: lineage_walk "recorded_keys p" "gate_move p" for p
  by unfold_locales (auto simp: gate_move_def split: option.splits dest: source_recorded)

lemma pass_edge_decided: "\<exists>p'. advancePipeline now p stage a output accepted = Some p'"
proof -
  have "\<exists>successor. passSuccessor p stage a = Some successor"
  proof (cases a)
    case (Some attempt)
    obtain grant where grant: "terminalReviewGrantForAttempt p stage attempt = Some grant"
      using gw.walk_returns unfolding terminalReviewGrantForAttempt_def by blast
    obtain gate where "terminalAdvanceGateForAttempt p stage attempt = Some gate"
      using pw.walk_returns unfolding terminalAdvanceGateForAttempt_def by blast
    with Some grant fail_edge_rounds_decided show ?thesis by (cases grant) (auto simp: passSuccessor_def)
  qed (simp add: passSuccessor_def)
  then show ?thesis by (auto simp: advancePipeline_def)
qed

text \<open>C29. No record of attempts, however its activations are linked, keeps the engine in a loop: the
  route of a failed attempt, the advance of a passed one and the latest attempt of a pipeline are
  always decided.\<close>

theorem pipeline_routes_decided:
  "(\<exists>r. routeFailedAttempt p stage i input parkOnExhaustedBudget reviewed = Some r)
   \<and> (\<exists>p'. advancePipeline now p stage a output accepted = Some p')
   \<and> (\<exists>latest. latestOperationalPipelineAttempt parse p = Some latest)"
  using fail_edge_walks_end pass_edge_decided by blast

end
