(* ===== verification/Stage_Graph_Properties.thy ===== *)
theory Stage_Graph_Properties
  imports Stage_Graph
begin

text \<open>
  The walks of the graph check against the graph: a pipeline passes it exactly when its pass edges
  have no cycle, its edges lead to stages and every review-loop is behind a run.
\<close>

section \<open>A partial successor\<close>

text \<open>The nodes along a partial successor function on finitely many nodes.\<close>

locale pass_graph =
  fixes nodes :: "'a set" and succ :: "'a \<Rightarrow> 'a option"
  assumes finite_nodes: "finite nodes"
    and succ_nodes: "succ c = Some d \<Longrightarrow> c \<in> nodes \<and> d \<in> nodes"
begin

definition edges :: "('a \<times> 'a) set" where "edges = {(c, d). succ c = Some d}"

fun orbit :: "nat \<Rightarrow> 'a \<Rightarrow> 'a option" where
  "orbit 0 c = Some c"
| "orbit (Suc n) c = (case succ c of None \<Rightarrow> None | Some d \<Rightarrow> orbit n d)"

lemma orbit_split: "orbit (m + n) c = Option.bind (orbit m c) (orbit n)"
  by (induction m arbitrary: c) (auto split: option.split)

lemma orbit_Suc: "orbit (Suc n) c = Option.bind (orbit n c) succ"
proof -
  have "orbit (Suc 0) = succ" by (auto split: option.split)
  with orbit_split [of n "Suc 0" c] show ?thesis by (simp del: orbit.simps)
qed

lemma orbit_trancl: "orbit (Suc n) c = Some d \<Longrightarrow> (c, d) \<in> edges\<^sup>+"
proof (induction n arbitrary: c)
  case (Suc n)
  then obtain e where "succ c = Some e" "orbit (Suc n) e = Some d" by (auto split: option.splits)
  with Suc.IH [of e] show ?case by (auto simp: edges_def intro: trancl_into_trancl2)
qed (auto simp: edges_def split: option.splits)

lemma trancl_orbit: "(c, d) \<in> edges\<^sup>+ \<Longrightarrow> \<exists>n. orbit (Suc n) c = Some d"
proof (induction rule: trancl_induct)
  case (base d)
  then show ?case by (intro exI [of _ 0]) (simp add: edges_def)
next
  case (step d e)
  then obtain n where "orbit (Suc n) c = Some d" by blast
  with step.hyps(2) have "orbit (Suc (Suc n)) c = Some e" by (simp only: orbit_Suc) (simp add: edges_def)
  then show ?case by blast
qed

lemma orbit_nodes: "orbit (Suc n) c = Some d \<Longrightarrow> d \<in> nodes"
  by (auto simp only: orbit_Suc bind_eq_Some_conv dest: succ_nodes)

lemma orbit_prefix: "m \<le> n \<Longrightarrow> orbit n c \<noteq> None \<Longrightarrow> orbit m c \<noteq> None"
  using orbit_split [of m "n - m" c] by (cases "orbit m c") simp_all

text \<open>A walk that outlives the nodes has met one twice.\<close>

lemma long_orbit_cycle:
  assumes "c \<in> nodes" "orbit (card nodes) c \<noteq> None"
  shows "\<not> acyclic edges"
proof -
  let ?at = "\<lambda>n. the (orbit n c)"
  have at: "orbit n c = Some (?at n)" if "n \<le> card nodes" for n
    using orbit_prefix [OF that assms(2)] by simp
  have "?at n \<in> nodes" if "n \<le> card nodes" for n
    using at [OF that] assms(1) orbit_nodes by (cases n) auto
  then have "?at ` {..card nodes} \<subseteq> nodes" by auto
  then have "card (?at ` {..card nodes}) \<le> card nodes" using finite_nodes by (rule card_mono [rotated])
  then have "\<not> inj_on ?at {..card nodes}" using pigeonhole by (metis card_atMost le_imp_less_Suc)
  then obtain i j where ij: "i < j" "j \<le> card nodes" "?at i = ?at j"
    unfolding inj_on_def by (metis atMost_iff linorder_neqE_nat)
  define v where "v = ?at i"
  have "orbit i c = Some v" "orbit j c = Some v" using at [of i] at [of j] ij by (simp_all add: v_def)
  with orbit_split [of i "j - i" c] ij(1) have "orbit (j - i) v = Some v" by simp
  moreover obtain k where "j - i = Suc k" using ij(1) by (metis Suc_diff_Suc)
  ultimately have "(v, v) \<in> edges\<^sup>+" using orbit_trancl [of k v v] by simp
  then show ?thesis by (auto simp: acyclic_def)
qed

lemma orbit_short: "acyclic edges \<Longrightarrow> c \<in> nodes \<Longrightarrow> orbit n c = Some d \<Longrightarrow> n < card nodes"
  using long_orbit_cycle [of c] orbit_prefix [of "card nodes" n c] by (cases "n < card nodes") auto

text \<open>The walk that looks for a cycle.\<close>

lemma pass_cycle_hit: "orbit m c = Some sid \<Longrightarrow> pass_cycle succ limit sid hops (Some c)"
  by (induction m arbitrary: c hops) (auto split: option.splits)

lemma pass_cycle_exit:
  "pass_cycle succ limit sid hops (Some c) \<Longrightarrow> (\<exists>m. orbit m c = Some sid) \<or> orbit (Suc limit - hops) c \<noteq> None"
proof (induction "Suc limit - hops" arbitrary: hops c)
  case (Suc n)
  show ?case
  proof (cases "c = sid")
    case True
    then show ?thesis by (intro disjI1 exI [of _ 0]) simp
  next
    case False
    from Suc.hyps(2) have "hops \<le> limit" "n = Suc limit - Suc hops" by simp_all
    with False Suc.prems obtain d where d: "succ c = Some d" "pass_cycle succ limit sid (Suc hops) (Some d)"
      by (cases "succ c") auto
    from Suc.hyps(1) [OF \<open>n = Suc limit - Suc hops\<close> d(2)] show ?thesis
    proof
      assume "\<exists>m. orbit m d = Some sid"
      then obtain m where "orbit m d = Some sid" ..
      with d(1) show ?thesis by (intro disjI1 exI [of _ "Suc m"]) simp
    next
      assume "orbit (Suc limit - Suc hops) d \<noteq> None"
      with d(1) Suc.hyps(2) \<open>n = Suc limit - Suc hops\<close> show ?thesis by (metis orbit.simps(2) option.simps(5))
    qed
  qed
qed simp

lemma cycle_free: "(\<forall>c \<in> nodes. \<not> pass_cycle succ (card nodes) c 0 (succ c)) \<longleftrightarrow> acyclic edges"
proof
  assume free: "\<forall>c \<in> nodes. \<not> pass_cycle succ (card nodes) c 0 (succ c)"
  show "acyclic edges" unfolding acyclic_def
  proof (intro allI notI)
    fix v
    assume "(v, v) \<in> edges\<^sup>+"
    then obtain n where "orbit (Suc n) v = Some v" using trancl_orbit by blast
    then obtain d where "succ v = Some d" "orbit n d = Some v" by (auto split: option.splits)
    with pass_cycle_hit free succ_nodes show False by metis
  qed
next
  assume acyclic: "acyclic edges"
  show "\<forall>c \<in> nodes. \<not> pass_cycle succ (card nodes) c 0 (succ c)"
  proof (intro ballI notI)
    fix c
    assume c: "c \<in> nodes" "pass_cycle succ (card nodes) c 0 (succ c)"
    then obtain d where d: "succ c = Some d" by (cases "succ c") simp_all
    from pass_cycle_exit [OF c(2) [unfolded d]] show False
    proof
      assume "\<exists>m. orbit m d = Some c"
      then obtain m where "orbit (Suc m) c = Some c" using d by auto
      with orbit_trancl acyclic show False by (auto simp: acyclic_def)
    next
      assume "orbit (Suc (card nodes) - 0) d \<noteq> None"
      then obtain e where "orbit (Suc (card nodes)) d = Some e" by auto
      with orbit_short [OF acyclic] succ_nodes [OF d] show False by fastforce
    qed
  qed
qed

text \<open>The walk that looks for a node.\<close>

lemma pass_reaches_orbit: "pass_reaches succ limit t hops (Some c) \<Longrightarrow> \<exists>m. orbit m c = Some t"
proof (induction "Suc limit - hops" arbitrary: hops c)
  case (Suc n)
  show ?case
  proof (cases "c = t")
    case True
    then show ?thesis by (intro exI [of _ 0]) simp
  next
    case False
    from Suc.hyps(2) have n: "n = Suc limit - Suc hops" "hops \<le> limit" by simp_all
    with False Suc.prems obtain d where d: "succ c = Some d" "pass_reaches succ limit t (Suc hops) (Some d)"
      by (cases "succ c") auto
    from Suc.hyps(1) [OF n(1) d(2)] obtain m where "orbit m d = Some t" ..
    with d(1) show ?thesis by (intro exI [of _ "Suc m"]) simp
  qed
qed simp

lemma orbit_pass_reaches: "orbit m c = Some t \<Longrightarrow> hops + m \<le> limit \<Longrightarrow> pass_reaches succ limit t hops (Some c)"
  by (induction m arbitrary: c hops) (auto split: option.splits)

lemma reaches_trancl: "acyclic edges \<Longrightarrow> c \<in> nodes \<Longrightarrow> pass_reaches succ (card nodes) t 0 (succ c) \<longleftrightarrow> (c, t) \<in> edges\<^sup>+"
proof
  assume reaches: "pass_reaches succ (card nodes) t 0 (succ c)"
  then obtain d where d: "succ c = Some d" by (cases "succ c") simp_all
  from pass_reaches_orbit [OF reaches [unfolded d]] obtain m where "orbit m d = Some t" ..
  with d have "orbit (Suc m) c = Some t" by simp
  then show "(c, t) \<in> edges\<^sup>+" by (rule orbit_trancl)
next
  assume acyclic: "acyclic edges" "c \<in> nodes" and "(c, t) \<in> edges\<^sup>+"
  then obtain m where m: "orbit (Suc m) c = Some t" using trancl_orbit by blast
  with orbit_short [OF acyclic] have "m \<le> card nodes" by fastforce
  moreover from m obtain d where "succ c = Some d" "orbit m d = Some t" by (auto split: option.splits)
  ultimately show "pass_reaches succ (card nodes) t 0 (succ c)" using orbit_pass_reaches [of m d t 0 "card nodes"] by simp
qed

end

section \<open>The graph of a pipeline\<close>

lemma first_error_None: "first_error f xs = None \<longleftrightarrow> (\<forall>x \<in> set xs. f x = None)"
  by (induction xs) (auto split: option.split)

definition stage_ids :: "pipeline_stage list \<Rightarrow> string set" where
  "stage_ids stages = stage_id ` set stages"

definition inner_next :: "pipeline_stage list \<Rightarrow> string \<Rightarrow> string option" where
  "inner_next stages i =
     (case next_of stages i of
        Some t \<Rightarrow> if i \<in> stage_ids stages \<and> t \<in> stage_ids stages then Some t else None
      | None \<Rightarrow> None)"

interpretation sg: pass_graph "stage_ids stages" "inner_next stages" for stages
  by unfold_locales (auto simp: stage_ids_def inner_next_def split: option.splits if_splits)

text \<open>The edges, and what the check asks of them.\<close>

definition pass_edges :: "pipeline_stage list \<Rightarrow> (string \<times> string) set" where
  "pass_edges stages = {(stage_id s, t) | s t. s \<in> set stages \<and> stage_next s = Some t}"

definition graph_ok :: "pipeline_stage list \<Rightarrow> bool" where
  "graph_ok stages \<longleftrightarrow>
     (\<forall>s \<in> set stages. \<forall>t. stage_next s = Some t \<longrightarrow> t \<in> stage_ids stages)
     \<and> acyclic (pass_edges stages)
     \<and> (\<forall>s \<in> set stages. \<forall>edge. stage_onFail s = Some edge \<longrightarrow> stage_kind s = RunKind
          \<and> edge_to edge \<in> stage_ids stages \<and> 1 \<le> edge_maxRounds edge \<and> edge_maxRounds edge \<le> 9)"

definition loops_behind_runs :: "pipeline_stage list \<Rightarrow> bool" where
  "loops_behind_runs stages \<longleftrightarrow>
     (\<forall>s \<in> set stages. stage_kind s = ReviewLoopKind \<longrightarrow>
        (\<exists>r \<in> set stages. stage_kind r = RunKind \<and> (stage_id r, stage_id s) \<in> (pass_edges stages)\<^sup>+))"

definition unique_ids :: "pipeline_stage list \<Rightarrow> bool" where
  "unique_ids stages \<longleftrightarrow> distinct (map stage_id stages)"

lemma next_of_stage: "unique_ids stages \<Longrightarrow> s \<in> set stages \<Longrightarrow> next_of stages (stage_id s) = stage_next s"
proof -
  assume ids: "unique_ids stages" and s: "s \<in> set stages"
  let ?es = "map (\<lambda>s. (stage_id s, stage_next s)) stages"
  have keys: "distinct (map fst ?es)" using ids by (simp add: unique_ids_def comp_def)
  then have "map_of ?es (stage_id s) = Some (stage_next s)" using s by (intro map_of_is_SomeI) auto
  with js_map_of_distinct [OF keys] show ?thesis by (simp add: next_of_def js_get_def)
qed

lemma stage_ids_card: "unique_ids stages \<Longrightarrow> card (stage_ids stages) = length stages"
  by (metis stage_ids_def unique_ids_def distinct_card length_map set_map)

text \<open>Where every pass edge leads to a stage the successor is the code's.\<close>

definition edges_inside :: "pipeline_stage list \<Rightarrow> bool" where
  "edges_inside stages \<longleftrightarrow> (\<forall>s \<in> set stages. \<forall>t. stage_next s = Some t \<longrightarrow> t \<in> stage_ids stages)"

lemma inner_next_stage:
  assumes "unique_ids stages" "edges_inside stages" "s \<in> set stages"
  shows "inner_next stages (stage_id s) = stage_next s"
proof -
  have "stage_id s \<in> stage_ids stages" using assms(3) by (simp add: stage_ids_def)
  with assms(2,3) next_of_stage [OF assms(1,3)] show ?thesis
    by (cases "stage_next s") (auto simp: inner_next_def edges_inside_def)
qed

lemma next_of_inside: "unique_ids stages \<Longrightarrow> edges_inside stages \<Longrightarrow> i \<in> stage_ids stages \<Longrightarrow> next_of stages i = inner_next stages i"
  using next_of_stage inner_next_stage by (auto simp: stage_ids_def)

lemma pass_walks_inside:
  assumes "unique_ids stages" "edges_inside stages" "case cursor of Some c \<Rightarrow> c \<in> stage_ids stages | None \<Rightarrow> True"
  shows "pass_cycle (next_of stages) limit sid hops cursor = pass_cycle (inner_next stages) limit sid hops cursor"
    and "pass_reaches (next_of stages) limit sid hops cursor = pass_reaches (inner_next stages) limit sid hops cursor"
proof -
  have step: "case inner_next stages c of Some d \<Rightarrow> d \<in> stage_ids stages | None \<Rightarrow> True" for c
    using sg.succ_nodes [of stages c] by (auto split: option.split)
  have "pass_cycle (next_of stages) limit sid hops cursor = pass_cycle (inner_next stages) limit sid hops cursor
    \<and> pass_reaches (next_of stages) limit sid hops cursor = pass_reaches (inner_next stages) limit sid hops cursor"
    using assms(3)
  proof (induction "Suc limit - hops" arbitrary: hops cursor)
    case 0
    then show ?case by (cases cursor) simp_all
  next
    case (Suc n)
    then show ?case using next_of_inside [OF assms(1,2)] step by (cases cursor) simp_all
  qed
  then show "pass_cycle (next_of stages) limit sid hops cursor = pass_cycle (inner_next stages) limit sid hops cursor"
    "pass_reaches (next_of stages) limit sid hops cursor = pass_reaches (inner_next stages) limit sid hops cursor" by simp_all
qed

lemma inner_edges: "unique_ids stages \<Longrightarrow> edges_inside stages \<Longrightarrow> sg.edges stages = pass_edges stages"
proof -
  assume ids: "unique_ids stages" "edges_inside stages"
  have "inner_next stages c = Some d \<longleftrightarrow> (\<exists>s \<in> set stages. c = stage_id s \<and> stage_next s = Some d)" for c d
    using sg.succ_nodes [of stages c d] inner_next_stage [OF ids] by (fastforce simp: stage_ids_def)
  then show ?thesis by (auto simp: sg.edges_def pass_edges_def)
qed

lemma no_pass_cycle:
  assumes "unique_ids stages" "edges_inside stages"
  shows "(\<forall>s \<in> set stages. \<not> pass_cycle (next_of stages) (length stages) (stage_id s) 0 (stage_next s)) \<longleftrightarrow> acyclic (pass_edges stages)"
proof -
  have "pass_cycle (next_of stages) (length stages) (stage_id s) 0 (stage_next s)
      = pass_cycle (inner_next stages) (card (stage_ids stages)) (stage_id s) 0 (inner_next stages (stage_id s))" if "s \<in> set stages" for s
    using that assms pass_walks_inside(1) [OF assms, of "stage_next s"] inner_next_stage [OF assms] stage_ids_card
    by (auto simp: edges_inside_def split: option.split)
  then show ?thesis using sg.cycle_free [of stages] inner_edges [OF assms] by (simp add: stage_ids_def)
qed

lemma behind_run:
  assumes "unique_ids stages" "edges_inside stages" "acyclic (pass_edges stages)"
  shows "legacyReviewLoopReachable stages sid \<longleftrightarrow> (\<exists>r \<in> set stages. stage_kind r = RunKind \<and> (stage_id r, sid) \<in> (pass_edges stages)\<^sup>+)"
proof -
  have "pass_reaches (next_of stages) (length stages) sid 0 (stage_next r) \<longleftrightarrow> (stage_id r, sid) \<in> (pass_edges stages)\<^sup>+" if "r \<in> set stages" for r
  proof -
    have "pass_reaches (next_of stages) (length stages) sid 0 (stage_next r)
        = pass_reaches (inner_next stages) (card (stage_ids stages)) sid 0 (inner_next stages (stage_id r))"
      using that assms pass_walks_inside(2) [OF assms(1,2), of "stage_next r"] inner_next_stage [OF assms(1,2)] stage_ids_card
      by (auto simp: edges_inside_def split: option.split)
    with sg.reaches_trancl [of stages "stage_id r" sid] inner_edges [OF assms(1,2)] assms(3) that show ?thesis
      by (simp add: stage_ids_def)
  qed
  then show ?thesis by (auto simp: legacyReviewLoopReachable_def list_ex_iff)
qed

section \<open>The check decides the graph\<close>

lemma stage_error_None: "stage_error stages s = None \<longleftrightarrow>
    (\<forall>t. stage_next s = Some t \<longrightarrow> t \<in> stage_ids stages \<and> t \<noteq> stage_id s)
    \<and> (\<forall>edge. stage_onFail s = Some edge \<longrightarrow> stage_kind s = RunKind
         \<and> edge_to edge \<in> stage_ids stages \<and> 1 \<le> edge_maxRounds edge \<and> edge_maxRounds edge \<le> 9)"
  using stage_kind.exhaust [of "stage_kind s"]
  by (auto simp: stage_error_def stage_ids_def isLegacyReviewLoopStage_def MAX_FAIL_EDGE_ROUNDS_def Let_def split: option.split)

lemma unreached_error_None: "unreached_error stages s = None \<longleftrightarrow> (stage_kind s = ReviewLoopKind \<longrightarrow> legacyReviewLoopReachable stages (stage_id s))"
  by (auto simp: unreached_error_def isLegacyReviewLoopStage_def Let_def)

lemma graph_error_None: "pipelineGraphError stages legacyReachability = None \<longleftrightarrow>
    first_error (stage_error stages) stages = None
    \<and> (\<forall>s \<in> set stages. \<not> pass_cycle (next_of stages) (length stages) (stage_id s) 0 (stage_next s))
    \<and> (legacyReachability \<longrightarrow> first_error (unreached_error stages) stages = None)"
proof -
  let ?cycle = "\<lambda>s. if pass_cycle (next_of stages) (length stages) (stage_id s) 0 (stage_next s) then Some (PassCycle (stage_id s)) else None"
  have "first_error ?cycle stages = None \<longleftrightarrow>
      (\<forall>s \<in> set stages. \<not> pass_cycle (next_of stages) (length stages) (stage_id s) 0 (stage_next s))"
    unfolding first_error_None by simp
  then show ?thesis
    by (cases "first_error (stage_error stages) stages"; cases "first_error ?cycle stages") (simp_all add: pipelineGraphError_def)
qed

lemma stage_graph_accepted_fact:
  assumes "unique_ids stages"
  shows "pipelineGraphError stages legacyReachability = None
    \<longleftrightarrow> graph_ok stages \<and> (legacyReachability \<longrightarrow> loops_behind_runs stages)"
proof -
  have own: "stage_next s \<noteq> Some (stage_id s)" if "acyclic (pass_edges stages)" "s \<in> set stages" for s
    using that by (auto simp: acyclic_def pass_edges_def)
  have fields: "first_error (stage_error stages) stages = None \<longleftrightarrow> edges_inside stages
    \<and> (\<forall>s \<in> set stages. stage_next s \<noteq> Some (stage_id s))
    \<and> (\<forall>s \<in> set stages. \<forall>edge. stage_onFail s = Some edge \<longrightarrow> stage_kind s = RunKind
          \<and> edge_to edge \<in> stage_ids stages \<and> 1 \<le> edge_maxRounds edge \<and> edge_maxRounds edge \<le> 9)"
    by (auto simp: first_error_None stage_error_None edges_inside_def)
  show ?thesis
  proof (cases "edges_inside stages \<and> acyclic (pass_edges stages)")
    case True
    then have "first_error (unreached_error stages) stages = None \<longleftrightarrow> loops_behind_runs stages"
      using behind_run [OF assms] by (simp add: first_error_None unreached_error_None loops_behind_runs_def)
    moreover from True have "graph_ok stages \<longleftrightarrow> first_error (stage_error stages) stages = None"
      unfolding fields graph_ok_def using own by (auto simp: edges_inside_def)
    ultimately show ?thesis unfolding graph_error_None using no_pass_cycle [OF assms] True by blast
  next
    case False
    then have "\<not> graph_ok stages" by (auto simp: graph_ok_def edges_inside_def)
    with False show ?thesis unfolding graph_error_None fields using no_pass_cycle [OF assms] by blast
  qed
qed

text \<open>C30. The stages of a pipeline are accepted exactly when every pass edge leads to a stage and no
  chain of them comes back, every fail edge belongs to a run stage, leads to a stage and allows one
  to nine rounds, and, where it is asked, every review-loop is reached from a run along pass edges.\<close>

theorem stage_graph_accepted:
  assumes "unique_ids stages"
  shows "pipelineGraphError stages legacyReachability = None
    \<longleftrightarrow> graph_ok stages \<and> (legacyReachability \<longrightarrow> loops_behind_runs stages)"
  by (rule stage_graph_accepted_fact [OF assms])

end
