(* ===== verification/Pass_Path.thy ===== *)
theory Pass_Path
  imports Pass_Edge_Properties Stage_Graph_Properties
begin

text \<open>
  A lane in which every stage passes: on an accepted graph it completes, after at most as many
  stages as there are. A lane is clean while no final fix is owed to a reviewer and nobody granted
  it more rounds.
\<close>

section \<open>A clean lane\<close>

definition clean_activation :: "pipeline \<Rightarrow> activation option \<Rightarrow> bool" where
  "clean_activation p = kept_along (\<lambda>act. \<not> act_budgetSpent act)"

definition clean_lane :: "pipeline \<Rightarrow> bool" where
  "clean_lane p \<longleftrightarrow> pipe_reviewGrants p = [] \<and> (\<forall>sid. \<forall>a \<in> set (attempts_of p sid). clean_activation p (attempt_activatedBy a))"

lemma source_clean: "clean_lane p \<Longrightarrow> source_of p act = Some s \<Longrightarrow> kept_along (\<lambda>act. \<not> act_budgetSpent act) (attempt_activatedBy s)"
  by (auto simp: clean_lane_def clean_activation_def source_of_def dest!: find_SomeD)

lemma clean_gate:
  assumes "clean_lane p" "clean_activation p (attempt_activatedBy a)"
  shows "terminalAdvanceGateForAttempt p stage a = Some None"
proof -
  obtain gate where gate: "terminalAdvanceGateForAttempt p stage a = Some gate"
    using pw.walk_returns unfolding terminalAdvanceGateForAttempt_def by blast
  have "walk_sound (\<lambda>act. \<not> act_budgetSpent act) (\<lambda>gate. gate = None) (gate_before p) (gate_move p) (\<lambda>_. None)"
    using source_clean [OF assms(1)] by (auto simp: walk_sound_def gate_before_def gate_move_def split: option.splits if_splits)
  from walk_kept [OF gate [unfolded terminalAdvanceGateForAttempt_def] this] assms(2) gate show ?thesis
    by (simp add: clean_activation_def)
qed

lemma clean_advance:
  assumes "clean_lane p" "clean_activation p (attempt_activatedBy a)"
  shows "advancePipeline now p stage (Some a) output accepted
    = Some (take_pass_edge \<lparr>succ_next = stage_next stage, succ_handoff = None, succ_recheck = False\<rparr> stage (Some a) output p)"
proof -
  obtain grant where "terminalReviewGrantForAttempt p stage a = Some grant"
    using gw.walk_returns unfolding terminalReviewGrantForAttempt_def by blast
  moreover have "no_root_grants p" using assms(1) by (simp add: clean_lane_def no_root_grants_def)
  ultimately have "terminalReviewGrantForAttempt p stage a = Some None" using no_root_grant by blast
  moreover have "spent_source p (attempt_activatedBy a) = None"
    using assms(2) by (auto simp: spent_source_def clean_activation_def kept_along_def split: option.split)
  ultimately show ?thesis
    by (simp add: advancePipeline_def passSuccessor_def settle_successor_def clean_gate [OF assms] Let_def split: option.split)
qed

section \<open>The steps of a lane\<close>

text \<open>Where the lane is: its pipeline, the stage that passed and its attempt.\<close>

type_synonym lane = "pipeline \<times> pipeline_stage \<times> stage_attempt"

text \<open>What a stage that passes leaves of its attempt; the rest it may have written.\<close>

definition passed_as :: "stage_attempt \<Rightarrow> stage_attempt \<Rightarrow> bool" where
  "passed_as b b' \<longleftrightarrow> attempt_n b' = attempt_n b \<and> attempt_activatedBy b' = attempt_activatedBy b
     \<and> attempt_state b' = AttemptPassed"

inductive lane_step :: "lane \<Rightarrow> lane \<Rightarrow> bool" where
  pass: "advancePipeline now p stage (Some a) output accepted = Some p' \<Longrightarrow> pipe_cursor p' = Some c \<Longrightarrow>
    stage_of p' (cursor_stage c) = Some stage' \<Longrightarrow> newAttempt p' stage' = (p'', Some b) \<Longrightarrow> passed_as b b' \<Longrightarrow>
    lane_step (p, stage, a) (update_attempt (stage_id stage') (attempt_n b - 1) (\<lambda>_. b') p'', stage', b')"

inductive_cases lane_stepE: "lane_step (p, stage, a) lane"

text \<open>A lane on an accepted graph that has a record for every stage.\<close>

definition lane_ready :: "bool \<Rightarrow> lane \<Rightarrow> bool" where
  "lane_ready legacy = (\<lambda>(p, stage, a). unique_ids (pipe_stages p) \<and> pipelineGraphError (pipe_stages p) legacy = None
     \<and> stage_ids (pipe_stages p) \<subseteq> set (js_keys (pipe_runs p)) \<and> clean_lane p
     \<and> stage \<in> set (pipe_stages p) \<and> clean_activation p (attempt_activatedBy a))"

text \<open>What the advance of a ready lane leaves.\<close>

definition advanced :: "pipeline_stage \<Rightarrow> stage_attempt \<Rightarrow> utext option \<Rightarrow> pipeline \<Rightarrow> pipeline" where
  "advanced stage a output p = take_pass_edge \<lparr>succ_next = stage_next stage, succ_handoff = None, succ_recheck = False\<rparr> stage (Some a) output p"

lemma advanced_fields [simp]:
  "pipe_stages (advanced stage a output p) = pipe_stages p" "pipe_runs (advanced stage a output p) = pipe_runs p"
  "pipe_reviewGrants (advanced stage a output p) = pipe_reviewGrants p"
  "pipe_cursor (advanced stage a output p) = map_option (\<lambda>t. \<lparr>cursor_stage = t, cursor_pending = True, cursor_input = output,
     cursor_activatedBy = Some \<lparr>act_stage = stage_id stage, act_attempt = attempt_n a, act_edge = PassEdge, act_budgetSpent = False, act_budgetRecheck = False\<rparr>\<rparr>) (stage_next stage)"
  "pipe_state (advanced stage a output p) = CompletedPipe \<longleftrightarrow> stage_next stage = None"
  by (auto simp: advanced_def take_pass_edge_def split: option.split)

lemma ready_advance: "lane_ready legacy (p, stage, a) \<Longrightarrow> advancePipeline now p stage (Some a) output accepted = Some (advanced stage a output p)"
  by (simp add: lane_ready_def clean_advance advanced_def)

lemma ready_next:
  assumes "lane_ready legacy (p, stage, a)" "stage_next stage = Some t"
  obtains stage' where "stage_of p t = Some stage'" "stage' \<in> set (pipe_stages p)" "stage_id stage' = t"
proof -
  from assms have "graph_ok (pipe_stages p)" "stage \<in> set (pipe_stages p)"
    using stage_graph_accepted_fact by (auto simp: lane_ready_def)
  with assms(2) have "t \<in> stage_ids (pipe_stages p)" by (auto simp: graph_ok_def)
  then have "stage_of p t \<noteq> None" by (auto simp: stage_of_def stage_ids_def find_None_iff)
  then obtain stage' where "stage_of p t = Some stage'" by blast
  with that show thesis by (auto simp: stage_of_def dest: find_SomeD)
qed

lemma stage_of_advanced [simp]: "stage_of (advanced stage a output p) = stage_of p"
  by (simp add: stage_of_def fun_eq_iff)

lemma attempts_get: "js_get (pipe_runs p) sid = Some attempts \<Longrightarrow> attempts_of p sid = attempts"
  by (simp add: attempts_of_def)

text \<open>A new attempt of a recorded stage.\<close>

lemma newAttempt_recorded:
  assumes "newAttempt p stage = (p'', Some b)"
  shows "p'' = p\<lparr>pipe_runs := js_set (stage_id stage) (attempts_of p (stage_id stage) @ [b]) (pipe_runs p)\<rparr>"
    and "attempt_n b = Suc (length (attempts_of p (stage_id stage)))"
    and "attempt_activatedBy b = (case pipe_cursor p of Some c \<Rightarrow> if cursor_stage c = stage_id stage then cursor_activatedBy c else None | None \<Rightarrow> None)"
  using assms by (auto simp: newAttempt_def fresh_attempt_def Let_def attempts_of_def split: option.splits)

lemma attempts_settled:
  assumes "newAttempt p stage = (p'', Some b)"
  shows "attempts_of (update_attempt (stage_id stage) (attempt_n b - 1) (\<lambda>_. b') p'') sid
    = (if sid = stage_id stage then attempts_of p (stage_id stage) @ [b'] else attempts_of p sid)"
proof -
  have attempts: "attempts_of p'' sid = (if sid = stage_id stage then attempts_of p (stage_id stage) @ [b] else attempts_of p sid)" for sid
    using newAttempt_recorded(1) [OF assms] by (simp add: attempts_of_def)
  show ?thesis using newAttempt_recorded(2) [OF assms] by (simp add: attempts)
qed

lemma update_attempt_fields [simp]:
  "pipe_stages (update_attempt sid i f p) = pipe_stages p"
  "set (js_keys (pipe_runs p)) \<subseteq> set (js_keys (pipe_runs (update_attempt sid i f p)))"
  by (auto simp: update_attempt_def js_keys_set Let_def)

lemma lane_step_ready:
  assumes ready: "lane_ready legacy (p, stage, a)" and step: "lane_step (p, stage, a) (q, stage', a')"
  shows "lane_ready legacy (q, stage', a') \<and> pipe_stages q = pipe_stages p \<and> stage_next stage = Some (stage_id stage')"
proof -
  from step obtain now out accepted p' c p'' b where
    s: "advancePipeline now p stage (Some a) out accepted = Some p'" "pipe_cursor p' = Some c" "stage_of p' (cursor_stage c) = Some stage'"
      "newAttempt p' stage' = (p'', Some b)" "passed_as b a'"
      "q = update_attempt (stage_id stage') (attempt_n b - 1) (\<lambda>_. a') p''"
    by (elim lane_stepE) auto
  have p': "p' = advanced stage a out p" using s(1) ready_advance [OF ready] by simp
  with s(2) obtain t where t: "stage_next stage = Some t" "cursor_stage c = t" by auto
  with s(3) p' have st: "stage' \<in> set (pipe_stages p)" "stage_id stage' = t" by (auto simp: stage_of_def dest: find_SomeD)
  note new = newAttempt_recorded [OF s(4)]
  have "clean_activation p (attempt_activatedBy a')"
    using s(2,5) new(3) p' t st by (auto simp: passed_as_def clean_activation_def kept_along_def)
  moreover from this have "clean_lane q"
    using ready attempts_settled [OF s(4), of a'] s(6) new(1) p' grants_update
    by (auto simp: lane_ready_def clean_lane_def clean_activation_def attempts_of_def)
  moreover have stages: "pipe_stages q = pipe_stages p" using s(6) new(1) p' by simp
  moreover have "set (js_keys (pipe_runs p)) \<subseteq> set (js_keys (pipe_runs q))"
    using s(6) new(1) p' by (auto simp: update_attempt_def js_keys_set Let_def)
  ultimately show ?thesis using ready st t by (auto simp: lane_ready_def clean_activation_def)
qed

section \<open>The lane ends\<close>

definition completes :: "lane \<Rightarrow> bool" where
  "completes = (\<lambda>(p, stage, a). \<forall>now output accepted. \<exists>p'. advancePipeline now p stage (Some a) output accepted = Some p' \<and> pipe_state p' = CompletedPipe)"

lemma ready_completes: "lane_ready legacy (p, stage, a) \<Longrightarrow> stage_next stage = None \<Longrightarrow> completes (p, stage, a)"
  using ready_advance [of legacy p stage a] by (simp add: completes_def)

lemma ready_steps:
  assumes "lane_ready legacy (p, stage, a)" "stage_next stage = Some t"
  shows "\<exists>lane'. lane_step (p, stage, a) lane'"
proof -
  obtain stage' where stage': "stage_of p t = Some stage'" "stage' \<in> set (pipe_stages p)" "stage_id stage' = t"
    using ready_next [OF assms] .
  let ?p' = "advanced stage a None p"
  have "t \<in> set (js_keys (pipe_runs p))" using assms(1) stage' by (auto simp: lane_ready_def stage_ids_def)
  then obtain attempts where "js_get (pipe_runs ?p') (stage_id stage') = Some attempts"
    using stage'(3) js_get_None_iff [of "pipe_runs p" t] by auto
  then obtain p'' b where new: "newAttempt ?p' stage' = (p'', Some b)" by (simp add: newAttempt_def Let_def)
  obtain c where c: "pipe_cursor ?p' = Some c" "cursor_stage c = t" using assms(2) by simp
  have "passed_as b (b\<lparr>attempt_state := AttemptPassed\<rparr>)" by (simp add: passed_as_def)
  moreover have "stage_of ?p' (cursor_stage c) = Some stage'" using c(2) stage'(1) by simp
  ultimately show ?thesis using pass [OF ready_advance [OF assms(1), of undefined None] c(1) _ new] by blast
qed

lemma lane_steps:
  assumes "lane_ready legacy (p, stage, a)" "(lane_step ^^ n) (p, stage, a) (q, st, b)"
  shows "lane_ready legacy (q, st, b) \<and> pipe_stages q = pipe_stages p
    \<and> sg.orbit (pipe_stages p) n (stage_id stage) = Some (stage_id st)"
  using assms(2)
proof (induction n arbitrary: q st b)
  case 0
  then show ?case using assms(1) by simp
next
  case (Suc n)
  then obtain q0 st0 b0 where steps: "(lane_step ^^ n) (p, stage, a) (q0, st0, b0)" "lane_step (q0, st0, b0) (q, st, b)"
    by (auto simp: relcompp_apply)
  from Suc.IH [OF steps(1)] have before: "lane_ready legacy (q0, st0, b0)" "pipe_stages q0 = pipe_stages p"
    "sg.orbit (pipe_stages p) n (stage_id stage) = Some (stage_id st0)" by simp_all
  note after = lane_step_ready [OF before(1) steps(2)]
  from before(1,2) have "unique_ids (pipe_stages p)" "edges_inside (pipe_stages p)" "st0 \<in> set (pipe_stages p)"
    using stage_graph_accepted_fact [of "pipe_stages p" legacy] by (auto simp: lane_ready_def graph_ok_def edges_inside_def)
  from inner_next_stage [OF this] after have "inner_next (pipe_stages p) (stage_id st0) = Some (stage_id st)" by simp
  then have "sg.orbit (pipe_stages p) (Suc n) (stage_id stage) = Some (stage_id st)"
    using before(3) by (simp only: sg.orbit_Suc) simp
  with after before(2) show ?case by simp
qed

lemma lane_bound:
  assumes "lane_ready legacy (p, stage, a)" "(lane_step ^^ n) (p, stage, a) lane'"
  shows "n < length (pipe_stages p)"
proof -
  obtain q st b where "lane' = (q, st, b)" by (cases lane') auto
  with lane_steps [OF assms(1)] assms(2) have orbit: "sg.orbit (pipe_stages p) n (stage_id stage) = Some (stage_id st)" by blast
  from assms(1) have ok: "unique_ids (pipe_stages p)" "edges_inside (pipe_stages p)" "acyclic (pass_edges (pipe_stages p))" "stage \<in> set (pipe_stages p)"
    using stage_graph_accepted_fact [of "pipe_stages p" legacy] by (auto simp: lane_ready_def graph_ok_def edges_inside_def)
  with sg.orbit_short [OF _ _ orbit] inner_edges [OF ok(1,2)] stage_ids_card [OF ok(1)] show ?thesis
    by (simp add: stage_ids_def)
qed

text \<open>C31. A lane in which every stage passes completes: on an accepted graph of n stages fewer than n
  attempts follow the first, each on the stage the pass edge names; and wherever the lane stands it
  either completes or goes on, so that it does complete.\<close>

theorem passing_lane_completes:
  assumes "lane_ready legacy (p, stage, a)"
  shows "(\<forall>n q st b. (lane_step ^^ n) (p, stage, a) (q, st, b) \<longrightarrow>
      n < length (pipe_stages p) \<and> (completes (q, st, b) \<or> (\<exists>lane'. lane_step (q, st, b) lane')))
    \<and> (\<exists>n q st b. (lane_step ^^ n) (p, stage, a) (q, st, b) \<and> completes (q, st, b))"
proof -
  have on: "completes (q, st, b) \<or> (\<exists>lane'. lane_step (q, st, b) lane')" if "(lane_step ^^ n) (p, stage, a) (q, st, b)" for n q st b
    using lane_steps [OF assms that] ready_completes [of legacy q st b] ready_steps [of legacy q st b] by (cases "stage_next st") auto
  have "\<exists>n q st b. (lane_step ^^ n) (p, stage, a) (q, st, b) \<and> completes (q, st, b)"
  proof (rule ccontr)
    assume never: "\<not> (\<exists>n q st b. (lane_step ^^ n) (p, stage, a) (q, st, b) \<and> completes (q, st, b))"
    have "\<exists>q st b. (lane_step ^^ n) (p, stage, a) (q, st, b)" for n
    proof (induction n)
      case (Suc n)
      then obtain q st b where reached: "(lane_step ^^ n) (p, stage, a) (q, st, b)" by blast
      with on never obtain lane' where "lane_step (q, st, b) lane'" by blast
      with reached have "(lane_step ^^ Suc n) (p, stage, a) lane'" by auto
      then show ?case by (cases lane') blast
    qed simp
    then show False using lane_bound [OF assms] by blast
  qed
  with on lane_bound [OF assms] show ?thesis by blast
qed

section \<open>The stage a cycle is reported through\<close>

definition demo_cycle :: "pipeline_stage list" where
  "demo_cycle = [plain_stage ''a'' RunKind (Some ''b'') None, plain_stage ''b'' RunKind (Some ''c'') None, plain_stage ''c'' RunKind (Some ''b'') None]"

text \<open>The message names the first stage that leads into a cycle, which need not be on it.\<close>

lemma cycle_named_before_it: "pipelineGraphError demo_cycle True = Some (PassCycle ''a'') \<and> (''a'', ''a'') \<notin> (pass_edges demo_cycle)\<^sup>+"
proof
  show "pipelineGraphError demo_cycle True = Some (PassCycle ''a'')" by code_simp
  have edges: "(x, y) \<in> pass_edges demo_cycle \<Longrightarrow> y \<in> {''b'', ''c''}" for x y
    by (auto simp: pass_edges_def demo_cycle_def)
  show "(''a'', ''a'') \<notin> (pass_edges demo_cycle)\<^sup>+"
  proof
    assume "(''a'', ''a'') \<in> (pass_edges demo_cycle)\<^sup>+"
    then obtain x where "(x, ''a'') \<in> pass_edges demo_cycle" by (rule tranclE)
    with edges have "''a'' \<in> {''b'', ''c''}" by blast
    then show False by simp
  qed
qed

section \<open>Witnesses\<close>

definition demo_graph :: "pipeline_stage list" where
  "demo_graph = [plain_stage ''build'' RunKind (Some ''review'') None, plain_stage ''review'' RunKind None (Some (gate_edge\<lparr>edge_to := ''build''\<rparr>))]"

lemma demo_graph_ids: "unique_ids demo_graph" "stage_ids demo_graph = {''build'', ''review''}"
  by (simp_all add: unique_ids_def stage_ids_def demo_graph_def)

lemma demo_graph_accepted: "pipelineGraphError demo_graph True = None"
  by code_simp

theorem stage_graph_accepted_witness: "pipelineGraphError demo_graph True = None \<and> acyclic (pass_edges demo_graph)"
  using stage_graph_accepted [OF demo_graph_ids(1), of True] demo_graph_accepted by (simp add: graph_ok_def)

definition demo_lane :: lane where
  "demo_lane = (demo_pipe\<lparr>pipe_stages := demo_graph, pipe_runs := [(''build'', [demo_attempt 1 AttemptPassed None]), (''review'', [])]\<rparr>,
     hd demo_graph, demo_attempt 1 AttemptPassed None)"

lemma demo_lane_ready: "lane_ready True demo_lane"
proof -
  have runs: "js_keys [(''build'', [demo_attempt 1 AttemptPassed None]), (''review'', [])] = [''build'', ''review'']" by (simp add: js_keys_def)
  have "clean_activation p (attempt_activatedBy (demo_attempt 1 AttemptPassed None))" for p
    by (simp add: clean_activation_def kept_along_def demo_attempt_def)
  then have "clean_lane (fst demo_lane)"
    by (auto simp: clean_lane_def demo_lane_def demo_pipe_def attempts_of_def js_get_def split: option.splits if_splits)
  then show ?thesis using demo_graph_ids demo_graph_accepted runs
    by (simp add: lane_ready_def demo_lane_def demo_pipe_def demo_graph_def clean_activation_def kept_along_def demo_attempt_def)
qed

theorem passing_lane_completes_witness: "\<exists>n q st b. (lane_step ^^ n) demo_lane (q, st, b) \<and> completes (q, st, b)"
  using passing_lane_completes [of True "fst demo_lane" "fst (snd demo_lane)" "snd (snd demo_lane)"] demo_lane_ready by simp

end
