(* ===== verification/Legacy_Review_Properties.thy ===== *)
theory Legacy_Review_Properties
  imports Legacy_Review Pass_Path
begin

text \<open>
  What a conversion of a review-loop keeps: the graph, the other stages and the budget of the gate;
  that a revert before anything ran restores the record; and that every review-loop a request adds
  is converted or reported.
\<close>

section \<open>An accepted preview\<close>

lemma fixer_free: "fixerStageId reviewId taken = Some i \<Longrightarrow> i \<notin> taken"
  by (auto simp: fixerStageId_def dest: find_SomeD)

lemma chosen_review_loop: "chosen_review stages sid = Inr review \<Longrightarrow> review \<in> set stages \<and> stage_kind review = ReviewLoopKind"
  by (auto simp: chosen_review_def isLegacyReviewLoopStage_def filter_eq_Cons_iff split: option.splits if_splits list.splits dest: find_SomeD)

lemma implementers_member: "s \<in> set (implementers stages sid) \<longleftrightarrow> s \<in> set stages \<and> stage_kind s = RunKind \<and> stage_next s = Some sid"
  by (simp add: implementers_def)

lemma chosen_implementer_passes:
  assumes "chosen_implementer stages sid named = Inr i"
  shows "i \<in> set (implementers stages sid)"
  using assms by (auto simp: chosen_implementer_def Let_def split: option.splits list.splits dest: find_SomeD)

text \<open>What an accepted preview answers.\<close>

definition accepted_plan :: "pipeline_stage list \<Rightarrow> stage_attempt list \<Rightarrow> legacy_options \<Rightarrow> legacy_context \<Rightarrow> pipeline_stage \<Rightarrow> legacy_plan \<Rightarrow> bool" where
  "accepted_plan stages attempts opts ctx review plan \<longleftrightarrow>
     (\<exists>implementer role. implementer \<in> set (implementers stages (stage_id review))
        \<and> eff_access (stage_effectiveRole implementer) = ReadWriteAccess
        \<and> plan_implementer plan = stage_id implementer
        \<and> plan_stages plan = converted_stages stages (stage_id review)
             (converted_reviewer review (plan_fixer plan) (plan_limit plan)) (fix_stage_of implementer role (stage_id review) (plan_fixer plan)))
     \<and> plan_stage plan = stage_id review \<and> plan_fixer plan \<notin> stage_ids stages \<and> length stages < MAX_PIPELINE_STAGES
     \<and> (\<forall>a \<in> set attempts. attempt_historical a \<or> settled_state (attempt_state a) \<and> \<not> attempt_live a)
     \<and> limit_refusals (stage_id review) (filter (\<lambda>a. \<not> attempt_historical a) attempts) (opt_limit opts) ctx = []
     \<and> finite_limit (fst (chosen_limit (filter (\<lambda>a. \<not> attempt_historical a) attempts) (opt_limit opts) ctx)) = Some (plan_limit plan)
     \<and> ctx_graphError ctx (plan_stages plan) = None"

lemma no_implementer_refusals: "implementer_refusals chosen = [] \<Longrightarrow> chosen = Inr i \<Longrightarrow> eff_access (stage_effectiveRole i) = ReadWriteAccess"
  by (auto simp: implementer_refusals_def split: if_splits)

lemma review_refusals_Nil: "review_refusals stages own opts ctx sid = [] \<longleftrightarrow>
    (\<forall>a \<in> set own. settled_state (attempt_state a) \<and> \<not> attempt_live a)
    \<and> implementer_refusals (chosen_implementer stages sid (opt_implementer opts)) = []
    \<and> limit_refusals sid own (opt_limit opts) ctx = [] \<and> length stages < MAX_PIPELINE_STAGES
    \<and> fixerStageId sid (stage_ids stages) \<noteq> None"
  by (auto simp: review_refusals_def stage_ids_def list_ex_iff)

lemma limit_finite: "limit_refusals sid own l ctx = [] \<Longrightarrow> \<exists>limit. finite_limit (fst (chosen_limit own l ctx)) = Some limit"
  by (auto simp: limit_refusals_def finite_limit_def Let_def split: if_splits)

lemma implementer_chosen: "implementer_refusals chosen = [] \<Longrightarrow> \<exists>i. chosen = Inr i \<and> eff_access (stage_effectiveRole i) = ReadWriteAccess"
  by (auto simp: implementer_refusals_def split: sum.splits if_splits)

abbreviation own_of :: "stage_attempt list \<Rightarrow> stage_attempt list" where
  "own_of attempts \<equiv> filter (\<lambda>a. \<not> attempt_historical a) attempts"

lemma preview_refused:
  assumes "review_refusals stages (own_of attempts) opts ctx (stage_id review) \<noteq> []"
  shows "\<exists>limit. preview_review stages attempts opts ctx review
    = Inl (refused_preview (review_refusals stages (own_of attempts) opts ctx (stage_id review)) (Some (stage_id review)) limit
        (map stage_id (implementers stages (stage_id review))))"
  using assms by (auto simp: preview_review_def Let_def split: list.split)

lemma preview_checked:
  assumes "review_refusals stages (own_of attempts) opts ctx (stage_id review) = []"
  obtains i fixer limit where "i \<in> set (implementers stages (stage_id review))" "eff_access (stage_effectiveRole i) = ReadWriteAccess"
    "fixer \<notin> stage_ids stages" "finite_limit (fst (chosen_limit (own_of attempts) (opt_limit opts) ctx)) = Some limit"
    "preview_review stages attempts opts ctx review = planned_conversion stages (own_of attempts) ctx review i fixer limit
       (snd (chosen_limit (own_of attempts) (opt_limit opts) ctx))"
proof -
  note none = assms [unfolded review_refusals_Nil]
  from none implementer_chosen obtain i where i: "chosen_implementer stages (stage_id review) (opt_implementer opts) = Inr i"
    "eff_access (stage_effectiveRole i) = ReadWriteAccess" by blast
  from none limit_finite obtain limit where limit: "finite_limit (fst (chosen_limit (own_of attempts) (opt_limit opts) ctx)) = Some limit" by blast
  from none obtain fixer where fixer: "fixerStageId (stage_id review) (stage_ids stages) = Some fixer" by blast
  show thesis
    by (rule that [OF chosen_implementer_passes [OF i(1)] i(2) fixer_free [OF fixer] limit])
      (simp add: preview_review_def Let_def assms i limit fixer [unfolded stage_ids_def])
qed

lemma preview_accepted:
  assumes "preview_review stages attempts opts ctx review = Inr plan"
  shows "accepted_plan stages attempts opts ctx review plan"
proof -
  have none: "review_refusals stages (own_of attempts) opts ctx (stage_id review) = []"
    using assms preview_refused [of stages attempts opts ctx review] by auto
  from none [unfolded review_refusals_Nil]
  have kept: "\<forall>a \<in> set attempts. attempt_historical a \<or> settled_state (attempt_state a) \<and> \<not> attempt_live a"
    "limit_refusals (stage_id review) (own_of attempts) (opt_limit opts) ctx = []" "length stages < MAX_PIPELINE_STAGES" by auto
  obtain i fixer limit where checked: "i \<in> set (implementers stages (stage_id review))" "eff_access (stage_effectiveRole i) = ReadWriteAccess"
    "fixer \<notin> stage_ids stages" "finite_limit (fst (chosen_limit (own_of attempts) (opt_limit opts) ctx)) = Some limit"
    and answer: "preview_review stages attempts opts ctx review = planned_conversion stages (own_of attempts) ctx review i fixer limit
       (snd (chosen_limit (own_of attempts) (opt_limit opts) ctx))"
    using preview_checked [OF none] .
  with assms obtain role where "plan_fixer plan = fixer" "plan_limit plan = limit" "plan_stage plan = stage_id review" "plan_implementer plan = stage_id i"
    "ctx_graphError ctx (plan_stages plan) = None" "plan_stages plan = converted_stages stages (stage_id review)
       (converted_reviewer review fixer limit) (fix_stage_of i role (stage_id review) fixer)"
    by (auto simp: planned_conversion_def Let_def split: option.splits)
  with checked kept show ?thesis unfolding accepted_plan_def by blast
qed

section \<open>The converted graph\<close>

lemma converted_set: "set (converted_stages stages sid reviewer fixer)
    = {s \<in> set stages. stage_id s \<noteq> sid} \<union> (if sid \<in> stage_ids stages then {reviewer, fixer} else {})"
  by (auto simp: converted_stages_def stage_ids_def)

lemma converted_ids: "stage_id reviewer = sid \<Longrightarrow> sid \<in> stage_ids stages \<Longrightarrow>
    stage_ids (converted_stages stages sid reviewer fixer) = insert (stage_id fixer) (stage_ids stages)"
  unfolding stage_ids_def [of "converted_stages _ _ _ _"] converted_set by (auto simp: stage_ids_def)

lemma converted_Cons: "converted_stages (s # ss) sid reviewer fixer
    = (if stage_id s = sid then [reviewer, fixer] else [s]) @ converted_stages ss sid reviewer fixer"
  by (simp add: converted_stages_def)

lemma converted_other: "sid \<notin> stage_ids stages \<Longrightarrow> converted_stages stages sid reviewer fixer = stages"
  by (induction stages) (auto simp: converted_stages_def stage_ids_def)

lemma converted_unique:
  assumes "stage_id reviewer = sid" "stage_id fixer \<notin> stage_ids stages" "unique_ids stages"
  shows "unique_ids (converted_stages stages sid reviewer fixer)"
  using assms(2,3)
proof (induction stages)
  case (Cons s ss)
  let ?ss' = "converted_stages ss sid reviewer fixer"
  from Cons have rest: "unique_ids ?ss'" by (simp add: unique_ids_def stage_ids_def)
  show ?case
  proof (cases "stage_id s = sid")
    case True
    with Cons.prems(2) have "sid \<notin> stage_ids ss" by (auto simp: unique_ids_def stage_ids_def)
    with True Cons.prems assms(1) show ?thesis by (auto simp: converted_Cons converted_other unique_ids_def stage_ids_def)
  next
    case False
    have "stage_ids ?ss' \<subseteq> insert (stage_id fixer) (stage_ids ss)"
      unfolding stage_ids_def [of ?ss'] converted_set using assms(1) by (auto simp: stage_ids_def)
    with False Cons.prems have "stage_id s \<notin> stage_ids ?ss'" by (auto simp: unique_ids_def stage_ids_def)
    with False rest show ?thesis by (simp add: converted_Cons unique_ids_def stage_ids_def)
  qed
qed (simp add: unique_ids_def converted_stages_def)

lemma converted_length: "unique_ids stages \<Longrightarrow> length (converted_stages stages sid reviewer fixer)
    = length stages + (if sid \<in> stage_ids stages then 1 else 0)"
  by (induction stages) (auto simp: converted_stages_def stage_ids_def unique_ids_def)

text \<open>The stages a conversion touches, and what it asks of them.\<close>

definition convertible :: "pipeline_stage list \<Rightarrow> pipeline_stage \<Rightarrow> string \<Rightarrow> int \<Rightarrow> bool" where
  "convertible stages review fixer limit \<longleftrightarrow> unique_ids stages \<and> review \<in> set stages \<and> fixer \<notin> stage_ids stages \<and> 1 \<le> limit \<and> limit \<le> 9"

abbreviation converted :: "pipeline_stage list \<Rightarrow> pipeline_stage \<Rightarrow> pipeline_stage \<Rightarrow> effective_role \<Rightarrow> string \<Rightarrow> int \<Rightarrow> pipeline_stage list" where
  "converted stages review implementer role fixer limit \<equiv> converted_stages stages (stage_id review)
     (converted_reviewer review fixer limit) (fix_stage_of implementer role (stage_id review) fixer)"

lemma touched [simp]:
  "stage_id (converted_reviewer review fixer limit) = stage_id review" "stage_next (converted_reviewer review fixer limit) = stage_next review"
  "stage_kind (converted_reviewer review fixer limit) = RunKind"
  "stage_onFail (converted_reviewer review fixer limit) = Some \<lparr>edge_to = fixer, edge_maxRounds = limit, edge_onExhausted = Some AdvanceEdge\<rparr>"
  "stage_id (fix_stage_of implementer role sid fixer) = fixer" "stage_next (fix_stage_of implementer role sid fixer) = Some sid"
  "stage_kind (fix_stage_of implementer role sid fixer) = RunKind" "stage_onFail (fix_stage_of implementer role sid fixer) = None"
  by (simp_all add: converted_reviewer_def fix_stage_of_def)

lemma review_id: "convertible stages review fixer limit \<Longrightarrow> stage_id review \<in> stage_ids stages"
  by (auto simp: convertible_def stage_ids_def)

lemma only_review: "unique_ids stages \<Longrightarrow> review \<in> set stages \<Longrightarrow> s \<in> set stages \<Longrightarrow> stage_id s = stage_id review \<longleftrightarrow> s = review"
  by (auto simp: unique_ids_def distinct_map dest: inj_onD)

lemma convertible_ids: "convertible stages review fixer limit \<Longrightarrow>
    stage_ids (converted stages review implementer role fixer limit) = insert fixer (stage_ids stages)"
  by (simp add: converted_ids review_id)

lemma convertible_unique: "convertible stages review fixer limit \<Longrightarrow> unique_ids (converted stages review implementer role fixer limit)"
  by (simp add: converted_unique convertible_def)

lemma convertible_set:
  assumes "convertible stages review fixer limit"
  shows "set (converted stages review implementer role fixer limit) = {s \<in> set stages. s \<noteq> review}
    \<union> {converted_reviewer review fixer limit, fix_stage_of implementer role (stage_id review) fixer}"
proof -
  have "{s \<in> set stages. stage_id s \<noteq> stage_id review} = {s \<in> set stages. s \<noteq> review}"
    using assms only_review [of stages review] by (auto simp: convertible_def)
  then show ?thesis using review_id [OF assms] by (simp add: converted_set)
qed

lemma convertible_edges:
  assumes "convertible stages review fixer limit"
  shows "pass_edges (converted stages review implementer role fixer limit) = insert (fixer, stage_id review) (pass_edges stages)"
proof -
  have loop: "review \<in> set stages" using assms by (simp add: convertible_def)
  have edge: "(x, t) \<in> pass_edges ss \<longleftrightarrow> (\<exists>s \<in> set ss. stage_id s = x \<and> stage_next s = Some t)" for x t ss
    by (auto simp: pass_edges_def)
  have split: "(\<exists>s \<in> set stages. P s) \<longleftrightarrow> P review \<or> (\<exists>s \<in> {s \<in> set stages. s \<noteq> review}. P s)" for P
    using loop by blast
  have "(x, t) \<in> pass_edges (converted stages review implementer role fixer limit)
      \<longleftrightarrow> (x, t) \<in> insert (fixer, stage_id review) (pass_edges stages)" for x t
    unfolding insert_iff edge convertible_set [OF assms] split [of "\<lambda>s. stage_id s = x \<and> stage_next s = Some t"] bex_Un
    by (simp add: eq_commute) blast
  then show ?thesis by (simp add: set_eq_iff split_paired_All)
qed

lemma convertible_acyclic:
  assumes conv: "convertible stages review fixer limit" and "edges_inside stages" "acyclic (pass_edges stages)"
  shows "acyclic (pass_edges (converted stages review implementer role fixer limit))"
proof -
  have "(stage_id review, fixer) \<notin> (pass_edges stages)\<^sup>*"
  proof
    assume "(stage_id review, fixer) \<in> (pass_edges stages)\<^sup>*"
    moreover have "fixer \<noteq> stage_id review" using conv review_id [OF conv] by (auto simp: convertible_def)
    ultimately obtain s where "(s, fixer) \<in> pass_edges stages" by (auto elim: rtranclE)
    with assms(2) conv show False by (auto simp: pass_edges_def edges_inside_def convertible_def)
  qed
  with assms(3) show ?thesis by (simp add: convertible_edges [OF conv] acyclic_insert)
qed

lemma convertible_graph:
  assumes conv: "convertible stages review fixer limit" and ok: "graph_ok stages"
  shows "graph_ok (converted stages review implementer role fixer limit)"
proof -
  let ?stages' = "converted stages review implementer role fixer limit"
  have "acyclic (pass_edges ?stages')" using convertible_acyclic [OF conv] ok by (auto simp: graph_ok_def edges_inside_def)
  moreover have "\<forall>s \<in> set ?stages'. \<forall>t. stage_next s = Some t \<longrightarrow> t \<in> stage_ids ?stages'"
    using conv ok review_id [OF conv] unfolding convertible_ids [OF conv] convertible_set [OF conv] graph_ok_def convertible_def by auto
  moreover have "\<forall>s \<in> set ?stages'. \<forall>edge. stage_onFail s = Some edge \<longrightarrow> stage_kind s = RunKind
      \<and> edge_to edge \<in> stage_ids ?stages' \<and> 1 \<le> edge_maxRounds edge \<and> edge_maxRounds edge \<le> 9"
    using ok conv unfolding convertible_ids [OF conv] convertible_set [OF conv] graph_ok_def convertible_def by auto
  ultimately show ?thesis by (simp add: graph_ok_def)
qed

lemma convertible_loops:
  assumes conv: "convertible stages review fixer limit" and behind: "loops_behind_runs stages"
  shows "loops_behind_runs (converted stages review implementer role fixer limit)" (is "loops_behind_runs ?stages'")
proof -
  have grow: "(pass_edges stages)\<^sup>+ \<subseteq> (pass_edges ?stages')\<^sup>+" by (auto simp: convertible_edges [OF conv] intro: trancl_mono)
  show ?thesis unfolding loops_behind_runs_def
  proof (intro ballI impI)
    fix s assume s: "s \<in> set ?stages'" "stage_kind s = ReviewLoopKind"
    then have "s \<in> set stages" unfolding convertible_set [OF conv] by auto
    with behind s(2) obtain r where r: "r \<in> set stages" "stage_kind r = RunKind" "(stage_id r, stage_id s) \<in> (pass_edges stages)\<^sup>+"
      by (auto simp: loops_behind_runs_def)
    show "\<exists>r \<in> set ?stages'. stage_kind r = RunKind \<and> (stage_id r, stage_id s) \<in> (pass_edges ?stages')\<^sup>+"
    proof (cases "r = review")
      case True
      with r grow show ?thesis
        by (intro bexI [of _ "converted_reviewer review fixer limit"]) (auto simp: convertible_set [OF conv])
    next
      case False
      with r grow show ?thesis by (auto simp: convertible_set [OF conv])
    qed
  qed
qed

text \<open>An accepted graph stays accepted.\<close>

lemma convertible_accepted:
  assumes conv: "convertible stages review fixer limit" and "pipelineGraphError stages legacy = None"
  shows "pipelineGraphError (converted stages review implementer role fixer limit) legacy = None"
  using assms(2) convertible_graph [OF conv] convertible_loops [OF conv] convertible_unique [OF conv]
    stage_graph_accepted_fact [of stages legacy] stage_graph_accepted_fact [of _ legacy] conv
  by (auto simp: convertible_def)

lemma accepted_convertible:
  assumes "accepted_plan stages attempts opts ctx review plan" "unique_ids stages" "review \<in> set stages"
  shows "convertible stages review (plan_fixer plan) (plan_limit plan)"
  using assms by (auto simp: accepted_plan_def convertible_def finite_limit_def MAX_FAIL_EDGE_ROUNDS_def split: if_splits)

section \<open>The preview keeps the graph\<close>

text \<open>Every refusal of a review-loop's preview on an accepted graph is about the stage, its budget or its role.\<close>

lemma refusals_not_graph: "GraphInvalid e \<notin> set (review_refusals stages own opts ctx sid)"
  by (auto simp: review_refusals_def implementer_refusals_def limit_refusals_def chosen_implementer_def Let_def
      split: sum.splits option.splits list.splits if_splits)

lemma preview_not_graph:
  assumes graph: "pipelineGraphError stages legacy = None" "unique_ids stages" "review \<in> set stages"
    and ctx: "ctx_graphError ctx = (\<lambda>s. pipelineGraphError s legacy)" and answer: "preview_review stages attempts opts ctx review = Inl r"
  shows "GraphInvalid e \<notin> set (refused_refusals r)"
proof (cases "review_refusals stages (own_of attempts) opts ctx (stage_id review) = []")
  case True
  obtain i fixer limit where fresh: "fixer \<notin> stage_ids stages"
    and limit: "finite_limit (fst (chosen_limit (own_of attempts) (opt_limit opts) ctx)) = Some limit"
    and checked: "preview_review stages attempts opts ctx review = planned_conversion stages (own_of attempts) ctx review i fixer limit
       (snd (chosen_limit (own_of attempts) (opt_limit opts) ctx))"
    using preview_checked [OF True] .
  from fresh limit graph have "convertible stages review fixer limit"
    by (auto simp: convertible_def finite_limit_def MAX_FAIL_EDGE_ROUNDS_def split: if_splits)
  from convertible_accepted [OF this graph(1)] checked answer show ?thesis
    by (auto simp: planned_conversion_def Let_def ctx refused_preview_def split: option.splits)
next
  case False
  with preview_refused [OF this] answer refusals_not_graph show ?thesis by (auto simp: refused_preview_def)
qed

lemma preview_refused_some:
  assumes "preview_review stages attempts opts ctx review = Inl r"
  shows "refused_refusals r \<noteq> []"
proof (cases "review_refusals stages (own_of attempts) opts ctx (stage_id review) = []")
  case True
  obtain i fixer limit where "preview_review stages attempts opts ctx review = planned_conversion stages (own_of attempts) ctx review i fixer limit
       (snd (chosen_limit (own_of attempts) (opt_limit opts) ctx))"
    using preview_checked [OF True] .
  with assms show ?thesis by (auto simp: planned_conversion_def Let_def refused_preview_def split: option.splits)
next
  case False
  with preview_refused [OF this] assms show ?thesis by (auto simp: refused_preview_def)
qed

text \<open>A started gate is never given more rounds than it had.\<close>

lemma limit_not_raised:
  assumes "limit_refusals sid own requested ctx = []" "finite_limit (fst (chosen_limit own requested ctx)) = Some limit"
    and "own \<noteq> []" "0 < fst (resolveLimit None ctx)"
  shows "limit \<le> fst (resolveLimit None ctx)"
  using assms by (auto simp: limit_refusals_def limit_raised_def chosen_limit_def finite_limit_def Let_def split: if_splits)

definition own_before :: "(string \<times> stage_attempt list) list \<Rightarrow> string \<Rightarrow> stage_attempt list" where
  "own_before runs sid = filter (\<lambda>a. \<not> attempt_historical a) (case js_get runs sid of Some attempts \<Rightarrow> attempts | None \<Rightarrow> [])"

lemma preview_answer:
  assumes "previewLegacyReviewConversion stages runs opts ctx = Inr plan"
  obtains review where "review \<in> set stages" "stage_kind review = ReviewLoopKind" "stage_id review = plan_stage plan"
    "accepted_plan stages (case js_get runs (plan_stage plan) of Some attempts \<Rightarrow> attempts | None \<Rightarrow> []) opts ctx review plan"
proof -
  from assms obtain review where review: "chosen_review stages (opt_stage opts) = Inr review"
    and "preview_review stages (case js_get runs (stage_id review) of Some attempts \<Rightarrow> attempts | None \<Rightarrow> []) opts ctx review = Inr plan"
    by (auto simp: previewLegacyReviewConversion_def split: sum.splits)
  from preview_accepted [OF this(2)] chosen_review_loop [OF review] that [of review] show thesis
    by (auto simp: accepted_plan_def)
qed

lemma preview_answered:
  assumes "previewLegacyReviewConversion stages runs opts ctx = Inr plan" "unique_ids stages"
    and "pipelineGraphError stages legacy = None"
  shows "unique_ids (plan_stages plan) \<and> length (plan_stages plan) \<le> 8 \<and> pipelineGraphError (plan_stages plan) legacy = None
    \<and> 1 \<le> plan_limit plan \<and> plan_limit plan \<le> 9
    \<and> (own_before runs (plan_stage plan) \<noteq> [] \<longrightarrow> 0 < fst (resolveLimit None ctx) \<longrightarrow> plan_limit plan \<le> fst (resolveLimit None ctx))
    \<and> (\<exists>review implementer role. {review, implementer} \<subseteq> set stages \<and> stage_id review = plan_stage plan \<and> stage_kind review = ReviewLoopKind
        \<and> stage_next implementer = Some (plan_stage plan) \<and> eff_access (stage_effectiveRole implementer) = ReadWriteAccess
        \<and> set (plan_stages plan) = {s \<in> set stages. s \<noteq> review}
           \<union> {converted_reviewer review (plan_fixer plan) (plan_limit plan), fix_stage_of implementer role (plan_stage plan) (plan_fixer plan)})"
proof -
  from assms(1) obtain review where review: "review \<in> set stages" "stage_kind review = ReviewLoopKind" "stage_id review = plan_stage plan"
    and plan: "accepted_plan stages (case js_get runs (plan_stage plan) of Some attempts \<Rightarrow> attempts | None \<Rightarrow> []) opts ctx review plan"
    by (rule preview_answer)
  note conv = accepted_convertible [OF plan assms(2) review(1)]
  from plan review(3) obtain implementer role where stages':
    "plan_stages plan = converted stages review implementer role (plan_fixer plan) (plan_limit plan)"
    "implementer \<in> set (implementers stages (plan_stage plan))" "eff_access (stage_effectiveRole implementer) = ReadWriteAccess"
    and small: "length stages < MAX_PIPELINE_STAGES"
    and limits: "limit_refusals (plan_stage plan) (own_before runs (plan_stage plan)) (opt_limit opts) ctx = []"
      "finite_limit (fst (chosen_limit (own_before runs (plan_stage plan)) (opt_limit opts) ctx)) = Some (plan_limit plan)"
    by (auto simp: accepted_plan_def own_before_def)
  have "unique_ids (plan_stages plan)" "pipelineGraphError (plan_stages plan) legacy = None"
    unfolding stages'(1) using convertible_unique [OF conv] convertible_accepted [OF conv assms(3)] by simp_all
  moreover have "length (plan_stages plan) \<le> 8"
    unfolding stages'(1) using small converted_length [OF assms(2)] by (simp add: MAX_PIPELINE_STAGES_def)
  moreover have "1 \<le> plan_limit plan" "plan_limit plan \<le> 9" using conv by (simp_all add: convertible_def)
  moreover note limit_not_raised [OF limits]
  moreover have "{review, implementer} \<subseteq> set stages" "stage_next implementer = Some (plan_stage plan)"
    using stages'(2) review(1) by (simp_all add: implementers_member)
  ultimately show ?thesis using convertible_set [OF conv, of implementer role] review stages' by auto
qed

lemma preview_sound:
  assumes "unique_ids stages" "pipelineGraphError stages legacy = None" "ctx_graphError ctx = (\<lambda>s. pipelineGraphError s legacy)"
  shows "case previewLegacyReviewConversion stages runs opts ctx of
      Inl r \<Rightarrow> refused_refusals r \<noteq> [] \<and> (\<forall>e. GraphInvalid e \<notin> set (refused_refusals r))
    | Inr plan \<Rightarrow> unique_ids (plan_stages plan) \<and> length (plan_stages plan) \<le> 8 \<and> pipelineGraphError (plan_stages plan) legacy = None
        \<and> 1 \<le> plan_limit plan \<and> plan_limit plan \<le> 9
        \<and> (own_before runs (plan_stage plan) \<noteq> [] \<longrightarrow> 0 < fst (resolveLimit None ctx) \<longrightarrow> plan_limit plan \<le> fst (resolveLimit None ctx))
        \<and> (\<exists>review implementer role. {review, implementer} \<subseteq> set stages \<and> stage_id review = plan_stage plan \<and> stage_kind review = ReviewLoopKind
            \<and> stage_next implementer = Some (plan_stage plan) \<and> eff_access (stage_effectiveRole implementer) = ReadWriteAccess
            \<and> set (plan_stages plan) = {s \<in> set stages. s \<noteq> review}
               \<union> {converted_reviewer review (plan_fixer plan) (plan_limit plan), fix_stage_of implementer role (plan_stage plan) (plan_fixer plan)})"
proof (cases "previewLegacyReviewConversion stages runs opts ctx")
  case (Inl r)
  show ?thesis
  proof (cases "chosen_review stages (opt_stage opts)")
    case (Inr review)
    with Inl have "preview_review stages (case js_get runs (stage_id review) of Some attempts \<Rightarrow> attempts | None \<Rightarrow> []) opts ctx review = Inl r"
      by (simp add: previewLegacyReviewConversion_def)
    from preview_not_graph [OF assms(2,1) _ assms(3) this] preview_refused_some [OF this] chosen_review_loop [OF Inr] Inl show ?thesis by simp
  next
    case (Inl e)
    with \<open>previewLegacyReviewConversion stages runs opts ctx = Inl r\<close> show ?thesis
      by (auto simp: previewLegacyReviewConversion_def refused_preview_def chosen_review_def split: option.splits list.splits if_splits)
  qed
next
  case (Inr plan)
  with preview_answered [OF Inr assms(1,2)] show ?thesis by simp
qed

text \<open>C32. The preview of a review-loop's conversion on an accepted graph: a refusal never is about the
  graph and always says why; an accepted plan is an accepted graph of at most eight stages with
  unique ids, in which every other stage is as it was, the reviewer changed in its kind and its
  fail edge alone, and the new fix stage takes the reviewer's findings and passes back; the budget
  is between 1 and 9 and for a gate that had started never above the recorded one.\<close>

theorem legacy_conversion_sound:
  assumes "unique_ids stages" "pipelineGraphError stages legacy = None" "ctx_graphError ctx = (\<lambda>s. pipelineGraphError s legacy)"
  shows "case previewLegacyReviewConversion stages runs opts ctx of
      Inl r \<Rightarrow> refused_refusals r \<noteq> [] \<and> (\<forall>e. GraphInvalid e \<notin> set (refused_refusals r))
    | Inr plan \<Rightarrow> unique_ids (plan_stages plan) \<and> length (plan_stages plan) \<le> 8 \<and> pipelineGraphError (plan_stages plan) legacy = None
        \<and> 1 \<le> plan_limit plan \<and> plan_limit plan \<le> 9
        \<and> (own_before runs (plan_stage plan) \<noteq> [] \<longrightarrow> 0 < fst (resolveLimit None ctx) \<longrightarrow> plan_limit plan \<le> fst (resolveLimit None ctx))
        \<and> (\<exists>review implementer role. {review, implementer} \<subseteq> set stages \<and> stage_id review = plan_stage plan \<and> stage_kind review = ReviewLoopKind
            \<and> stage_next implementer = Some (plan_stage plan) \<and> eff_access (stage_effectiveRole implementer) = ReadWriteAccess
            \<and> set (plan_stages plan) = {s \<in> set stages. s \<noteq> review}
               \<union> {converted_reviewer review (plan_fixer plan) (plan_limit plan), fix_stage_of implementer role (plan_stage plan) (plan_fixer plan)})"
  by (rule preview_sound [OF assms])

section \<open>Convert and revert\<close>

lemma js_get_unique: "distinct (map fst m) \<Longrightarrow> (k, v) \<in> set m \<Longrightarrow> js_get m k = Some v"
  by (simp add: js_get_def)

text \<open>The runs of a converted record, and what the revert makes of them.\<close>

lemma update_unique: "distinct (map fst runs) \<Longrightarrow>
    update_first (\<lambda>r. fst r = sid) f runs = map (\<lambda>r. if fst r = sid then f r else r) runs"
proof (induction runs)
  case (Cons r rs)
  have "map (\<lambda>r. if fst r = sid then f r else r) rs = rs" if "fst r = sid"
  proof (rule map_idI)
    fix q assume "q \<in> set rs"
    moreover have "sid \<notin> fst ` set rs" using Cons.prems that by auto
    ultimately have "fst q \<noteq> sid" by (metis image_eqI)
    then show "(if fst q = sid then f q else q) = q" by simp
  qed
  with Cons show ?case by simp
qed simp

lemma with_fix_members: "r \<in> set (with_fix_run sid fixer runs) \<longleftrightarrow> r \<in> set runs \<or> r = (fixer, []) \<and> sid \<in> fst ` set runs"
  by (auto simp: with_fix_run_def split: if_splits)

lemma nothing_ran:
  assumes "distinct (map fst runs)" "fixer \<notin> fst ` set runs"
    and "r \<in> set (with_fix_run sid fixer (update_first (\<lambda>r. fst r = sid) (\<lambda>r. (fst r, map to_history (snd r))) runs))"
    and "fst r = sid \<or> fst r = fixer"
  shows "\<not> list_ex (\<lambda>a. \<not> attempt_historical a) (snd r)"
proof (cases "r = (fixer, [])")
  case False
  with assms(3) have "r \<in> (\<lambda>q. if fst q = sid then (fst q, map to_history (snd q)) else q) ` set runs"
    by (simp add: update_unique [OF assms(1)] with_fix_members)
  then obtain q where "q \<in> set runs" "r = (if fst q = sid then (fst q, map to_history (snd q)) else q)" by blast
  with assms(2,4) show ?thesis by (auto simp: list_ex_iff to_history_def split: if_splits)
qed simp

lemma runs_restored:
  assumes "distinct (map fst runs)" "fixer \<notin> fst ` set runs" "js_get runs sid = Some attempts"
  shows "map (\<lambda>r. if fst r = sid then (sid, attempts) else r)
     (filter (\<lambda>r. fst r \<noteq> fixer) (with_fix_run sid fixer (update_first (\<lambda>r. fst r = sid) (\<lambda>r. (fst r, map to_history (snd r))) runs))) = runs"
  using assms
proof (induction runs)
  case (Cons r rs)
  show ?case
  proof (cases "fst r = sid")
    case True
    with Cons.prems have "r = (sid, attempts)" "sid \<noteq> fixer" "sid \<notin> fst ` set rs" "fixer \<notin> fst ` set rs"
      by (cases r; auto simp: js_get_def)+
    moreover have "map (\<lambda>r. if fst r = sid then (sid, attempts) else r) (filter (\<lambda>r. fst r \<noteq> fixer) (with_fix_run sid fixer rs)) = rs"
      if "sid \<notin> fst ` set rs" "fixer \<notin> fst ` set rs"
      using that by (induction rs) (auto simp: with_fix_run_def)
    ultimately show ?thesis by (simp add: with_fix_run_def)
  next
    case False
    with Cons show ?thesis by (cases r) (auto simp: with_fix_run_def js_get_def)
  qed
qed simp

text \<open>A converted record keeps one list of attempts for each stage.\<close>

lemma converted_keys: "map fst runs = map stage_id stages \<Longrightarrow> stage_id reviewer = sid \<Longrightarrow>
    map fst (with_fix_run sid (stage_id fixer) runs) = map stage_id (converted_stages stages sid reviewer fixer)"
proof (induction runs arbitrary: stages)
  case (Cons r rs)
  from Cons.prems(1) obtain s ss where "stages = s # ss" "map fst rs = map stage_id ss" "fst r = stage_id s" by (cases stages) auto
  with Cons.IH [of ss] Cons.prems(2) show ?case by (simp add: with_fix_run_def converted_Cons)
qed (simp add: with_fix_run_def converted_stages_def)

lemma runs_keys:
  assumes "map fst runs = map stage_id stages" "accepted_plan stages attempts opts ctx review plan"
  shows "map fst (with_fix_run (plan_stage plan) (plan_fixer plan)
      (update_first (\<lambda>r. fst r = plan_stage plan) (\<lambda>r. (fst r, map to_history (snd r))) runs)) = map stage_id (plan_stages plan)"
proof -
  from assms(2) obtain implementer role where "plan_stage plan = stage_id review"
    "plan_stages plan = converted stages review implementer role (plan_fixer plan) (plan_limit plan)"
    by (auto simp: accepted_plan_def)
  moreover have "map fst (update_first (\<lambda>r. fst r = plan_stage plan) (\<lambda>r. (fst r, map to_history (snd r))) runs) = map stage_id stages"
    using assms(1) by (simp add: map_update_first)
  ultimately show ?thesis using converted_keys [of _ stages "converted_reviewer review (plan_fixer plan) (plan_limit plan)" "plan_stage plan"
    "fix_stage_of implementer role (plan_stage plan) (plan_fixer plan)"] by simp
qed

text \<open>What the conversion writes.\<close>

lemma applied_record:
  assumes "js_get (pipe_runs p) (plan_stage plan) = Some attempts"
    and "c = conversion_of digest p plan attempts request revision actor at_time"
  obtains detail cursor where "applyLegacyReviewConversion digest p plan request revision actor at_time
      = Some (p\<lparr>pipe_detail := detail, pipe_stages := plan_stages plan,
          pipe_runs := with_fix_run (plan_stage plan) (plan_fixer plan)
            (update_first (\<lambda>r. fst r = plan_stage plan) (\<lambda>r. (fst r, map to_history (snd r))) (pipe_runs p)),
          pipe_cursor := cursor, pipe_conversions := pipe_conversions p @ [c]\<rparr>, c)"
    "restored_cursor c cursor = pipe_cursor p"
proof (rule that)
  let ?here = "case pipe_cursor p of Some c \<Rightarrow> cursor_stage c = plan_stage plan | None \<Rightarrow> False"
  let ?waits = "pipe_state p = NeedsDecisionPipe \<or> pipe_pausedState p = Some NeedsDecisionPipe"
  show "applyLegacyReviewConversion digest p plan request revision actor at_time
      = Some (p\<lparr>pipe_detail := (if ?here \<and> ?waits then Some (ConvertedDetail (plan_stage plan)) else pipe_detail p),
          pipe_stages := plan_stages plan,
          pipe_runs := with_fix_run (plan_stage plan) (plan_fixer plan)
            (update_first (\<lambda>r. fst r = plan_stage plan) (\<lambda>r. (fst r, map to_history (snd r))) (pipe_runs p)),
          pipe_cursor := (if ?here then map_option (\<lambda>c. c\<lparr>cursor_pending := True\<rparr>) (pipe_cursor p) else pipe_cursor p),
          pipe_conversions := pipe_conversions p @ [c]\<rparr>, c)"
    by (simp add: applyLegacyReviewConversion_def assms Let_def)
  show "restored_cursor c (if ?here then map_option (\<lambda>c. c\<lparr>cursor_pending := True\<rparr>) (pipe_cursor p) else pipe_cursor p) = pipe_cursor p"
    by (cases "pipe_cursor p") (simp_all add: restored_cursor_def assms(2) conversion_of_def)
qed

text \<open>C33. A conversion that nothing ran under is undone exactly: for an accepted preview of a record that
  keeps one list of attempts for each stage the conversion is written, never thrown over; and its
  revert restores the stages, the attempts, the cursor, the detail and every other field, with only
  the receipt of the two added to the history.\<close>

theorem legacy_conversion_reverts:
  assumes "previewLegacyReviewConversion (pipe_stages p) (pipe_runs p) opts ctx = Inr plan" "unique_ids (pipe_stages p)"
    and "map fst (pipe_runs p) = map stage_id (pipe_stages p)"
  shows "\<exists>p' c. applyLegacyReviewConversion digest p plan request revision actor at_time = Some (p', c)
    \<and> pipe_stages p' = plan_stages plan \<and> map fst (pipe_runs p') = map stage_id (pipe_stages p')
    \<and> revertLegacyReviewConversion digest p' (plan_stage plan) receipt
        = Inr (p\<lparr>pipe_conversions := pipe_conversions p @ [c\<lparr>conv_reverted := Some receipt\<rparr>]\<rparr>, c\<lparr>conv_reverted := Some receipt\<rparr>)"
proof -
  let ?sid = "plan_stage plan" and ?fixer = "plan_fixer plan"
  from assms(1) obtain review where review: "review \<in> set (pipe_stages p)" "stage_id review = ?sid"
    and plan: "accepted_plan (pipe_stages p) (case js_get (pipe_runs p) ?sid of Some attempts \<Rightarrow> attempts | None \<Rightarrow> []) opts ctx review plan"
    by (rule preview_answer)
  have keys: "fst ` set (pipe_runs p) = stage_ids (pipe_stages p)" "distinct (map fst (pipe_runs p))"
    using assms(2,3) by (simp_all add: stage_ids_def unique_ids_def) (metis list.set_map)
  from plan have fresh: "?fixer \<notin> fst ` set (pipe_runs p)" by (simp add: accepted_plan_def keys)
  from review have "?sid \<in> fst ` set (pipe_runs p)" by (metis keys(1) stage_ids_def image_eqI)
  then obtain attempts where attempts: "js_get (pipe_runs p) ?sid = Some attempts" using keys(2) js_get_unique by fastforce
  let ?runs' = "with_fix_run ?sid ?fixer (update_first (\<lambda>r. fst r = ?sid) (\<lambda>r. (fst r, map to_history (snd r))) (pipe_runs p))"
  define c where "c = conversion_of digest p plan attempts request revision actor at_time"
  then have c: "conv_stage c = ?sid" "conv_fixer c = ?fixer" "conv_reverted c = None" "conv_digest c = digest (plan_stages plan)"
    "conv_original c = \<lparr>original_stages = pipe_stages p, original_run = (?sid, attempts), original_cursor = pipe_cursor p,
       original_detail = Some (pipe_detail p)\<rparr>"
    by (simp_all add: conversion_of_def)
  obtain detail cursor where applied: "applyLegacyReviewConversion digest p plan request revision actor at_time
      = Some (p\<lparr>pipe_detail := detail, pipe_stages := plan_stages plan, pipe_runs := ?runs', pipe_cursor := cursor,
          pipe_conversions := pipe_conversions p @ [c]\<rparr>, c)" and cursor: "restored_cursor c cursor = pipe_cursor p"
    by (rule applied_record [OF attempts c_def])
  let ?p' = "p\<lparr>pipe_detail := detail, pipe_stages := plan_stages plan, pipe_runs := ?runs', pipe_cursor := cursor,
      pipe_conversions := pipe_conversions p @ [c]\<rparr>"
  have "\<not> ran_since c ?p'" using nothing_ran [OF keys(2) fresh] by (auto simp: ran_since_def list_ex_iff c)
  moreover have "map (\<lambda>r. if fst r = ?sid then (?sid, attempts) else r) (filter (\<lambda>r. fst r \<noteq> ?fixer) ?runs') = pipe_runs p"
    by (rule runs_restored [OF keys(2) fresh attempts])
  ultimately have "revertLegacyReviewConversion digest ?p' ?sid receipt
      = Inr (p\<lparr>pipe_conversions := pipe_conversions p @ [c\<lparr>conv_reverted := Some receipt\<rparr>]\<rparr>, c\<lparr>conv_reverted := Some receipt\<rparr>)"
    by (simp add: revertLegacyReviewConversion_def open_conversion_def c cursor Let_def cong: if_cong)
  with applied runs_keys [OF assms(3) plan] show ?thesis by (intro exI [of _ ?p'] exI [of _ c]) simp
qed

section \<open>Stages a request adds\<close>

text \<open>What holds after the stages of \<open>ended\<close> were taken.\<close>

definition taken_so_far :: "pipeline_stage list \<Rightarrow> bool \<Rightarrow> string list \<Rightarrow> new_review_outcome \<Rightarrow> bool" where
  "taken_so_far stages legacy ended so \<longleftrightarrow>
     unique_ids (outcome_stages so) \<and> pipelineGraphError (outcome_stages so) legacy = None
     \<and> mset (map fst (outcome_converted so)) + mset (map fst (outcome_legacy so)) = mset ended
     \<and> (\<forall>s \<in> set stages. stage_id s \<notin> fst ` set (outcome_converted so) \<longrightarrow> s \<in> set (outcome_stages so))
     \<and> (\<forall>(sid, fixer) \<in> set (outcome_converted so). fixer \<notin> stage_ids stages
          \<and> (\<exists>review \<in> set stages. stage_id review = sid \<and> converted_reviewer review fixer 3 \<in> set (outcome_stages so))
          \<and> (\<exists>fix_stage \<in> set (outcome_stages so). stage_id fix_stage = fixer \<and> stage_next fix_stage = Some sid))
     \<and> (\<forall>(sid, refusals) \<in> set (outcome_legacy so). refusals \<noteq> [] \<and> (\<forall>e. GraphInvalid e \<notin> set refusals))"

lemma taken_ids:
  assumes "taken_so_far stages legacy ended so"
  shows "stage_ids stages \<subseteq> stage_ids (outcome_stages so)"
proof
  fix i assume "i \<in> stage_ids stages"
  then obtain s where s: "s \<in> set stages" "stage_id s = i" by (auto simp: stage_ids_def)
  show "i \<in> stage_ids (outcome_stages so)"
  proof (cases "i \<in> fst ` set (outcome_converted so)")
    case True
    then obtain f where "(i, f) \<in> set (outcome_converted so)" by auto
    with assms obtain review where "converted_reviewer review f 3 \<in> set (outcome_stages so)" "stage_id review = i"
      by (fastforce simp: taken_so_far_def)
    then show ?thesis unfolding stage_ids_def by (metis image_eqI touched(1))
  next
    case False
    with assms s have "s \<in> set (outcome_stages so)" by (auto simp: taken_so_far_def)
    with s(2) show ?thesis by (auto simp: stage_ids_def)
  qed
qed

text \<open>A stage without runs takes the default budget.\<close>

lemma plan_default_limit:
  assumes "accepted_plan stages [] \<lparr>opt_stage = Some sid, opt_limit = None, opt_implementer = None\<rparr> ctx review plan" "ctx_flowLimit ctx = None"
  shows "plan_limit plan = 3"
  using assms by (simp add: accepted_plan_def chosen_limit_def resolveLimit_def finite_limit_def limit_raised_def Let_def
      LEGACY_REVIEW_FLOW_ROUND_LIMIT_def MAX_FAIL_EDGE_ROUNDS_def)

lemma added_answer:
  assumes "previewLegacyReviewConversion stages [] opts ctx = Inr plan"
  obtains review where "review \<in> set stages" "stage_kind review = ReviewLoopKind" "stage_id review = plan_stage plan"
    "chosen_review stages (opt_stage opts) = Inr review" "accepted_plan stages [] opts ctx review plan"
proof -
  from assms obtain review where review: "chosen_review stages (opt_stage opts) = Inr review" "preview_review stages [] opts ctx review = Inr plan"
    by (auto simp: previewLegacyReviewConversion_def split: sum.splits)
  from preview_accepted [OF review(2)] chosen_review_loop [OF review(1)] that [of review] review(1) show thesis
    by (simp add: accepted_plan_def)
qed

text \<open>A later conversion leaves the earlier ones as they are.\<close>

lemma earlier_stay:
  assumes "taken_so_far stages legacy ended so" "s \<in> set stages" "stage_id s = sid" "sid \<notin> fst ` set (outcome_converted so)"
    and stay: "\<And>x. x \<in> set (outcome_stages so) \<Longrightarrow> stage_id x \<noteq> sid \<Longrightarrow> x \<in> later"
  shows "\<forall>(sid', fixer) \<in> set (outcome_converted so). fixer \<notin> stage_ids stages
      \<and> (\<exists>review \<in> set stages. stage_id review = sid' \<and> converted_reviewer review fixer 3 \<in> later)
      \<and> (\<exists>fix_stage \<in> later. stage_id fix_stage = fixer \<and> stage_next fix_stage = Some sid')"
proof (safe)
  fix sid' fixer assume old: "(sid', fixer) \<in> set (outcome_converted so)"
  with assms(1) obtain r x where r: "r \<in> set stages" "stage_id r = sid'" "converted_reviewer r fixer 3 \<in> set (outcome_stages so)"
    and x: "x \<in> set (outcome_stages so)" "stage_id x = fixer" "stage_next x = Some sid'" and free: "fixer \<notin> stage_ids stages"
    by (fastforce simp: taken_so_far_def)
  have "sid' \<noteq> sid" using old assms(4) by (metis fst_conv image_eqI)
  moreover have "fixer \<noteq> sid" using free assms(2,3) by (auto simp: stage_ids_def)
  ultimately show "\<exists>review \<in> set stages. stage_id review = sid' \<and> converted_reviewer review fixer 3 \<in> later"
    "\<exists>fix_stage \<in> later. stage_id fix_stage = fixer \<and> stage_next fix_stage = Some sid'"
    using stay [OF r(3)] stay [OF x(1)] r x by auto
  show "fixer \<in> stage_ids stages \<Longrightarrow> False" using free by simp
qed

lemma taken_step:
  assumes before: "taken_so_far stages legacy ended so" and review: "s \<in> set stages" "stage_id s = sid" "sid \<notin> set ended"
    and ctx: "ctx_graphError ctx = (\<lambda>s. pipelineGraphError s legacy)" "ctx_flowLimit ctx = None"
  shows "taken_so_far stages legacy (ended @ [sid]) (convert_added ctx so sid)"
proof -
  let ?opts = "\<lparr>opt_stage = Some sid, opt_limit = None, opt_implementer = None\<rparr>"
  let ?now = "outcome_stages so"
  have ids: "unique_ids ?now" "pipelineGraphError ?now legacy = None" using before by (simp_all add: taken_so_far_def)
  have "set_mset (mset ended) = fst ` set (outcome_converted so) \<union> fst ` set (outcome_legacy so)"
    using before by (metis (no_types, lifting) taken_so_far_def set_mset_union set_mset_mset list.set_map)
  with review(3) have new: "sid \<notin> fst ` set (outcome_converted so)" by auto
  show ?thesis
  proof (cases "previewLegacyReviewConversion ?now [] ?opts ctx")
    case (Inl r)
    with preview_sound [OF ids ctx(1), of "[]" ?opts] before show ?thesis
      by (auto simp: convert_added_def taken_so_far_def)
  next
    case (Inr plan)
    then obtain t where t: "t \<in> set ?now" "stage_kind t = ReviewLoopKind" "stage_id t = plan_stage plan" "chosen_review ?now (Some sid) = Inr t"
      and plan: "accepted_plan ?now [] ?opts ctx t plan"
      by (rule added_answer) simp
    have now: "s \<in> set ?now" using before review new by (simp add: taken_so_far_def)
    have "stage_id t = sid" using t(4) by (auto simp: chosen_review_def split: option.splits if_splits dest: find_SomeD)
    with only_review [OF ids(1) now t(1)] review(2) have same: "t = s" by simp
    note conv = accepted_convertible [OF plan ids(1) t(1)]
    from plan obtain implementer role where stages':
      "plan_stages plan = converted ?now s implementer role (plan_fixer plan) 3" "plan_fixer plan \<notin> stage_ids ?now"
      using plan_default_limit [OF plan ctx(2)] same by (auto simp: accepted_plan_def)
    note members = convertible_set [OF conv, of implementer role, unfolded same plan_default_limit [OF plan ctx(2)], folded stages'(1)]
    have stay: "x \<in> set (plan_stages plan)" if "x \<in> set ?now" "stage_id x \<noteq> sid" for x
      using that review(2) by (auto simp: members)
    have "unique_ids (plan_stages plan)" "pipelineGraphError (plan_stages plan) legacy = None"
      using preview_answered [OF Inr ids] by simp_all
    moreover have "mset (map fst (outcome_converted so)) + mset (map fst (outcome_legacy so)) = mset ended"
      using before by (simp add: taken_so_far_def)
    moreover have "\<forall>x \<in> set stages. stage_id x \<notin> insert sid (fst ` set (outcome_converted so)) \<longrightarrow> x \<in> set (plan_stages plan)"
      using before stay by (auto simp: taken_so_far_def)
    moreover have "plan_fixer plan \<notin> stage_ids stages" using taken_ids [OF before] stages'(2) by blast
    moreover note earlier_stay [OF before review(1,2) new stay]
    moreover have "converted_reviewer s (plan_fixer plan) 3 \<in> set (plan_stages plan)"
      "\<exists>fix_stage \<in> set (plan_stages plan). stage_id fix_stage = plan_fixer plan \<and> stage_next fix_stage = Some sid"
      using review(2) by (auto simp: members)
    moreover have "\<forall>(sid, refusals) \<in> set (outcome_legacy so). refusals \<noteq> [] \<and> (\<forall>e. GraphInvalid e \<notin> set refusals)"
      using before by (simp add: taken_so_far_def)
    ultimately show ?thesis using review by (auto simp: convert_added_def taken_so_far_def Inr)
  qed
qed

lemma taken_all:
  assumes "taken_so_far stages legacy ended so" "set sids \<subseteq> stage_ids stages" "distinct (ended @ sids)"
    and "ctx_graphError ctx = (\<lambda>s. pipelineGraphError s legacy)" "ctx_flowLimit ctx = None"
  shows "taken_so_far stages legacy (ended @ sids) (foldl (convert_added ctx) so sids)"
  using assms(1-3)
proof (induction sids arbitrary: ended so)
  case (Cons sid sids)
  from Cons.prems(2) obtain s where "s \<in> set stages" "stage_id s = sid" by (auto simp: stage_ids_def)
  with taken_step [OF Cons.prems(1) _ _ _ assms(4,5)] Cons.prems(3)
  have "taken_so_far stages legacy (ended @ [sid]) (convert_added ctx so sid)" by auto
  with Cons.IH [of "ended @ [sid]"] Cons.prems show ?case by simp
qed simp

text \<open>C34. The review-loops a request adds to an accepted graph: every one is either converted, once, with
  a fix stage of its own and a budget of three rounds that hands the lane on, or reported with its
  reasons, which are never the graph; every other stage of the request, the stored loops among
  them, is as it was sent, and the result is an accepted graph with unique ids.\<close>

theorem added_reviews_settled:
  assumes "unique_ids stages" "pipelineGraphError stages legacy = None" "ctx_graphError ctx = (\<lambda>s. pipelineGraphError s legacy)"
    and "so = convertNewLegacyReviewStages stages preserved ctx"
  shows "unique_ids (outcome_stages so) \<and> pipelineGraphError (outcome_stages so) legacy = None
    \<and> mset (map fst (outcome_converted so)) + mset (map fst (outcome_legacy so))
      = mset (map stage_id (filter (\<lambda>s. isLegacyReviewLoopStage s \<and> stage_id s \<notin> preserved) stages))
    \<and> (\<forall>s \<in> set stages. stage_id s \<notin> fst ` set (outcome_converted so) \<longrightarrow> s \<in> set (outcome_stages so))
    \<and> (\<forall>(sid, fixer) \<in> set (outcome_converted so). fixer \<notin> stage_ids stages
        \<and> (\<exists>review \<in> set stages. stage_id review = sid \<and> converted_reviewer review fixer 3 \<in> set (outcome_stages so))
        \<and> (\<exists>fix_stage \<in> set (outcome_stages so). stage_id fix_stage = fixer \<and> stage_next fix_stage = Some sid))
    \<and> (\<forall>(sid, refusals) \<in> set (outcome_legacy so). refusals \<noteq> [] \<and> (\<forall>e. GraphInvalid e \<notin> set refusals))"
proof -
  let ?start = "\<lparr>outcome_stages = stages, outcome_converted = [], outcome_legacy = []\<rparr>"
  let ?added = "map stage_id (filter (\<lambda>s. isLegacyReviewLoopStage s \<and> stage_id s \<notin> preserved) stages)"
  have "taken_so_far stages legacy [] ?start" using assms(1,2) by (simp add: taken_so_far_def)
  moreover have "set ?added \<subseteq> stage_ids stages" by (auto simp: stage_ids_def)
  moreover have "distinct ([] @ ?added)" using assms(1) by (simp add: unique_ids_def distinct_map_filter)
  ultimately have "taken_so_far stages legacy ([] @ ?added) so"
    unfolding assms(4) convertNewLegacyReviewStages_def Let_def using assms(3) by (intro taken_all) simp_all
  then show ?thesis by (simp add: taken_so_far_def)
qed

section \<open>Witnesses\<close>

definition demo_loops :: "pipeline_stage list" where
  "demo_loops = [plain_stage ''build'' RunKind (Some ''review'') None,
     (plain_stage ''review'' ReviewLoopKind None None)\<lparr>stage_effectiveRole := demo_role\<lparr>eff_access := ReadOnlyAccess\<rparr>\<rparr>]"

definition demo_runs :: "(string \<times> stage_attempt list) list" where
  "demo_runs = [(''build'', [demo_attempt 1 AttemptPassed None]), (''review'', [demo_attempt 1 AttemptNeedsDecision None])]"

definition demo_options :: legacy_options where
  "demo_options = \<lparr>opt_stage = None, opt_limit = Some 2, opt_implementer = None\<rparr>"

definition demo_conversion :: legacy_context where
  "demo_conversion = \<lparr>ctx_flowLimit = Some 4, ctx_graphError = (\<lambda>s. pipelineGraphError s True), ctx_resolve = (\<lambda>_ _. Some demo_role)\<rparr>"

lemma demo_loops_accepted: "unique_ids demo_loops" "pipelineGraphError demo_loops True = None"
  by (simp add: unique_ids_def demo_loops_def) code_simp

lemma demo_preview: "\<exists>plan. previewLegacyReviewConversion demo_loops demo_runs demo_options demo_conversion = Inr plan"
proof -
  let ?review = "demo_loops ! 1" and ?attempts = "[demo_attempt 1 AttemptNeedsDecision None]"
  have review: "chosen_review demo_loops None = Inr ?review" "?review \<in> set demo_loops"
    by (simp_all add: chosen_review_def demo_loops_def isLegacyReviewLoopStage_def)
  have none: "review_refusals demo_loops (own_of ?attempts) demo_options demo_conversion (stage_id ?review) = []" by code_simp
  obtain i fixer limit source where conv: "fixer \<notin> stage_ids demo_loops" "finite_limit (fst (chosen_limit (own_of ?attempts) (opt_limit demo_options) demo_conversion)) = Some limit"
    and answer: "preview_review demo_loops ?attempts demo_options demo_conversion ?review
      = planned_conversion demo_loops (own_of ?attempts) demo_conversion ?review i fixer limit source"
    using preview_checked [OF none] .
  from conv review(2) demo_loops_accepted(1) have "convertible demo_loops ?review fixer limit"
    by (auto simp: convertible_def finite_limit_def MAX_FAIL_EDGE_ROUNDS_def split: if_splits)
  from convertible_accepted [OF this demo_loops_accepted(2)] answer
  have "\<exists>plan. preview_review demo_loops ?attempts demo_options demo_conversion ?review = Inr plan"
    by (simp add: planned_conversion_def demo_conversion_def Let_def)
  moreover have "js_get demo_runs (stage_id ?review) = Some ?attempts" by (simp add: demo_runs_def demo_loops_def js_get_def)
  moreover have "opt_stage demo_options = None" by (simp add: demo_options_def)
  ultimately show ?thesis using review(1) by (simp add: previewLegacyReviewConversion_def)
qed

theorem legacy_conversion_sound_witness: "\<exists>plan. previewLegacyReviewConversion demo_loops demo_runs demo_options demo_conversion = Inr plan
    \<and> pipelineGraphError (plan_stages plan) True = None \<and> plan_limit plan \<le> 9"
proof -
  have ctx: "ctx_graphError demo_conversion = (\<lambda>s. pipelineGraphError s True)" by (simp add: demo_conversion_def)
  from demo_preview legacy_conversion_sound [OF demo_loops_accepted ctx, of demo_runs demo_options] show ?thesis by auto
qed

definition demo_converted_pipe :: pipeline where
  "demo_converted_pipe = demo_pipe\<lparr>pipe_stages := demo_loops, pipe_runs := demo_runs\<rparr>"

theorem legacy_conversion_reverts_witness: "\<exists>plan p' c.
    applyLegacyReviewConversion (\<lambda>_. ''digest'') demo_converted_pipe plan ''r'' ''v'' OperatorActor ''t'' = Some (p', c)
    \<and> pipe_stages p' = plan_stages plan
    \<and> map_sum (\<lambda>e. e) fst (revertLegacyReviewConversion (\<lambda>_. ''digest'') p' (plan_stage plan) \<lparr>revert_request = ''r'', revert_actor = OperatorActor, revert_at = ''t''\<rparr>)
        = Inr (demo_converted_pipe\<lparr>pipe_conversions := pipe_conversions demo_converted_pipe
            @ [c\<lparr>conv_reverted := Some \<lparr>revert_request = ''r'', revert_actor = OperatorActor, revert_at = ''t''\<rparr>\<rparr>]\<rparr>)"
proof -
  from demo_preview obtain plan where "previewLegacyReviewConversion (pipe_stages demo_converted_pipe) (pipe_runs demo_converted_pipe) demo_options demo_conversion = Inr plan"
    by (auto simp: demo_converted_pipe_def)
  moreover have "unique_ids (pipe_stages demo_converted_pipe)" using demo_loops_accepted by (simp add: demo_converted_pipe_def)
  moreover have "map fst (pipe_runs demo_converted_pipe) = map stage_id (pipe_stages demo_converted_pipe)"
    by (simp add: demo_converted_pipe_def demo_runs_def demo_loops_def)
  ultimately show ?thesis
    using legacy_conversion_reverts [of demo_converted_pipe demo_options demo_conversion plan "\<lambda>_. ''digest''" "''r''" "''v''" OperatorActor "''t''"
      "\<lparr>revert_request = ''r'', revert_actor = OperatorActor, revert_at = ''t''\<rparr>"] by fastforce
qed

theorem added_reviews_settled_witness:
  "mset (map fst (outcome_converted (convertNewLegacyReviewStages demo_loops {} demo_conversion)))
    + mset (map fst (outcome_legacy (convertNewLegacyReviewStages demo_loops {} demo_conversion))) = {#''review''#}"
proof -
  have ctx: "ctx_graphError demo_conversion = (\<lambda>s. pipelineGraphError s True)" by (simp add: demo_conversion_def)
  from added_reviews_settled [OF demo_loops_accepted ctx refl, of "{}"] show ?thesis
    by (simp add: demo_loops_def isLegacyReviewLoopStage_def)
qed

end
