(* ===== verification/Voice_State.thy ===== *)
theory Voice_State
  imports Unit_Text
begin

text \<open>
  What the voice companion draws and the events it is drawn from:
  \<open>src/lib/voiceCompanion/contract.ts\<close>, the state and the list operations of
  \<open>src/lib/voiceCompanion/reducer.ts\<close>, and the gate of \<open>gate.ts\<close> and
  \<open>liveGate.ts\<close> the reducer asks. A number that may not be finite is \<open>rat option\<close>. A
  line's key, printed \<open>speaker:item\<close>, is the pair. Usage is the JSON document the code compares.
  The regular expressions that read a request or a retraction are parameters.
\<close>

section \<open>The contract\<close>

type_synonym voice_number = "rat option"

datatype voice_engine = ClaudeVoice | CodexVoice

record recipient =
  recipient_project :: string
  recipient_conversation :: string
  recipient_seatEpoch :: int
  recipient_engine :: voice_engine

record proposal =
  proposal_live :: bool
  proposal_id :: string
  proposal_call :: string
  proposal_source :: string
  proposal_instruction :: utext
  proposal_recipient :: recipient
  proposal_confirmation :: "utext option"

record delivery =
  delivery_proposal :: string
  delivery_call :: string
  delivery_message :: string
  delivery_operation :: "string option"
  delivery_recipient :: recipient

datatype companion_mode = SimulatedMode | RealtimeMode

datatype close_reason = ClosedByOperator | ClosedByTool | ClosedByCap | ClosedByLimit | ClosedByTransport | ClosedByError | ClosedByContent

datatype line_speaker = Operator | Companion

datatype response_status = ResponseCompleted | ResponseCancelled | ResponseFailed

datatype stop_reason = StopEnded | StopInterrupted | StopMuted | StopClosed

datatype call_status = CallRunning | CallDone | CallFailed

datatype report_status = ReportProgress | ReportResult | ReportQuestion | ReportBlocked | ReportMessage

datatype sent_status = SentDelivered | SentQueued | SentUnknown

datatype unsent_status = UnsentRefused | UnsentCancelled

datatype delegation_result = Sent sent_status delivery | NotSent unsent_status string

datatype settlement = SettledDelivered | SettledFailed

datatype payload =
    UsageUpdated json
  | ContextUpdated "string option"
  | SessionReady companion_mode
  | SessionClosed close_reason "bool option"
  | SpeechStarted string
  | SpeechStopped string
  | TranscriptDelta line_speaker string utext
  | TranscriptFinal line_speaker string utext
  | TranscriptSnapshot line_speaker string utext bool
  | ResponseStarted string string
  | ResponseGenerated string response_status
  | PlaybackStarted string string "voice_number option"
  | PlaybackLevel string string voice_number voice_number
  | PlaybackStopped string string voice_number stop_reason
  | ToolCalled string utext utext
  | ToolResult string call_status utext
  | DelegationToolCalled string string utext
  | DelegationSending proposal
  | ConfirmationRequired proposal
  | Retargeted string recipient
  | Confirmed string
  | DelegationToolResult string delegation_result
  | DeliverySettled delivery settlement "string option"
  | OrchestratorReport string report_status utext voice_number string
  | OrchestratorAnswer delivery string report_status utext
  | TimerFired string
  | ErrorRaised string bool "voice_number option"

record companion_event =
  event_version :: int
  event_session :: string
  event_generation :: voice_number
  event_id :: string
  event_seq :: voice_number
  event_atMs :: voice_number
  event_payload :: payload

section \<open>The state\<close>

datatype companion_phase = Offline | Reconnecting | Idle | Listening | Thinking | Speaking

datatype line_playback = NoPlayback | PendingPlayback | Playing | Played | CutPlayback

record speech_line =
  line_speaker :: line_speaker
  line_item :: string
  line_text :: utext
  line_final :: bool
  line_playback :: line_playback
  line_playedMs :: "int option"
  line_revision :: nat

record tool_call =
  call_id :: string
  call_name :: utext
  call_summary :: utext
  call_status :: call_status
  call_result :: "utext option"
  call_revision :: nat

datatype delegation_stage =
    Proposed | AwaitingConfirmation | Sending | Queued | Delivered | Unknown | Answered | Refused | Cancelled | FailedDelegation

record orchestrator_answer =
  answer_report :: string
  answer_status :: report_status
  answer_text :: utext
  answer_order :: rat

record orchestrator_report =
  report_answer :: orchestrator_answer
  report_at :: voice_number
  report_project :: string

datatype delegation_notice = ReplyPending | DeliveryUnconfirmed | DeliveryFailed | DeliveryRefused string

record delegation =
  del_notice :: "delegation_notice option"
  del_call :: string
  del_instruction :: utext
  del_stage :: delegation_stage
  del_proposal :: "proposal option"
  del_sourceText :: "utext option"
  del_delivery :: "delivery option"
  del_refusal :: "string option"
  del_answer :: "orchestrator_answer option"
  del_answers :: "orchestrator_answer list"

record companion =
  comp_usage :: "json option"
  comp_orchestratorReports :: "orchestrator_report list"
  comp_closure :: "(close_reason \<times> bool) option"
  comp_mode :: "companion_mode option"
  comp_generation :: rat
  comp_phase :: companion_phase
  comp_mouth :: rat
  comp_playedMs :: int
  comp_revision :: nat
  comp_lines :: "speech_line list"
  comp_calls :: "tool_call list"
  comp_delegation :: "delegation option"
  comp_cards :: "delegation list"
  comp_playing :: "(string \<times> string) option"
  comp_error :: "string option"
  comp_errorResetsAt :: "voice_number option"
  comp_seen :: "string set"
  comp_levelSeq :: rat
  comp_reports :: "string set"
  comp_resumable :: "(string \<times> string option) option"
  comp_reconnected :: bool

definition INITIAL_COMPANION_STATE :: companion where
  "INITIAL_COMPANION_STATE =
     \<lparr>comp_usage = None, comp_orchestratorReports = [], comp_closure = None, comp_mode = None, comp_generation = 0,
      comp_phase = Offline, comp_mouth = 0, comp_playedMs = 0, comp_revision = 0, comp_lines = [], comp_calls = [],
      comp_delegation = None, comp_cards = [], comp_playing = None, comp_error = None, comp_errorResetsAt = None,
      comp_seen = {}, comp_levelSeq = -1, comp_reports = {}, comp_resumable = None, comp_reconnected = False\<rparr>"

section \<open>Bounds\<close>

definition LINE_HISTORY :: nat where "LINE_HISTORY = 40"
definition CALL_HISTORY :: nat where "CALL_HISTORY = 12"
definition TEXT_LIMIT :: nat where "TEXT_LIMIT = 4000"
definition ID_LIMIT :: nat where "ID_LIMIT = 200"
definition VOICE_ASK_MAX_CHARS :: nat where "VOICE_ASK_MAX_CHARS = 4000"
definition VOICE_ASK_ENVELOPE_CHARS :: nat where "VOICE_ASK_ENVELOPE_CHARS = 6000"
definition INSTRUCTION_LIMIT :: nat where "INSTRUCTION_LIMIT = 2000"

definition validId :: "string \<Rightarrow> bool" where
  "validId i \<longleftrightarrow> i \<noteq> [] \<and> length i \<le> ID_LIMIT"

definition valid_id_option :: "string option \<Rightarrow> bool" where
  "valid_id_option i = (case i of Some t \<Rightarrow> validId t | None \<Rightarrow> False)"

definition clamp01 :: "voice_number \<Rightarrow> rat" where
  "clamp01 n = (case n of Some r \<Rightarrow> min 1 (max 0 r) | None \<Rightarrow> 0)"

definition boundedAsk :: "utext \<Rightarrow> utext" where
  "boundedAsk t = take (2 * VOICE_ASK_ENVELOPE_CHARS) t"

definition bounded :: "utext \<Rightarrow> utext" where
  "bounded t = (if length t > TEXT_LIMIT then take TEXT_LIMIT t else t)"

definition ms :: "voice_number \<Rightarrow> int" where
  "ms n = (case n of Some r \<Rightarrow> if r \<ge> 0 then \<lfloor>r + 1 / 2\<rfloor> else 0 | None \<Rightarrow> 0)"

text \<open>\<open>Number.isInteger\<close> and not negative.\<close>

definition whole :: "voice_number \<Rightarrow> bool" where
  "whole n = (case n of Some r \<Rightarrow> of_int \<lfloor>r\<rfloor> = r \<and> 0 \<le> r | None \<Rightarrow> False)"

definition wellFormed :: "companion_event \<Rightarrow> bool" where
  "wellFormed e \<longleftrightarrow> event_version e = 1 \<and> validId (event_session e) \<and> validId (event_id e)
     \<and> whole (event_generation e) \<and> whole (event_seq e)
     \<and> (case event_atMs e of Some t \<Rightarrow> 0 \<le> t | None \<Rightarrow> False)"

section \<open>Lines and calls\<close>

text \<open>The last \<open>n\<close> elements, as \<open>slice(-n)\<close> gives them.\<close>

definition last_of :: "nat \<Rightarrow> 'a list \<Rightarrow> 'a list" where
  "last_of n xs = drop (length xs - n) xs"

definition line_is :: "line_speaker \<Rightarrow> string \<Rightarrow> speech_line \<Rightarrow> bool" where
  "line_is who item l \<longleftrightarrow> line_speaker l = who \<and> line_item l = item"

definition new_line :: "line_speaker \<Rightarrow> string \<Rightarrow> line_playback \<Rightarrow> nat \<Rightarrow> speech_line" where
  "new_line who item start revision =
     \<lparr>line_speaker = who, line_item = item, line_text = [], line_final = False,
      line_playback = (if who = Operator then NoPlayback else start), line_playedMs = None, line_revision = revision\<rparr>"

definition upsertLine ::
  "speech_line list \<Rightarrow> line_speaker \<Rightarrow> string \<Rightarrow> nat \<Rightarrow> (speech_line \<Rightarrow> speech_line) \<Rightarrow> line_playback option \<Rightarrow> speech_line list" where
  "upsertLine ls who item revision change fresh =
     (if list_ex (line_is who item) ls
      then update_first (line_is who item) (\<lambda>l. (change l)\<lparr>line_revision := revision\<rparr>) ls
      else (case fresh of
          None \<Rightarrow> ls
        | Some start \<Rightarrow>
            last_of LINE_HISTORY (ls @ [(change (new_line who item start revision))\<lparr>line_revision := revision\<rparr>])))"

definition upsertCall ::
  "tool_call list \<Rightarrow> string \<Rightarrow> nat \<Rightarrow> (tool_call option \<Rightarrow> tool_call option) \<Rightarrow> tool_call list" where
  "upsertCall cs cid revision change =
     (case find (\<lambda>c. call_id c = cid) cs of
        None \<Rightarrow> (case change None of
            None \<Rightarrow> cs | Some c \<Rightarrow> last_of CALL_HISTORY (cs @ [c\<lparr>call_revision := revision\<rparr>]))
      | Some held \<Rightarrow> (case change (Some held) of
            None \<Rightarrow> cs | Some c \<Rightarrow> update_first (\<lambda>c. call_id c = cid) (\<lambda>_. c\<lparr>call_revision := revision\<rparr>) cs))"

text \<open>A line whose playback was cut keeps its generated text.\<close>

definition cut_change :: "voice_number \<Rightarrow> speech_line \<Rightarrow> speech_line" where
  "cut_change playedMs l =
     (if line_playback l = Played then l else l\<lparr>line_playback := CutPlayback, line_playedMs := Some (ms playedMs)\<rparr>)"

definition cut :: "speech_line list \<Rightarrow> string \<Rightarrow> voice_number \<Rightarrow> nat \<Rightarrow> speech_line list" where
  "cut ls item playedMs revision = upsertLine ls Companion item revision (cut_change playedMs) None"

section \<open>Bindings\<close>

definition sameRecipient :: "recipient \<Rightarrow> recipient \<Rightarrow> bool" where
  "sameRecipient l r \<longleftrightarrow> recipient_project l = recipient_project r \<and> recipient_conversation l = recipient_conversation r
     \<and> recipient_seatEpoch l = recipient_seatEpoch r \<and> recipient_engine l = recipient_engine r"

definition sameBinding :: "delivery \<Rightarrow> delivery \<Rightarrow> bool" where
  "sameBinding l r \<longleftrightarrow> delivery_message l = delivery_message r \<and> delivery_proposal l = delivery_proposal r
     \<and> delivery_call l = delivery_call r \<and> sameRecipient (delivery_recipient l) (delivery_recipient r)"

definition settles :: "delivery option \<Rightarrow> delivery \<Rightarrow> bool" where
  "settles held incoming =
     (case held of
        None \<Rightarrow> False
      | Some d \<Rightarrow> sameBinding d incoming \<and> valid_id_option (delivery_operation incoming)
          \<and> (delivery_operation d = None \<or> delivery_operation d = delivery_operation incoming))"

definition answers_to :: "delivery option \<Rightarrow> delivery \<Rightarrow> bool" where
  "answers_to held incoming =
     (case held of
        None \<Rightarrow> False
      | Some d \<Rightarrow> delivery_operation d \<noteq> None \<and> sameBinding d incoming \<and> delivery_operation incoming = delivery_operation d)"

section \<open>The gate\<close>

datatype gate_refusal =
    NoInput | NotFinal | StaleInput | NoOrchestrator | Negated | Retracted | Conditional | Question | Quoted
  | NotImperative | NotAddressed | SourceChanged | EmptyInstruction | NotConfirmed

fun refusal_text :: "gate_refusal \<Rightarrow> string" where
  "refusal_text NoInput = ''no_input''"
| "refusal_text NotFinal = ''not_final''"
| "refusal_text StaleInput = ''stale_input''"
| "refusal_text NoOrchestrator = ''no_orchestrator''"
| "refusal_text Negated = ''negated''"
| "refusal_text Retracted = ''retracted''"
| "refusal_text Conditional = ''conditional''"
| "refusal_text Question = ''question''"
| "refusal_text Quoted = ''quoted''"
| "refusal_text NotImperative = ''not_imperative''"
| "refusal_text NotAddressed = ''not_addressed''"
| "refusal_text SourceChanged = ''source_changed''"
| "refusal_text EmptyInstruction = ''empty_instruction''"
| "refusal_text NotConfirmed = ''not_confirmed''"

record operator_input =
  input_item :: string
  input_text :: utext
  input_final :: bool

definition operatorInputs :: "speech_line list \<Rightarrow> operator_input list" where
  "operatorInputs ls =
     map (\<lambda>l. \<lparr>input_item = line_item l, input_text = line_text l, input_final = line_final l\<rparr>)
       (filter (\<lambda>l. line_speaker l = Operator) ls)"

text \<open>The two readings of an utterance: whether it takes a request back, and why it is no request.\<close>

record gate_grammar =
  retractsRequest :: "utext \<Rightarrow> bool"
  explicitRequest :: "utext \<Rightarrow> gate_refusal option"

fun join_words :: "utext list \<Rightarrow> utext" where
  "join_words [] = []"
| "join_words [t] = t"
| "join_words (t # u # ts) = t @ 32 # join_words (u # ts)"

definition admitDelegationProposal ::
  "gate_grammar \<Rightarrow> string \<Rightarrow> utext \<Rightarrow> operator_input list \<Rightarrow> utext option \<Rightarrow> bool \<Rightarrow> gate_refusal option" where
  "admitDelegationProposal g sourceItem instruction inputs frozen waiting =
     (let t = unit_trim instruction in
      if t = [] \<or> length t > INSTRUCTION_LIMIT then Some EmptyInstruction
      else (case dropWhile (\<lambda>i. input_item i \<noteq> sourceItem) inputs of
          [] \<Rightarrow> Some NoInput
        | source # later \<Rightarrow>
            if \<not> input_final source then Some NotFinal
            else if waiting \<and> retractsRequest g (join_words (map input_text later)) then Some Retracted
            else if \<not> waiting \<and> input_item (last inputs) \<noteq> input_item source then Some StaleInput
            else if frozen \<noteq> None \<and> frozen \<noteq> Some (input_text source) then Some SourceChanged
            else explicitRequest g (input_text source)))"

text \<open>The Unicode scalars of a text: a surrogate pair counts once.\<close>

fun scalars :: "utext \<Rightarrow> nat" where
  "scalars [] = 0"
| "scalars [c] = 1"
| "scalars (c # d # s) =
     (if 55296 \<le> c \<and> c \<le> 56319 \<and> 56320 \<le> d \<and> d \<le> 57343 then Suc (scalars s) else Suc (scalars (d # s)))"

text \<open>As the reducer asks it: with no turn and no earlier request, only the instruction counts.\<close>

definition liveProposalRefusal :: "utext \<Rightarrow> string option" where
  "liveProposalRefusal instruction =
     (if unit_trim instruction = [] \<or> scalars (unit_trim instruction) > VOICE_ASK_MAX_CHARS
      then Some ''invalid_instruction'' else None)"

end
