(* ===== verification/Voice_Reducer.thy ===== *)
theory Voice_Reducer
  imports Voice_State
begin

text \<open>
  The reducer of the voice companion, \<open>reduceCompanion\<close> of
  \<open>src/lib/voiceCompanion/reducer.ts\<close>. Every branch of the event switch is a definition;
  a branch that only marks the event as seen is one whose change is the identity. Objects the code
  compares by reference are compared by value: an event that makes an equal object (the same
  candidate raised again) takes the early return, and the slice it skips there changes nothing, as
  at most \<open>CALL_HISTORY\<close> cards are held.
\<close>

section \<open>A waiting proposal\<close>

definition standing :: "gate_grammar \<Rightarrow> speech_line list \<Rightarrow> delegation \<Rightarrow> delegation" where
  "standing g ls d =
     (case del_proposal d of
        None \<Rightarrow> d
      | Some p \<Rightarrow>
          if del_stage d \<noteq> AwaitingConfirmation then d
          else if proposal_live p then
            (case liveProposalRefusal (proposal_instruction p) of
               None \<Rightarrow> d | Some r \<Rightarrow> d\<lparr>del_stage := Cancelled, del_refusal := Some r\<rparr>)
          else
            (case admitDelegationProposal g (proposal_source p) (proposal_instruction p) (operatorInputs ls) (del_sourceText d) True of
               None \<Rightarrow> d | Some r \<Rightarrow> d\<lparr>del_stage := Cancelled, del_refusal := Some (refusal_text r)\<rparr>))"

section \<open>A new generation\<close>

text \<open>A reconnect retires proposals and provisional lines; delivered work stays.\<close>

definition retained_line :: "int \<Rightarrow> speech_line \<Rightarrow> speech_line" where
  "retained_line playedMs l =
     (if line_playback l = Playing \<or> line_playback l = PendingPlayback
      then l\<lparr>line_playback := CutPlayback, line_playedMs := Some (if line_playback l = Playing then playedMs else 0)\<rparr> else l)"

definition new_generation :: "rat \<Rightarrow> companion \<Rightarrow> companion" where
  "new_generation gen s =
     s\<lparr>comp_generation := gen, comp_seen := {}, comp_levelSeq := -1, comp_playing := None, comp_mouth := 0, comp_playedMs := 0,
       comp_delegation := (case comp_delegation s of
          Some d \<Rightarrow> if del_stage d \<in> {Sending, Queued, Delivered, Unknown, Answered} then Some d else None | None \<Rightarrow> None),
       comp_lines := map (retained_line (comp_playedMs s))
         (filter (\<lambda>l. line_final l \<or> line_playback l = CutPlayback) (comp_lines s)),
       comp_calls := map (\<lambda>c. if call_status c = CallRunning then c\<lparr>call_status := CallFailed, call_result := None\<rparr> else c) (comp_calls s),
       comp_phase := (if comp_phase s = Offline then Offline else Idle)\<rparr>"

definition generation_of :: "companion_event \<Rightarrow> rat" where
  "generation_of e = (case event_generation e of Some n \<Rightarrow> n | None \<Rightarrow> 0)"

definition order_of :: "companion_event \<Rightarrow> rat" where
  "order_of e = (case event_seq e of Some n \<Rightarrow> n | None \<Rightarrow> 0)"

definition base_of :: "companion_event \<Rightarrow> companion \<Rightarrow> companion" where
  "base_of e s = (if generation_of e > comp_generation s then new_generation (generation_of e) s else s)"

text \<open>The event is taken: its id is seen, the revision goes up.\<close>

definition taken :: "companion_event \<Rightarrow> (companion \<Rightarrow> companion) \<Rightarrow> companion \<Rightarrow> companion" where
  "taken e change s =
     (change s)\<lparr>comp_seen := insert (event_id e) (comp_seen s), comp_revision := Suc (comp_revision s)\<rparr>"

definition on_delegation :: "(delegation \<Rightarrow> delegation) \<Rightarrow> companion \<Rightarrow> companion" where
  "on_delegation f s = s\<lparr>comp_delegation := map_option f (comp_delegation s)\<rparr>"

section \<open>Session and speech\<close>

definition session_ready :: "companion_mode \<Rightarrow> companion \<Rightarrow> companion" where
  "session_ready mode s =
     s\<lparr>comp_mode := Some mode, comp_phase := Idle, comp_error := None, comp_errorResetsAt := None, comp_closure := None\<rparr>"

definition cut_playing :: "companion \<Rightarrow> speech_line list" where
  "cut_playing s =
     (case comp_playing s of
        None \<Rightarrow> comp_lines s
      | Some (response, item) \<Rightarrow> cut (comp_lines s) item (Some (of_int (comp_playedMs s))) (Suc (comp_revision s)))"

definition closed_error :: "close_reason \<Rightarrow> string option \<Rightarrow> string option" where
  "closed_error reason held =
     (case reason of
        ClosedByOperator \<Rightarrow> None | ClosedByTool \<Rightarrow> None
      | ClosedByCap \<Rightarrow> Some ''CAP_REACHED'' | ClosedByLimit \<Rightarrow> Some ''CODEX_LIMIT_ENDED''
      | ClosedByContent \<Rightarrow> Some ''CONTENT_BLOCKED''
      | _ \<Rightarrow> (case held of Some code \<Rightarrow> Some code | None \<Rightarrow> Some ''CONNECTION_LOST''))"

definition withdraw :: "delegation \<Rightarrow> delegation" where
  "withdraw d =
     (if del_stage d = Proposed \<or> del_stage d = AwaitingConfirmation
      then d\<lparr>del_stage := Cancelled, del_refusal := Some ''session_closed''\<rparr> else d)"

definition session_closed :: "close_reason \<Rightarrow> bool option \<Rightarrow> companion \<Rightarrow> companion" where
  "session_closed reason incomplete s =
     (on_delegation withdraw s)
       \<lparr>comp_phase := Offline, comp_playing := None, comp_mouth := 0, comp_lines := cut_playing s,
        comp_closure := Some (reason, (case incomplete of Some b \<Rightarrow> b | None \<Rightarrow> False)),
        comp_error := closed_error reason (comp_error s), comp_errorResetsAt := None\<rparr>"

definition speech_started :: "gate_grammar \<Rightarrow> string \<Rightarrow> companion \<Rightarrow> companion" where
  "speech_started g item s =
     (let ls = upsertLine (cut_playing s) Operator item (Suc (comp_revision s)) (\<lambda>l. l) (Some PendingPlayback) in
      (on_delegation (standing g ls) s)\<lparr>comp_phase := Listening, comp_playing := None, comp_mouth := 0, comp_lines := ls\<rparr>)"

definition freshLine :: "companion \<Rightarrow> string \<Rightarrow> line_playback" where
  "freshLine s item = (if map_option snd (comp_playing s) = Some item then Playing else PendingPlayback)"

definition write_line :: "gate_grammar \<Rightarrow> line_speaker \<Rightarrow> string \<Rightarrow> (speech_line \<Rightarrow> speech_line) \<Rightarrow> companion \<Rightarrow> companion" where
  "write_line g who item change s =
     (let ls = upsertLine (comp_lines s) who item (Suc (comp_revision s)) change (Some (freshLine s item)) in
      (if who = Operator then on_delegation (standing g ls) s else s)\<lparr>comp_lines := ls\<rparr>)"

definition transcript_delta :: "gate_grammar \<Rightarrow> line_speaker \<Rightarrow> string \<Rightarrow> utext \<Rightarrow> companion \<Rightarrow> companion" where
  "transcript_delta g who item delta s =
     (case find (line_is who item) (comp_lines s) of
        Some l \<Rightarrow> if line_final l then s else write_line g who item (\<lambda>l. l\<lparr>line_text := bounded (line_text l @ delta)\<rparr>) s
      | None \<Rightarrow> write_line g who item (\<lambda>l. l\<lparr>line_text := bounded (line_text l @ delta)\<rparr>) s)"

definition transcript_whole :: "gate_grammar \<Rightarrow> line_speaker \<Rightarrow> string \<Rightarrow> utext \<Rightarrow> bool \<Rightarrow> companion \<Rightarrow> companion" where
  "transcript_whole g who item txt final s =
     write_line g who item (\<lambda>l. l\<lparr>line_text := bounded txt, line_final := final\<rparr>) s"

section \<open>Playback\<close>

definition playback_started :: "string \<Rightarrow> string \<Rightarrow> voice_number option \<Rightarrow> companion \<Rightarrow> companion" where
  "playback_started response item playedMs s =
     (let ls = upsertLine (comp_lines s) Companion item (Suc (comp_revision s))
            (\<lambda>l. l\<lparr>line_playback := Playing, line_playedMs := None\<rparr>) None;
          same = (map_option fst (comp_playing s) = Some response);
          held = (case playedMs of Some n \<Rightarrow> n | None \<Rightarrow> if same then Some (of_int (comp_playedMs s)) else Some 0)
      in (if same then s else s\<lparr>comp_phase := Speaking\<rparr>)
           \<lparr>comp_playing := Some (response, item), comp_playedMs := ms held, comp_lines := ls\<rparr>)"

definition played_change :: "speech_line \<Rightarrow> speech_line" where
  "played_change l = l\<lparr>line_playback := Played, line_playedMs := None\<rparr>"

definition playback_stopped :: "string \<Rightarrow> string \<Rightarrow> voice_number \<Rightarrow> stop_reason \<Rightarrow> companion \<Rightarrow> companion" where
  "playback_stopped response item playedMs reason s =
     (let revision = Suc (comp_revision s); line = find (line_is Companion item) (comp_lines s) in
      if map_option fst (comp_playing s) \<noteq> Some response then
        (if map_option line_playback line = Some CutPlayback \<and> reason \<noteq> StopEnded
         then s\<lparr>comp_lines := upsertLine (comp_lines s) Companion item revision
             (\<lambda>l. l\<lparr>line_playedMs := Some (ms playedMs)\<rparr>) (Some PendingPlayback)\<rparr>
         else if map_option line_playback line = Some PendingPlayback
         then s\<lparr>comp_lines := (if reason = StopEnded
             then upsertLine (comp_lines s) Companion item revision played_change (Some PendingPlayback)
             else cut (comp_lines s) item playedMs revision)\<rparr>
         else s)
      else s\<lparr>comp_phase := Idle, comp_playing := None, comp_mouth := 0,
             comp_lines := (if reason = StopEnded
               then upsertLine (comp_lines s) Companion item revision played_change None
               else cut (comp_lines s) item playedMs revision)\<rparr>)"

definition playback_level :: "companion_event \<Rightarrow> string \<Rightarrow> voice_number \<Rightarrow> voice_number \<Rightarrow> companion \<Rightarrow> companion" where
  "playback_level e response rms playedMs s =
     (if order_of e \<le> comp_levelSeq s \<or> map_option fst (comp_playing s) \<noteq> Some response then s
      else s\<lparr>comp_mouth := clamp01 rms, comp_playedMs := ms playedMs, comp_levelSeq := order_of e\<rparr>)"

section \<open>Tools\<close>

definition tool_called :: "string \<Rightarrow> utext \<Rightarrow> utext \<Rightarrow> companion \<Rightarrow> companion" where
  "tool_called cid name summary s =
     s\<lparr>comp_phase := (if comp_phase s = Speaking then Speaking else Thinking),
       comp_calls := upsertCall (comp_calls s) cid (Suc (comp_revision s))
         (\<lambda>held. Some (case held of Some c \<Rightarrow> c | None \<Rightarrow>
            \<lparr>call_id = cid, call_name = take 80 (bounded name), call_summary = take 240 (bounded summary),
             call_status = CallRunning, call_result = None, call_revision = Suc (comp_revision s)\<rparr>))\<rparr>"

definition tool_result :: "string \<Rightarrow> call_status \<Rightarrow> utext \<Rightarrow> companion \<Rightarrow> companion" where
  "tool_result cid status summary s =
     s\<lparr>comp_calls := upsertCall (comp_calls s) cid (Suc (comp_revision s))
         (\<lambda>held. case held of
            Some c \<Rightarrow> if call_status c = CallRunning
              then Some (c\<lparr>call_status := status, call_result := Some (take 240 (bounded summary))\<rparr>) else None
          | None \<Rightarrow> None)\<rparr>"

section \<open>Delegations\<close>

definition raised :: "string \<Rightarrow> utext \<Rightarrow> delegation" where
  "raised cid instruction =
     \<lparr>del_notice = None, del_call = cid, del_instruction = boundedAsk instruction, del_stage = Proposed, del_proposal = None,
      del_sourceText = None, del_delivery = None, del_refusal = None, del_answer = None, del_answers = []\<rparr>"

definition start_sending :: "proposal \<Rightarrow> delegation \<Rightarrow> delegation" where
  "start_sending p d =
     (if del_call d \<noteq> proposal_call p \<or> del_stage d \<noteq> Proposed then d
      else d\<lparr>del_stage := Sending, del_proposal := Some p, del_instruction := boundedAsk (proposal_instruction p)\<rparr>)"

definition proposal_refusal :: "gate_grammar \<Rightarrow> speech_line list \<Rightarrow> proposal \<Rightarrow> string option" where
  "proposal_refusal g ls p =
     (if proposal_live p then liveProposalRefusal (proposal_instruction p)
      else map_option refusal_text
        (admitDelegationProposal g (proposal_source p) (proposal_instruction p) (operatorInputs ls) None False))"

definition ask_confirmation :: "gate_grammar \<Rightarrow> speech_line list \<Rightarrow> proposal \<Rightarrow> delegation \<Rightarrow> delegation" where
  "ask_confirmation g ls p d =
     (if del_call d \<noteq> proposal_call p \<or> del_stage d \<noteq> Proposed then d
      else (case proposal_refusal g ls p of
          Some r \<Rightarrow> d\<lparr>del_stage := Refused, del_refusal := Some r\<rparr>
        | None \<Rightarrow> d\<lparr>del_stage := AwaitingConfirmation, del_proposal := Some p,
            del_sourceText := map_option input_text (find (\<lambda>i. input_item i = proposal_source p) (operatorInputs ls)),
            del_instruction := boundedAsk (proposal_instruction p)\<rparr>))"

definition no_operation :: "delegation \<Rightarrow> bool" where
  "no_operation d = (case del_delivery d of
     None \<Rightarrow> True | Some dl \<Rightarrow> (case delivery_operation dl of None \<Rightarrow> True | Some op \<Rightarrow> op = []))"

definition seat_refused :: "delegation \<Rightarrow> bool" where
  "seat_refused d \<longleftrightarrow> del_stage d \<in> {Refused, FailedDelegation} \<and> del_refusal d = Some ''voice_seat_changed'' \<and> no_operation d"

definition seat_unknown :: "delegation \<Rightarrow> bool" where
  "seat_unknown d \<longleftrightarrow> del_stage d = Unknown \<and>
     (case del_delivery d of Some dl \<Rightarrow> delivery_operation dl = None | None \<Rightarrow> False)"

definition retarget :: "string \<Rightarrow> recipient \<Rightarrow> delegation \<Rightarrow> delegation" where
  "retarget pid r d =
     (case del_proposal d of
        None \<Rightarrow> d
      | Some p \<Rightarrow>
          if proposal_id p \<noteq> pid \<or> recipient_project (proposal_recipient p) \<noteq> recipient_project r then d
          else
            (let pending = (del_stage d \<in> {Proposed, AwaitingConfirmation, Sending} \<and> del_delivery d = None);
                 d' = d\<lparr>del_proposal := Some (p\<lparr>proposal_recipient := r\<rparr>)\<rparr>
             in if seat_refused d \<or> seat_unknown d
                then d'\<lparr>del_stage := Sending, del_delivery := None, del_refusal := None, del_notice := None\<rparr>
                else if pending then d' else d))"

definition confirm :: "string \<Rightarrow> delegation \<Rightarrow> delegation" where
  "confirm pid d =
     (case del_proposal d of
        Some p \<Rightarrow> if proposal_id p = pid \<and> del_stage d = AwaitingConfirmation then d\<lparr>del_stage := Sending\<rparr> else d
      | None \<Rightarrow> d)"

fun sent_stage :: "sent_status \<Rightarrow> delegation_stage" where
  "sent_stage SentDelivered = Delivered"
| "sent_stage SentQueued = Queued"
| "sent_stage SentUnknown = Unknown"

fun unsent_stage :: "unsent_status \<Rightarrow> delegation_stage" where
  "unsent_stage UnsentRefused = Refused"
| "unsent_stage UnsentCancelled = Cancelled"

text \<open>A delivery is taken only for the proposal, the call and the recipient that were frozen.\<close>

definition accepts_delivery :: "delegation \<Rightarrow> sent_status \<Rightarrow> delivery \<Rightarrow> bool" where
  "accepts_delivery d status dl \<longleftrightarrow>
     (del_stage d = Sending \<or> del_stage d = Unknown \<and> status \<noteq> SentUnknown \<and> settles (del_delivery d) dl)
     \<and> (case del_proposal d of
          None \<Rightarrow> False
        | Some p \<Rightarrow> delivery_proposal dl = proposal_id p \<and> delivery_call dl = proposal_call p \<and> del_call d = proposal_call p
            \<and> sameRecipient (delivery_recipient dl) (proposal_recipient p))
     \<and> validId (delivery_message dl) \<and> (status = SentUnknown \<or> valid_id_option (delivery_operation dl))"

definition tool_outcome :: "string \<Rightarrow> delegation_result \<Rightarrow> delegation \<Rightarrow> delegation" where
  "tool_outcome cid result d =
     (if del_call d \<noteq> cid then d
      else (case result of
          NotSent status code \<Rightarrow>
            if del_delivery d \<noteq> None \<or> del_stage d = Answered then d
            else d\<lparr>del_stage := unsent_stage status, del_refusal := Some code\<rparr>
        | Sent status dl \<Rightarrow>
            if \<not> accepts_delivery d status dl then d
            else d\<lparr>del_stage := sent_stage status, del_delivery := Some dl,
              del_notice := Some (if status = SentUnknown then DeliveryUnconfirmed else ReplyPending)\<rparr>))"

definition sending_refusal :: "delegation \<Rightarrow> delivery \<Rightarrow> bool" where
  "sending_refusal d dl \<longleftrightarrow> del_stage d = Sending
     \<and> (case del_proposal d of
          None \<Rightarrow> False
        | Some p \<Rightarrow> proposal_id p = delivery_proposal dl \<and> sameRecipient (proposal_recipient p) (delivery_recipient dl))
     \<and> del_call d = delivery_call dl \<and> validId (delivery_message dl)"

definition settle :: "delivery \<Rightarrow> settlement \<Rightarrow> string option \<Rightarrow> delegation \<Rightarrow> delegation" where
  "settle dl status code d =
     (if del_stage d = Answered \<or> \<not> sending_refusal d dl \<and> \<not> settles (del_delivery d) dl then d
      else d\<lparr>del_stage := (case status of SettledDelivered \<Rightarrow> Delivered | SettledFailed \<Rightarrow> FailedDelegation),
             del_delivery := Some dl,
             del_refusal := (case code of Some c \<Rightarrow> Some c | None \<Rightarrow> del_refusal d),
             del_notice := Some (case status of
                SettledDelivered \<Rightarrow> ReplyPending
              | SettledFailed \<Rightarrow> (case code of
                    Some c \<Rightarrow> if c = [] then DeliveryFailed else DeliveryRefused c | None \<Rightarrow> DeliveryFailed))\<rparr>)"

definition accepts_answer :: "delivery \<Rightarrow> string \<Rightarrow> string set \<Rightarrow> delegation \<Rightarrow> bool" where
  "accepts_answer dl rid known d \<longleftrightarrow> answers_to (del_delivery d) dl \<and> validId rid \<and> rid \<notin> known"

definition add_answer :: "orchestrator_answer \<Rightarrow> delegation \<Rightarrow> delegation" where
  "add_answer a d =
     d\<lparr>del_stage := Answered, del_notice := None, del_answer := Some a, del_answers := del_answers d @ [a]\<rparr>"

definition answer_delegation :: "delivery \<Rightarrow> orchestrator_answer \<Rightarrow> companion \<Rightarrow> companion" where
  "answer_delegation dl a s =
     (case comp_delegation s of
        None \<Rightarrow> s
      | Some d \<Rightarrow>
          if accepts_answer dl (answer_report a) (comp_reports s) d
          then s\<lparr>comp_reports := insert (answer_report a) (comp_reports s), comp_delegation := Some (add_answer a d)\<rparr>
          else s)"

definition add_report :: "string \<Rightarrow> orchestrator_report \<Rightarrow> companion \<Rightarrow> companion" where
  "add_report rid r s =
     (if \<not> validId rid \<or> rid \<in> comp_reports s then s
      else s\<lparr>comp_reports := insert rid (comp_reports s), comp_orchestratorReports := comp_orchestratorReports s @ [r]\<rparr>)"

definition raise_error :: "string \<Rightarrow> bool \<Rightarrow> voice_number option \<Rightarrow> companion \<Rightarrow> companion" where
  "raise_error code recoverable resetsAt s =
     (if recoverable then s else s\<lparr>comp_phase := Offline, comp_playing := None, comp_mouth := 0\<rparr>)
       \<lparr>comp_error := Some code, comp_errorResetsAt := resetsAt\<rparr>"

section \<open>The event switch\<close>

text \<open>An id the branch refuses leaves the state as it is, and the event unseen.\<close>

definition if_valid :: "string \<Rightarrow> companion \<Rightarrow> companion \<Rightarrow> companion" where
  "if_valid i s t = (if validId i then t else s)"

definition answer_of :: "companion_event \<Rightarrow> string \<Rightarrow> report_status \<Rightarrow> utext \<Rightarrow> orchestrator_answer" where
  "answer_of e rid status txt =
     \<lparr>answer_report = rid, answer_status = status, answer_text = txt, answer_order = order_of e\<rparr>"

fun take_payload :: "gate_grammar \<Rightarrow> companion_event \<Rightarrow> companion \<Rightarrow> payload \<Rightarrow> companion" where
  "take_payload g e b (SessionReady mode) = taken e (session_ready mode) b"
| "take_payload g e b (SessionClosed reason incomplete) = taken e (session_closed reason incomplete) b"
| "take_payload g e b (SpeechStarted item) = if_valid item b (taken e (speech_started g item) b)"
| "take_payload g e b (SpeechStopped item) =
     taken e (\<lambda>s. s\<lparr>comp_phase := (if comp_phase s = Listening then Thinking else comp_phase s)\<rparr>) b"
| "take_payload g e b (TranscriptDelta who item delta) = if_valid item b (taken e (transcript_delta g who item delta) b)"
| "take_payload g e b (TranscriptFinal who item txt) = if_valid item b (taken e (transcript_whole g who item txt True) b)"
| "take_payload g e b (TranscriptSnapshot who item txt final) = if_valid item b (taken e (transcript_whole g who item txt final) b)"
| "take_payload g e b (ResponseStarted response item) =
     taken e (\<lambda>s. s\<lparr>comp_phase := (if comp_phase s = Listening then Listening
       else if comp_phase s = Speaking then Speaking else Thinking)\<rparr>) b"
| "take_payload g e b (ResponseGenerated response status) =
     taken e (\<lambda>s. if status = ResponseFailed \<and> comp_playing s = None then s\<lparr>comp_phase := Idle\<rparr> else s) b"
| "take_payload g e b (PlaybackStarted response item playedMs) =
     if_valid item b (taken e (playback_started response item playedMs) b)"
| "take_payload g e b (PlaybackStopped response item playedMs reason) =
     taken e (playback_stopped response item playedMs reason) b"
| "take_payload g e b (ToolCalled cid name summary) = if_valid cid b (taken e (tool_called cid name summary) b)"
| "take_payload g e b (ToolResult cid status summary) = taken e (tool_result cid status summary) b"
| "take_payload g e b (DelegationToolCalled cid item instruction) =
     if_valid cid b (taken e (\<lambda>s. s\<lparr>comp_delegation := Some (raised cid instruction)\<rparr>) b)"
| "take_payload g e b (DelegationSending p) = taken e (on_delegation (start_sending p)) b"
| "take_payload g e b (ConfirmationRequired p) = taken e (on_delegation (ask_confirmation g (comp_lines b) p)) b"
| "take_payload g e b (Retargeted pid r) = taken e (on_delegation (retarget pid r)) b"
| "take_payload g e b (Confirmed pid) = taken e (on_delegation (confirm pid)) b"
| "take_payload g e b (DelegationToolResult cid result) = taken e (on_delegation (tool_outcome cid result)) b"
| "take_payload g e b (DeliverySettled dl status code) = taken e (on_delegation (settle dl status code)) b"
| "take_payload g e b (OrchestratorReport rid status txt reported project) =
     taken e (add_report rid \<lparr>report_answer = answer_of e rid status (if status = ReportMessage then take 16000 txt else bounded txt),
       report_at = reported, report_project = project\<rparr>) b"
| "take_payload g e b (OrchestratorAnswer dl rid status txt) =
     taken e (answer_delegation dl (answer_of e rid status (bounded txt))) b"
| "take_payload g e b (ErrorRaised code recoverable resetsAt) = taken e (raise_error code recoverable resetsAt) b"
| "take_payload g e b _ = b"

definition usage_updated :: "json \<Rightarrow> companion \<Rightarrow> companion" where
  "usage_updated usage b =
     (if comp_usage b = Some usage then b else b\<lparr>comp_usage := Some usage, comp_revision := Suc (comp_revision b)\<rparr>)"

definition context_updated :: "companion \<Rightarrow> companion" where
  "context_updated b =
     (if comp_error b = Some ''CONTEXT_UNCONFIRMED'' then b\<lparr>comp_error := None, comp_revision := Suc (comp_revision b)\<rparr> else b)"

definition reduceCurrent :: "gate_grammar \<Rightarrow> companion \<Rightarrow> companion_event \<Rightarrow> companion" where
  "reduceCurrent g s e =
     (if \<not> wellFormed e \<or> generation_of e < comp_generation s then s
      else
        (let b = base_of e s in
         case event_payload e of
           UsageUpdated usage \<Rightarrow> usage_updated usage b
         | ContextUpdated project \<Rightarrow> context_updated b
         | PlaybackLevel response item rms playedMs \<Rightarrow> playback_level e response rms playedMs b
         | TimerFired timer \<Rightarrow> if event_id e \<in> comp_seen b then b else s
         | p \<Rightarrow> if event_id e \<in> comp_seen b then b else take_payload g e b p))"

section \<open>The cards\<close>

text \<open>The events that reach the cards of earlier requests.\<close>

definition retained_card_event :: "companion_event \<Rightarrow> bool" where
  "retained_card_event e =
     (case event_payload e of
        Confirmed _ \<Rightarrow> True | Retargeted _ _ \<Rightarrow> True | DelegationToolResult _ _ \<Rightarrow> True
      | DeliverySettled _ _ _ \<Rightarrow> True | OrchestratorAnswer _ _ _ _ \<Rightarrow> True | _ \<Rightarrow> False)"

definition has_card :: "string \<Rightarrow> delegation list \<Rightarrow> bool" where
  "has_card cid cards = list_ex (\<lambda>c. del_call c = cid) cards"

text \<open>A call that replaces a request still in flight or waiting keeps it as a card.\<close>

definition kept_cards :: "companion \<Rightarrow> companion_event \<Rightarrow> delegation list" where
  "kept_cards s e =
     (case (event_payload e, comp_delegation s) of
        (DelegationToolCalled cid item instruction, Some d) \<Rightarrow>
          if (del_stage d = Sending \<or> del_stage d = AwaitingConfirmation) \<and> del_call d \<noteq> cid \<and> \<not> has_card (del_call d) (comp_cards s)
          then comp_cards s @ [d] else comp_cards s
      | _ \<Rightarrow> comp_cards s)"

definition reduced_card_state :: "gate_grammar \<Rightarrow> companion \<Rightarrow> companion_event \<Rightarrow> delegation \<Rightarrow> companion" where
  "reduced_card_state g s e request = reduceCurrent g (s\<lparr>comp_delegation := Some request\<rparr>) e"

definition is_current :: "companion \<Rightarrow> delegation \<Rightarrow> bool" where
  "is_current t request = (map_option del_call (comp_delegation t) = Some (del_call request))"

definition reduced_card :: "gate_grammar \<Rightarrow> companion \<Rightarrow> companion_event \<Rightarrow> companion \<Rightarrow> delegation \<Rightarrow> delegation" where
  "reduced_card g s e t request =
     (if is_current t request then the (comp_delegation t)
      else (case comp_delegation (reduced_card_state g s e request) of Some d \<Rightarrow> d | None \<Rightarrow> request))"

definition put_card :: "delegation option \<Rightarrow> delegation list \<Rightarrow> delegation list" where
  "put_card current cards =
     (case current of
        None \<Rightarrow> cards
      | Some d \<Rightarrow>
          if del_delivery d = None then cards
          else if has_card (del_call d) cards then update_first (\<lambda>c. del_call c = del_call d) (\<lambda>_. d) cards
          else cards @ [d])"

definition reduced_cards :: "gate_grammar \<Rightarrow> companion \<Rightarrow> companion_event \<Rightarrow> companion \<Rightarrow> delegation list" where
  "reduced_cards g s e t =
     (if retained_card_event e then map (reduced_card g s e t) (kept_cards s e) else kept_cards s e)"

definition reduced_reports :: "gate_grammar \<Rightarrow> companion \<Rightarrow> companion_event \<Rightarrow> companion \<Rightarrow> string set" where
  "reduced_reports g s e t =
     (if retained_card_event e
      then \<Union> (set (map (\<lambda>request. comp_reports (reduced_card_state g s e request))
        (filter (\<lambda>request. \<not> is_current t request) (kept_cards s e))))
      else {})"

definition reduceCompanion :: "gate_grammar \<Rightarrow> companion \<Rightarrow> companion_event \<Rightarrow> companion" where
  "reduceCompanion g s e =
     (let t = reduceCurrent g s e in
      if t = s then s
      else if comp_delegation t = comp_delegation s \<and> \<not> retained_card_event e then t
      else t\<lparr>comp_cards := last_of CALL_HISTORY (put_card (comp_delegation t) (reduced_cards g s e t)),
             comp_reports := comp_reports t \<union> reduced_reports g s e t\<rparr>)"

end
