(* ===== verification/Voice_Delegation.thy ===== *)
theory Voice_Delegation
  imports Voice_Reducer
begin

text \<open>
  What one event can do to one request: the steps of a delegation as a relation, the invariant of
  a delegation, and the order in which it moves on. A delegation held by the companion is the
  current one or a card.
\<close>

section \<open>The steps of a delegation\<close>

inductive delegation_move :: "string set \<Rightarrow> delegation \<Rightarrow> delegation \<Rightarrow> bool" for known :: "string set" where
  stay: "delegation_move known d d"
| stand: "delegation_move known d (standing g ls d)"
| withdrawn: "delegation_move known d (withdraw d)"
| send: "delegation_move known d (start_sending p d)"
| ask: "delegation_move known d (ask_confirmation g ls p d)"
| retargeted: "delegation_move known d (retarget pid r d)"
| confirmed: "delegation_move known d (confirm pid d)"
| outcome: "delegation_move known d (tool_outcome cid result d)"
| settled: "delegation_move known d (settle dl status code d)"
| answered: "accepts_answer dl (answer_report a) known d \<Longrightarrow> delegation_move known d (add_answer a d)"

definition answer_reports :: "delegation \<Rightarrow> string set" where
  "answer_reports d = answer_report ` set (del_answers d)"

lemma delegation_defs_answers [simp]:
  "del_answers (standing g ls d) = del_answers d" "del_answers (withdraw d) = del_answers d"
  "del_answers (start_sending p d) = del_answers d" "del_answers (ask_confirmation g ls p d) = del_answers d"
  "del_answers (retarget pid r d) = del_answers d" "del_answers (confirm pid d) = del_answers d"
  "del_answers (tool_outcome cid result d) = del_answers d" "del_answers (settle dl status code d) = del_answers d"
  by (simp_all add: standing_def withdraw_def start_sending_def ask_confirmation_def retarget_def confirm_def
      tool_outcome_def settle_def Let_def split: option.splits delegation_result.splits)

lemma delegation_defs_call [simp]:
  "del_call (standing g ls d) = del_call d" "del_call (withdraw d) = del_call d"
  "del_call (start_sending p d) = del_call d" "del_call (ask_confirmation g ls p d) = del_call d"
  "del_call (retarget pid r d) = del_call d" "del_call (confirm pid d) = del_call d"
  "del_call (tool_outcome cid result d) = del_call d" "del_call (settle dl status code d) = del_call d"
  "del_call (add_answer a d) = del_call d"
  by (simp_all add: standing_def withdraw_def start_sending_def ask_confirmation_def retarget_def confirm_def
      tool_outcome_def settle_def add_answer_def Let_def split: option.splits delegation_result.splits)

lemma move_call: "delegation_move known d d' \<Longrightarrow> del_call d' = del_call d"
  by (induction rule: delegation_move.induct) simp_all

section \<open>The invariant\<close>

definition bound_to :: "delegation \<Rightarrow> proposal \<Rightarrow> delivery \<Rightarrow> bool" where
  "bound_to d p dl \<longleftrightarrow> delivery_proposal dl = proposal_id p \<and> delivery_call dl = del_call d
     \<and> sameRecipient (delivery_recipient dl) (proposal_recipient p) \<and> validId (delivery_message dl)"

text \<open>The stages that have a delivery, and the stages that have a frozen proposal.\<close>

fun delivered_stage :: "delegation_stage \<Rightarrow> bool" where
  "delivered_stage Queued = True"
| "delivered_stage Delivered = True"
| "delivered_stage Unknown = True"
| "delivered_stage Answered = True"
| "delivered_stage FailedDelegation = True"
| "delivered_stage _ = False"

definition proposed_stage :: "delegation_stage \<Rightarrow> bool" where
  "proposed_stage st \<longleftrightarrow> st = AwaitingConfirmation \<or> st = Sending \<or> delivered_stage st"

definition operation_ok :: "delegation_stage \<Rightarrow> delivery \<Rightarrow> bool" where
  "operation_ok st dl \<longleftrightarrow> (st = Queued \<longrightarrow> valid_id_option (delivery_operation dl)) \<and> (st = Answered \<longrightarrow> delivery_operation dl \<noteq> None)"

definition delegation_ok :: "delegation \<Rightarrow> bool" where
  "delegation_ok d \<longleftrightarrow>
     validId (del_call d)
     \<and> (\<forall>p. del_proposal d = Some p \<longrightarrow> proposal_call p = del_call d)
     \<and> (proposed_stage (del_stage d) \<longrightarrow> del_proposal d \<noteq> None)
     \<and> (del_delivery d \<noteq> None \<longleftrightarrow> delivered_stage (del_stage d))
     \<and> (\<forall>p dl. del_proposal d = Some p \<longrightarrow> del_delivery d = Some dl \<longrightarrow> bound_to d p dl)
     \<and> (\<forall>dl. del_delivery d = Some dl \<longrightarrow> operation_ok (del_stage d) dl)
     \<and> (del_answers d \<noteq> [] \<longleftrightarrow> del_stage d = Answered) \<and> del_answer d = at_last (del_answers d)
     \<and> distinct (map answer_report (del_answers d))"

lemma delegation_okD:
  assumes "delegation_ok d"
  shows "validId (del_call d)" "del_proposal d = Some p \<Longrightarrow> proposal_call p = del_call d"
    "proposed_stage (del_stage d) \<Longrightarrow> del_proposal d \<noteq> None"
    "del_delivery d \<noteq> None \<longleftrightarrow> delivered_stage (del_stage d)"
    "del_proposal d = Some p \<Longrightarrow> del_delivery d = Some dl \<Longrightarrow> bound_to d p dl"
    "del_delivery d = Some dl \<Longrightarrow> operation_ok (del_stage d) dl"
    "del_answers d \<noteq> [] \<longleftrightarrow> del_stage d = Answered" "del_answer d = at_last (del_answers d)"
    "distinct (map answer_report (del_answers d))"
  using assms unfolding delegation_ok_def by blast+

text \<open>A delegation moved to another stage, its frozen parts as they were.\<close>

lemma undelivered_ok:
  fixes d st pr ins src rf
  assumes "delegation_ok d" "\<not> delivered_stage (del_stage d)" "\<not> delivered_stage st"
    and "proposed_stage st \<longrightarrow> pr \<noteq> None" "\<forall>p. pr = Some p \<longrightarrow> proposal_call p = del_call d"
  shows "delegation_ok (d\<lparr>del_stage := st, del_proposal := pr, del_sourceText := src, del_instruction := ins, del_refusal := rf\<rparr>)"
proof -
  have "del_delivery d = None" using delegation_okD(4) [OF assms(1)] assms(2) by blast
  moreover have "del_answers d = []" using delegation_okD(7) [OF assms(1)] assms(2) by (cases "del_stage d") auto
  moreover have "st \<noteq> Answered" using assms(3) by auto
  ultimately show ?thesis using assms delegation_okD(1,8) [OF assms(1)] by (simp add: delegation_ok_def)
qed

lemma delivered_ok:
  fixes d p dl st rf n
  assumes "delegation_ok d" "del_proposal d = Some p" "bound_to d p dl" "delivered_stage st" "operation_ok st dl"
    and "st \<noteq> Answered" "del_stage d \<noteq> Answered"
  shows "delegation_ok (d\<lparr>del_stage := st, del_delivery := Some dl, del_refusal := rf, del_notice := n\<rparr>)"
  using assms delegation_okD(1,2,7,8) [OF assms(1)] by (simp add: delegation_ok_def bound_to_def)

lemma sameRecipient_refl [simp]: "sameRecipient r r"
  by (simp add: sameRecipient_def)

lemma sameRecipient_eq: "sameRecipient l r \<longleftrightarrow> l = r"
  by (auto simp: sameRecipient_def)

lemma sameBinding_eq: "sameBinding l r \<longleftrightarrow> l\<lparr>delivery_operation := None\<rparr> = r\<lparr>delivery_operation := None\<rparr>"
  by (cases l; cases r) (auto simp: sameBinding_def sameRecipient_eq)

lemma raised_ok: "validId cid \<Longrightarrow> delegation_ok (raised cid instruction)"
  by (simp add: delegation_ok_def raised_def proposed_stage_def)

lemma ended_ok:
  assumes "delegation_ok d" "\<not> delivered_stage (del_stage d)" "\<not> proposed_stage st"
  shows "delegation_ok (d\<lparr>del_stage := st, del_refusal := r\<rparr>)"
  using undelivered_ok [OF assms(1,2), of st "del_proposal d" r "del_instruction d" "del_sourceText d"] assms delegation_okD(2) [OF assms(1)]
  by (simp add: proposed_stage_def)

lemma standing_cases: "standing g ls d = d \<or> (\<exists>r. del_stage d = AwaitingConfirmation \<and> standing g ls d = d\<lparr>del_stage := Cancelled, del_refusal := r\<rparr>)"
  by (auto simp: standing_def split: option.splits)

lemma standing_ok:
  assumes "delegation_ok d"
  shows "delegation_ok (standing g ls d)"
  using standing_cases [of g ls d]
proof
  assume "\<exists>r. del_stage d = AwaitingConfirmation \<and> standing g ls d = d\<lparr>del_stage := Cancelled, del_refusal := r\<rparr>"
  then show ?thesis using ended_ok [OF assms, of Cancelled] by (auto simp: proposed_stage_def)
qed (use assms in simp)

lemma withdraw_ok: "delegation_ok d \<Longrightarrow> delegation_ok (withdraw d)"
  using ended_ok [of d Cancelled] by (auto simp: withdraw_def proposed_stage_def)

lemma start_sending_ok: "delegation_ok d \<Longrightarrow> delegation_ok (start_sending p d)"
  using undelivered_ok [of d Sending "Some p" "del_refusal d" "boundedAsk (proposal_instruction p)" "del_sourceText d"]
  by (simp add: start_sending_def)

lemma ask_confirmation_ok:
  assumes "delegation_ok d"
  shows "delegation_ok (ask_confirmation g ls p d)"
proof (cases "del_call d \<noteq> proposal_call p \<or> del_stage d \<noteq> Proposed")
  case False
  then show ?thesis
    using ended_ok [OF assms, of Refused]
      undelivered_ok [OF assms, of AwaitingConfirmation "Some p" "del_refusal d" "boundedAsk (proposal_instruction p)"
        "map_option input_text (find (\<lambda>i. input_item i = proposal_source p) (operatorInputs ls))"]
    by (auto simp: ask_confirmation_def proposed_stage_def split: option.splits)
qed (use assms in \<open>simp add: ask_confirmation_def\<close>)

lemma confirm_ok:
  assumes "delegation_ok d"
  shows "delegation_ok (confirm pid d)"
  using undelivered_ok [OF assms, of Sending "del_proposal d" "del_refusal d" "del_instruction d" "del_sourceText d"]
    delegation_okD(2) [OF assms] assms
  by (auto simp: confirm_def split: option.splits)

lemma resent_ok:
  assumes "delegation_ok d" "del_stage d \<noteq> Answered" "proposal_call p = del_call d"
  shows "delegation_ok (d\<lparr>del_proposal := Some p, del_stage := Sending, del_delivery := None, del_refusal := None, del_notice := None\<rparr>)"
  using assms delegation_okD(1,7,8) [OF assms(1)] by (simp add: delegation_ok_def)

lemma retarget_ok:
  assumes "delegation_ok d"
  shows "delegation_ok (retarget pid r d)"
proof (cases "del_proposal d")
  case (Some p)
  have call: "proposal_call (p\<lparr>proposal_recipient := r\<rparr>) = del_call d" using delegation_okD(2) [OF assms Some] by simp
  have seat: "seat_refused d \<or> seat_unknown d \<Longrightarrow> del_stage d \<noteq> Answered" by (auto simp: seat_refused_def seat_unknown_def)
  show ?thesis
    using resent_ok [OF assms seat call] call assms
      undelivered_ok [OF assms, of "del_stage d" "Some (p\<lparr>proposal_recipient := r\<rparr>)" "del_refusal d" "del_instruction d" "del_sourceText d"]
    by (auto simp: retarget_def Some Let_def)
qed (use assms in \<open>simp add: retarget_def\<close>)

lemma accepts_delivery_bound:
  assumes "delegation_ok d" "accepts_delivery d status dl"
  obtains p where "del_proposal d = Some p" "bound_to d p dl" "operation_ok (sent_stage status) dl" "del_stage d \<noteq> Answered"
  using assms
  by (cases "del_proposal d"; cases status)
    (auto simp: accepts_delivery_def bound_to_def operation_ok_def)

lemma tool_outcome_ok:
  assumes ok: "delegation_ok d"
  shows "delegation_ok (tool_outcome cid result d)"
proof (cases result)
  case (NotSent status code)
  have "\<not> proposed_stage (unsent_stage status)" by (cases status) (simp_all add: proposed_stage_def)
  with ended_ok [OF ok _ this] delegation_okD(4) [OF ok] ok show ?thesis by (auto simp: NotSent tool_outcome_def)
next
  case (Sent status dl)
  show ?thesis
  proof (cases "del_call d = cid \<and> accepts_delivery d status dl")
    case True
    then obtain p where p: "del_proposal d = Some p" "bound_to d p dl" "operation_ok (sent_stage status) dl" "del_stage d \<noteq> Answered"
      using accepts_delivery_bound [OF ok] by metis
    have "delivered_stage (sent_stage status)" "sent_stage status \<noteq> Answered" by (cases status; simp)+
    from delivered_ok [OF ok p(1,2) this(1) p(3) this(2) p(4), where rf = "del_refusal d"] True show ?thesis
      by (simp add: Sent tool_outcome_def)
  qed (use ok in \<open>auto simp: Sent tool_outcome_def\<close>)
qed

lemma settle_bound:
  assumes ok: "delegation_ok d" and m: "sending_refusal d dl \<or> settles (del_delivery d) dl"
  obtains p where "del_proposal d = Some p" "bound_to d p dl"
  using m
proof
  assume "sending_refusal d dl"
  then show thesis using that by (auto simp: sending_refusal_def bound_to_def sameRecipient_eq split: option.splits)
next
  assume s: "settles (del_delivery d) dl"
  then obtain dl' where dl': "del_delivery d = Some dl'" by (cases "del_delivery d") (auto simp: settles_def)
  then have "delivered_stage (del_stage d)" using delegation_okD(4) [OF ok] by simp
  then obtain p where p: "del_proposal d = Some p" using delegation_okD(3) [OF ok] by (auto simp: proposed_stage_def)
  have "bound_to d p dl" using s dl' delegation_okD(5) [OF ok p dl']
    by (auto simp: settles_def sameBinding_def bound_to_def sameRecipient_eq)
  with p show thesis using that by blast
qed

lemma settle_ok:
  assumes ok: "delegation_ok d"
  shows "delegation_ok (settle dl status code d)"
proof (cases "del_stage d = Answered \<or> \<not> sending_refusal d dl \<and> \<not> settles (del_delivery d) dl")
  case False
  then obtain p where p: "del_proposal d = Some p" "bound_to d p dl" using settle_bound [OF ok] by metis
  let ?st = "case status of SettledDelivered \<Rightarrow> Delivered | SettledFailed \<Rightarrow> FailedDelegation"
  have "delivered_stage ?st" "operation_ok ?st dl" "?st \<noteq> Answered" by (cases status; simp add: operation_ok_def)+
  from delivered_ok [OF ok p this] False show ?thesis by (auto simp: settle_def)
qed (use ok in \<open>simp add: settle_def\<close>)

lemma add_answer_ok:
  assumes ok: "delegation_ok d" and acc: "accepts_answer dl (answer_report a) known d" and kn: "answer_reports d \<subseteq> known"
  shows "delegation_ok (add_answer a d)"
proof -
  from acc obtain dl' where dl': "del_delivery d = Some dl'" and op: "delivery_operation dl' \<noteq> None"
    by (auto simp: accepts_answer_def answers_to_def split: option.splits)
  then have "delivered_stage (del_stage d)" using delegation_okD(4) [OF ok] by simp
  then obtain p where p: "del_proposal d = Some p" using delegation_okD(3) [OF ok] by (auto simp: proposed_stage_def)
  from acc kn have "answer_report a \<notin> answer_report ` set (del_answers d)"
    by (auto simp: accepts_answer_def answer_reports_def)
  then show ?thesis
    using dl' op p delegation_okD(1,2,5,9) [OF ok] by (simp add: delegation_ok_def add_answer_def bound_to_def operation_ok_def)
qed

lemma move_ok: "delegation_move known d d' \<Longrightarrow> delegation_ok d \<Longrightarrow> answer_reports d \<subseteq> known \<Longrightarrow> delegation_ok d'"
  by (induction rule: delegation_move.induct)
    (auto intro: standing_ok withdraw_ok start_sending_ok ask_confirmation_ok retarget_ok confirm_ok tool_outcome_ok
      settle_ok add_answer_ok)

section \<open>A delivery with its operation is final\<close>

lemma settles_same: "settles (Some dl) dl' \<Longrightarrow> delivery_operation dl \<noteq> None \<Longrightarrow> dl' = dl"
  by (cases dl; cases dl') (auto simp: settles_def sameBinding_def sameRecipient_eq)

lemma named_operation: "valid_id_option i \<Longrightarrow> \<exists>j. i = Some j \<and> j \<noteq> []"
  by (cases i) (auto simp: valid_id_option_def validId_def)

lemma move_frozen:
  assumes "delegation_move known d d'" "delegation_ok d" "del_delivery d = Some dl" "valid_id_option (delivery_operation dl)"
  shows "del_delivery d' = Some dl" "del_proposal d' = del_proposal d"
proof -
  from assms(4) obtain op where op: "delivery_operation dl = Some op" "op \<noteq> []" using named_operation by blast
  have dst: "delivered_stage (del_stage d)" using delegation_okD(4) [OF assms(2)] assms(3) by simp
  then have ns: "del_stage d \<noteq> Sending" "del_stage d \<noteq> Proposed" "del_stage d \<noteq> AwaitingConfirmation" by auto
  have seats: "\<not> seat_refused d" "\<not> seat_unknown d"
    using assms(3) op by (auto simp: seat_refused_def no_operation_def seat_unknown_def)
  have "del_delivery d' = Some dl \<and> del_proposal d' = del_proposal d"
    using assms(1)
  proof (cases rule: delegation_move.cases)
    case (stand g ls)
    then show ?thesis using standing_cases [of g ls d] ns assms(3) by auto
  next
    case (retargeted pid r)
    then show ?thesis using ns seats assms(3) by (auto simp: retarget_def Let_def split: option.splits)
  next
    case (outcome cid result)
    show ?thesis
    proof (cases result)
      case (Sent status dl')
      then show ?thesis using outcome ns assms(3) settles_same [of dl dl'] op
        by (auto simp: tool_outcome_def accepts_delivery_def)
    qed (use outcome assms(3) in \<open>auto simp: tool_outcome_def\<close>)
  next
    case (settled dl' status code)
    then show ?thesis using ns assms(3) settles_same [of dl dl'] op
      by (auto simp: settle_def sending_refusal_def)
  qed (use ns assms(3) in \<open>auto simp: withdraw_def start_sending_def ask_confirmation_def confirm_def add_answer_def split: option.splits\<close>)
  then show "del_delivery d' = Some dl" "del_proposal d' = del_proposal d" by auto
qed

lemma move_answers: "delegation_move known d d' \<Longrightarrow> \<exists>as. del_answers d' = del_answers d @ as"
  by (induction rule: delegation_move.induct) (auto simp: add_answer_def)

section \<open>One event on the current delegation\<close>

definition answered_in :: "string set \<Rightarrow> delegation \<Rightarrow> delegation \<Rightarrow> bool" where
  "answered_in reports d d' \<longleftrightarrow> answer_reports d' \<subseteq> answer_reports d \<union> reports"

lemma answered_same: "del_answers d' = del_answers d \<Longrightarrow> answered_in reports d d'"
  by (simp add: answered_in_def answer_reports_def)

text \<open>What an event makes of the current delegation: a step of it, nothing, or a candidate just raised.\<close>

definition delegation_view :: "companion \<Rightarrow> companion_event \<Rightarrow> companion \<Rightarrow> bool" where
  "delegation_view s e t \<longleftrightarrow>
     (case comp_delegation t of
        None \<Rightarrow> True
      | Some d' \<Rightarrow>
          (\<exists>d. comp_delegation s = Some d \<and> delegation_move (comp_reports s) d d' \<and> answered_in (comp_reports t) d d')
          \<or> (\<exists>cid item instruction. event_payload e = DelegationToolCalled cid item instruction \<and> validId cid
               \<and> d' = raised cid instruction))"

lemma base_fields [simp]:
  "comp_reports (base_of e s) = comp_reports s" "comp_cards (base_of e s) = comp_cards s"
  "comp_usage (base_of e s) = comp_usage s" "comp_error (base_of e s) = comp_error s"
  by (simp_all add: base_of_def new_generation_def)

lemma base_delegation: "comp_delegation (base_of e s) = Some d \<Longrightarrow> comp_delegation s = Some d"
  by (auto simp: base_of_def new_generation_def split: if_splits option.splits)

lemma view_refl: "delegation_view s e s"
  by (auto simp: delegation_view_def answered_same split: option.splits intro: stay)

lemma view_same:
  "comp_delegation t = comp_delegation (base_of e s) \<Longrightarrow> delegation_view s e t"
  by (auto simp: delegation_view_def answered_same split: option.splits dest: base_delegation intro: stay)

lemma view_map:
  assumes "comp_delegation t = map_option f (comp_delegation (base_of e s))"
    and "\<And>d. delegation_move (comp_reports s) d (f d)" "\<And>d. del_answers (f d) = del_answers d"
  shows "delegation_view s e t"
proof (cases "comp_delegation (base_of e s)")
  case (Some d)
  with assms base_delegation [OF Some] show ?thesis by (auto simp: delegation_view_def answered_same)
qed (use assms in \<open>simp add: delegation_view_def\<close>)

lemma taken_fields [simp]:
  "comp_delegation (taken e f s) = comp_delegation (f s)" "comp_reports (taken e f s) = comp_reports (f s)"
  "comp_cards (taken e f s) = comp_cards (f s)" "comp_lines (taken e f s) = comp_lines (f s)"
  "comp_calls (taken e f s) = comp_calls (f s)" "comp_playing (taken e f s) = comp_playing (f s)"
  "comp_mouth (taken e f s) = comp_mouth (f s)" "comp_phase (taken e f s) = comp_phase (f s)"
  "comp_playedMs (taken e f s) = comp_playedMs (f s)" "comp_generation (taken e f s) = comp_generation (f s)"
  "comp_levelSeq (taken e f s) = comp_levelSeq (f s)" "comp_seen (taken e f s) = insert (event_id e) (comp_seen s)"
  "comp_revision (taken e f s) = Suc (comp_revision s)"
  by (simp_all add: taken_def)

lemma on_delegation_fields [simp]:
  "comp_delegation (on_delegation f s) = map_option f (comp_delegation s)"
  "comp_reports (on_delegation f s) = comp_reports s" "comp_cards (on_delegation f s) = comp_cards s"
  "comp_lines (on_delegation f s) = comp_lines s" "comp_calls (on_delegation f s) = comp_calls s"
  "comp_playing (on_delegation f s) = comp_playing s" "comp_mouth (on_delegation f s) = comp_mouth s"
  "comp_phase (on_delegation f s) = comp_phase s" "comp_playedMs (on_delegation f s) = comp_playedMs s"
  "comp_generation (on_delegation f s) = comp_generation s" "comp_levelSeq (on_delegation f s) = comp_levelSeq s"
  "comp_seen (on_delegation f s) = comp_seen s"
  by (simp_all add: on_delegation_def)

lemmas quiet_defs = session_ready_def transcript_delta_def transcript_whole_def playback_started_def playback_stopped_def
  tool_called_def tool_result_def add_report_def raise_error_def write_line_def session_closed_def speech_started_def

lemma view_line:
  "delegation_view s e (taken e (write_line g who item change) (base_of e s))"
proof (cases "who = Operator")
  case True
  show ?thesis
    by (rule view_map [where f = "standing g (upsertLine (comp_lines (base_of e s)) who item (Suc (comp_revision (base_of e s))) change (Some (freshLine (base_of e s) item)))"])
      (auto simp: write_line_def True Let_def intro: stand)
qed (rule view_same, simp add: write_line_def Let_def)

lemma view_answer:
  "delegation_view s e (taken e (answer_delegation dl a) (base_of e s))"
proof (cases "comp_delegation (base_of e s)")
  case (Some d)
  show ?thesis
  proof (cases "accepts_answer dl (answer_report a) (comp_reports s) d")
    case True
    then have "delegation_move (comp_reports s) d (add_answer a d)" by (rule answered)
    then show ?thesis using True base_delegation [OF Some]
      by (auto simp: delegation_view_def answer_delegation_def Some answered_in_def answer_reports_def add_answer_def)
  qed (use Some in \<open>auto intro!: view_same simp: answer_delegation_def\<close>)
qed (auto intro!: view_same simp: answer_delegation_def)

lemma view_base: "delegation_view s e (base_of e s)"
  by (rule view_same) simp

lemma take_view: "event_payload e = p \<Longrightarrow> delegation_view s e (take_payload g e (base_of e s) p)"
proof (cases p)
  case (SessionClosed reason incomplete)
  show ?thesis unfolding SessionClosed
    by (rule view_map [where f = withdraw]) (auto simp: session_closed_def intro: withdrawn)
next
  case (SpeechStarted item)
  show ?thesis unfolding SpeechStarted
  proof (cases "validId item")
    case True
    let ?ls = "upsertLine (cut_playing (base_of e s)) Operator item (Suc (comp_revision (base_of e s))) (\<lambda>l. l) (Some PendingPlayback)"
    have "delegation_view s e (taken e (speech_started g item) (base_of e s))"
      by (rule view_map [where f = "standing g ?ls"]) (auto simp: speech_started_def Let_def intro: stand)
    with True show "delegation_view s e (take_payload g e (base_of e s) (SpeechStarted item))" by (simp add: if_valid_def)
  qed (simp add: if_valid_def view_base)
next
  case (TranscriptDelta who item delta)
  show ?thesis unfolding TranscriptDelta
    using view_line [of s e g who item "\<lambda>l. l\<lparr>line_text := bounded (line_text l @ delta)\<rparr>"]
      view_same [of "taken e (\<lambda>s. s) (base_of e s)" e s]
    by (auto simp: if_valid_def view_base taken_def transcript_delta_def split: option.splits)
next
  case (TranscriptFinal who item t)
  show ?thesis unfolding TranscriptFinal using view_line by (auto simp: if_valid_def view_base taken_def transcript_whole_def)
next
  case (TranscriptSnapshot who item t final)
  show ?thesis unfolding TranscriptSnapshot using view_line by (auto simp: if_valid_def view_base taken_def transcript_whole_def)
next
  case (DelegationToolCalled cid item instruction)
  assume "event_payload e = p"
  then have "event_payload e = DelegationToolCalled cid item instruction" using DelegationToolCalled by simp
  then have "validId cid \<Longrightarrow> delegation_view s e (taken e (\<lambda>s. s\<lparr>comp_delegation := Some (raised cid instruction)\<rparr>) (base_of e s))"
    by (simp add: delegation_view_def)
  then show ?thesis unfolding DelegationToolCalled by (simp add: if_valid_def view_base)
next
  case (OrchestratorAnswer dl rid status t)
  show ?thesis unfolding OrchestratorAnswer using view_answer by simp
next
  case (DelegationSending pr)
  show ?thesis unfolding DelegationSending by (rule view_map [where f = "start_sending pr"]) (auto intro: send)
next
  case (ConfirmationRequired pr)
  show ?thesis unfolding ConfirmationRequired
    by (rule view_map [where f = "ask_confirmation g (comp_lines (base_of e s)) pr"]) (auto intro: ask)
next
  case (Retargeted pid r)
  show ?thesis unfolding Retargeted by (rule view_map [where f = "retarget pid r"]) (auto intro: retargeted)
next
  case (Confirmed pid)
  show ?thesis unfolding Confirmed by (rule view_map [where f = "confirm pid"]) (auto intro: confirmed)
next
  case (DelegationToolResult cid result)
  show ?thesis unfolding DelegationToolResult by (rule view_map [where f = "tool_outcome cid result"]) (auto intro: outcome)
next
  case (DeliverySettled dl status code)
  show ?thesis unfolding DeliverySettled by (rule view_map [where f = "settle dl status code"]) (auto intro: settled)
qed (auto intro!: view_same simp: if_valid_def session_ready_def playback_started_def playback_stopped_def tool_called_def
    tool_result_def add_report_def raise_error_def Let_def)

text \<open>The ways an event is reduced: not at all, as an observation, or through the switch.\<close>

lemma reduce_cases:
  obtains (same) "reduceCurrent g s e = s"
    | (base) "reduceCurrent g s e = base_of e s" "wellFormed e" "comp_generation s \<le> generation_of e"
    | (usage) u where "reduceCurrent g s e = usage_updated u (base_of e s)" "event_payload e = UsageUpdated u"
        "wellFormed e" "comp_generation s \<le> generation_of e"
    | (project) c where "reduceCurrent g s e = context_updated (base_of e s)" "event_payload e = ContextUpdated c"
        "wellFormed e" "comp_generation s \<le> generation_of e"
    | (level) r i v m where "reduceCurrent g s e = playback_level e r v m (base_of e s)" "event_payload e = PlaybackLevel r i v m"
        "wellFormed e" "comp_generation s \<le> generation_of e"
    | (switch) "reduceCurrent g s e = take_payload g e (base_of e s) (event_payload e)"
        "event_id e \<notin> comp_seen (base_of e s)" "wellFormed e" "comp_generation s \<le> generation_of e"
proof (cases "wellFormed e \<and> comp_generation s \<le> generation_of e")
  case False
  then show thesis using same by (simp add: reduceCurrent_def not_le)
next
  case True
  then show thesis
    using same base usage project level switch
    by (cases "event_payload e"; cases "event_id e \<in> comp_seen (base_of e s)") (simp_all add: reduceCurrent_def Let_def)
qed

lemma reduce_view: "delegation_view s e (reduceCurrent g s e)"
proof (cases rule: reduce_cases [of g s e])
  case switch
  then show ?thesis using take_view [of e _ s g] by simp
qed (auto intro!: view_same simp: usage_updated_def context_updated_def playback_level_def view_refl)

section \<open>Reports only accumulate\<close>

lemma take_reports: "comp_reports b \<subseteq> comp_reports (take_payload g e b p)"
  by (cases p) (auto simp: if_valid_def quiet_defs answer_delegation_def on_delegation_def Let_def split: option.splits)

lemma reduce_reports: "comp_reports s \<subseteq> comp_reports (reduceCurrent g s e)"
proof (cases rule: reduce_cases [of g s e])
  case switch
  then show ?thesis using take_reports [of "base_of e s" g e "event_payload e"] by simp
qed (auto simp: usage_updated_def context_updated_def playback_level_def)

section \<open>Every request the companion holds\<close>

definition held :: "companion \<Rightarrow> delegation set" where
  "held s = set (comp_cards s) \<union> set_option (comp_delegation s)"

lemma set_last_of: "set (last_of n xs) \<subseteq> set xs"
  by (simp add: last_of_def set_drop_subset)

lemma length_last_of: "length (last_of n xs) \<le> n"
  by (simp add: last_of_def)

lemma distinct_last_of: "distinct (map f xs) \<Longrightarrow> distinct (map f (last_of n xs))"
  by (simp add: last_of_def drop_map [symmetric])

lemma last_of_short: "length xs \<le> n \<Longrightarrow> last_of n xs = xs"
  by (simp add: last_of_def)

lemma set_put_card: "set (put_card current cs) \<subseteq> set cs \<union> set_option current"
  using set_update_first [of "\<lambda>c. del_call c = del_call d" "\<lambda>_. d" cs for d]
  by (auto simp: put_card_def split: option.splits if_splits)

lemma take_cards: "comp_cards (take_payload g e b p) = comp_cards b"
  by (cases p) (auto simp: if_valid_def quiet_defs answer_delegation_def on_delegation_def Let_def split: option.splits)

lemma reduce_cards: "comp_cards (reduceCurrent g s e) = comp_cards s"
  by (cases rule: reduce_cases [of g s e])
    (simp_all add: usage_updated_def context_updated_def playback_level_def take_cards)

text \<open>A step of a request, or the candidate the event raised.\<close>

definition follows :: "companion \<Rightarrow> companion_event \<Rightarrow> companion \<Rightarrow> delegation \<Rightarrow> bool" where
  "follows s e t d' \<longleftrightarrow>
     (\<exists>d \<in> held s. delegation_move (comp_reports s) d d' \<and> answered_in (comp_reports t) d d')
     \<or> (\<exists>cid item instruction. event_payload e = DelegationToolCalled cid item instruction \<and> validId cid
          \<and> d' = raised cid instruction)"

lemma follows_held: "d \<in> held s \<Longrightarrow> follows s e t d"
  unfolding follows_def using stay answered_same by blast

lemma follows_mono: "follows s e t d' \<Longrightarrow> comp_reports t \<subseteq> comp_reports u \<Longrightarrow> follows s e u d'"
  unfolding follows_def answered_in_def by blast

lemma follows_reduce:
  assumes "comp_delegation (reduceCurrent g s e) = Some d'"
  shows "follows s e (reduceCurrent g s e) d'"
proof -
  have "delegation_view s e (reduceCurrent g s e)" by (rule reduce_view)
  with assms show ?thesis by (auto simp: delegation_view_def follows_def held_def)
qed

lemma kept_held: "d \<in> set (kept_cards s e) \<Longrightarrow> d \<in> held s"
  by (auto simp: kept_cards_def held_def split: payload.splits option.splits if_splits)

lemma retained_not_raised: "retained_card_event e \<Longrightarrow> event_payload e \<noteq> DelegationToolCalled cid item instruction"
  by (auto simp: retained_card_event_def)

lemma follows_reduced_card:
  assumes "retained_card_event e" "d \<in> held s" "\<not> is_current t d"
    and "comp_reports (reduced_card_state g s e d) \<subseteq> comp_reports u"
  shows "follows s e u (reduced_card g s e t d)"
proof (cases "comp_delegation (reduced_card_state g s e d)")
  case None
  with assms show ?thesis using follows_held by (simp add: reduced_card_def)
next
  case (Some d')
  let ?s = "s\<lparr>comp_delegation := Some d\<rparr>"
  have "delegation_view ?s e (reduceCurrent g ?s e)" by (rule reduce_view)
  with Some retained_not_raised [OF assms(1)]
  have "delegation_move (comp_reports s) d d'" "answered_in (comp_reports (reduced_card_state g s e d)) d d'"
    by (auto simp: delegation_view_def reduced_card_state_def)
  with assms(2,3,4) Some show ?thesis by (auto simp: reduced_card_def follows_def answered_in_def)
qed

lemma companion_cases:
  obtains (same) "reduceCurrent g s e = s" "reduceCompanion g s e = s"
    | (quiet) "reduceCompanion g s e = reduceCurrent g s e" "comp_delegation (reduceCurrent g s e) = comp_delegation s"
        "\<not> retained_card_event e"
    | (carded) "reduceCompanion g s e = (reduceCurrent g s e)
          \<lparr>comp_cards := last_of CALL_HISTORY (put_card (comp_delegation (reduceCurrent g s e)) (reduced_cards g s e (reduceCurrent g s e))),
           comp_reports := comp_reports (reduceCurrent g s e) \<union> reduced_reports g s e (reduceCurrent g s e)\<rparr>"
        "comp_delegation (reduceCurrent g s e) \<noteq> comp_delegation s \<or> retained_card_event e"
proof (cases "reduceCurrent g s e = s")
  case ne: False
  show thesis
  proof (cases "comp_delegation (reduceCurrent g s e) = comp_delegation s \<and> \<not> retained_card_event e")
    case True
    with ne show thesis using quiet by (simp add: reduceCompanion_def)
  next
    case False
    with ne show thesis using carded unfolding reduceCompanion_def Let_def by (simp only: if_False) blast
  qed
next
  case True
  then have "reduceCompanion g s e = s" unfolding reduceCompanion_def Let_def by (simp only: if_True simp_thms)
  with True show thesis by (rule same)
qed

lemma follows_reduced_cards:
  assumes d': "d' \<in> set (reduced_cards g s e (reduceCurrent g s e))"
    and u: "comp_reports (reduceCurrent g s e) \<union> reduced_reports g s e (reduceCurrent g s e) \<subseteq> comp_reports u"
  shows "follows s e u d'"
proof (cases "retained_card_event e")
  case True
  let ?t = "reduceCurrent g s e"
  from True d' obtain d where d: "d \<in> set (kept_cards s e)" "d' = reduced_card g s e ?t d"
    by (auto simp: reduced_cards_def)
  show ?thesis
  proof (cases "is_current ?t d")
    case True
    then have "comp_delegation ?t = Some d'" using d by (auto simp: is_current_def reduced_card_def)
    from follows_mono [OF follows_reduce [OF this]] u show ?thesis by blast
  next
    case False
    with True d u have "comp_reports (reduced_card_state g s e d) \<subseteq> comp_reports u" by (auto simp: reduced_reports_def)
    from follows_reduced_card [OF True kept_held [OF d(1)] False this] d show ?thesis by simp
  qed
next
  case False
  then show ?thesis using d' kept_held follows_held by (simp add: reduced_cards_def)
qed

lemma companion_follows:
  assumes d': "d' \<in> held (reduceCompanion g s e)"
  shows "follows s e (reduceCompanion g s e) d'"
proof (cases rule: companion_cases [of g s e])
  case same
  with d' show ?thesis using follows_held by simp
next
  case quiet
  with d' show ?thesis using follows_held by (simp add: held_def reduce_cards)
next
  case carded
  let ?t = "reduceCurrent g s e" and ?u = "reduceCompanion g s e"
  have u: "comp_reports ?u = comp_reports ?t \<union> reduced_reports g s e ?t" "comp_delegation ?u = comp_delegation ?t"
    "comp_cards ?u = last_of CALL_HISTORY (put_card (comp_delegation ?t) (reduced_cards g s e ?t))"
    using carded by simp_all
  have "d' \<in> set (reduced_cards g s e ?t) \<or> comp_delegation ?t = Some d'"
    using d' set_last_of [of CALL_HISTORY "put_card (comp_delegation ?t) (reduced_cards g s e ?t)"]
      set_put_card [of "comp_delegation ?t" "reduced_cards g s e ?t"]
    by (auto simp: held_def u(2,3))
  then show ?thesis
    using follows_reduced_cards [of d' g s e ?u] follows_mono [OF follows_reduce [of g s e d'], of ?u] u(1) by auto
qed

end
