(* ===== verification/Voice_Lines.thy ===== *)
theory Voice_Lines
  imports Voice_Delegation
begin

text \<open>
  What every event keeps of the transcript, the tool calls and the mouth of the voice companion:
  the bounds, one line for each speaker and item, and the facts of playback.
\<close>

section \<open>Lines\<close>

definition line_key :: "speech_line \<Rightarrow> line_speaker \<times> string" where
  "line_key l = (line_speaker l, line_item l)"

definition line_ok :: "speech_line \<Rightarrow> bool" where
  "line_ok l \<longleftrightarrow> validId (line_item l) \<and> length (line_text l) \<le> TEXT_LIMIT
     \<and> (line_speaker l = Operator \<longleftrightarrow> line_playback l = NoPlayback)
     \<and> (line_playedMs l \<noteq> None \<longleftrightarrow> line_playback l = CutPlayback)
     \<and> (case line_playedMs l of Some m \<Rightarrow> 0 \<le> m | None \<Rightarrow> True)"

definition lines_ok :: "speech_line list \<Rightarrow> bool" where
  "lines_ok ls \<longleftrightarrow> length ls \<le> LINE_HISTORY \<and> distinct (map line_key ls) \<and> (\<forall>l \<in> set ls. line_ok l)"

lemma line_is_key: "line_is who item l \<longleftrightarrow> line_key l = (who, item)"
  by (simp add: line_is_def line_key_def)

lemma ms_nonneg [simp]: "0 \<le> ms n"
  by (auto simp: ms_def split: option.splits)

lemma bounded_length [simp]: "length (bounded t) \<le> TEXT_LIMIT"
  by (simp add: bounded_def)

lemma line_revision_free [simp]:
  "line_ok (l\<lparr>line_revision := r\<rparr>) = line_ok l" "line_key (l\<lparr>line_revision := r\<rparr>) = line_key l"
  by (simp_all add: line_ok_def line_key_def)

lemma new_line_ok: "validId item \<Longrightarrow> start = PendingPlayback \<or> start = Playing \<Longrightarrow> line_ok (new_line who item start r)"
  by (auto simp: line_ok_def new_line_def)

lemma new_line_key [simp]: "line_key (new_line who item start r) = (who, item)"
  by (simp add: line_key_def new_line_def)

lemma upsertLine_ok:
  assumes ok: "lines_ok ls"
    and held: "\<And>l. l \<in> set ls \<Longrightarrow> line_key l = (who, item) \<Longrightarrow> line_ok l \<Longrightarrow> line_key (change l) = (who, item) \<and> line_ok (change l)"
    and new: "\<And>start. fresh = Some start \<Longrightarrow> \<not> list_ex (line_is who item) ls \<Longrightarrow>
      line_key (change (new_line who item start r)) = (who, item) \<and> line_ok (change (new_line who item start r))"
  shows "lines_ok (upsertLine ls who item r change fresh)"
proof (cases "list_ex (line_is who item) ls")
  case True
  let ?f = "\<lambda>l. (change l)\<lparr>line_revision := r\<rparr>"
  have "map line_key (update_first (line_is who item) ?f ls) = map line_key ls"
    using ok held by (intro map_update_first) (auto simp: line_is_key lines_ok_def)
  moreover have "\<forall>l \<in> set (update_first (line_is who item) ?f ls). line_ok l"
    using set_update_first [of "line_is who item" ?f ls] ok held by (auto simp: line_is_key lines_ok_def)
  ultimately show ?thesis using ok True by (simp add: upsertLine_def lines_ok_def)
next
  case False
  show ?thesis
  proof (cases fresh)
    case (Some start)
    let ?l = "(change (new_line who item start r))\<lparr>line_revision := r\<rparr>"
    have l: "line_key ?l = (who, item)" "line_ok ?l" using new [OF Some False] by simp_all
    have "distinct (map line_key (ls @ [?l]))" "\<forall>l \<in> set (ls @ [?l]). line_ok l"
      using ok l False by (auto simp: lines_ok_def list_ex_iff line_is_key)
    then show ?thesis
      using False set_last_of [of LINE_HISTORY "ls @ [?l]"] distinct_last_of [of line_key "ls @ [?l]" LINE_HISTORY]
      by (auto simp: upsertLine_def Some lines_ok_def length_last_of subset_iff)
  qed (use ok False in \<open>simp add: upsertLine_def\<close>)
qed

lemma cut_ok: "lines_ok ls \<Longrightarrow> lines_ok (cut ls item n r)"
  unfolding cut_def by (rule upsertLine_ok) (auto simp: cut_change_def line_ok_def line_key_def)

lemma cut_playing_ok: "lines_ok (comp_lines s) \<Longrightarrow> lines_ok (cut_playing s)"
  by (auto simp: cut_playing_def cut_ok split: option.splits)

lemma retained_line_ok: "line_ok l \<Longrightarrow> 0 \<le> m \<Longrightarrow> line_ok (retained_line m l) \<and> line_key (retained_line m l) = line_key l"
  by (auto simp: line_ok_def retained_line_def line_key_def)

lemma new_generation_lines:
  assumes "lines_ok (comp_lines s)" "0 \<le> comp_playedMs s"
  shows "lines_ok (comp_lines (new_generation n s))"
proof -
  let ?k = "filter (\<lambda>l. line_final l \<or> line_playback l = CutPlayback) (comp_lines s)"
  have k: "lines_ok ?k" using assms(1)
    by (auto simp: lines_ok_def distinct_map inj_on_def intro: le_trans [OF length_filter_le])
  have "line_key \<circ> retained_line (comp_playedMs s) = line_key"
    by (rule ext) (simp add: retained_line_def line_key_def)
  with k show ?thesis using retained_line_ok assms(2) by (auto simp: lines_ok_def new_generation_def)
qed

lemma write_line_ok:
  assumes "lines_ok (comp_lines s)" "validId item" "\<And>l. line_ok l \<Longrightarrow> line_ok (change l) \<and> line_key (change l) = line_key l"
  shows "lines_ok (comp_lines (write_line g who item change s))"
  using assms upsertLine_ok [of "comp_lines s" who item change "Some (freshLine s item)" "Suc (comp_revision s)"] new_line_ok [of item "freshLine s item"]
  by (simp add: write_line_def Let_def freshLine_def)

lemma text_change_ok: "line_ok l \<Longrightarrow> line_ok (l\<lparr>line_text := bounded t\<rparr>) \<and> line_key (l\<lparr>line_text := bounded t\<rparr>) = line_key l"
  by (simp add: line_ok_def line_key_def)

lemma transcript_ok:
  assumes "lines_ok (comp_lines s)" "validId item"
  shows "lines_ok (comp_lines (transcript_delta g who item delta s))" "lines_ok (comp_lines (transcript_whole g who item t final s))"
proof -
  have "lines_ok (comp_lines (write_line g who item (\<lambda>l. l\<lparr>line_text := bounded (line_text l @ delta)\<rparr>) s))"
    by (rule write_line_ok [OF assms]) (rule text_change_ok)
  then show "lines_ok (comp_lines (transcript_delta g who item delta s))"
    using assms(1) by (simp add: transcript_delta_def split: option.splits)
  show "lines_ok (comp_lines (transcript_whole g who item t final s))"
    unfolding transcript_whole_def
    by (rule write_line_ok [OF assms]) (simp add: line_ok_def line_key_def)
qed

lemma speech_started_ok:
  assumes "lines_ok (comp_lines s)" "validId item"
  shows "lines_ok (comp_lines (speech_started g item s))"
  using upsertLine_ok [OF cut_playing_ok [OF assms(1)], of Operator item "\<lambda>l. l" "Some PendingPlayback" "Suc (comp_revision s)"]
    new_line_ok [OF assms(2), of PendingPlayback]
  by (simp add: speech_started_def Let_def)

lemma playback_started_ok: "lines_ok (comp_lines s) \<Longrightarrow> lines_ok (comp_lines (playback_started response item n s))"
  by (auto simp: playback_started_def Let_def line_ok_def line_key_def intro!: upsertLine_ok)

lemma found_first: "find q xs = Some x \<Longrightarrow> x \<in> set xs \<and> q x"
  by (auto simp: find_Some_iff)

lemma found_key:
  assumes "lines_ok ls" "find (line_is who item) ls = Some l" "l' \<in> set ls" "line_key l' = (who, item)"
  shows "l' = l"
  using assms found_first [OF assms(2)] by (auto simp: lines_ok_def line_is_key distinct_map inj_on_def)

lemma played_ok: "lines_ok ls \<Longrightarrow> find (line_is Companion item) ls \<noteq> None \<or> fresh = None \<Longrightarrow>
    lines_ok (upsertLine ls Companion item r played_change fresh)"
  by (rule upsertLine_ok) (auto simp: played_change_def line_ok_def line_key_def list_ex_iff find_None_iff)

lemma playback_stopped_ok:
  assumes ok: "lines_ok (comp_lines s)"
  shows "lines_ok (comp_lines (playback_stopped response item n reason s))"
proof -
  let ?r = "Suc (comp_revision s)" and ?find = "find (line_is Companion item) (comp_lines s)"
  have 1: "lines_ok (upsertLine (comp_lines s) Companion item ?r (\<lambda>l. l\<lparr>line_playedMs := Some (ms n)\<rparr>) (Some PendingPlayback))"
    if f: "map_option line_playback ?find = Some CutPlayback"
  proof -
    obtain l where l: "?find = Some l" "line_playback l = CutPlayback" using f by auto
    show ?thesis
    proof (rule upsertLine_ok [OF ok])
      fix l' assume "l' \<in> set (comp_lines s)" "line_key l' = (Companion, item)" "line_ok l'"
      with found_key [OF ok l(1)] l(2) have "line_playback l' = CutPlayback" by blast
      with \<open>line_ok l'\<close> \<open>line_key l' = _\<close>
      show "line_key (l'\<lparr>line_playedMs := Some (ms n)\<rparr>) = (Companion, item) \<and> line_ok (l'\<lparr>line_playedMs := Some (ms n)\<rparr>)"
        by (simp add: line_ok_def line_key_def)
    qed (use found_first [OF l(1)] in \<open>auto simp: list_ex_iff\<close>)
  qed
  have 2: "lines_ok (upsertLine (comp_lines s) Companion item ?r played_change (Some PendingPlayback))"
    if "map_option line_playback ?find = Some PendingPlayback"
    using played_ok [OF ok] that by auto
  have 3: "lines_ok (upsertLine (comp_lines s) Companion item ?r played_change None)" using played_ok [OF ok] by simp
  show ?thesis using 1 2 3 ok cut_ok [OF ok] by (simp add: playback_stopped_def Let_def)
qed

lemma take_lines_ok: "lines_ok (comp_lines b) \<Longrightarrow> lines_ok (comp_lines (take_payload g e b p))"
  by (cases p)
    (simp_all add: if_valid_def transcript_ok speech_started_ok playback_started_ok playback_stopped_ok cut_playing_ok
      session_ready_def session_closed_def tool_called_def tool_result_def answer_delegation_def add_report_def raise_error_def
      split: option.splits)

section \<open>Calls\<close>

definition call_ok :: "tool_call \<Rightarrow> bool" where
  "call_ok c \<longleftrightarrow> validId (call_id c) \<and> length (call_name c) \<le> 80 \<and> length (call_summary c) \<le> 240
     \<and> (case call_result c of Some r \<Rightarrow> length r \<le> 240 | None \<Rightarrow> True)"

definition calls_ok :: "tool_call list \<Rightarrow> bool" where
  "calls_ok cs \<longleftrightarrow> length cs \<le> CALL_HISTORY \<and> distinct (map call_id cs) \<and> (\<forall>c \<in> set cs. call_ok c)"

lemma call_revision_free [simp]: "call_ok (c\<lparr>call_revision := r\<rparr>) = call_ok c"
  by (simp add: call_ok_def)

lemma upsertCall_ok:
  assumes ok: "calls_ok cs"
    and keep: "\<And>c. change None = Some c \<Longrightarrow> call_id c = cid \<and> call_ok c"
    and edit: "\<And>h c. h \<in> set cs \<Longrightarrow> call_id h = cid \<Longrightarrow> change (Some h) = Some c \<Longrightarrow> call_id c = cid \<and> call_ok c"
  shows "calls_ok (upsertCall cs cid r change)"
proof (cases "find (\<lambda>c. call_id c = cid) cs")
  case None
  then have new: "cid \<notin> call_id ` set cs" by (auto simp: find_None_iff)
  show ?thesis
  proof (cases "change None")
    case (Some c)
    let ?cs = "cs @ [c\<lparr>call_revision := r\<rparr>]"
    have "distinct (map call_id ?cs)" using ok new keep [OF Some] by (auto simp: calls_ok_def)
    from distinct_last_of [OF this, of CALL_HISTORY] show ?thesis
      using ok keep [OF Some] set_last_of [of CALL_HISTORY ?cs]
      by (auto simp: upsertCall_def None Some calls_ok_def length_last_of dest!: subsetD)
  qed (use ok None in \<open>simp add: upsertCall_def\<close>)
next
  case (Some h)
  then have h: "h \<in> set cs" "call_id h = cid" using found_first [OF Some] by auto
  show ?thesis
  proof (cases "change (Some h)")
    case c: (Some c)
    let ?q = "\<lambda>c. call_id c = cid" and ?f = "\<lambda>_ :: tool_call. c\<lparr>call_revision := r\<rparr>"
    have "map call_id (update_first ?q ?f cs) = map call_id cs"
      by (rule map_update_first) (use edit [OF h c] in simp)
    then show ?thesis
      using ok edit [OF h c] set_update_first [of ?q ?f cs]
      by (auto simp: upsertCall_def Some c calls_ok_def dest!: subsetD)
  qed (use ok Some in \<open>simp add: upsertCall_def\<close>)
qed

lemma tool_called_ok: "calls_ok (comp_calls s) \<Longrightarrow> validId cid \<Longrightarrow> calls_ok (comp_calls (tool_called cid name summary s))"
  unfolding tool_called_def by (simp, rule upsertCall_ok) (auto simp: calls_ok_def call_ok_def)

lemma tool_result_ok: "calls_ok (comp_calls s) \<Longrightarrow> calls_ok (comp_calls (tool_result cid status summary s))"
  unfolding tool_result_def by (simp, rule upsertCall_ok) (auto simp: calls_ok_def call_ok_def split: if_splits)

lemma new_generation_calls:
  assumes "calls_ok (comp_calls s)"
  shows "calls_ok (comp_calls (new_generation n s))"
proof -
  let ?f = "\<lambda>c :: tool_call. if call_status c = CallRunning then c\<lparr>call_status := CallFailed, call_result := None\<rparr> else c"
  have "call_id \<circ> ?f = call_id" by (rule ext) simp
  then show ?thesis using assms by (auto simp: calls_ok_def call_ok_def new_generation_def)
qed

lemma take_calls_ok: "calls_ok (comp_calls b) \<Longrightarrow> calls_ok (comp_calls (take_payload g e b p))"
  by (cases p)
    (simp_all add: if_valid_def tool_called_ok tool_result_ok session_ready_def session_closed_def speech_started_def
      transcript_delta_def transcript_whole_def write_line_def playback_started_def playback_stopped_def Let_def
      answer_delegation_def add_report_def raise_error_def split: option.splits)

section \<open>The mouth\<close>

definition playback_ok :: "companion \<Rightarrow> bool" where
  "playback_ok s \<longleftrightarrow> 0 \<le> comp_mouth s \<and> comp_mouth s \<le> 1 \<and> 0 \<le> comp_playedMs s
     \<and> (comp_playing s = None \<longrightarrow> comp_mouth s = 0 \<and> comp_phase s \<noteq> Speaking)"

lemma new_generation_playback: "playback_ok (new_generation n s)"
  by (simp add: playback_ok_def new_generation_def)

lemma playback_level_ok: "playback_ok s \<Longrightarrow> playback_ok (playback_level e response rms n s)"
  by (auto simp: playback_ok_def playback_level_def clamp01_def split: option.splits)

lemma take_playback_ok: "playback_ok b \<Longrightarrow> playback_ok (take_payload g e b p)"
  by (cases p)
    (auto simp: playback_ok_def if_valid_def tool_called_def tool_result_def session_ready_def session_closed_def speech_started_def
      transcript_delta_def transcript_whole_def write_line_def playback_started_def playback_stopped_def Let_def
      answer_delegation_def add_report_def raise_error_def split: option.splits)

section \<open>The drawn part of the state\<close>

definition drawn_ok :: "companion \<Rightarrow> bool" where
  "drawn_ok s \<longleftrightarrow> lines_ok (comp_lines s) \<and> calls_ok (comp_calls s) \<and> playback_ok s"

lemma base_drawn: "drawn_ok s \<Longrightarrow> drawn_ok (base_of e s)"
  using new_generation_lines [of s] new_generation_calls [of s] new_generation_playback [of _ s]
  by (simp add: drawn_ok_def base_of_def) (simp add: playback_ok_def)

lemma reduce_drawn:
  assumes "drawn_ok s"
  shows "drawn_ok (reduceCurrent g s e)"
  using base_drawn [OF assms, of e]
proof (cases rule: reduce_cases [of g s e])
  case switch
  then show ?thesis using base_drawn [OF assms, of e] by (simp add: drawn_ok_def take_lines_ok take_calls_ok take_playback_ok)
next
  case (level r i v m)
  have "drawn_ok (playback_level e r v m (base_of e s))"
    using base_drawn [OF assms, of e] playback_level_ok [of "base_of e s" e r v m]
    by (simp add: drawn_ok_def playback_level_def)
  then show ?thesis using level by simp
qed (use assms in \<open>auto simp: drawn_ok_def usage_updated_def context_updated_def playback_ok_def\<close>)

lemma companion_drawn: "drawn_ok s \<Longrightarrow> drawn_ok (reduceCompanion g s e)"
  using reduce_drawn [of s g e] by (cases rule: companion_cases [of g s e]) (auto simp: drawn_ok_def playback_ok_def)

end
