(* ===== verification/Voice_Properties.thy ===== *)
theory Voice_Properties
  imports Voice_Lines
begin

text \<open>
  What the voice companion promises over any stream of events: the invariant of its state, events
  counted once, deliveries that stay what they were, and speech that interrupts only the voice.
\<close>

section \<open>The cards\<close>

definition cards_ok :: "companion \<Rightarrow> bool" where
  "cards_ok s \<longleftrightarrow> length (comp_cards s) \<le> CALL_HISTORY \<and> distinct (map del_call (comp_cards s))
     \<and> (\<forall>d. comp_delegation s = Some d \<longrightarrow> del_delivery d \<noteq> None \<longrightarrow> d \<in> set (comp_cards s))"

lemma reduced_card_call:
  assumes "retained_card_event e"
  shows "del_call (reduced_card g s e t d) = del_call d"
proof (cases "is_current t d")
  case False
  have "delegation_view (s\<lparr>comp_delegation := Some d\<rparr>) e (reduced_card_state g s e d)"
    unfolding reduced_card_state_def by (rule reduce_view)
  with False retained_not_raised [OF assms] show ?thesis
    by (auto simp: reduced_card_def delegation_view_def move_call split: option.splits)
qed (auto simp: reduced_card_def is_current_def)

lemma kept_cards_distinct: "distinct (map del_call (comp_cards s)) \<Longrightarrow> distinct (map del_call (kept_cards s e))"
  by (auto simp: kept_cards_def has_card_def list_ex_iff split: payload.splits option.splits)

lemma reduced_cards_calls: "map del_call (reduced_cards g s e t) = map del_call (kept_cards s e)"
  by (simp add: reduced_cards_def reduced_card_call)

lemma put_card_calls:
  "map del_call (put_card current cs) = map del_call cs
   \<or> (\<exists>d. current = Some d \<and> \<not> has_card (del_call d) cs \<and> map del_call (put_card current cs) = map del_call cs @ [del_call d])"
proof (cases current)
  case (Some d)
  have "map del_call (update_first (\<lambda>c. del_call c = del_call d) (\<lambda>_. d) cs) = map del_call cs"
    by (rule map_update_first) simp
  then show ?thesis by (auto simp: put_card_def Some)
qed (simp add: put_card_def)

lemma has_card_iff: "has_card cid cs \<longleftrightarrow> cid \<in> set (map del_call cs)"
  by (auto simp: has_card_def list_ex_iff)

lemma put_card_distinct: "distinct (map del_call cs) \<Longrightarrow> distinct (map del_call (put_card current cs))"
  using put_card_calls [of current cs] by (auto simp del: set_map simp: has_card_iff)

lemma update_first_mem: "list_ex q xs \<Longrightarrow> d \<in> set (update_first q (\<lambda>_. d) xs)"
  by (induction xs) auto

lemma put_card_mem: "del_delivery d \<noteq> None \<Longrightarrow> length cs \<le> CALL_HISTORY \<Longrightarrow> d \<in> set (last_of CALL_HISTORY (put_card (Some d) cs))"
  using update_first_mem [of "\<lambda>c. del_call c = del_call d" cs d]
  by (auto simp: put_card_def has_card_def last_of_def CALL_HISTORY_def)

lemma raised_delegation:
  assumes "event_payload e = DelegationToolCalled cid item instruction" "comp_delegation (reduceCurrent g s e) = Some d"
  shows "comp_delegation s = Some d \<or> d = raised cid instruction"
  using assms base_delegation [of e s d]
  by (cases rule: reduce_cases [of g s e]) (auto simp: if_valid_def split: if_splits)

lemma kept_cards_other:
  "(\<And>cid item instruction. event_payload e \<noteq> DelegationToolCalled cid item instruction) \<Longrightarrow> kept_cards s e = comp_cards s"
  by (auto simp: kept_cards_def split: payload.splits)

lemma companion_cards:
  assumes ok: "cards_ok s"
  shows "cards_ok (reduceCompanion g s e)"
proof (cases rule: companion_cases [of g s e])
  case carded
  let ?t = "reduceCurrent g s e"
  have "distinct (map del_call (put_card (comp_delegation ?t) (reduced_cards g s e ?t)))"
    using ok kept_cards_distinct [of s e] by (intro put_card_distinct) (simp add: cards_ok_def reduced_cards_calls)
  moreover have "d \<in> set (last_of CALL_HISTORY (put_card (comp_delegation ?t) (reduced_cards g s e ?t)))"
    if d: "comp_delegation ?t = Some d" "del_delivery d \<noteq> None" for d
  proof -
    have "event_payload e \<noteq> DelegationToolCalled cid item instruction" for cid item instruction
      using raised_delegation [OF _ d(1), of cid item instruction] d carded(2) retained_not_raised
      by (auto simp: raised_def)
    then have "length (reduced_cards g s e ?t) \<le> CALL_HISTORY"
      using ok kept_cards_other [of e s] by (simp add: reduced_cards_def cards_ok_def)
    with d show ?thesis using put_card_mem by simp
  qed
  ultimately show ?thesis using carded(1) by (simp add: cards_ok_def length_last_of distinct_last_of)
qed (use ok in \<open>simp_all add: cards_ok_def reduce_cards\<close>)

section \<open>The invariant\<close>

definition companion_ok :: "companion \<Rightarrow> bool" where
  "companion_ok s \<longleftrightarrow> drawn_ok s \<and> cards_ok s
     \<and> (\<forall>d \<in> held s. delegation_ok d \<and> answer_reports d \<subseteq> comp_reports s)"

lemma companion_reports: "comp_reports s \<subseteq> comp_reports (reduceCompanion g s e)"
  using reduce_reports [of s g e] by (cases rule: companion_cases [of g s e]) auto

lemma follows_ok:
  assumes "\<forall>d \<in> held s. delegation_ok d \<and> answer_reports d \<subseteq> comp_reports s" "follows s e t d" "comp_reports s \<subseteq> comp_reports t"
  shows "delegation_ok d \<and> answer_reports d \<subseteq> comp_reports t"
  using assms(2) unfolding follows_def
proof
  assume "\<exists>d0 \<in> held s. delegation_move (comp_reports s) d0 d \<and> answered_in (comp_reports t) d0 d"
  then obtain d0 where d0: "d0 \<in> held s" "delegation_move (comp_reports s) d0 d" "answered_in (comp_reports t) d0 d" by blast
  with assms(1,3) show ?thesis using move_ok [OF d0(2)] unfolding answered_in_def by blast
qed (auto simp: raised_ok answer_reports_def, simp add: raised_def)

lemma companion_step_ok: "companion_ok s \<Longrightarrow> companion_ok (reduceCompanion g s e)"
  using companion_drawn [of s g e] companion_cards [of s g e] follows_ok [OF _ companion_follows companion_reports, of s]
  unfolding companion_ok_def by blast

lemma initial_ok: "companion_ok INITIAL_COMPANION_STATE"
  by (simp add: companion_ok_def drawn_ok_def lines_ok_def calls_ok_def playback_ok_def cards_ok_def held_def INITIAL_COMPANION_STATE_def)

definition companion_after :: "gate_grammar \<Rightarrow> companion_event list \<Rightarrow> companion \<Rightarrow> companion" where
  "companion_after g events s = fold (\<lambda>e s. reduceCompanion g s e) events s"

lemma companion_after_simps [simp]:
  "companion_after g [] s = s" "companion_after g (e # es) s = companion_after g es (reduceCompanion g s e)"
  by (simp_all add: companion_after_def)

section \<open>Progress\<close>

text \<open>An event that was counted: its generation is past, or its id is seen in the current one.\<close>

definition counted_key :: "companion \<Rightarrow> rat \<times> string \<Rightarrow> bool" where
  "counted_key s k \<longleftrightarrow> fst k < comp_generation s \<or> fst k = comp_generation s \<and> snd k \<in> comp_seen s"

definition progressed :: "companion \<Rightarrow> companion \<Rightarrow> bool" where
  "progressed s t \<longleftrightarrow> comp_generation s < comp_generation t
     \<or> comp_generation s = comp_generation t \<and> comp_seen s \<subseteq> comp_seen t"

lemma take_generation [simp]: "comp_generation (take_payload g e b p) = comp_generation b"
  by (cases p) (auto simp: if_valid_def quiet_defs answer_delegation_def Let_def on_delegation_def split: option.splits)

lemma take_seen: "comp_seen (take_payload g e b p) = comp_seen b \<or> comp_seen (take_payload g e b p) = insert (event_id e) (comp_seen b)"
  by (cases p) (auto simp: if_valid_def)

lemma base_progressed: "progressed s (base_of e s)"
  by (simp add: progressed_def base_of_def new_generation_def)

lemma progressed_grow: "progressed s t \<Longrightarrow> comp_generation u = comp_generation t \<Longrightarrow> comp_seen t \<subseteq> comp_seen u \<Longrightarrow> progressed s u"
  by (auto simp: progressed_def)

lemma reduce_progressed: "progressed s (reduceCurrent g s e)"
proof (cases rule: reduce_cases [of g s e])
  case switch
  then show ?thesis
    using progressed_grow [OF base_progressed] take_seen [of g e "base_of e s" "event_payload e"] by (metis insertI2 subsetI take_generation)
qed (auto simp: usage_updated_def context_updated_def playback_level_def base_progressed progressed_grow [OF base_progressed], simp add: progressed_def)

lemma companion_progressed: "progressed s (reduceCompanion g s e)"
  using reduce_progressed [of s g e] by (cases rule: companion_cases [of g s e]) (auto simp: progressed_def)

text \<open>The companion is a machine that keeps its invariant and takes nothing back.\<close>

interpretation voice: monotone_machine "\<lambda>e s. reduceCompanion g s e" companion_ok progressed for g
  by unfold_locales (auto simp: companion_step_ok companion_progressed, auto simp: progressed_def)

lemma after_ok: "companion_ok (companion_after g events INITIAL_COMPANION_STATE)"
  unfolding companion_after_def by (rule voice.run_ok [OF initial_ok])

text \<open>C38. Whatever stream of events reaches the companion, its state stays well-formed: the transcript and
  the tool calls are within their bounds, with one line for each speaker and item; a line says how
  much of it played exactly when it was cut; the mouth moves only while a response plays; at most
  twelve cards are held, one for each call; and every request it holds has a delivery exactly in
  the delivered stages, bound to the proposal, the call and the recipient that were frozen, an
  answered one under a known operation, with each report counted once.\<close>

theorem companion_state_ok: "companion_ok (companion_after g events INITIAL_COMPANION_STATE)"
  by (rule after_ok)

section \<open>Events count once\<close>

text \<open>
  The events the duplicate check covers: not the observations (usage, context, level), which keep
  their own order, nor one whose id the switch refuses.
\<close>

fun counted :: "payload \<Rightarrow> bool" where
  "counted (UsageUpdated u) = False"
| "counted (ContextUpdated c) = False"
| "counted (PlaybackLevel r i v m) = False"
| "counted (TimerFired i) = False"
| "counted (SpeechStarted i) = validId i"
| "counted (TranscriptDelta w i t) = validId i"
| "counted (TranscriptFinal w i t) = validId i"
| "counted (TranscriptSnapshot w i t f) = validId i"
| "counted (PlaybackStarted r i m) = validId i"
| "counted (ToolCalled i n t) = validId i"
| "counted (DelegationToolCalled i j t) = validId i"
| "counted _ = True"

definition counted_event :: "companion_event \<Rightarrow> bool" where
  "counted_event e \<longleftrightarrow> wellFormed e \<and> counted (event_payload e)"

definition event_key :: "companion_event \<Rightarrow> rat \<times> string" where
  "event_key e = (generation_of e, event_id e)"

text \<open>A stream without the events whose generation and id came before.\<close>

fun deliver_once :: "(rat \<times> string) list \<Rightarrow> companion_event list \<Rightarrow> companion_event list" where
  "deliver_once keys [] = []"
| "deliver_once keys (e # es) =
     (if counted_event e \<and> event_key e \<in> set keys then deliver_once keys es
      else e # deliver_once (if counted_event e then event_key e # keys else keys) es)"

lemma counted_key_progressed: "counted_key s k \<Longrightarrow> progressed s t \<Longrightarrow> counted_key t k"
  by (auto simp: counted_key_def progressed_def)

lemma reduceCompanion_same: "reduceCurrent g s e = s \<Longrightarrow> reduceCompanion g s e = s"
  by (simp add: reduceCompanion_def)

lemma counted_again:
  assumes "counted_event e" "counted_key s (event_key e)"
  shows "reduceCompanion g s e = s"
proof (cases "generation_of e < comp_generation s")
  case True
  then show ?thesis by (intro reduceCompanion_same) (simp add: reduceCurrent_def)
next
  case False
  with assms(2) have "generation_of e = comp_generation s" "event_id e \<in> comp_seen s" by (auto simp: counted_key_def event_key_def)
  with assms(1) show ?thesis
    by (intro reduceCompanion_same, cases "event_payload e") (simp_all add: reduceCurrent_def base_of_def counted_event_def)
qed

lemma take_counted: "counted p \<Longrightarrow> comp_seen (take_payload g e b p) = insert (event_id e) (comp_seen b)"
  by (cases p) (simp_all add: if_valid_def)

lemma base_generation: "comp_generation s \<le> generation_of e \<Longrightarrow> comp_generation (base_of e s) = generation_of e"
  by (auto simp: base_of_def new_generation_def)

lemma reduce_counts:
  assumes "counted_event e"
  shows "counted_key (reduceCurrent g s e) (event_key e)"
proof (cases "generation_of e < comp_generation s")
  case False
  then have le: "comp_generation s \<le> generation_of e" by simp
  show ?thesis
  proof (cases "event_id e \<in> comp_seen (base_of e s)")
    case True
    with assms le have "reduceCurrent g s e = base_of e s"
      by (cases "event_payload e") (simp_all add: reduceCurrent_def counted_event_def Let_def)
    with True base_generation [OF le] show ?thesis by (simp add: counted_key_def event_key_def)
  next
    case new: False
    with assms le have "reduceCurrent g s e = take_payload g e (base_of e s) (event_payload e)"
      by (cases "event_payload e") (simp_all add: reduceCurrent_def counted_event_def Let_def)
    with assms base_generation [OF le] show ?thesis
      by (simp add: counted_key_def event_key_def take_counted counted_event_def)
  qed
qed (simp add: reduceCurrent_def counted_key_def event_key_def)

lemma companion_counts: "counted_event e \<Longrightarrow> counted_key (reduceCompanion g s e) (event_key e)"
  using reduce_counts [of e g s] by (cases rule: companion_cases [of g s e]) (auto simp: counted_key_def)

lemma deliver_once_after:
  "\<forall>k \<in> set keys. counted_key s k \<Longrightarrow> companion_after g (deliver_once keys es) s = companion_after g es s"
proof (induction es arbitrary: keys s)
  case (Cons e es)
  have later: "\<forall>k \<in> set keys. counted_key (reduceCompanion g s e) k"
    using Cons.prems counted_key_progressed [OF _ companion_progressed] by blast
  show ?case
  proof (cases "counted_event e \<and> event_key e \<in> set keys")
    case True
    with Cons.prems have "reduceCompanion g s e = s" by (intro counted_again) auto
    with True Cons.IH [OF Cons.prems] show ?thesis by simp
  next
    case False
    then show ?thesis using Cons.IH [of "if counted_event e then event_key e # keys else keys"] later companion_counts [of e g s]
      by auto
  qed
qed simp

text \<open>C39. A counted event may be delivered again at any later point, a reconnect between or not, and
  whatever it carries: the companion ends as if each generation and id of a counted event had come
  only the first time. Counted are the well-formed events the reducer records as seen: not a usage,
  context or level observation, which it applies before its check of duplicates, nor a timer event or
  one whose own id it refuses. A repeated usage observation does change the state
  (lemma usage_repeat_applied).\<close>

theorem companion_counts_once: "companion_after g (deliver_once [] events) s = companion_after g events s"
  by (rule deliver_once_after) simp

section \<open>Delivered work\<close>

definition raises :: "companion_event \<Rightarrow> string \<Rightarrow> bool" where
  "raises e cid = (case event_payload e of DelegationToolCalled i _ _ \<Rightarrow> i = cid | _ \<Rightarrow> False)"

text \<open>A request of a call, delivered under an operation, and what it has become later.\<close>

definition kept_delivery :: "delivery \<Rightarrow> delegation \<Rightarrow> delegation \<Rightarrow> bool" where
  "kept_delivery dl d d' \<longleftrightarrow> del_call d' = del_call d \<and> del_proposal d' = del_proposal d \<and> del_delivery d' = Some dl
     \<and> delivered_stage (del_stage d') \<and> (\<exists>more. del_answers d' = del_answers d @ more)
     \<and> (del_stage d = Answered \<longrightarrow> del_stage d' = Answered)"

lemma kept_delivery_trans: "kept_delivery dl d d' \<Longrightarrow> kept_delivery dl d' d'' \<Longrightarrow> kept_delivery dl d d''"
  by (auto simp: kept_delivery_def)

lemma kept_move:
  assumes "delegation_move known d d'" "delegation_ok d" "answer_reports d \<subseteq> known"
    and "del_delivery d = Some dl" "valid_id_option (delivery_operation dl)"
  shows "kept_delivery dl d d'"
proof -
  have ok': "delegation_ok d'" using assms move_ok by blast
  obtain more where more: "del_answers d' = del_answers d @ more" using move_answers [OF assms(1)] by blast
  have "delivered_stage (del_stage d')" using delegation_okD(4) [OF ok'] move_frozen(1) [OF assms(1,2,4,5)] by simp
  with more show ?thesis
    using move_call [OF assms(1)] move_frozen [OF assms(1,2,4,5)] delegation_okD(7) [OF assms(2)] delegation_okD(7) [OF ok']
    by (auto simp: kept_delivery_def)
qed

lemma kept_step:
  assumes ok: "companion_ok s" and dl: "\<forall>d \<in> held s. del_call d = cid \<longrightarrow> del_delivery d = Some dl"
    and op: "valid_id_option (delivery_operation dl)" and nr: "\<not> raises e cid"
    and d': "d' \<in> held (reduceCompanion g s e)" "del_call d' = cid"
  shows "\<exists>d \<in> held s. kept_delivery dl d d'"
proof -
  have "follows s e (reduceCompanion g s e) d'" by (rule companion_follows [OF d'(1)])
  with nr d'(2) obtain d where d: "d \<in> held s" "delegation_move (comp_reports s) d d'"
    by (auto simp: follows_def raises_def raised_def)
  with d'(2) move_call have "del_delivery d = Some dl" using dl by metis
  moreover have "delegation_ok d" "answer_reports d \<subseteq> comp_reports s" using ok d(1) by (auto simp: companion_ok_def)
  ultimately show ?thesis using kept_move [OF d(2)] op d(1) by blast
qed

lemma kept_run:
  "companion_ok s \<Longrightarrow> \<forall>d \<in> held s. del_call d = cid \<longrightarrow> del_delivery d = Some dl \<Longrightarrow> \<forall>e \<in> set events. \<not> raises e cid \<Longrightarrow>
   valid_id_option (delivery_operation dl) \<Longrightarrow> d' \<in> held (companion_after g events s) \<Longrightarrow> del_call d' = cid \<Longrightarrow>
   \<exists>d \<in> held s. kept_delivery dl d d'"
proof (induction events arbitrary: s)
  case Nil
  then have "delegation_ok d'" "del_delivery d' = Some dl" by (auto simp: companion_ok_def)
  then have "kept_delivery dl d' d'" using delegation_okD(4) [of d'] by (simp add: kept_delivery_def)
  then show ?case using Nil by auto
next
  case (Cons e es)
  let ?s = "reduceCompanion g s e"
  have step: "\<exists>d \<in> held s. kept_delivery dl d d1" if "d1 \<in> held ?s" "del_call d1 = cid" for d1
    using kept_step [OF Cons.prems(1,2,4) _ that] Cons.prems(3) by simp
  have "\<forall>d \<in> held ?s. del_call d = cid \<longrightarrow> del_delivery d = Some dl" using step by (auto simp: kept_delivery_def)
  then obtain d1 where d1: "d1 \<in> held ?s" "kept_delivery dl d1 d'"
    using Cons.IH [of ?s] Cons.prems companion_step_ok [OF Cons.prems(1)] by auto
  then have "del_call d1 = cid" using Cons.prems(6) by (simp add: kept_delivery_def)
  then show ?case using step [OF d1(1)] kept_delivery_trans d1(2) by blast
qed

text \<open>C40. Delivered work is final: once a request was delivered under an operation, no speech,
  interruption, hang-up, reconnect, retarget, settlement or answer changes its delivery or its
  frozen proposal, takes back an answer or un-answers it, for as long as it is held, unless its
  call is raised again.\<close>

theorem companion_delivery_final:
  assumes "s = companion_after g before INITIAL_COMPANION_STATE"
    and "\<forall>d \<in> held s. del_call d = cid \<longrightarrow> del_delivery d = Some dl" "valid_id_option (delivery_operation dl)"
    and "\<forall>e \<in> set events. \<not> raises e cid"
    and "d' \<in> held (companion_after g events s)" "del_call d' = cid"
  shows "\<exists>d \<in> held s. kept_delivery dl d d'"
  using kept_run [OF after_ok [of g before, folded assms(1)] assms(2,4,3,5,6)] .

definition demo_recipient :: recipient where
  "demo_recipient = \<lparr>recipient_project = ''p'', recipient_conversation = ''c'', recipient_seatEpoch = 1, recipient_engine = CodexVoice\<rparr>"

definition demo_proposal :: proposal where
  "demo_proposal = \<lparr>proposal_live = True, proposal_id = ''pr'', proposal_call = ''k'', proposal_source = ''i'',
     proposal_instruction = [104, 105], proposal_recipient = demo_recipient, proposal_confirmation = None\<rparr>"

definition demo_delivery :: delivery where
  "demo_delivery = \<lparr>delivery_proposal = ''pr'', delivery_call = ''k'', delivery_message = ''m'', delivery_operation = Some ''op'',
     delivery_recipient = demo_recipient\<rparr>"

definition demo_event :: "string \<Rightarrow> payload \<Rightarrow> companion_event" where
  "demo_event i p = \<lparr>event_version = 1, event_session = ''s'', event_generation = Some 0, event_id = i, event_seq = Some 0,
     event_atMs = Some 0, event_payload = p\<rparr>"

definition demo_gate :: gate_grammar where
  "demo_gate = \<lparr>retractsRequest = (\<lambda>_. False), explicitRequest = (\<lambda>_. None)\<rparr>"

definition demo_sent :: "companion_event list" where
  "demo_sent = [demo_event ''1'' (DelegationToolCalled ''k'' ''i'' [104, 105]), demo_event ''2'' (DelegationSending demo_proposal),
     demo_event ''3'' (DelegationToolResult ''k'' (Sent SentQueued demo_delivery))]"

definition demo_answer :: "companion_event list" where
  "demo_answer = [demo_event ''4'' (SessionClosed ClosedByOperator None),
     demo_event ''5'' (OrchestratorAnswer demo_delivery ''r'' ReportResult [111, 107])]"

lemma demo_event_fields [simp]:
  "wellFormed (demo_event i p) = validId i" "generation_of (demo_event i p) = 0" "order_of (demo_event i p) = 0"
  "event_id (demo_event i p) = i" "event_payload (demo_event i p) = p" "comp_generation s = 0 \<Longrightarrow> base_of (demo_event i p) s = s"
  by (simp_all add: demo_event_def wellFormed_def whole_def validId_def ID_LIMIT_def generation_of_def order_of_def base_of_def)

lemmas demo_simps = reduceCompanion_def reduceCurrent_def kept_cards_def has_card_def retained_card_event_def
  reduced_cards_def reduced_reports_def reduced_card_def is_current_def reduced_card_state_def put_card_def last_of_def CALL_HISTORY_def
  taken_def on_delegation_def if_valid_def raised_def start_sending_def boundedAsk_def VOICE_ASK_ENVELOPE_CHARS_def tool_outcome_def
  accepts_delivery_def validId_def ID_LIMIT_def valid_id_option_def session_closed_def withdraw_def cut_playing_def closed_error_def
  answer_delegation_def accepts_answer_def answers_to_def sameBinding_def sameRecipient_def add_answer_def answer_of_def bounded_def
  TEXT_LIMIT_def INITIAL_COMPANION_STATE_def demo_proposal_def demo_delivery_def demo_recipient_def

definition demo_delegation :: delegation where
  "demo_delegation = \<lparr>del_notice = Some ReplyPending, del_call = ''k'', del_instruction = [104, 105], del_stage = Queued,
     del_proposal = Some demo_proposal, del_sourceText = None, del_delivery = Some demo_delivery, del_refusal = None,
     del_answer = None, del_answers = []\<rparr>"

lemma demo_sent_state:
  "companion_after demo_gate demo_sent INITIAL_COMPANION_STATE =
     INITIAL_COMPANION_STATE\<lparr>comp_revision := 3, comp_delegation := Some demo_delegation, comp_cards := [demo_delegation],
       comp_seen := {''1'', ''2'', ''3''}\<rparr>"
  by (simp add: demo_sent_def demo_simps demo_delegation_def insert_commute)

definition demo_answered :: delegation where
  "demo_answered = add_answer \<lparr>answer_report = ''r'', answer_status = ReportResult, answer_text = [111, 107], answer_order = 0\<rparr> demo_delegation"

lemma demo_answered_state:
  "comp_delegation (companion_after demo_gate demo_answer (companion_after demo_gate demo_sent INITIAL_COMPANION_STATE)) = Some demo_answered"
  unfolding demo_sent_state by (simp add: demo_answer_def demo_answered_def demo_simps demo_delegation_def)

theorem companion_delivery_final_witness:
  "demo_answered \<in> held (companion_after demo_gate demo_answer (companion_after demo_gate demo_sent INITIAL_COMPANION_STATE))
   \<and> (\<exists>d \<in> held (companion_after demo_gate demo_sent INITIAL_COMPANION_STATE). kept_delivery demo_delivery d demo_answered)"
proof
  show in_held: "demo_answered \<in> held (companion_after demo_gate demo_answer (companion_after demo_gate demo_sent INITIAL_COMPANION_STATE))"
    by (simp add: held_def demo_answered_state)
  have sent: "\<forall>d \<in> held (companion_after demo_gate demo_sent INITIAL_COMPANION_STATE). del_call d = ''k'' \<longrightarrow> del_delivery d = Some demo_delivery"
    unfolding demo_sent_state by (simp add: held_def demo_delegation_def INITIAL_COMPANION_STATE_def)
  have "valid_id_option (delivery_operation demo_delivery)" "\<forall>e \<in> set demo_answer. \<not> raises e ''k''" "del_call demo_answered = ''k''"
    by (simp_all add: demo_delivery_def valid_id_option_def validId_def ID_LIMIT_def demo_answer_def raises_def demo_answered_def
        add_answer_def demo_delegation_def)
  from companion_delivery_final [OF refl sent this(1,2) in_held this(3)]
  show "\<exists>d \<in> held (companion_after demo_gate demo_sent INITIAL_COMPANION_STATE). kept_delivery demo_delivery d demo_answered" .
qed

section \<open>Observations are applied again\<close>

text \<open>A usage observation delivered again, with the generation and id it had, is taken again: the older usage comes back.\<close>

lemma usage_repeat_applied:
  fixes u v :: json
  defines "first \<equiv> demo_event ''1'' (UsageUpdated u)" and "second \<equiv> demo_event ''2'' (UsageUpdated v)"
  assumes "u \<noteq> v"
  shows "comp_usage (companion_after demo_gate [first, second] INITIAL_COMPANION_STATE) = Some v"
    "comp_usage (companion_after demo_gate [first, second, first] INITIAL_COMPANION_STATE) = Some u"
  using assms(3) by (simp_all add: first_def second_def usage_updated_def demo_simps)

section \<open>Speech interrupts the voice\<close>

text \<open>A line after the operator began to speak: cut at what had played if it was playing, else as it was.\<close>

definition interrupted_line :: "companion \<Rightarrow> speech_line \<Rightarrow> speech_line \<Rightarrow> bool" where
  "interrupted_line s l l' \<longleftrightarrow> line_key l' = line_key l \<and> line_text l' = line_text l \<and> line_final l' = line_final l
     \<and> (if map_option snd (comp_playing s) = Some (line_item l) \<and> line_speaker l = Companion \<and> line_playback l \<noteq> Played
        then line_playback l' = CutPlayback \<and> line_playedMs l' = Some (comp_playedMs s)
        else line_playback l' = line_playback l \<and> line_playedMs l' = line_playedMs l)"

lemma upsertLine_lines:
  assumes "l' \<in> set (upsertLine ls who item r change fresh)" "distinct (map line_key ls)"
  shows "(\<exists>l \<in> set ls. l' = (if line_key l = (who, item) then (change l)\<lparr>line_revision := r\<rparr> else l))
    \<or> (\<exists>start. fresh = Some start \<and> l' = (change (new_line who item start r))\<lparr>line_revision := r\<rparr>)"
proof (cases "list_ex (line_is who item) ls")
  case True
  let ?f = "\<lambda>l. if line_key l = (who, item) then (change l)\<lparr>line_revision := r\<rparr> else l"
  have "set (update_first (line_is who item) (\<lambda>l. (change l)\<lparr>line_revision := r\<rparr>) ls) \<subseteq> ?f ` set ls"
    using assms(2) by (induction ls) (auto simp: line_is_key rev_image_eqI)
  moreover have "l' \<in> set (update_first (line_is who item) (\<lambda>l. (change l)\<lparr>line_revision := r\<rparr>) ls)"
    using True assms(1) by (simp add: upsertLine_def)
  ultimately have "l' \<in> ?f ` set ls" by (rule subsetD)
  then show ?thesis by (rule imageE) blast
next
  case False
  then have nk: "l \<in> set ls \<Longrightarrow> line_key l \<noteq> (who, item)" for l by (auto simp: list_ex_iff line_is_key)
  show ?thesis
  proof (cases fresh)
    case None
    with False assms(1) have "l' \<in> set ls" by (simp add: upsertLine_def)
    with nk show ?thesis by auto
  next
    case (Some start)
    with False assms(1) set_last_of
    have "l' \<in> set (ls @ [(change (new_line who item start r))\<lparr>line_revision := r\<rparr>])" by (fastforce simp: upsertLine_def)
    with nk Some show ?thesis by auto
  qed
qed

lemma ms_of_int: "0 \<le> m \<Longrightarrow> ms (Some (of_int m)) = m"
  by (simp add: ms_def) linarith

lemma cut_playing_lines:
  assumes "l' \<in> set (cut_playing s)" "lines_ok (comp_lines s)" "0 \<le> comp_playedMs s"
  shows "\<exists>l \<in> set (comp_lines s). interrupted_line s l l'"
proof (cases "comp_playing s")
  case None
  with assms show ?thesis by (auto simp: cut_playing_def interrupted_line_def)
next
  case (Some p)
  obtain response item where p: "p = (response, item)" by force
  let ?r = "Suc (comp_revision s)" and ?n = "Some (of_int (comp_playedMs s))"
  from assms(1) have "l' \<in> set (upsertLine (comp_lines s) Companion item ?r (cut_change ?n) None)"
    by (simp add: cut_playing_def cut_def Some p)
  with assms(2) obtain l where l: "l \<in> set (comp_lines s)"
      "l' = (if line_key l = (Companion, item) then (cut_change ?n l)\<lparr>line_revision := ?r\<rparr> else l)"
    using upsertLine_lines by (fastforce simp: lines_ok_def)
  then have "interrupted_line s l l'"
    using ms_of_int [OF assms(3)] by (auto simp: interrupted_line_def Some p cut_change_def line_key_def)
  with l(1) show ?thesis by blast
qed

lemma speech_started_lines:
  assumes "l' \<in> set (comp_lines (speech_started g item s))" "lines_ok (comp_lines s)" "0 \<le> comp_playedMs s"
  shows "line_key l' = (Operator, item) \<or> (\<exists>l \<in> set (comp_lines s). interrupted_line s l l')"
proof -
  from assms(1) have "l' \<in> set (upsertLine (cut_playing s) Operator item (Suc (comp_revision s)) (\<lambda>l. l) (Some PendingPlayback))"
    by (simp add: speech_started_def Let_def)
  from upsertLine_lines [OF this] cut_playing_ok [OF assms(2)]
  consider l where "l \<in> set (cut_playing s)" "l' = (if line_key l = (Operator, item) then l\<lparr>line_revision := Suc (comp_revision s)\<rparr> else l)"
    | "l' = new_line Operator item PendingPlayback (Suc (comp_revision s))\<lparr>line_revision := Suc (comp_revision s)\<rparr>"
    by (auto simp: lines_ok_def)
  then show ?thesis
  proof cases
    case 1
    then show ?thesis using cut_playing_lines [OF 1(1) assms(2,3)] by (cases "line_key l = (Operator, item)") auto
  qed simp
qed

lemma speech_started_event:
  assumes ok: "companion_ok s" and e: "wellFormed e" "generation_of e = comp_generation s" "event_id e \<notin> comp_seen s"
    and p: "event_payload e = SpeechStarted item" "validId item"
  shows "reduceCurrent g s e = taken e (speech_started g item) s" "comp_cards (reduceCompanion g s e) = comp_cards s"
    "comp_delegation (reduceCompanion g s e) = comp_delegation (speech_started g item s)"
proof -
  show red: "reduceCurrent g s e = taken e (speech_started g item) s"
    using e p by (simp add: reduceCurrent_def base_of_def if_valid_def)
  let ?t = "reduceCurrent g s e"
  have "comp_cards (reduceCompanion g s e) = comp_cards s \<and> comp_delegation (reduceCompanion g s e) = comp_delegation ?t"
  proof (cases rule: companion_cases [of g s e])
    case carded
    have nr: "\<not> retained_card_event e" "kept_cards s e = comp_cards s" using p by (simp_all add: retained_card_event_def kept_cards_def)
    with carded obtain d where d: "comp_delegation s = Some d" "comp_delegation ?t = Some (standing g (comp_lines (speech_started g item s)) d)"
        "standing g (comp_lines (speech_started g item s)) d \<noteq> d"
      by (cases "comp_delegation s") (auto simp: red speech_started_def Let_def)
    have dok: "delegation_ok d" using ok d(1) by (simp add: companion_ok_def held_def)
    from d(3) standing_cases obtain r where "del_stage d = AwaitingConfirmation"
        "standing g (comp_lines (speech_started g item s)) d = d\<lparr>del_stage := Cancelled, del_refusal := r\<rparr>" by metis
    then have "del_delivery (standing g (comp_lines (speech_started g item s)) d) = None" using delegation_okD(4) [OF dok] by auto
    then have "put_card (comp_delegation ?t) (reduced_cards g s e ?t) = comp_cards s"
      using nr d(2) by (simp add: put_card_def reduced_cards_def)
    then show ?thesis using carded(1) ok by (simp add: companion_ok_def cards_ok_def last_of_short)
  qed (simp_all add: reduce_cards)
  then show "comp_cards (reduceCompanion g s e) = comp_cards s"
    "comp_delegation (reduceCompanion g s e) = comp_delegation (speech_started g item s)" by (simp_all add: red)
qed

text \<open>Input speech interrupts the voice and nothing else: the mouth stops, the line that was playing
  keeps its generated text and is cut at what had played, every other line but the operator's own
  is as it was, the tool calls and the cards of delivered work do not change, and of the current
  request only one that waits for a confirmation may be withdrawn.\<close>

theorem companion_barge_in:
  assumes "s = companion_after g before INITIAL_COMPANION_STATE"
    and "wellFormed e" "generation_of e = comp_generation s" "event_id e \<notin> comp_seen s"
    and "event_payload e = SpeechStarted item" "validId item"
  shows "let t = reduceCompanion g s e in
      comp_phase t = Listening \<and> comp_playing t = None \<and> comp_mouth t = 0
      \<and> comp_calls t = comp_calls s \<and> comp_cards t = comp_cards s
      \<and> (\<forall>l' \<in> set (comp_lines t). line_key l' = (Operator, item) \<or> (\<exists>l \<in> set (comp_lines s). interrupted_line s l l'))
      \<and> (\<forall>d. comp_delegation s = Some d \<longrightarrow> comp_delegation t = Some d
           \<or> del_stage d = AwaitingConfirmation
             \<and> (\<exists>r. comp_delegation t = Some (d\<lparr>del_stage := Cancelled, del_refusal := r\<rparr>)))"
proof -
  have ok: "companion_ok s" using after_ok assms(1) by simp
  note ev = speech_started_event [OF ok assms(2-6)]
  have same: "comp_phase (reduceCompanion g s e) = comp_phase (reduceCurrent g s e)"
    "comp_playing (reduceCompanion g s e) = comp_playing (reduceCurrent g s e)" "comp_mouth (reduceCompanion g s e) = comp_mouth (reduceCurrent g s e)"
    "comp_calls (reduceCompanion g s e) = comp_calls (reduceCurrent g s e)" "comp_lines (reduceCompanion g s e) = comp_lines (reduceCurrent g s e)"
    by (cases rule: companion_cases [of g s e]; simp)+
  have lines: "\<forall>l' \<in> set (comp_lines (speech_started g item s)). line_key l' = (Operator, item) \<or> (\<exists>l \<in> set (comp_lines s). interrupted_line s l l')"
    using speech_started_lines ok by (auto simp: companion_ok_def drawn_ok_def playback_ok_def)
  have "\<forall>d. comp_delegation s = Some d \<longrightarrow> comp_delegation (speech_started g item s) = Some d
      \<or> del_stage d = AwaitingConfirmation \<and> (\<exists>r. comp_delegation (speech_started g item s) = Some (d\<lparr>del_stage := Cancelled, del_refusal := r\<rparr>))"
    using standing_cases by (auto simp: speech_started_def Let_def)
  with lines show ?thesis
    unfolding Let_def same ev(2,3) unfolding ev(1) by (simp add: speech_started_def Let_def)
qed

text \<open>
  Two limits of these promises. A waiting live proposal is never withdrawn by speech: the veto the
  reducer asks for reads only the instruction, which was admitted already. And a settlement of a
  request still being sent may deliver it without an operation, which no answer can join.
\<close>

lemma live_waiting_stands:
  "del_proposal d = Some p \<Longrightarrow> proposal_live p \<Longrightarrow> proposal_refusal g ls p = None \<Longrightarrow> standing g' ls' d = d"
  by (simp add: standing_def proposal_refusal_def)

lemma settled_without_operation:
  "del_delivery (settle (demo_delivery\<lparr>delivery_operation := None\<rparr>) SettledDelivered None
     (demo_delegation\<lparr>del_stage := Sending, del_delivery := None\<rparr>)) = Some (demo_delivery\<lparr>delivery_operation := None\<rparr>)"
  by (simp add: settle_def sending_refusal_def demo_delegation_def demo_delivery_def demo_proposal_def validId_def ID_LIMIT_def)

definition demo_playing :: "companion_event list" where
  "demo_playing = [demo_event ''1'' (TranscriptFinal Companion ''a'' [104, 105]), demo_event ''2'' (PlaybackStarted ''r'' ''a'' (Some (Some 7)))]"

definition demo_line :: speech_line where
  "demo_line = \<lparr>line_speaker = Companion, line_item = ''a'', line_text = [104, 105], line_final = True, line_playback = Playing,
     line_playedMs = None, line_revision = 2\<rparr>"

lemma demo_floor: "\<lfloor>15 / 2 :: rat\<rfloor> = 7"
  by (rule floor_unique) simp_all

lemma demo_playing_state:
  "companion_after demo_gate demo_playing INITIAL_COMPANION_STATE =
     INITIAL_COMPANION_STATE\<lparr>comp_phase := Speaking, comp_playedMs := 7, comp_revision := 2, comp_lines := [demo_line],
       comp_playing := Some (''r'', ''a''), comp_seen := {''1'', ''2''}\<rparr>"
  by (simp add: demo_playing_def demo_simps transcript_whole_def write_line_def Let_def playback_started_def upsertLine_def line_is_def
      new_line_def LINE_HISTORY_def freshLine_def ms_def demo_line_def demo_floor insert_commute)

theorem companion_barge_in_witness:
  "comp_mouth (reduceCompanion demo_gate (companion_after demo_gate demo_playing INITIAL_COMPANION_STATE) (demo_event ''3'' (SpeechStarted ''b''))) = 0
   \<and> comp_playing (companion_after demo_gate demo_playing INITIAL_COMPANION_STATE) = Some (''r'', ''a'')"
proof
  have "wellFormed (demo_event ''3'' (SpeechStarted ''b''))" "validId ''b''" by (simp_all add: validId_def ID_LIMIT_def)
  then show "comp_mouth (reduceCompanion demo_gate (companion_after demo_gate demo_playing INITIAL_COMPANION_STATE) (demo_event ''3'' (SpeechStarted ''b''))) = 0"
    using companion_barge_in [OF refl, of "demo_event ''3'' (SpeechStarted ''b'')" demo_gate demo_playing "''b''"]
    unfolding demo_playing_state Let_def by (simp add: INITIAL_COMPANION_STATE_def)
qed (simp add: demo_playing_state)

end
