(* ===== verification/Linked_Convergence.thy ===== *)
theory Linked_Convergence
  imports Linked_Apply_Properties
begin

text \<open>
  Two installs exchange the rows of a task they both hold: what either reads afterwards, over
  \<open>mergeRow\<close> and the wire form of \<open>src/lib/links/taskWire.ts\<close>.
\<close>

section \<open>What a group looks like to the other side\<close>

text \<open>A group as the wire carries it, without the copy of a review, and its stamp.\<close>

definition shown_group :: "(string \<Rightarrow> int option) \<Rightarrow> board_task \<Rightarrow> sync_write \<Rightarrow> sync_group \<Rightarrow> json \<times> string" where
  "shown_group parse task w g =
     (wireGroup (encode_row parse task (self_id w) (self_prefix w) False) g, effectiveStamp parse task g (self_prefix w))"

definition sent_row :: "(string \<Rightarrow> int option) \<Rightarrow> board_task \<Rightarrow> sync_write \<Rightarrow> bool \<Rightarrow> wire_task" where
  "sent_row parse task w review = encode_row parse task (self_id w) (self_prefix w) review"

text \<open>The task a side holds after a row came in: the merged one, or its own when there is nothing to write.\<close>

definition after_row ::
  "(string \<Rightarrow> int option) \<Rightarrow> (wire_task \<Rightarrow> wire_task option) \<Rightarrow> board_task \<Rightarrow> wire_task \<Rightarrow> apply_link \<Rightarrow> sync_write
     \<Rightarrow> board_task list \<Rightarrow> board_task" where
  "after_row parse admit local row link w tasks =
     (case fst (mergeRow parse admit (Some local) row link w tasks) of Some merged \<Rightarrow> merged | None \<Rightarrow> local)"

lemma sent_stamp [simp]: "wire_s (sent_row parse task w review) g = effectiveStamp parse task g (self_prefix w)"
  by (simp add: sent_row_def encode_row_def)

lemma sent_fields [simp]:
  "wire_text (sent_row parse task w review) = task_text task"
  "wire_machine (sent_row parse task w review) = owner_of task w"
  "wire_handover (sent_row parse task w review) = task_handover task"
  by (simp_all add: sent_row_def encode_row_def owner_of_def split: option.split)

lemma same_group_shown: "same_group t u g \<Longrightarrow> fst (shown_group parse t w g) = fst (shown_group parse u w g)"
  by (cases g) (simp_all add: shown_group_def encode_row_def)

lemma some_links_again [simp]: "some_links (some_links links) = some_links links"
  by (cases links rule: some_links.cases) simp_all

lemma or_empty_again [simp]: "or_empty_text (or_empty_text t) = or_empty_text t"
  by (simp add: or_empty_text_def)

text \<open>A group that was taken looks to this side as it did to the sender.\<close>

lemma assign_shown:
  "fst (shown_group parse (assignGroup local (sent_row parse peer v review) g) w g) = fst (shown_group parse peer v g)"
  by (cases g) (simp_all add: shown_group_def sent_row_def encode_row_def Let_def)

section \<open>A group after a row\<close>

lemma merge_held_quiet:
  assumes "fst (merge_held parse admit local row link w tasks) = None"
  shows "left_alone parse local row link w g"
proof -
  have starts: "\<forall>g \<in> set TASK_SYNC_GROUPS. same_group (merge_task (merge_start local row link w)) local g" by simp
  from merge_groups [OF groups_distinct starts, of parse row link tasks, simplified] assms all_groups [of g]
  show ?thesis by (simp add: merge_held_def Let_def split: if_split_asm)
qed

lemma after_row_group:
  fixes link :: apply_link and admit :: "wire_task \<Rightarrow> wire_task option"
  assumes "\<not> (g = StatusGroup \<and> reopen_conflict local row tasks)"
    and "\<not> restores_title local row (effectiveStamp parse local g (self_prefix w)) g"
  defines "t \<equiv> after_row parse admit local row link w tasks"
  shows "if str_less (effectiveStamp parse local g (self_prefix w)) (wire_s row g) \<and> \<not> guarded local row link w g
    then same_group t (assignGroup local row g) g \<and> effectiveStamp parse t g (self_prefix w) = wire_s row g
    else same_group t local g \<and> effectiveStamp parse t g (self_prefix w) = effectiveStamp parse local g (self_prefix w)"
proof -
  let ?held = "effectiveStamp parse local g (self_prefix w)"
  have left: "left_alone parse local row link w g \<longleftrightarrow> \<not> (str_less ?held (wire_s row g) \<and> \<not> guarded local row link w g)"
    using assms(2) str_le_total [of "wire_s row g" ?held] by (auto simp: left_alone_def Let_def str_less_def)
  show ?thesis
  proof (cases "merge_held parse admit local row link w tasks")
    case (Pair r w')
    show ?thesis
    proof (cases r)
      case None
      then have "\<forall>h. left_alone parse local row link w h" using Pair merge_held_quiet [of parse admit local row link w tasks] by simp
      then show ?thesis using None Pair left by (auto simp: t_def after_row_def mergeRow_def)
    next
      case (Some merged)
      then have "t = merged" using Pair by (simp add: t_def after_row_def mergeRow_def)
      moreover from merge_held_result(1) [OF Pair [unfolded Some], of g] left assms(1,2)
      have "if left_alone parse local row link w g then same_group merged local g \<and> effectiveStamp parse merged g (self_prefix w) = ?held
        else effectiveStamp parse merged g (self_prefix w) = wire_s row g \<and> same_group merged (assignGroup local row g) g"
        by (auto simp: merged_group_def Let_def split: if_split_asm)
      ultimately show ?thesis using left by (auto split: if_split_asm)
    qed
  qed
qed

section \<open>The exchange\<close>

text \<open>
  Both sides hold a task and send it; each merges the row of the other. A group converges unless a
  guard stands in the way: the side that is behind must see the other as the owner of a machine,
  and must be the one an offer is made to, and the reopening of a finding must not be overruled.
\<close>

definition takes_group :: "board_task \<Rightarrow> wire_task \<Rightarrow> apply_link \<Rightarrow> sync_write \<Rightarrow> board_task list \<Rightarrow> sync_group \<Rightarrow> bool" where
  "takes_group local row link w tasks g \<longleftrightarrow>
     \<not> guarded local row link w g \<and> \<not> (g = StatusGroup \<and> reopen_conflict local row tasks)"

lemma not_restored:
  assumes "effectiveStamp parse peer g (self_prefix v) = effectiveStamp parse local g (self_prefix w) \<longrightarrow>
    fst (shown_group parse peer v g) = fst (shown_group parse local w g)"
  shows "\<not> restores_title local (sent_row parse peer v review) (effectiveStamp parse local g (self_prefix w)) g"
  using assms by (auto simp: restores_title_def shown_group_def encode_row_def)

lemma after_sent:
  fixes peer :: board_task and v :: sync_write
  assumes named: "effectiveStamp parse peer g (self_prefix v) = effectiveStamp parse local g (self_prefix w) \<longrightarrow>
      fst (shown_group parse peer v g) = fst (shown_group parse local w g)"
    and free: "takes_group local (sent_row parse peer v review) link w tasks g"
  shows "shown_group parse (after_row parse admit local (sent_row parse peer v review) link w tasks) w g
    = (if str_less (snd (shown_group parse local w g)) (snd (shown_group parse peer v g)) then shown_group parse peer v g else shown_group parse local w g)"
proof -
  let ?t = "after_row parse admit local (sent_row parse peer v review) link w tasks"
  let ?ahead = "str_less (effectiveStamp parse local g (self_prefix w)) (effectiveStamp parse peer g (self_prefix v))"
  from free have conflict: "\<not> (g = StatusGroup \<and> reopen_conflict local (sent_row parse peer v review) tasks)"
    and unguarded: "\<not> guarded local (sent_row parse peer v review) link w g" by (auto simp: takes_group_def)
  note res = after_row_group [OF conflict not_restored [OF named], where link = link and admit = admit]
  show ?thesis
  proof (cases ?ahead)
    case True
    with res unguarded have "same_group ?t (assignGroup local (sent_row parse peer v review) g) g"
      "effectiveStamp parse ?t g (self_prefix w) = effectiveStamp parse peer g (self_prefix v)" by simp_all
    with True same_group_shown assign_shown show ?thesis by (auto simp: shown_group_def)
  next
    case False
    with res have "same_group ?t local g"
      "effectiveStamp parse ?t g (self_prefix w) = effectiveStamp parse local g (self_prefix w)" by simp_all
    with False same_group_shown show ?thesis by (auto simp: shown_group_def)
  qed
qed

lemma newer_either:
  assumes "snd a = snd b \<Longrightarrow> a = b"
  shows "(if str_less (snd a) (snd b) then b else a) = (if str_less (snd b) (snd a) then a else b)"
  using assms str_less_trans [of "snd a" "snd b" "snd a"] str_le_total [of "snd a" "snd b"]
  by (auto simp: str_less_def dest: str_le_antisym)

text \<open>C20. Linked installs converge: after two installs that hold the same task exchange its rows, both
  show the same content and the same stamp in every group no guard keeps, and both are what the side
  with the larger stamp had; a stamp must name one content.\<close>

theorem linked_installs_converge:
  assumes "takes_group mine (sent_row parse theirs v review) link w tasks g"
    and "takes_group theirs (sent_row parse mine w review') link' v tasks' g"
    and named: "snd (shown_group parse mine w g) = snd (shown_group parse theirs v g) \<Longrightarrow>
      shown_group parse mine w g = shown_group parse theirs v g"
  shows "shown_group parse (after_row parse admit mine (sent_row parse theirs v review) link w tasks) w g
      = shown_group parse (after_row parse admit' theirs (sent_row parse mine w review') link' v tasks') v g
    \<and> shown_group parse (after_row parse admit mine (sent_row parse theirs v review) link w tasks) w g
      = (if str_less (snd (shown_group parse mine w g)) (snd (shown_group parse theirs v g)) then shown_group parse theirs v g else shown_group parse mine w g)"
proof -
  have here: "effectiveStamp parse theirs g (self_prefix v) = effectiveStamp parse mine g (self_prefix w) \<longrightarrow>
      fst (shown_group parse theirs v g) = fst (shown_group parse mine w g)"
    and there: "effectiveStamp parse mine g (self_prefix w) = effectiveStamp parse theirs g (self_prefix v) \<longrightarrow>
      fst (shown_group parse mine w g) = fst (shown_group parse theirs v g)"
    using named by (auto simp: shown_group_def)
  note a = after_sent [OF here assms(1), where admit = admit] and b = after_sent [OF there assms(2), where admit = admit']
  show ?thesis unfolding a b using newer_either [OF named] by simp
qed

section \<open>Witness\<close>

definition demo_peer_write :: sync_write where
  "demo_peer_write = demo_linked_write\<lparr>self_id := ''n'', self_prefix := ''00000000''\<rparr>"

definition demo_back_link :: apply_link where
  "demo_back_link = \<lparr>link_install = ''m'', link_prefix = ''0a1b2c3d'', link_projects = {''p''}\<rparr>"

definition demo_theirs :: board_task where "demo_theirs = demo_linked_task ''a'' ''peer words'' demo_newer"

theorem linked_installs_converge_witness:
  "shown_group demo_no_parse (after_row demo_no_parse Some demo_local
       (sent_row demo_no_parse demo_theirs demo_peer_write True) demo_link demo_linked_write []) demo_linked_write TextGroup
   = shown_group demo_no_parse (after_row demo_no_parse Some demo_theirs
       (sent_row demo_no_parse demo_local demo_linked_write False) demo_back_link demo_peer_write []) demo_peer_write TextGroup
   \<and> snd (shown_group demo_no_parse (after_row demo_no_parse Some demo_local
       (sent_row demo_no_parse demo_theirs demo_peer_write True) demo_link demo_linked_write []) demo_linked_write TextGroup) = demo_newer"
proof -
  have stamps: "snd (shown_group demo_no_parse demo_local demo_linked_write TextGroup) = demo_stamp"
    "snd (shown_group demo_no_parse demo_theirs demo_peer_write TextGroup) = demo_newer"
    by (simp_all add: shown_group_def effectiveStamp_def demo_local_def demo_theirs_def demo_linked_task_facts)
  have newer: "str_less demo_stamp demo_newer" by code_simp
  have "takes_group demo_local (sent_row demo_no_parse demo_theirs demo_peer_write True) demo_link demo_linked_write [] TextGroup"
    "takes_group demo_theirs (sent_row demo_no_parse demo_local demo_linked_write False) demo_back_link demo_peer_write [] TextGroup"
    by (simp_all add: takes_group_def guarded_def)
  note both = linked_installs_converge [OF this, where admit = Some and admit' = Some]
  have "snd (shown_group demo_no_parse demo_local demo_linked_write TextGroup)
    \<noteq> snd (shown_group demo_no_parse demo_theirs demo_peer_write TextGroup)" using stamps newer by auto
  with both stamps newer show ?thesis by (metis (no_types, lifting))
qed

end
