(* ===== verification/Live_Turn.thy ===== *)
theory Live_Turn
  imports Live_Text
begin

text \<open>
  The live turn of a conversation, \<open>src/lib/runtime/liveTurn.ts\<close>: the prose and the tool calls
  of the running turn, projected from the events of a structured host into a bounded window until
  the transcript has them. An event is a \<open>js_value\<close>, a snapshot has its declared type. The
  parameters are \<open>num\<close>, how the language writes a number, and \<open>parse\<close>, \<open>Date.parse\<close>.
\<close>

section \<open>The window\<close>

definition LIVE_TURN_TEXT_LIMIT :: nat where "LIVE_TURN_TEXT_LIMIT = 65536"
definition LIVE_TURN_ITEM_LIMIT :: nat where "LIVE_TURN_ITEM_LIMIT = 32"
definition LIVE_TURN_OVERFLOW_LIMIT :: nat where "LIVE_TURN_OVERFLOW_LIMIT = 512"
definition LIVE_TURN_TOOL_ARGS_LIMIT :: nat where "LIVE_TURN_TOOL_ARGS_LIMIT = 32768"
definition LIVE_TURN_TOOL_ARGS_ITEM_LIMIT :: nat where "LIVE_TURN_TOOL_ARGS_ITEM_LIMIT = 2048"
definition TOOL_ARG_STRING_LIMIT :: nat where "TOOL_ARG_STRING_LIMIT = 256"
definition TOOL_ARG_KEY_LIMIT :: nat where "TOOL_ARG_KEY_LIMIT = 12"
definition TOOL_NAME_LIMIT :: nat where "TOOL_NAME_LIMIT = 128"

datatype live_phase = StreamingRow | AwaitingEcho
datatype tool_status = ToolRun | ToolOk | ToolErr | ToolUnknown
datatype tool_engine = ClaudeEngine | CodexEngine

type_synonym js_fields = "(utext \<times> js_value) list"

record live_tool =
  tool_name :: utext
  tool_engine :: tool_engine
  tool_status :: tool_status
  tool_args :: js_fields
  tool_argsOmitted :: bool

record live_item =
  item_id :: "utext option"
  item_text :: utext
  item_phase :: live_phase
  item_startedAt :: "utext option"
  item_completedAt :: "utext option"
  item_omittedChars :: "nat option"
  item_omittedItems :: "nat option"
  item_tool :: "live_tool option"

record live_turn =
  live_turnId :: utext
  live_text :: utext
  live_items :: "live_item list option"
  live_overflow :: "live_item list option"

section \<open>Reading an event\<close>

fun record_of :: "js_value option \<Rightarrow> js_fields option" where
  "record_of (Some (VObj es)) = Some es"
| "record_of _ = None"

fun text_of :: "js_value option \<Rightarrow> utext" where
  "text_of (Some (VText t)) = t"
| "text_of _ = []"

definition field_at :: "js_fields option \<Rightarrow> string \<Rightarrow> js_value option" where
  "field_at r key = (case r of None \<Rightarrow> None | Some es \<Rightarrow> js_get es (units key))"

definition or_text :: "utext \<Rightarrow> utext \<Rightarrow> utext" where
  "or_text a b = (if a \<noteq> [] then a else b)"

definition text_option :: "utext \<Rightarrow> utext option" where
  "text_option t = (if t = [] then None else Some t)"

definition part_text :: "js_value \<Rightarrow> utext" where
  "part_text part =
     (case record_of (Some part) of
        None \<Rightarrow> []
      | Some es \<Rightarrow>
          if text_of (js_get es (units ''type'')) \<in> {units ''text'', units ''input_text'', units ''output_text''}
          then text_of (js_get es (units ''text'')) else [])"

fun contentText :: "js_value option \<Rightarrow> utext" where
  "contentText (Some (VText t)) = t"
| "contentText (Some (VArr parts)) = join_lines (filter (\<lambda>t. t \<noteq> []) (map part_text parts))"
| "contentText _ = []"

definition itemIdentity :: "js_value \<Rightarrow> (utext option \<times> utext) option" where
  "itemIdentity value =
     (case record_of (Some value) of
        None \<Rightarrow> None
      | Some item \<Rightarrow>
          (let type = text_of (js_get item (units ''type''));
               message = record_of (js_get item (units ''message''));
               role = or_text (text_of (js_get item (units ''role''))) (text_of (field_at message ''role'')) in
           if type \<in> {units ''agentMessage'', units ''agent_message'', units ''assistant''}
             \<or> type = units ''message'' \<and> role = units ''assistant''
           then Some
             (text_option (or_text (text_of (js_get item (units ''id'')))
                (or_text (text_of (js_get item (units ''uuid''))) (text_of (field_at message ''id'')))),
              or_text (text_of (js_get item (units ''text'')))
                (or_text (contentText (js_get item (units ''content''))) (contentText (field_at message ''content''))))
           else None))"

section \<open>Tool activity\<close>

text \<open>The bounded projection of a call's arguments.\<close>

fun projected_arg :: "(rat \<Rightarrow> utext) \<Rightarrow> js_value \<Rightarrow> js_value option" where
  "projected_arg num (VText t) = Some (VText (clipChars t TOOL_ARG_STRING_LIMIT))"
| "projected_arg num (VNum r) = Some (VNum r)"
| "projected_arg num (VBool b) = Some (VBool b)"
| "projected_arg num VNull = Some VNull"
| "projected_arg num raw =
     (let serialized = stringify num raw in
      if serialized = [] then None else Some (VText (clipChars serialized TOOL_ARG_STRING_LIMIT)))"

fun projected_args :: "(rat \<Rightarrow> utext) \<Rightarrow> nat \<Rightarrow> js_fields \<Rightarrow> js_fields" where
  "projected_args num keys [] = []"
| "projected_args num keys ((key, raw) # es) =
     (if keys \<ge> TOOL_ARG_KEY_LIMIT then []
      else (case projected_arg num raw of
          None \<Rightarrow> projected_args num keys es
        | Some v \<Rightarrow> (key, v) # projected_args num (Suc keys) es))"

function shed_args :: "(rat \<Rightarrow> utext) \<Rightarrow> js_fields \<Rightarrow> js_fields" where
  "shed_args num es =
     (if es \<noteq> [] \<and> utf8Length (stringify num (VObj es)) > LIVE_TURN_TOOL_ARGS_ITEM_LIMIT
      then shed_args num (butlast es) else es)"
  by pat_completeness auto
termination by (relation "measure (\<lambda>(num, es). length es)") auto

declare shed_args.simps [simp del]

definition bounded_fields :: "(rat \<Rightarrow> utext) \<Rightarrow> js_fields \<Rightarrow> js_fields" where
  "bounded_fields num es = shed_args num (projected_args num 0 es)"

fun boundedToolArgs :: "(rat \<Rightarrow> utext) \<Rightarrow> js_value option \<Rightarrow> js_fields" where
  "boundedToolArgs num (Some (VObj es)) = bounded_fields num es"
| "boundedToolArgs num None = []"
| "boundedToolArgs num (Some VNull) = []"
| "boundedToolArgs num (Some (VText [])) = []"
| "boundedToolArgs num (Some v) = bounded_fields num [(units ''input'', v)]"

definition argsBytes :: "(rat \<Rightarrow> utext) \<Rightarrow> live_tool \<Rightarrow> nat" where
  "argsBytes num tool =
     (if tool_args tool = [] then 0 else utf8Length (stringify num (VObj (tool_args tool))))"

record tool_activity =
  act_call :: utext
  act_name :: "utext option"
  act_engine :: tool_engine
  act_status :: tool_status
  act_args :: "js_fields option"
  act_argsOmitted :: bool
  act_finished :: bool

definition CODEX_TOOL_ITEM_TYPES :: "utext list" where
  "CODEX_TOOL_ITEM_TYPES = map units [''commandExecution'', ''fileChange'', ''mcpToolCall'', ''dynamicToolCall'',
     ''collabAgentToolCall'', ''webSearch'', ''imageView'', ''imageGeneration'']"

definition text_lower :: "utext \<Rightarrow> utext" where
  "text_lower s = map (\<lambda>c. if 65 \<le> c \<and> c \<le> 90 then c + 32 else c) s"

definition said :: "js_value option \<Rightarrow> bool" where
  "said v \<longleftrightarrow> v \<noteq> None \<and> v \<noteq> Some VNull"

definition codexToolStatus :: "js_fields \<Rightarrow> utext \<Rightarrow> tool_status" where
  "codexToolStatus item type =
     (let status = text_lower (text_of (js_get item (units ''status''))) in
      if status \<in> set (map units [''inprogress'', ''in_progress'', ''running'', ''pending'']) then ToolRun
      else if status \<in> set (map units [''failed'', ''error'', ''errored'', ''declined'', ''cancelled'', ''canceled'']) then ToolErr
      else if type = units ''commandExecution''
        \<and> (case js_get item (units ''exitCode'') of Some (VNum n) \<Rightarrow> n \<noteq> Some 0 | _ \<Rightarrow> False) then ToolErr
      else if type = units ''mcpToolCall'' \<and> said (js_get item (units ''error'')) then ToolErr
      else if type = units ''dynamicToolCall'' \<and> js_get item (units ''success'') = Some (VBool False) then ToolErr
      else if type = units ''imageGeneration'' \<and> said (js_get item (units ''failure'')) then ToolErr
      else ToolOk)"

definition named_text :: "string \<Rightarrow> utext \<Rightarrow> js_fields" where
  "named_text key t = (if t = [] then [] else [(units key, VText t)])"

fun js_array :: "js_value option \<Rightarrow> js_value list option" where
  "js_array (Some (VArr vs)) = Some vs"
| "js_array _ = None"

definition change_header :: "js_fields \<Rightarrow> utext list" where
  "change_header change =
     (let path = text_of (js_get change (units ''path'')); kind = text_lower (text_of (js_get change (units ''kind''))) in
      if path = [] then []
      else [units ''*** '' @ units (if kind = units ''add'' then ''Add'' else if kind = units ''delete'' then ''Delete'' else ''Update'')
              @ units '' File: '' @ path])"

definition patch_args :: "js_fields \<Rightarrow> js_fields" where
  "patch_args item =
     (let changes = (case js_array (js_get item (units ''changes'')) of
            Some vs \<Rightarrow> List.map_filter (\<lambda>v. record_of (Some v)) vs | None \<Rightarrow> []);
          headers = concat (map change_header (take 8 changes)) in
      if headers = [] then []
      else [(units ''input'', VText (join_lines (units ''*** Begin Patch'' # headers @ [units ''*** End Patch''])))])"

definition record_fields :: "js_value option \<Rightarrow> js_fields" where
  "record_fields v = (case record_of v of Some es \<Rightarrow> es | None \<Rightarrow> [])"

definition codex_call :: "js_fields \<Rightarrow> utext \<Rightarrow> utext \<times> js_fields" where
  "codex_call item type =
     (let field = (\<lambda>key. text_of (js_get item (units key))) in
      if type = units ''commandExecution'' then
        (units ''shell'', named_text ''cmd'' (field ''command'') @ named_text ''workdir'' (field ''cwd''))
      else if type = units ''fileChange'' then (units ''apply_patch'', patch_args item)
      else if type = units ''mcpToolCall'' then
        (let server = field ''server''; tool = or_text (field ''tool'') (units ''tool'') in
         (if server \<noteq> [] then units ''mcp__'' @ server @ units ''__'' @ tool else tool,
          record_fields (js_get item (units ''arguments''))))
      else if type = units ''dynamicToolCall'' then
        (or_text (field ''tool'') (units ''tool''), record_fields (js_get item (units ''arguments'')))
      else if type = units ''collabAgentToolCall'' then
        (or_text (field ''tool'') (units ''Agent''), named_text ''prompt'' (field ''prompt'') @ named_text ''model'' (field ''model''))
      else if type = units ''webSearch'' then (units ''WebSearch'', named_text ''query'' (field ''query''))
      else if type = units ''imageView'' then (units ''view_image'', named_text ''path'' (field ''path''))
      else (units ''imagegen'', named_text ''prompt'' (field ''revisedPrompt'')))"

definition codexToolActivity :: "js_fields \<Rightarrow> utext \<Rightarrow> bool \<Rightarrow> tool_activity option" where
  "codexToolActivity item type completed =
     (let callId = or_text (text_of (js_get item (units ''id'')))
            (or_text (text_of (js_get item (units ''call_id''))) (text_of (js_get item (units ''callId'')))) in
      if callId = [] \<or> type \<notin> set CODEX_TOOL_ITEM_TYPES then None
      else Some \<lparr>act_call = callId, act_name = Some (fst (codex_call item type)), act_engine = CodexEngine,
          act_status = (if completed then codexToolStatus item type else ToolRun),
          act_args = Some (snd (codex_call item type)), act_argsOmitted = False, act_finished = completed\<rparr>)"

definition omittedCount :: "js_value \<Rightarrow> string \<Rightarrow> nat" where
  "omittedCount value key =
     (case field_at (record_of (field_at (record_of (Some value)) ''message'')) key of
        Some (VNum (Some r)) \<Rightarrow> if r > 0 then nat \<lfloor>r\<rfloor> else 0
      | _ \<Rightarrow> 0)"

definition use_report :: "js_value \<Rightarrow> tool_activity list" where
  "use_report part =
     (case record_of (Some part) of
        None \<Rightarrow> []
      | Some block \<Rightarrow>
          (let callId = text_of (js_get block (units ''id'')) in
           if text_of (js_get block (units ''type'')) \<noteq> units ''tool_use'' \<or> callId = [] then []
           else [\<lparr>act_call = callId, act_name = Some (or_text (text_of (js_get block (units ''name''))) (units ''tool'')),
               act_engine = ClaudeEngine, act_status = ToolRun, act_args = Some (record_fields (js_get block (units ''input''))),
               act_argsOmitted = (js_get block (units ''inputOmitted'') = Some (VBool True)), act_finished = False\<rparr>]))"

definition result_report :: "js_value \<Rightarrow> tool_activity list" where
  "result_report part =
     (case record_of (Some part) of
        None \<Rightarrow> []
      | Some block \<Rightarrow>
          (let callId = text_of (js_get block (units ''tool_use_id'')) in
           if text_of (js_get block (units ''type'')) \<noteq> units ''tool_result'' \<or> callId = [] then []
           else [\<lparr>act_call = callId, act_name = None, act_engine = ClaudeEngine,
               act_status = (if js_get block (units ''is_error'') = Some (VBool True) then ToolErr else ToolOk),
               act_args = None, act_argsOmitted = False, act_finished = True\<rparr>]))"

text \<open>\<open>completed\<close> is the phase of the event.\<close>

definition toolActivities :: "js_value \<Rightarrow> bool \<Rightarrow> tool_activity list" where
  "toolActivities value completed =
     (case record_of (Some value) of
        None \<Rightarrow> []
      | Some item \<Rightarrow>
          (let type = text_of (js_get item (units ''type''));
               message = record_of (js_get item (units ''message''));
               role = or_text (text_of (js_get item (units ''role''))) (text_of (field_at message ''role''));
               content = (case js_array (field_at message ''content'') of
                 Some vs \<Rightarrow> Some vs | None \<Rightarrow> js_array (js_get item (units ''content''))) in
           if (type = units ''assistant'' \<or> role = units ''assistant'') \<and> content \<noteq> None then
             (if \<not> completed then [] else concat (map use_report (the content)))
           else if (type = units ''user'' \<or> role = units ''user'') \<and> content \<noteq> None then
             concat (map result_report (the content))
           else (case codexToolActivity item type completed of Some a \<Rightarrow> [a] | None \<Rightarrow> [])))"

section \<open>Snapshots\<close>

definition normalizedTool :: "(rat \<Rightarrow> utext) \<Rightarrow> live_tool \<Rightarrow> live_tool" where
  "normalizedTool num tool =
     tool\<lparr>tool_name := clipChars (or_text (tool_name tool) (units ''tool'')) TOOL_NAME_LIMIT,
       tool_args := boundedToolArgs num (Some (VObj (tool_args tool)))\<rparr>"

fun positive :: "nat option \<Rightarrow> nat option" where
  "positive (Some n) = (if n > 0 then Some n else None)"
| "positive None = None"

definition shows_something :: "live_item \<Rightarrow> bool" where
  "shows_something item \<longleftrightarrow> item_text item \<noteq> [] \<or> positive (item_omittedChars item) \<noteq> None
     \<or> positive (item_omittedItems item) \<noteq> None \<or> item_tool item \<noteq> None"

definition normalizedItem :: "(rat \<Rightarrow> utext) \<Rightarrow> live_item \<Rightarrow> live_item" where
  "normalizedItem num item =
     (let tool = map_option (normalizedTool num) (item_tool item) in
      item\<lparr>item_text := (if tool \<noteq> None then [] else item_text item),
        item_phase := (if tool \<noteq> None then AwaitingEcho else item_phase item),
        item_omittedChars := positive (item_omittedChars item),
        item_omittedItems := positive (item_omittedItems item), item_tool := tool\<rparr>)"

definition normalizedList :: "(rat \<Rightarrow> utext) \<Rightarrow> live_item list option \<Rightarrow> live_item list" where
  "normalizedList num items =
     (case items of None \<Rightarrow> [] | Some rows \<Rightarrow> map (normalizedItem num) (filter shows_something rows))"

definition plain_row :: "utext option \<Rightarrow> utext \<Rightarrow> live_phase \<Rightarrow> utext option \<Rightarrow> utext option \<Rightarrow> live_item" where
  "plain_row i t phase startedAt completedAt =
     \<lparr>item_id = i, item_text = t, item_phase = phase, item_startedAt = startedAt, item_completedAt = completedAt,
      item_omittedChars = None, item_omittedItems = None, item_tool = None\<rparr>"

definition normalizedItems :: "(rat \<Rightarrow> utext) \<Rightarrow> live_turn \<Rightarrow> live_item list" where
  "normalizedItems num turn =
     (if live_items turn \<noteq> None \<or> live_overflow turn \<noteq> None
      then normalizedList num (live_overflow turn) @ normalizedList num (live_items turn)
      else if live_text turn \<noteq> [] then [plain_row None (live_text turn) StreamingRow None None] else [])"

section \<open>The bounds\<close>

definition nat_or_zero :: "nat option \<Rightarrow> nat" where
  "nat_or_zero n = (case n of Some k \<Rightarrow> k | None \<Rightarrow> 0)"

definition rows_behind :: "live_item \<Rightarrow> nat" where
  "rows_behind item = (case item_omittedItems item of Some k \<Rightarrow> k | None \<Rightarrow> 1)"

definition chars_of :: "live_item \<Rightarrow> nat" where
  "chars_of item = char_count (item_text item) + nat_or_zero (item_omittedChars item)"

text \<open>The rows past the last descriptor fold into one summary.\<close>

definition fold_oldest :: "live_item list \<Rightarrow> live_item list" where
  "fold_oldest items =
     (let limit = LIVE_TURN_ITEM_LIMIT + LIVE_TURN_OVERFLOW_LIMIT;
          count = (if length items > limit then length items - limit + 1 else 0);
          omitted = take count items in
      if omitted = [] then items
      else (plain_row None [] AwaitingEcho (item_startedAt (hd omitted)) (item_completedAt (last omitted)))
             \<lparr>item_omittedChars := Some (sum_list (map chars_of omitted)),
              item_omittedItems := Some (sum_list (map rows_behind omitted))\<rparr> # drop count items)"

text \<open>The oldest text goes first.\<close>

fun trim_rows :: "nat \<Rightarrow> live_item list \<Rightarrow> live_item list" where
  "trim_rows excess [] = []"
| "trim_rows excess (item # items) =
     (if excess = 0 then item # items
      else (let trimmed = trimUtf8Start (item_text item) excess;
                freed = utf8Length (item_text item) - utf8Length (snd trimmed) in
            item\<lparr>item_text := snd trimmed, item_omittedChars := Some (nat_or_zero (item_omittedChars item) + fst trimmed)\<rparr>
              # trim_rows (excess - freed) items))"

text \<open>The newest arguments stay: the list is newest first.\<close>

fun strip_args :: "(rat \<Rightarrow> utext) \<Rightarrow> nat \<Rightarrow> live_item list \<Rightarrow> live_item list" where
  "strip_args num budget [] = []"
| "strip_args num budget (item # items) =
     (case item_tool item of
        None \<Rightarrow> item # strip_args num budget items
      | Some tool \<Rightarrow>
          if argsBytes num tool = 0 then item # strip_args num budget items
          else if argsBytes num tool \<le> budget then item # strip_args num (budget - argsBytes num tool) items
          else item\<lparr>item_tool := Some (tool\<lparr>tool_args := [], tool_argsOmitted := True\<rparr>)\<rparr> # strip_args num budget items)"

definition text_bytes :: "live_item list \<Rightarrow> nat" where
  "text_bytes items = sum_list (map (\<lambda>item. utf8Length (item_text item)) items)"

definition kept_rows :: "(rat \<Rightarrow> utext) \<Rightarrow> live_item list \<Rightarrow> live_item list" where
  "kept_rows num items =
     (let folded = fold_oldest items;
          trimmed = trim_rows (text_bytes folded - LIVE_TURN_TEXT_LIMIT) folded
      in rev (strip_args num LIVE_TURN_TOOL_ARGS_LIMIT (rev trimmed)))"

definition latest_text :: "live_item list \<Rightarrow> utext" where
  "latest_text items =
     (case find (\<lambda>item. item_tool item = None \<and> item_text item \<noteq> []) (rev items) of
        Some item \<Rightarrow> item_text item | None \<Rightarrow> [])"

definition bounded_turn :: "(rat \<Rightarrow> utext) \<Rightarrow> utext \<Rightarrow> live_item list \<Rightarrow> live_turn option" where
  "bounded_turn num turnId items =
     (let kept = kept_rows num items; active = length kept - LIVE_TURN_ITEM_LIMIT in
      if kept = [] then None
      else Some \<lparr>live_turnId = turnId, live_text = latest_text kept, live_items = Some (drop active kept),
          live_overflow = (if take active kept = [] then None else Some (take active kept))\<rparr>)"

definition itemsForTurn :: "(rat \<Rightarrow> utext) \<Rightarrow> live_turn option \<Rightarrow> utext \<Rightarrow> utext option \<Rightarrow> live_item list" where
  "itemsForTurn num turn turnId occurredAt =
     (case turn of
        None \<Rightarrow> []
      | Some v \<Rightarrow>
          if live_turnId v = turnId then normalizedItems num v
          else map (\<lambda>item. if item_phase item = StreamingRow
              then item\<lparr>item_phase := AwaitingEcho,
                item_completedAt := (case item_completedAt item of Some t \<Rightarrow> Some t | None \<Rightarrow> occurredAt)\<rparr>
              else item) (normalizedItems num v))"

definition normalizeRuntimeLiveTurn :: "(rat \<Rightarrow> utext) \<Rightarrow> live_turn \<Rightarrow> live_turn option" where
  "normalizeRuntimeLiveTurn num turn =
     (if live_turnId turn = [] \<or> live_text turn = [] \<and> live_items turn = None \<and> live_overflow turn = None then None
      else bounded_turn num (live_turnId turn) (normalizedItems num turn))"

section \<open>The events\<close>

definition streams :: "live_item \<Rightarrow> bool" where
  "streams item \<longleftrightarrow> item_phase item = StreamingRow \<and> item_tool item = None"

definition append_fragment :: "utext \<Rightarrow> utext option \<Rightarrow> live_item list \<Rightarrow> live_item list" where
  "append_fragment fragment occurredAt current =
     (case at_last current of
        Some latest \<Rightarrow>
          if streams latest then butlast current @ [latest\<lparr>item_text := item_text latest @ fragment\<rparr>]
          else current @ [plain_row None fragment StreamingRow occurredAt None]
      | None \<Rightarrow> current @ [plain_row None fragment StreamingRow occurredAt None])"

definition appendRuntimeLiveTurnDelta ::
  "(rat \<Rightarrow> utext) \<Rightarrow> live_turn option \<Rightarrow> utext \<Rightarrow> utext \<Rightarrow> utext option \<Rightarrow> live_turn option" where
  "appendRuntimeLiveTurnDelta num turn turnId fragment occurredAt =
     (if fragment = [] then turn
      else bounded_turn num turnId (append_fragment fragment occurredAt (itemsForTurn num turn turnId occurredAt)))"

text \<open>A change to the rows; \<open>None\<close> is the same array.\<close>

definition complete_prose :: "utext \<Rightarrow> utext option \<Rightarrow> live_item \<Rightarrow> live_item" where
  "complete_prose t occurredAt item =
     item\<lparr>item_text := or_text t (item_text item), item_phase := AwaitingEcho, item_completedAt := occurredAt,
       item_omittedChars := (if t \<noteq> [] then None else item_omittedChars item)\<rparr>"

definition projectAssistantText ::
  "live_item list \<Rightarrow> utext option \<times> utext \<Rightarrow> utext option \<Rightarrow> live_item list option" where
  "projectAssistantText current identity occurredAt =
     (let (i, t) = identity; known = (\<lambda>item. item_tool item = None \<and> item_id item = i) in
      if i \<noteq> None \<and> list_ex known current then Some (update_first known (complete_prose t occurredAt) current)
      else if (case at_last current of Some latest \<Rightarrow> streams latest | None \<Rightarrow> False)
      then Some (butlast current @ [(complete_prose t occurredAt (last current))\<lparr>item_id := i\<rparr>])
      else if t = [] then None
      else Some (current @ [plain_row i t AwaitingEcho occurredAt occurredAt]))"

definition is_call :: "utext \<Rightarrow> live_item \<Rightarrow> bool" where
  "is_call c item \<longleftrightarrow> item_tool item \<noteq> None \<and> item_id item = Some c"

definition update_call :: "(rat \<Rightarrow> utext) \<Rightarrow> tool_activity \<Rightarrow> utext option \<Rightarrow> live_item \<Rightarrow> live_item" where
  "update_call num activity occurredAt item =
     (let tool = the (item_tool item) in
      item\<lparr>item_completedAt := (if act_finished activity then occurredAt else item_completedAt item),
        item_tool := Some (tool
          \<lparr>tool_name := (case act_name activity of
               Some n \<Rightarrow> if n \<noteq> [] then clipChars n TOOL_NAME_LIMIT else tool_name tool | None \<Rightarrow> tool_name tool),
           tool_status := (if act_finished activity \<or> tool_status tool = ToolRun then act_status activity else tool_status tool),
           tool_args := (case act_args activity of
               Some args \<Rightarrow> if args \<noteq> [] \<and> \<not> tool_argsOmitted tool then boundedToolArgs num (Some (VObj args)) else tool_args tool
             | None \<Rightarrow> tool_args tool)\<rparr>)\<rparr>)"

definition new_call :: "(rat \<Rightarrow> utext) \<Rightarrow> tool_activity \<Rightarrow> utext option \<Rightarrow> live_item" where
  "new_call num activity occurredAt =
     (plain_row (Some (act_call activity)) [] AwaitingEcho occurredAt (if act_finished activity then occurredAt else None))
       \<lparr>item_tool := Some \<lparr>tool_name = clipChars (case act_name activity of Some n \<Rightarrow> or_text n (units ''tool'') | None \<Rightarrow> units ''tool'') TOOL_NAME_LIMIT,
          tool_engine = act_engine activity, tool_status = act_status activity,
          tool_args = boundedToolArgs num (Some (VObj (case act_args activity of Some args \<Rightarrow> args | None \<Rightarrow> []))),
          tool_argsOmitted = act_argsOmitted activity\<rparr>\<rparr>"

definition projectToolActivity ::
  "(rat \<Rightarrow> utext) \<Rightarrow> utext option \<Rightarrow> live_item list \<Rightarrow> tool_activity \<Rightarrow> live_item list" where
  "projectToolActivity num occurredAt current activity =
     (if list_ex (is_call (act_call activity)) current
      then update_first (is_call (act_call activity)) (update_call num activity occurredAt) current
      else current @ [new_call num activity occurredAt])"

definition instant :: "(utext \<Rightarrow> int option) \<Rightarrow> utext option \<Rightarrow> int option" where
  "instant parse at_time = (case at_time of Some t \<Rightarrow> if t = [] then None else parse t | None \<Rightarrow> None)"

definition may_settle :: "(utext \<Rightarrow> int option) \<Rightarrow> utext set \<Rightarrow> utext option \<Rightarrow> live_item \<Rightarrow> bool" where
  "may_settle parse settled occurredAt item \<longleftrightarrow>
     (case item_tool item of
        None \<Rightarrow> False
      | Some tool \<Rightarrow> tool_engine tool = ClaudeEngine \<and> tool_status tool = ToolRun
          \<and> \<not> (case item_id item of Some i \<Rightarrow> i \<noteq> [] \<and> i \<in> settled | None \<Rightarrow> False)
          \<and> \<not> (case (instant parse occurredAt, instant parse (item_startedAt item)) of
                (Some message, Some started) \<Rightarrow> started > message | _ \<Rightarrow> False))"

definition settle_unknown :: "utext option \<Rightarrow> live_item \<Rightarrow> live_item" where
  "settle_unknown occurredAt item =
     item\<lparr>item_completedAt := occurredAt, item_tool := map_option (\<lambda>tool. tool\<lparr>tool_status := ToolUnknown\<rparr>) (item_tool item)\<rparr>"

definition settleOmittedResults ::
  "(utext \<Rightarrow> int option) \<Rightarrow> live_item list \<Rightarrow> nat \<Rightarrow> utext set \<Rightarrow> utext option \<Rightarrow> live_item list option" where
  "settleOmittedResults parse current missing settled occurredAt =
     (let candidates = filter (\<lambda>n. may_settle parse settled occurredAt (current ! n)) [0..<length current];
          chosen = drop (length candidates - missing) candidates in
      if missing = 0 \<or> chosen = [] then None
      else Some (map (\<lambda>(n, item). if n \<in> set chosen then settle_unknown occurredAt item else item) (enumerate 0 current)))"

definition projectOmittedToolCalls ::
  "live_item list \<Rightarrow> nat \<Rightarrow> utext option \<Rightarrow> utext option \<Rightarrow> live_item list option" where
  "projectOmittedToolCalls current missing sourceId occurredAt =
     (let i = map_option (\<lambda>source. units ''omitted-tools:'' @ source) sourceId; known = (\<lambda>item. item_id item = i) in
      if missing = 0 then None
      else case (if i = None then None else find known current) of
        Some existing \<Rightarrow>
          if nat_or_zero (item_omittedItems existing) \<ge> missing then None
          else Some (update_first known (\<lambda>item. item\<lparr>item_omittedItems := Some missing\<rparr>) current)
      | None \<Rightarrow> Some (current @ [(plain_row i [] AwaitingEcho occurredAt occurredAt)\<lparr>item_omittedItems := Some missing\<rparr>]))"

definition messageSourceId :: "js_value \<Rightarrow> utext option" where
  "messageSourceId value =
     (let item = record_of (Some value); message = record_of (field_at item ''message'') in
      text_option (or_text (text_of (field_at item ''id''))
        (or_text (text_of (field_at item ''uuid'')) (text_of (field_at message ''id'')))))"

text \<open>One change after another, and whether any was made.\<close>

definition changed_by :: "(live_item list \<Rightarrow> live_item list option) \<Rightarrow> live_item list \<times> bool \<Rightarrow> live_item list \<times> bool" where
  "changed_by f s = (case f (fst s) of None \<Rightarrow> s | Some rows \<Rightarrow> (rows, True))"

definition projected_rows ::
  "(rat \<Rightarrow> utext) \<Rightarrow> (utext \<Rightarrow> int option) \<Rightarrow> js_value \<Rightarrow> bool \<Rightarrow> utext option \<Rightarrow> live_item list \<Rightarrow> live_item list \<times> bool" where
  "projected_rows num parse item completed occurredAt before =
     (let identity = (if completed then itemIdentity item else None);
          activities = toolActivities item completed;
          omitted = (if completed then omittedCount item ''omittedToolCalls'' else 0);
          results = (if completed then omittedCount item ''omittedToolResults'' else 0);
          spoken = changed_by (\<lambda>rows. case identity of Some i \<Rightarrow> projectAssistantText rows i occurredAt | None \<Rightarrow> None) (before, False);
          called = fold (\<lambda>activity. changed_by (\<lambda>rows. Some (projectToolActivity num occurredAt rows activity))) activities spoken;
          counted = changed_by (\<lambda>rows. projectOmittedToolCalls rows omitted (messageSourceId item) occurredAt) called
      in changed_by (\<lambda>rows. settleOmittedResults parse rows results (act_call ` {a \<in> set activities. act_finished a}) occurredAt) counted)"

definition projectRuntimeLiveTurnItem ::
  "(rat \<Rightarrow> utext) \<Rightarrow> (utext \<Rightarrow> int option) \<Rightarrow> live_turn option \<Rightarrow> utext \<Rightarrow> js_value \<Rightarrow> bool \<Rightarrow> utext option \<Rightarrow> live_turn option" where
  "projectRuntimeLiveTurnItem num parse turn turnId item completed occurredAt =
     (let (rows, changed) = projected_rows num parse item completed occurredAt (itemsForTurn num turn turnId occurredAt)
      in if changed then bounded_turn num turnId rows else turn)"

definition runtimeLiveTurnItems :: "(rat \<Rightarrow> utext) \<Rightarrow> live_turn option \<Rightarrow> live_item list" where
  "runtimeLiveTurnItems num turn = (case turn of None \<Rightarrow> [] | Some v \<Rightarrow> normalizedItems num v)"

definition completeRuntimeLiveTurnItem ::
  "(rat \<Rightarrow> utext) \<Rightarrow> (utext \<Rightarrow> int option) \<Rightarrow> live_turn option \<Rightarrow> utext \<Rightarrow> js_value \<Rightarrow> utext option \<Rightarrow> live_turn option" where
  "completeRuntimeLiveTurnItem num parse turn turnId item occurredAt =
     projectRuntimeLiveTurnItem num parse turn turnId item True occurredAt"

section \<open>The picture a call looks at\<close>

definition MAX_IMAGE_PATH_CHARS :: nat where "MAX_IMAGE_PATH_CHARS = 4096"

definition ends_with :: "utext \<Rightarrow> utext \<Rightarrow> bool" where
  "ends_with s suffix \<longleftrightarrow> length suffix \<le> length s \<and> drop (length s - length suffix) s = suffix"

definition starts_with :: "utext \<Rightarrow> utext \<Rightarrow> bool" where
  "starts_with s prefix \<longleftrightarrow> take (length prefix) s = prefix"

definition raster_suffixes :: "utext list" where
  "raster_suffixes = map units [''.png'', ''.jpg'', ''.jpeg'', ''.gif'', ''.webp'']"

definition rasterImagePath :: "utext \<Rightarrow> utext option" where
  "rasterImagePath s =
     (let path = unit_trim s in
      if path = [] \<or> length path > MAX_IMAGE_PATH_CHARS \<or> list_ex (\<lambda>c. c = 0 \<or> c = 13 \<or> c = 10) path then None
      else if \<not> starts_with path (units ''/'') \<and> \<not> starts_with path (units ''~/'') then None
      else if list_ex (ends_with (text_lower path)) raster_suffixes then Some path else None)"

definition LIVE_IMAGE_TOOLS :: "utext list" where
  "LIVE_IMAGE_TOOLS = map units [''view_image'', ''Read'', ''view'']"

definition liveToolImagePath :: "live_tool \<Rightarrow> utext option" where
  "liveToolImagePath tool =
     (let path = js_get (tool_args tool) (units ''path'');
          named = (if said path then path else js_get (tool_args tool) (units ''file_path'')) in
      if tool_status tool = ToolErr \<or> tool_name tool \<notin> set LIVE_IMAGE_TOOLS then None
      else case named of Some (VText t) \<Rightarrow> rasterImagePath t | _ \<Rightarrow> None)"

section \<open>Events\<close>

text \<open>The events of a host, one after another.\<close>

datatype live_event =
    LiveDelta utext utext "utext option"
  | LiveItem utext js_value bool "utext option"

fun live_step :: "(rat \<Rightarrow> utext) \<Rightarrow> (utext \<Rightarrow> int option) \<Rightarrow> live_event \<Rightarrow> live_turn option \<Rightarrow> live_turn option" where
  "live_step num parse (LiveDelta turnId fragment occurredAt) turn = appendRuntimeLiveTurnDelta num turn turnId fragment occurredAt"
| "live_step num parse (LiveItem turnId item completed occurredAt) turn =
     projectRuntimeLiveTurnItem num parse turn turnId item completed occurredAt"

end
