(* ===== verification/Live_Turn_Bounds.thy ===== *)
theory Live_Turn_Bounds
  imports Live_Turn
begin

text \<open>What the window of a live turn keeps: its limits, and one row per call.\<close>

section \<open>Folding, trimming and stripping\<close>

lemma fold_oldest_length: "length (fold_oldest items) \<le> LIVE_TURN_ITEM_LIMIT + LIVE_TURN_OVERFLOW_LIMIT"
  by (simp add: fold_oldest_def Let_def LIVE_TURN_ITEM_LIMIT_def LIVE_TURN_OVERFLOW_LIMIT_def)

lemma trim_rows_0 [simp]: "trim_rows 0 items = items"
  by (cases items) simp_all

lemma trim_rows_shape:
  "length (trim_rows excess items) = length items"
  "map item_tool (trim_rows excess items) = map item_tool items"
  "map item_id (trim_rows excess items) = map item_id items"
  "map item_phase (trim_rows excess items) = map item_phase items"
  by (induction excess items rule: trim_rows.induct) (simp_all add: Let_def)

lemma text_bytes_simps [simp]: "text_bytes [] = 0" "text_bytes (item # items) = utf8Length (item_text item) + text_bytes items"
  "text_bytes (items @ others) = text_bytes items + text_bytes others" "text_bytes (rev items) = text_bytes items"
  by (simp_all add: text_bytes_def rev_map [symmetric])

lemma trim_rows_frees: "text_bytes (trim_rows excess items) \<le> text_bytes items - excess"
proof (induction excess items rule: trim_rows.induct)
  case (2 excess item items)
  show ?case
  proof (cases "excess = 0")
    case False
    let ?after = "utf8Length (snd (trimUtf8Start (item_text item) excess))"
    let ?rest = "excess - (utf8Length (item_text item) - ?after)"
    have "?after \<le> utf8Length (item_text item) - excess" by (rule trim_frees)
    moreover have "text_bytes (trim_rows ?rest items) \<le> text_bytes items - ?rest" using 2 [OF False refl refl] by simp
    ultimately show ?thesis using False by (simp add: Let_def)
  qed simp
qed simp

definition args_bytes :: "(rat \<Rightarrow> utext) \<Rightarrow> live_item list \<Rightarrow> nat" where
  "args_bytes num items = sum_list (map (\<lambda>item. case item_tool item of Some tool \<Rightarrow> argsBytes num tool | None \<Rightarrow> 0) items)"

lemma args_bytes_simps [simp]: "args_bytes num [] = 0"
  "args_bytes num (item # items) = (case item_tool item of Some tool \<Rightarrow> argsBytes num tool | None \<Rightarrow> 0) + args_bytes num items"
  "args_bytes num (rev items) = args_bytes num items"
  by (simp_all add: args_bytes_def rev_map [symmetric])

lemma strip_args_bytes: "args_bytes num (strip_args num budget items) \<le> budget"
  by (induction num budget items rule: strip_args.induct) (auto simp: argsBytes_def split: option.split)

lemma strip_args_shape:
  "map item_text (strip_args num budget items) = map item_text items"
  "map item_id (strip_args num budget items) = map item_id items"
  "map item_phase (strip_args num budget items) = map item_phase items"
  "map (\<lambda>item. map_option tool_status (item_tool item)) (strip_args num budget items) = map (\<lambda>item. map_option tool_status (item_tool item)) items"
  "map chars_of (strip_args num budget items) = map chars_of items"
  "map rows_behind (strip_args num budget items) = map rows_behind items"
  by (induction num budget items rule: strip_args.induct)
    (auto simp: chars_of_def rows_behind_def split: option.split)

lemma strip_args_text: "text_bytes (strip_args num budget items) = text_bytes items"
  by (induction num budget items rule: strip_args.induct) (auto split: option.split)

lemma strip_args_length [simp]: "length (strip_args num budget items) = length items"
  using strip_args_shape(1) [of num budget items] by (metis length_map)

section \<open>Rows\<close>

definition tool_ok :: "(rat \<Rightarrow> utext) \<Rightarrow> live_tool \<Rightarrow> bool" where
  "tool_ok num tool \<longleftrightarrow> argsBytes num tool \<le> LIVE_TURN_TOOL_ARGS_ITEM_LIMIT \<and> length (tool_args tool) \<le> TOOL_ARG_KEY_LIMIT"

definition live_row_ok :: "(rat \<Rightarrow> utext) \<Rightarrow> live_item \<Rightarrow> bool" where
  "live_row_ok num item \<longleftrightarrow> (case item_tool item of
       Some tool \<Rightarrow> tool_ok num tool \<and> item_text item = [] \<and> item_phase item = AwaitingEcho
     | None \<Rightarrow> True)"

lemma shed_args_bound: "shed_args num es = [] \<or> utf8Length (stringify num (VObj (shed_args num es))) \<le> LIVE_TURN_TOOL_ARGS_ITEM_LIMIT"
proof (induction num es rule: shed_args.induct)
  case (1 num es)
  then show ?case by (subst (1 2) shed_args.simps) (auto split: if_split)
qed

lemma shed_args_length: "length (shed_args num es) \<le> length es"
proof (induction num es rule: shed_args.induct)
  case (1 num es)
  show ?case
  proof (cases "es \<noteq> [] \<and> utf8Length (stringify num (VObj es)) > LIVE_TURN_TOOL_ARGS_ITEM_LIMIT")
    case True
    with 1 have "length (shed_args num (butlast es)) \<le> length (butlast es)" by blast
    with True show ?thesis by (subst shed_args.simps) auto
  qed (subst shed_args.simps, auto)
qed

lemma projected_args_length: "keys \<le> TOOL_ARG_KEY_LIMIT \<Longrightarrow> length (projected_args num keys es) \<le> TOOL_ARG_KEY_LIMIT - keys"
proof (induction num keys es rule: projected_args.induct)
  case (2 num keys key raw es)
  show ?case
  proof (cases "keys \<ge> TOOL_ARG_KEY_LIMIT")
    case False
    then show ?thesis using 2 by (cases "projected_arg num raw") (fastforce simp: not_le)+
  qed simp
qed simp

lemma bounded_fields_ok: "length (bounded_fields num es) \<le> TOOL_ARG_KEY_LIMIT"
  using projected_args_length [of 0 num es] shed_args_length [of num "projected_args num 0 es"] by (simp add: bounded_fields_def)

lemma boundedToolArgs_ok:
  "length (boundedToolArgs num v) \<le> TOOL_ARG_KEY_LIMIT
   \<and> (boundedToolArgs num v = [] \<or> utf8Length (stringify num (VObj (boundedToolArgs num v))) \<le> LIVE_TURN_TOOL_ARGS_ITEM_LIMIT)"
proof -
  consider "boundedToolArgs num v = []" | es where "boundedToolArgs num v = bounded_fields num es"
    by (cases "(num, v)" rule: boundedToolArgs.cases) auto
  then show ?thesis
  proof cases
    case 2
    then show ?thesis using bounded_fields_ok [of num es] shed_args_bound [of num "projected_args num 0 es"]
      by (simp only: bounded_fields_def simp_thms)
  qed simp
qed

lemma tool_ok_args: "tool_args tool = boundedToolArgs num v \<Longrightarrow> tool_ok num tool"
  using boundedToolArgs_ok [of num v] by (auto simp: tool_ok_def argsBytes_def)

lemma tool_ok_same: "tool_ok num tool \<Longrightarrow> tool_args tool' = tool_args tool \<Longrightarrow> tool_ok num tool'"
  by (auto simp: tool_ok_def argsBytes_def split: if_splits)

lemma normalizedTool_ok: "tool_ok num (normalizedTool num tool)"
  by (rule tool_ok_args [of _ _ "Some (VObj (tool_args tool))"]) (simp add: normalizedTool_def)

lemma normalizedItem_ok: "live_row_ok num (normalizedItem num item)"
  using normalizedTool_ok by (auto simp: live_row_ok_def normalizedItem_def Let_def split: option.split)

lemma plain_row_ok [simp]: "live_row_ok num (plain_row i t phase s c)"
  by (simp add: live_row_ok_def plain_row_def)

lemma normalizedItems_ok: "list_all (live_row_ok num) (normalizedItems num turn)"
  using normalizedItem_ok by (auto simp: normalizedItems_def normalizedList_def list_all_iff split: option.split)

lemma itemsForTurn_ok: "list_all (live_row_ok num) (itemsForTurn num turn turnId occurredAt)"
proof (cases turn)
  case (Some v)
  have rest: "live_row_ok num (item\<lparr>item_phase := AwaitingEcho, item_completedAt := t\<rparr>)" if "live_row_ok num item" for item t
    using that by (simp add: live_row_ok_def split: option.splits)
  show ?thesis using Some normalizedItems_ok [of num v] by (auto simp: itemsForTurn_def list_all_iff rest)
qed (simp add: itemsForTurn_def)

section \<open>The rows a window keeps\<close>

definition call_ids :: "live_item list \<Rightarrow> utext option list" where
  "call_ids items = map item_id (filter (\<lambda>item. item_tool item \<noteq> None) items)"

lemma call_ids_simps [simp]: "call_ids [] = []" "call_ids (items @ others) = call_ids items @ call_ids others"
  "call_ids (item # items) = (if item_tool item \<noteq> None then [item_id item] else []) @ call_ids items"
  "call_ids (rev items) = rev (call_ids items)"
  by (simp_all add: call_ids_def rev_filter rev_map)

lemma call_ids_trim: "call_ids (trim_rows excess items) = call_ids items"
  by (induction excess items rule: trim_rows.induct) (simp_all add: Let_def)

lemma call_ids_strip: "call_ids (strip_args num budget items) = call_ids items"
  by (induction num budget items rule: strip_args.induct) (auto split: option.split)

lemma fold_oldest_suffix:
  obtains (same) "fold_oldest items = items"
  | (folded) n summary where "n \<le> length items" "fold_oldest items = summary # drop n items" "item_tool summary = None" "item_text summary = []"
      "chars_of summary = sum_list (map chars_of (take n items))" "rows_behind summary = sum_list (map rows_behind (take n items))" "0 < n"
proof (cases "length items > LIVE_TURN_ITEM_LIMIT + LIVE_TURN_OVERFLOW_LIMIT")
  case True
  define n where "n = length items - (LIVE_TURN_ITEM_LIMIT + LIVE_TURN_OVERFLOW_LIMIT) + 1"
  from True have n: "n \<le> length items" "0 < n" "take n items \<noteq> []"
    by (auto simp: n_def LIVE_TURN_ITEM_LIMIT_def)
  define summary where "summary = (plain_row None [] AwaitingEcho (item_startedAt (hd (take n items))) (item_completedAt (last (take n items))))
    \<lparr>item_omittedChars := Some (sum_list (map chars_of (take n items))), item_omittedItems := Some (sum_list (map rows_behind (take n items)))\<rparr>"
  have "fold_oldest items = summary # drop n items"
    using True n(3) unfolding fold_oldest_def Let_def n_def summary_def by simp
  with n show thesis by (intro folded [of n summary])
      (simp_all add: summary_def plain_row_def chars_of_def rows_behind_def nat_or_zero_def char_count_def)
next
  case False
  then show thesis by (intro same) (simp add: fold_oldest_def Let_def)
qed

lemma kept_rows_length: "length (kept_rows num items) \<le> LIVE_TURN_ITEM_LIMIT + LIVE_TURN_OVERFLOW_LIMIT"
  using fold_oldest_length [of items] by (simp add: kept_rows_def Let_def trim_rows_shape(1))

lemma kept_rows_text: "text_bytes (kept_rows num items) \<le> LIVE_TURN_TEXT_LIMIT"
proof -
  let ?folded = "fold_oldest items"
  let ?trimmed = "trim_rows (text_bytes ?folded - LIVE_TURN_TEXT_LIMIT) ?folded"
  have "text_bytes (strip_args num LIVE_TURN_TOOL_ARGS_LIMIT (rev ?trimmed)) = text_bytes (rev ?trimmed)"
    by (rule strip_args_text)
  moreover have "text_bytes ?trimmed \<le> text_bytes ?folded - (text_bytes ?folded - LIVE_TURN_TEXT_LIMIT)" by (rule trim_rows_frees)
  ultimately show ?thesis by (simp add: kept_rows_def Let_def)
qed

lemma kept_rows_args: "args_bytes num (kept_rows num items) \<le> LIVE_TURN_TOOL_ARGS_LIMIT"
  using strip_args_bytes by (simp add: kept_rows_def Let_def)

end
