(* ===== verification/Live_Turn_Events.thy ===== *)
theory Live_Turn_Events
  imports Live_Turn_Bounds
begin

text \<open>What every event of a host keeps of a live turn, over \<open>src/lib/runtime/liveTurn.ts\<close>.\<close>

section \<open>Rows through the bounds\<close>

definition rows_ok :: "(rat \<Rightarrow> utext) \<Rightarrow> live_item list \<Rightarrow> bool" where
  "rows_ok num rows \<longleftrightarrow> list_all (live_row_ok num) rows \<and> distinct (call_ids rows)"

lemma trim_empty [simp]: "trimUtf8Start [] n = (0, [])"
  by (simp add: trimUtf8Start_def utf8_def cut_start_def utf8_text_def drop_mark_def char_count_def)

lemma trim_rows_ok: "list_all (live_row_ok num) items \<Longrightarrow> list_all (live_row_ok num) (trim_rows excess items)"
  by (induction excess items rule: trim_rows.induct) (auto simp: Let_def live_row_ok_def split: option.splits)

lemma strip_args_ok: "list_all (live_row_ok num) items \<Longrightarrow> list_all (live_row_ok num) (strip_args num budget items)"
  by (induction num budget items rule: strip_args.induct)
    (auto simp: live_row_ok_def tool_ok_def argsBytes_def split: option.splits if_splits)

lemma fold_oldest_ok: "rows_ok num items \<Longrightarrow> rows_ok num (fold_oldest items)"
proof (cases items rule: fold_oldest_suffix)
  case (folded n summary)
  assume ok: "rows_ok num items"
  have "call_ids items = call_ids (take n items) @ call_ids (drop n items)"
    by (metis append_take_drop_id call_ids_simps(2))
  with ok have "distinct (call_ids (drop n items))" by (simp add: rows_ok_def)
  moreover have "list_all (live_row_ok num) (drop n items)" using ok by (auto simp: rows_ok_def list_all_iff dest: in_set_dropD)
  ultimately show ?thesis using folded(2-4) by (simp add: rows_ok_def live_row_ok_def)
qed simp

lemma kept_rows_ok: "rows_ok num items \<Longrightarrow> rows_ok num (kept_rows num items)"
  using fold_oldest_ok [of num items] trim_rows_ok strip_args_ok
  by (simp add: rows_ok_def kept_rows_def Let_def call_ids_strip call_ids_trim)

definition listed :: "live_item list option \<Rightarrow> live_item list" where
  "listed rows = (case rows of Some items \<Rightarrow> items | None \<Rightarrow> [])"

definition all_rows :: "live_turn \<Rightarrow> live_item list" where
  "all_rows turn = listed (live_overflow turn) @ listed (live_items turn)"

definition turn_ok :: "(rat \<Rightarrow> utext) \<Rightarrow> live_turn \<Rightarrow> bool" where
  "turn_ok num turn \<longleftrightarrow> all_rows turn \<noteq> [] \<and> live_items turn \<noteq> None
     \<and> length (listed (live_items turn)) \<le> LIVE_TURN_ITEM_LIMIT \<and> length (listed (live_overflow turn)) \<le> LIVE_TURN_OVERFLOW_LIMIT
     \<and> text_bytes (all_rows turn) \<le> LIVE_TURN_TEXT_LIMIT \<and> args_bytes num (all_rows turn) \<le> LIVE_TURN_TOOL_ARGS_LIMIT
     \<and> rows_ok num (all_rows turn) \<and> live_text turn = latest_text (all_rows turn)"

lemma bounded_turn_rows:
  assumes "bounded_turn num turnId items = Some turn"
  shows "all_rows turn = kept_rows num items" "live_turnId turn = turnId" "live_items turn \<noteq> None"
  using assms by (auto simp: bounded_turn_def Let_def all_rows_def listed_def split: if_splits)

lemma bounded_turn_ok:
  assumes "rows_ok num items" "bounded_turn num turnId items = Some turn"
  shows "turn_ok num turn"
proof -
  have "length (listed (live_items turn)) \<le> LIVE_TURN_ITEM_LIMIT \<and> length (listed (live_overflow turn)) \<le> LIVE_TURN_OVERFLOW_LIMIT
    \<and> live_text turn = latest_text (kept_rows num items) \<and> kept_rows num items \<noteq> []"
    using assms(2) kept_rows_length [of num items]
    by (auto simp: bounded_turn_def Let_def listed_def split: if_splits)
  then show ?thesis
    using bounded_turn_rows [OF assms(2)] kept_rows_text [of num items] kept_rows_args [of num items] kept_rows_ok [OF assms(1)]
    by (simp add: turn_ok_def)
qed

section \<open>Rows through the events\<close>

text \<open>A change of a row that leaves its identity and its kind alone.\<close>

definition same_kind :: "live_item \<Rightarrow> live_item \<Rightarrow> bool" where
  "same_kind item item' \<longleftrightarrow> item_id item' = item_id item \<and> (item_tool item' = None \<longleftrightarrow> item_tool item = None)"

lemma update_first_ok:
  assumes "rows_ok num rows" "\<And>item. P item \<Longrightarrow> live_row_ok num item \<Longrightarrow> same_kind item (f item) \<and> live_row_ok num (f item)"
  shows "rows_ok num (update_first P f rows)"
proof -
  have "list_all (live_row_ok num) (update_first P f rows) \<and> call_ids (update_first P f rows) = call_ids rows"
    using assms by (induction rows) (auto simp: rows_ok_def same_kind_def)
  with assms(1) show ?thesis by (simp add: rows_ok_def)
qed

lemma prose_update_ok:
  assumes "rows_ok num rows" "\<And>item. P item \<Longrightarrow> item_tool item = None" "\<And>item. item_tool (f item) = item_tool item"
  shows "rows_ok num (update_first P f rows)"
proof -
  have "list_all (live_row_ok num) (update_first P f rows) \<and> call_ids (update_first P f rows) = call_ids rows"
    using assms by (induction rows) (auto simp: rows_ok_def live_row_ok_def)
  with assms(1) show ?thesis by (simp add: rows_ok_def)
qed

lemma last_row_ok:
  assumes "rows_ok num (rows @ [item])" "item_tool item = None" "item_tool item' = None"
  shows "rows_ok num (rows @ [item'])"
  using assms by (simp add: rows_ok_def live_row_ok_def)

lemma append_plain_ok: "rows_ok num rows \<Longrightarrow> item_tool item = None \<Longrightarrow> rows_ok num (rows @ [item])"
  by (simp add: rows_ok_def live_row_ok_def)

lemma plain_row_tool [simp]: "item_tool (plain_row i t phase s c) = None"
  by (simp add: plain_row_def)

lemma normalized_call_ids: "call_ids (normalizedList num rows) = call_ids (listed rows)"
proof (cases rows)
  case (Some items)
  have "call_ids (map (normalizedItem num) (filter shows_something items)) = call_ids items"
    by (induction items) (auto simp: normalizedItem_def Let_def shows_something_def)
  with Some show ?thesis by (simp add: normalizedList_def listed_def)
qed (simp add: normalizedList_def listed_def)

lemma itemsForTurn_rows_ok:
  assumes "case turn of Some v \<Rightarrow> turn_ok num v | None \<Rightarrow> True"
  shows "rows_ok num (itemsForTurn num turn turnId occurredAt)"
proof (cases turn)
  case (Some v)
  with assms have v: "live_items v \<noteq> None" "distinct (call_ids (all_rows v))" by (auto simp: turn_ok_def rows_ok_def)
  then have "call_ids (normalizedItems num v) = call_ids (all_rows v)"
    by (simp add: normalizedItems_def all_rows_def normalized_call_ids)
  moreover have "call_ids (map (\<lambda>item. if item_phase item = StreamingRow then item\<lparr>item_phase := p, item_completedAt := c item\<rparr> else item) rows) = call_ids rows"
    for p c rows by (induction rows) auto
  ultimately have "distinct (call_ids (itemsForTurn num turn turnId occurredAt))" using Some v by (simp add: itemsForTurn_def)
  with itemsForTurn_ok show ?thesis by (simp add: rows_ok_def)
qed (simp add: itemsForTurn_def rows_ok_def)

lemma assistant_text_ok:
  assumes "rows_ok num rows" "projectAssistantText rows identity occurredAt = Some rows'"
  shows "rows_ok num rows'"
proof -
  obtain i t where identity: "identity = (i, t)" by force
  let ?known = "\<lambda>item. item_tool item = None \<and> item_id item = i"
  consider (known) "rows' = update_first ?known (complete_prose t occurredAt) rows"
    | (streaming) latest where "at_last rows = Some latest" "streams latest"
        "rows' = butlast rows @ [(complete_prose t occurredAt (last rows))\<lparr>item_id := i\<rparr>]"
    | (added) "rows' = rows @ [plain_row i t AwaitingEcho occurredAt occurredAt]"
    using assms(2) by (auto simp: projectAssistantText_def identity Let_def split: if_splits option.splits)
  then show ?thesis
  proof cases
    case known
    then show ?thesis using assms(1) by (auto intro: prose_update_ok simp: complete_prose_def)
  next
    case streaming
    from streaming(1) have rows: "rows = butlast rows @ [latest]" by (rule at_last_Some)
    have "last rows = latest" using streaming(1) by (simp add: at_last_def split: if_split_asm)
    have tools: "item_tool latest = None" "item_tool ((complete_prose t occurredAt latest)\<lparr>item_id := i\<rparr>) = None"
      using streaming(2) by (simp_all add: streams_def complete_prose_def)
    have "rows_ok num (butlast rows @ [latest])" using assms(1) unfolding rows [symmetric] .
    from last_row_ok [OF this tools] show ?thesis using streaming(3) \<open>last rows = latest\<close> by simp
  next
    case added
    then show ?thesis using assms(1) by (simp add: append_plain_ok)
  qed
qed

lemma update_call_ok: "is_call c item \<Longrightarrow> live_row_ok num item \<Longrightarrow> same_kind item (update_call num activity occurredAt item) \<and> live_row_ok num (update_call num activity occurredAt item)"
proof -
  assume call: "is_call c item" and ok: "live_row_ok num item"
  then obtain tool where tool: "item_tool item = Some tool" by (auto simp: is_call_def)
  with ok have t: "tool_ok num tool" "item_text item = []" "item_phase item = AwaitingEcho" by (simp_all add: live_row_ok_def)
  define tool' where "tool' = the (item_tool (update_call num activity occurredAt item))"
  have "tool_args tool' = tool_args tool \<or> (\<exists>args. tool_args tool' = boundedToolArgs num (Some (VObj args)))"
    by (auto simp: tool'_def update_call_def Let_def tool split: option.split)
  then have "tool_ok num tool'" using t(1) tool_ok_args tool_ok_same by blast
  then show ?thesis using tool t by (simp add: same_kind_def live_row_ok_def tool'_def update_call_def Let_def)
qed

lemma new_call_ok: "live_row_ok num (new_call num activity occurredAt)"
  using tool_ok_args [of _ num "Some (VObj (case act_args activity of Some args \<Rightarrow> args | None \<Rightarrow> []))"]
  by (simp add: live_row_ok_def new_call_def plain_row_def)

lemma tool_activity_ok:
  assumes "rows_ok num rows"
  shows "rows_ok num (projectToolActivity num occurredAt rows activity)"
proof (cases "list_ex (is_call (act_call activity)) rows")
  case True
  with assms show ?thesis by (auto simp: projectToolActivity_def intro!: update_first_ok update_call_ok)
next
  case False
  then have "Some (act_call activity) \<notin> set (call_ids rows)"
    by (auto simp: call_ids_def list_ex_iff is_call_def)
  with False assms new_call_ok [of num activity occurredAt] show ?thesis
    by (simp add: projectToolActivity_def rows_ok_def new_call_def plain_row_def)
qed

lemma enumerate_ok:
  assumes "rows_ok num rows" "\<And>n item. live_row_ok num item \<Longrightarrow> same_kind item (f n item) \<and> live_row_ok num (f n item)"
  shows "rows_ok num (map (\<lambda>(n, item). f n item) (enumerate k rows))"
proof -
  have "list_all (live_row_ok num) (map (\<lambda>(n, item). f n item) (enumerate k rows)) \<and> call_ids (map (\<lambda>(n, item). f n item) (enumerate k rows)) = call_ids rows"
    using assms by (induction rows arbitrary: k) (auto simp: rows_ok_def same_kind_def)
  with assms(1) show ?thesis by (simp add: rows_ok_def)
qed

lemma settled_rows_ok:
  assumes "rows_ok num rows" "settleOmittedResults parse rows missing settled occurredAt = Some rows'"
  shows "rows_ok num rows'"
proof -
  have one: "live_row_ok num item \<Longrightarrow> same_kind item (settle_unknown occurredAt item) \<and> live_row_ok num (settle_unknown occurredAt item)" for item
    by (auto simp: same_kind_def live_row_ok_def settle_unknown_def tool_ok_def argsBytes_def split: option.splits if_splits)
  have "same_kind item item" for item by (simp add: same_kind_def)
  with assms one show ?thesis
    by (auto simp: settleOmittedResults_def Let_def split: if_splits intro!: enumerate_ok)
qed

lemma omitted_calls_ok:
  assumes "rows_ok num rows" "projectOmittedToolCalls rows missing source occurredAt = Some rows'"
  shows "rows_ok num rows'"
  using assms
  by (auto simp: projectOmittedToolCalls_def Let_def same_kind_def live_row_ok_def split: if_splits option.splits
      intro!: update_first_ok append_plain_ok)

section \<open>A run\<close>

lemma changed_by_ok:
  assumes "rows_ok num (fst s)" "\<And>rows rows'. rows_ok num rows \<Longrightarrow> f rows = Some rows' \<Longrightarrow> rows_ok num rows'"
  shows "rows_ok num (fst (changed_by f s))"
  using assms by (auto simp: changed_by_def split: option.split)

lemma activities_ok:
  "rows_ok num (fst s) \<Longrightarrow>
   rows_ok num (fst (fold (\<lambda>activity. changed_by (\<lambda>rows. Some (projectToolActivity num occurredAt rows activity))) activities s))"
proof (induction activities arbitrary: s)
  case (Cons activity activities)
  have "rows_ok num (fst (changed_by (\<lambda>rows. Some (projectToolActivity num occurredAt rows activity)) s))"
    using Cons.prems by (rule changed_by_ok) (auto simp: tool_activity_ok)
  from Cons.IH [OF this] show ?case by simp
qed simp

lemma projected_rows_ok:
  "rows_ok num before \<Longrightarrow> rows_ok num (fst (projected_rows num parse item completed occurredAt before))"
  unfolding projected_rows_def Let_def
  by (intro changed_by_ok activities_ok) (auto intro: assistant_text_ok settled_rows_ok omitted_calls_ok split: option.splits)

definition live_ok :: "(rat \<Rightarrow> utext) \<Rightarrow> live_turn option \<Rightarrow> bool" where
  "live_ok num turn \<longleftrightarrow> (case turn of Some v \<Rightarrow> turn_ok num v | None \<Rightarrow> True)"

lemma bounded_live_ok: "rows_ok num rows \<Longrightarrow> live_ok num (bounded_turn num turnId rows)"
  using bounded_turn_ok by (auto simp: live_ok_def split: option.split)

lemma delta_rows_ok:
  assumes "rows_ok num current"
  shows "rows_ok num (append_fragment fragment occurredAt current)"
proof (cases "at_last current")
  case (Some latest)
  then have current: "current = butlast current @ [latest]" by (rule at_last_Some)
  have "rows_ok num (butlast current @ [latest])" using assms unfolding current [symmetric] .
  with Some assms show ?thesis by (auto intro: last_row_ok append_plain_ok simp: streams_def append_fragment_def)
qed (simp add: assms append_plain_ok append_fragment_def)

lemma live_step_ok: "live_ok num turn \<Longrightarrow> live_ok num (live_step num parse event turn)"
proof (cases event)
  case (LiveDelta turnId fragment occurredAt)
  assume "live_ok num turn"
  moreover from this have "rows_ok num (itemsForTurn num turn turnId occurredAt)"
    by (intro itemsForTurn_rows_ok) (simp add: live_ok_def)
  ultimately show ?thesis using bounded_live_ok [OF delta_rows_ok] LiveDelta
    by (simp add: appendRuntimeLiveTurnDelta_def Let_def)
next
  case (LiveItem turnId item completed occurredAt)
  assume "live_ok num turn"
  moreover from this have "rows_ok num (itemsForTurn num turn turnId occurredAt)"
    by (intro itemsForTurn_rows_ok) (simp add: live_ok_def)
  then have "rows_ok num (fst (projected_rows num parse item completed occurredAt (itemsForTurn num turn turnId occurredAt)))"
    by (rule projected_rows_ok)
  ultimately show ?thesis using bounded_live_ok LiveItem
    by (auto simp: projectRuntimeLiveTurnItem_def split: prod.split)
qed

interpretation live: machine "live_step num parse" "live_ok num" for num parse
  by unfold_locales (rule live_step_ok)

end
