(* ===== verification/Live_Turn_Properties.thy ===== *)
theory Live_Turn_Properties
  imports Live_Turn_Events
begin

text \<open>
  The results about a live turn: its limits and its one row per call, what the row of a call shows
  after an event, and that no streamed character goes uncounted.
\<close>

section \<open>The status of a call\<close>

definition shown_status :: "live_item list \<Rightarrow> utext \<Rightarrow> tool_status option" where
  "shown_status rows c = (case find (is_call c) rows of Some item \<Rightarrow> map_option tool_status (item_tool item) | None \<Rightarrow> None)"

text \<open>What one report does to the status of a call: a finish sets it, a call record only starts it.\<close>

definition call_report :: "utext \<Rightarrow> tool_activity \<Rightarrow> tool_status option \<Rightarrow> tool_status option" where
  "call_report c activity status =
     (if act_call activity \<noteq> c then status
      else if act_finished activity \<or> status = None \<or> status = Some ToolRun then Some (act_status activity) else status)"

lemma shown_status_simps [simp]: "shown_status [] c = None"
  "shown_status (item # rows) c = (if is_call c item then map_option tool_status (item_tool item) else shown_status rows c)"
  by (simp_all add: shown_status_def)

lemma call_status_append: "shown_status (rows @ others) c = (if shown_status rows c = None then shown_status others c else shown_status rows c)"
  by (induction rows) (auto simp: is_call_def)

lemma call_status_ids: "shown_status rows c \<noteq> None \<longleftrightarrow> Some c \<in> set (call_ids rows)"
  by (induction rows) (auto simp: is_call_def)

lemma call_status_strip: "shown_status (rev (strip_args num budget (rev rows))) c = shown_status rows c"
proof -
  have "list_all2 (\<lambda>item item'. is_call c item' = is_call c item
      \<and> map_option tool_status (item_tool item') = map_option tool_status (item_tool item)) items (strip_args num budget items)" for items
    by (induction num budget items rule: strip_args.induct) (auto simp: is_call_def split: option.splits)
  from this [of "rev rows"] have "list_all2 (\<lambda>item item'. is_call c item' = is_call c item
      \<and> map_option tool_status (item_tool item') = map_option tool_status (item_tool item)) rows (rev (strip_args num budget (rev rows)))"
    by (simp add: list_all2_rev1)
  then show ?thesis by (induction rule: list_all2_induct) auto
qed

lemma call_status_trim: "shown_status (trim_rows excess items) c = shown_status items c"
  by (induction excess items rule: trim_rows.induct) (auto simp: Let_def is_call_def)

lemma call_status_kept:
  assumes "rows_ok num rows" "shown_status (kept_rows num rows) c \<noteq> None"
  shows "shown_status (kept_rows num rows) c = shown_status rows c"
proof -
  have kept: "shown_status (kept_rows num rows) c = shown_status (fold_oldest rows) c"
    using call_status_strip [of num LIVE_TURN_TOOL_ARGS_LIMIT _ c] by (simp add: kept_rows_def Let_def call_status_trim)
  show ?thesis
  proof (cases rows rule: fold_oldest_suffix)
    case (folded n summary)
    then have here: "shown_status (kept_rows num rows) c = shown_status (drop n rows) c" using kept by (simp add: is_call_def)
    then have "Some c \<in> set (call_ids (drop n rows))" using assms(2) call_status_ids by metis
    moreover have "distinct (call_ids (take n rows) @ call_ids (drop n rows))"
      using assms(1) by (metis append_take_drop_id call_ids_simps(2) rows_ok_def)
    ultimately have "shown_status (take n rows) c = None" using call_status_ids [of "take n rows" c] by auto
    then show ?thesis using here call_status_append [of "take n rows" "drop n rows" c] by simp
  qed (simp add: kept)
qed

lemma call_status_update_first:
  assumes "\<And>item. P item \<Longrightarrow> is_call c (f item) = is_call c item \<and> map_option tool_status (item_tool (f item)) = map_option tool_status (item_tool item)"
  shows "shown_status (update_first P f rows) c = shown_status rows c"
  using assms by (induction rows) auto

lemma call_status_prose:
  assumes "projectAssistantText rows identity occurredAt = Some rows'"
  shows "shown_status rows' c = shown_status rows c"
proof -
  obtain i t where identity: "identity = (i, t)" by force
  let ?known = "\<lambda>item. item_tool item = None \<and> item_id item = i"
  consider (known) "rows' = update_first ?known (complete_prose t occurredAt) rows"
    | (streaming) latest where "at_last rows = Some latest" "streams latest"
        "rows' = butlast rows @ [(complete_prose t occurredAt (last rows))\<lparr>item_id := i\<rparr>]"
    | (added) "rows' = rows @ [plain_row i t AwaitingEcho occurredAt occurredAt]"
    using assms by (auto simp: projectAssistantText_def identity Let_def split: if_splits option.splits)
  then show ?thesis
  proof cases
    case known
    then show ?thesis by (simp add: call_status_update_first complete_prose_def is_call_def)
  next
    case streaming
    from at_last_Some [OF streaming(1)] have rows: "shown_status rows c = shown_status (butlast rows @ [latest]) c" by (rule arg_cong)
    have "last rows = latest" using streaming(1) by (simp add: at_last_def split: if_split_asm)
    then show ?thesis using streaming(2,3) unfolding rows by (simp add: call_status_append is_call_def streams_def complete_prose_def)
  next
    case added
    then show ?thesis by (simp add: call_status_append is_call_def)
  qed
qed

lemma call_status_activity:
  "shown_status (projectToolActivity num occurredAt rows activity) c = call_report c activity (shown_status rows c)"
proof (cases "list_ex (is_call (act_call activity)) rows")
  case True
  have "shown_status (update_first (is_call (act_call activity)) (update_call num activity occurredAt) rows) c
    = call_report c activity (shown_status rows c)"
    using True by (induction rows) (auto simp: is_call_def call_report_def update_call_def Let_def)
  with True show ?thesis by (simp add: projectToolActivity_def)
next
  case False
  then have "shown_status rows (act_call activity) = None" by (induction rows) auto
  then show ?thesis using False
    by (cases "act_call activity = c") (simp_all add: projectToolActivity_def call_status_append is_call_def new_call_def plain_row_def call_report_def)
qed

lemma call_status_settled:
  assumes "settleOmittedResults parse rows missing settled occurredAt = Some rows'"
  shows "shown_status rows' c = shown_status rows c \<or> shown_status rows c = Some ToolRun \<and> shown_status rows' c = Some ToolUnknown"
    and "0 < missing"
proof -
  define candidates where "candidates = filter (\<lambda>n. may_settle parse settled occurredAt (rows ! n)) [0..<length rows]"
  define chosen where "chosen = drop (length candidates - missing) candidates"
  from assms have rows': "rows' = map (\<lambda>(n, item). if n \<in> set chosen then settle_unknown occurredAt item else item) (enumerate 0 rows)"
    and "0 < missing" by (auto simp: settleOmittedResults_def Let_def chosen_def candidates_def split: if_splits)
  then show "0 < missing" by blast
  have chosen: "\<forall>n \<in> set chosen. n < length rows \<and> may_settle parse settled occurredAt (rows ! n)"
    by (auto simp: chosen_def candidates_def dest!: in_set_dropD)
  have one: "shown_status (map (\<lambda>(n, item). if n \<in> set chosen then settle_unknown occurredAt item else item) (enumerate k items)) c = shown_status items c
      \<or> shown_status items c = Some ToolRun
        \<and> shown_status (map (\<lambda>(n, item). if n \<in> set chosen then settle_unknown occurredAt item else item) (enumerate k items)) c = Some ToolUnknown"
    if "items = drop k rows" "k \<le> length rows" for items k
    using that
  proof (induction items arbitrary: k)
    case (Cons item items)
    then have k: "k < length rows" "rows ! k = item" by (metis drop_eq_Nil2 list.distinct(1) not_le, metis Cons_nth_drop_Suc drop_eq_Nil2 linorder_not_less list.inject list.distinct(1))
    have rest: "items = drop (Suc k) rows" "Suc k \<le> length rows"
      using Cons.prems k(1) by (metis drop_Suc drop_tl list.sel(3), simp)
    show ?case
    proof (cases "is_call c item \<and> k \<in> set chosen")
      case True
      with chosen k(2) have "may_settle parse settled occurredAt item" by auto
      then show ?thesis using True by (auto simp: may_settle_def is_call_def settle_unknown_def split: option.splits)
    next
      case False
      then show ?thesis using Cons.IH [OF rest] by (auto simp: is_call_def settle_unknown_def)
    qed
  qed simp
  show "shown_status rows' c = shown_status rows c \<or> shown_status rows c = Some ToolRun \<and> shown_status rows' c = Some ToolUnknown"
    using one [of rows 0] rows' by simp
qed

lemma call_status_omitted:
  assumes "projectOmittedToolCalls rows missing source occurredAt = Some rows'"
  shows "shown_status rows' c = shown_status rows c"
  using assms
  by (auto simp: projectOmittedToolCalls_def Let_def is_call_def call_status_append split: if_splits option.splits
      intro!: call_status_update_first)

lemma call_status_normalized: "shown_status (normalizedList num rows) c = shown_status (listed rows) c"
proof (cases rows)
  case (Some items)
  have "shown_status (map (normalizedItem num) (filter shows_something items)) c = shown_status items c"
    by (induction items) (auto simp: normalizedItem_def normalizedTool_def Let_def shows_something_def is_call_def)
  with Some show ?thesis by (simp add: normalizedList_def listed_def)
qed (simp add: normalizedList_def listed_def)

definition turn_rows :: "live_turn option \<Rightarrow> live_item list" where
  "turn_rows turn = (case turn of Some v \<Rightarrow> all_rows v | None \<Rightarrow> [])"

lemma call_status_current:
  assumes "live_ok num turn"
  shows "shown_status (itemsForTurn num turn turnId occurredAt) c = shown_status (turn_rows turn) c"
proof (cases turn)
  case (Some v)
  with assms have "live_items v \<noteq> None" by (simp add: live_ok_def turn_ok_def)
  then have v: "shown_status (normalizedItems num v) c = shown_status (all_rows v) c"
    by (simp add: normalizedItems_def all_rows_def call_status_append call_status_normalized)
  have "shown_status (map (\<lambda>item. if item_phase item = StreamingRow then item\<lparr>item_phase := p, item_completedAt := at_time item\<rparr> else item) rows) c = shown_status rows c"
    for p at_time rows by (induction rows) (auto simp: is_call_def)
  with Some v show ?thesis by (simp add: itemsForTurn_def turn_rows_def)
qed (simp add: itemsForTurn_def turn_rows_def)

lemma call_status_activities:
  "shown_status (fst (fold (\<lambda>activity. changed_by (\<lambda>rows. Some (projectToolActivity num occurredAt rows activity))) activities s)) c
   = fold (call_report c) activities (shown_status (fst s) c)"
  by (induction activities arbitrary: s) (simp_all add: changed_by_def call_status_activity)

text \<open>The reports of an event, and the results its projection lost.\<close>

fun event_reports :: "live_event \<Rightarrow> tool_activity list" where
  "event_reports (LiveDelta turnId fragment occurredAt) = []"
| "event_reports (LiveItem turnId item completed occurredAt) = toolActivities item completed"

fun lost_results :: "live_event \<Rightarrow> nat" where
  "lost_results (LiveDelta turnId fragment occurredAt) = 0"
| "lost_results (LiveItem turnId item completed occurredAt) = (if completed then omittedCount item ''omittedToolResults'' else 0)"

lemma call_status_delta:
  "shown_status (append_fragment fragment occurredAt current) c = shown_status current c"
proof (cases "at_last current")
  case (Some latest)
  from at_last_Some [OF this] have current: "shown_status current c = shown_status (butlast current @ [latest]) c" by (rule arg_cong)
  show ?thesis
  proof (cases "streams latest")
    case True
    then show ?thesis using Some unfolding current by (simp add: append_fragment_def call_status_append is_call_def streams_def)
  qed (simp add: append_fragment_def Some call_status_append is_call_def)
qed (simp add: append_fragment_def call_status_append is_call_def)

definition settled_like :: "nat \<Rightarrow> tool_status option \<Rightarrow> tool_status option \<Rightarrow> bool" where
  "settled_like lost expected shown \<longleftrightarrow> shown = expected \<or> expected = Some ToolRun \<and> shown = Some ToolUnknown \<and> 0 < lost"

lemma call_status_projected:
  fixes num :: "rat \<Rightarrow> utext" and parse :: "utext \<Rightarrow> int option" and before :: "live_item list"
    and item :: js_value and completed :: bool and occurredAt :: "utext option"
  defines "out \<equiv> projected_rows num parse item completed occurredAt before"
  shows "settled_like (lost_results (LiveItem turnId item completed occurredAt))
      (fold (call_report c) (toolActivities item completed) (shown_status before c)) (shown_status (fst out) c)"
    and "\<not> snd out \<Longrightarrow> toolActivities item completed = []"
proof -
  let ?identity = "if completed then itemIdentity item else None" and ?activities = "toolActivities item completed"
  let ?omitted = "if completed then omittedCount item ''omittedToolCalls'' else 0"
  let ?results = "if completed then omittedCount item ''omittedToolResults'' else 0"
  let ?settled = "act_call ` {a \<in> set ?activities. act_finished a}"
  define spoken where "spoken = changed_by (\<lambda>rows. case ?identity of Some i \<Rightarrow> projectAssistantText rows i occurredAt | None \<Rightarrow> None) (before, False)"
  define called where "called = fold (\<lambda>activity. changed_by (\<lambda>rows. Some (projectToolActivity num occurredAt rows activity))) ?activities spoken"
  define counted where "counted = changed_by (\<lambda>rows. projectOmittedToolCalls rows ?omitted (messageSourceId item) occurredAt) called"
  have out: "out = changed_by (\<lambda>rows. settleOmittedResults parse rows ?results ?settled occurredAt) counted"
    unfolding out_def projected_rows_def Let_def spoken_def called_def counted_def by (rule refl)
  have "shown_status (fst spoken) c = shown_status before c"
    by (auto simp: spoken_def changed_by_def call_status_prose split: option.split)
  then have "shown_status (fst called) c = fold (call_report c) ?activities (shown_status before c)"
    by (simp add: called_def call_status_activities)
  moreover have "shown_status (fst counted) c = shown_status (fst called) c"
    by (auto simp: counted_def changed_by_def call_status_omitted split: option.split)
  moreover have "settled_like ?results (shown_status (fst counted) c) (shown_status (fst out) c)"
  proof (cases "settleOmittedResults parse (fst counted) ?results ?settled occurredAt")
    case (Some rows)
    with call_status_settled(1) [OF Some, of c] call_status_settled(2) [OF Some] show ?thesis by (simp only: out changed_by_def settled_like_def option.case fst_conv) blast
  qed (simp add: out changed_by_def settled_like_def)
  ultimately show "settled_like (lost_results (LiveItem turnId item completed occurredAt))
      (fold (call_report c) ?activities (shown_status before c)) (shown_status (fst out) c)" by simp
  have touched: "snd (changed_by f s) \<or> \<not> snd s" for f s by (auto simp: changed_by_def split: option.split)
  have marked: "snd s \<Longrightarrow> snd (fold (\<lambda>activity. changed_by (\<lambda>rows. Some (projectToolActivity num occurredAt rows activity))) as s)" for as s
    by (induction as arbitrary: s) (auto simp: changed_by_def)
  assume "\<not> snd out"
  with touched [of _ counted] touched [of _ called] have "\<not> snd called" unfolding out counted_def by blast
  then show "?activities = []" using marked unfolding called_def by (cases ?activities) (auto simp: changed_by_def)
qed

text \<open>C35. The row of a tool call shows what its reports say: after any event, a call that still has a
  row has the status its reports give it, where a finish sets the outcome and a call record only
  starts a call, so a replayed call record never puts a finished call back to running; the one
  exception is a running call whose result the event says it lost, which may become unknown.\<close>

theorem live_call_status:
  fixes num :: "rat \<Rightarrow> utext" and parse :: "utext \<Rightarrow> int option" and history :: "live_event list" and event :: live_event
  defines "before \<equiv> fold (live_step num parse) history None"
  defines "after \<equiv> live_step num parse event before"
  assumes "shown_status (turn_rows after) c \<noteq> None"
  shows "settled_like (lost_results event) (fold (call_report c) (event_reports event) (shown_status (turn_rows before) c))
    (shown_status (turn_rows after) c)"
proof -
  have ok: "live_ok num before" unfolding before_def by (rule live.run_ok) (simp add: live_ok_def)
  have bounded: "shown_status (turn_rows (bounded_turn num turnId rows)) c = shown_status rows c"
    if "rows_ok num rows" "shown_status (turn_rows (bounded_turn num turnId rows)) c \<noteq> None" for turnId rows
    using that call_status_kept [OF that(1), of c] bounded_turn_rows(1) [of num turnId rows]
    by (auto simp: turn_rows_def split: option.splits)
  have current: "rows_ok num (itemsForTurn num before turnId at_time)" for turnId at_time
    using ok by (intro itemsForTurn_rows_ok) (simp add: live_ok_def)
  show ?thesis
  proof (cases event)
    case (LiveDelta turnId fragment at_time)
    then show ?thesis using assms(3) bounded [OF delta_rows_ok [OF current]] call_status_current [OF ok]
      by (simp add: after_def appendRuntimeLiveTurnDelta_def Let_def call_status_delta settled_like_def split: if_split_asm)
  next
    case (LiveItem turnId item completed at_time)
    let ?out = "projected_rows num parse item completed at_time (itemsForTurn num before turnId at_time)"
    note projected = call_status_projected(1) [where num = num and parse = parse and item = item and completed = completed
        and occurredAt = at_time and before = "itemsForTurn num before turnId at_time" and turnId = turnId and c = c]
      call_status_projected(2) [where num = num and parse = parse and item = item and completed = completed
        and occurredAt = at_time and before = "itemsForTurn num before turnId at_time"]
    have after: "after = (if snd ?out then bounded_turn num turnId (fst ?out) else before)"
      using LiveItem by (simp add: after_def projectRuntimeLiveTurnItem_def split: prod.split)
    show ?thesis
    proof (cases "snd ?out")
      case True
      then have "shown_status (turn_rows after) c = shown_status (fst ?out) c"
        using assms(3) bounded [OF projected_rows_ok [OF current]] after by simp
      then show ?thesis using projected(1) LiveItem call_status_current [OF ok] by simp
    next
      case False
      then show ?thesis using projected(2) after LiveItem by (simp add: settled_like_def)
    qed
  qed
qed

end
