(* ===== verification/Live_Prose.thy ===== *)
theory Live_Prose
  imports Live_Turn_Properties
begin

text \<open>
  The characters of a live turn: what the window of \<open>src/lib/runtime/liveTurn.ts\<close> cuts to keep
  its bounds is counted, so shown and omitted characters add up to what was streamed.
\<close>

section \<open>Characters through the bounds\<close>

definition clean_rows :: "live_item list \<Rightarrow> bool" where
  "clean_rows rows \<longleftrightarrow> list_all (\<lambda>item. clean_text (item_text item)) rows"

definition row_chars :: "live_item list \<Rightarrow> nat" where
  "row_chars rows = sum_list (map chars_of rows)"

lemma row_chars_simps [simp]: "row_chars [] = 0" "row_chars (item # rows) = chars_of item + row_chars rows"
  "row_chars (rows @ others) = row_chars rows + row_chars others" "row_chars (rev rows) = row_chars rows"
  by (simp_all add: row_chars_def rev_map [symmetric])

lemma clean_rows_simps [simp]: "clean_rows []" "clean_rows (item # rows) \<longleftrightarrow> clean_text (item_text item) \<and> clean_rows rows"
  "clean_rows (rows @ others) \<longleftrightarrow> clean_rows rows \<and> clean_rows others" "clean_rows (rev rows) = clean_rows rows"
  by (simp_all add: clean_rows_def)

lemma clean_Nil [simp]: "clean_text []" "char_count [] = 0"
  by (simp_all add: clean_text_def char_count_def)

lemma trim_rows_chars: "clean_rows items \<Longrightarrow> row_chars (trim_rows excess items) = row_chars items \<and> clean_rows (trim_rows excess items)"
proof (induction excess items rule: trim_rows.induct)
  case (2 excess item items)
  show ?case
  proof (cases "excess = 0")
    case False
    from 2 have clean: "clean_text (item_text item)" "clean_rows items" by auto
    note rest = 2(1) [OF False refl refl clean(2)]
    from trim_counts [OF clean(1), of excess] rest False show ?thesis
      by (simp add: Let_def chars_of_def nat_or_zero_def)
  qed (use 2 in simp)
qed simp

lemma strip_args_chars: "row_chars (strip_args num budget items) = row_chars items"
  using strip_args_shape(5) [of num budget items] by (simp add: row_chars_def)

lemma strip_args_clean: "clean_rows (strip_args num budget items) = clean_rows items"
  by (induction num budget items rule: strip_args.induct) (auto split: option.split)

lemma fold_oldest_chars: "row_chars (fold_oldest items) = row_chars items \<and> (clean_rows items \<longrightarrow> clean_rows (fold_oldest items))"
proof (cases items rule: fold_oldest_suffix)
  case (folded n summary)
  have "row_chars items = row_chars (take n items) + row_chars (drop n items)"
    by (metis append_take_drop_id row_chars_simps(3))
  moreover have "clean_rows items \<longrightarrow> clean_rows (drop n items)" by (metis append_take_drop_id clean_rows_simps(3))
  ultimately show ?thesis using folded(2,4,5) by (simp add: row_chars_def)
qed simp

lemma kept_rows_chars: "clean_rows items \<Longrightarrow> row_chars (kept_rows num items) = row_chars items \<and> clean_rows (kept_rows num items)"
  using fold_oldest_chars [of items] trim_rows_chars [of "fold_oldest items"]
  by (simp add: kept_rows_def Let_def strip_args_chars strip_args_clean)

lemma fold_oldest_Nil: "fold_oldest items = [] \<longleftrightarrow> items = []"
  by (cases items rule: fold_oldest_suffix) auto

lemma kept_rows_Nil: "kept_rows num items = [] \<longleftrightarrow> items = []"
proof -
  have "length (kept_rows num items) = length (fold_oldest items)" by (simp add: kept_rows_def Let_def trim_rows_shape(1))
  then show ?thesis using fold_oldest_Nil by (metis length_0_conv)
qed

definition clean_turn :: "live_turn option \<Rightarrow> bool" where
  "clean_turn turn \<longleftrightarrow> clean_rows (turn_rows turn)"

definition turn_chars :: "live_turn option \<Rightarrow> nat" where
  "turn_chars turn = row_chars (turn_rows turn)"

lemma bounded_turn_chars:
  "clean_rows rows \<Longrightarrow> turn_chars (bounded_turn num turnId rows) = row_chars rows \<and> clean_turn (bounded_turn num turnId rows)"
proof (cases "bounded_turn num turnId rows")
  case None
  then have "rows = []" by (auto simp: bounded_turn_def Let_def kept_rows_Nil split: if_split_asm)
  with None show ?thesis by (simp add: turn_chars_def clean_turn_def turn_rows_def)
next
  case (Some turn)
  assume "clean_rows rows"
  with kept_rows_chars bounded_turn_rows(1) [OF Some] Some show ?thesis by (simp add: turn_chars_def clean_turn_def turn_rows_def)
qed

section \<open>Characters through the events\<close>

lemma or_zero_positive [simp]: "nat_or_zero (positive n) = nat_or_zero n"
  by (cases n rule: positive.cases) (auto simp: nat_or_zero_def)

lemma normalized_chars:
  assumes "list_all (live_row_ok num) rows"
  shows "row_chars (map (normalizedItem num) (filter shows_something rows)) = row_chars rows
    \<and> (clean_rows rows \<longrightarrow> clean_rows (map (normalizedItem num) (filter shows_something rows)))"
  using assms
proof (induction rows)
  case (Cons item rows)
  have "chars_of (normalizedItem num item) = chars_of item" using Cons.prems
    by (cases "item_tool item") (simp_all add: normalizedItem_def Let_def chars_of_def live_row_ok_def)
  moreover have "chars_of item = 0" if "\<not> shows_something item"
    using that by (cases "item_omittedChars item" rule: positive.cases)
      (auto simp: shows_something_def chars_of_def nat_or_zero_def split: if_split_asm)
  moreover have "clean_text (item_text item) \<longrightarrow> clean_text (item_text (normalizedItem num item))"
    by (simp add: normalizedItem_def Let_def)
  ultimately show ?case using Cons by auto
qed simp

lemma current_chars:
  assumes "live_ok num turn"
  shows "row_chars (itemsForTurn num turn turnId occurredAt) = turn_chars turn
    \<and> (clean_turn turn \<longrightarrow> clean_rows (itemsForTurn num turn turnId occurredAt))"
proof (cases turn)
  case (Some v)
  with assms have v: "live_items v \<noteq> None" "list_all (live_row_ok num) (all_rows v)" by (simp_all add: live_ok_def turn_ok_def rows_ok_def)
  then obtain items where items: "live_items v = Some items" by blast
  have "list_all (live_row_ok num) (listed (live_overflow v))" "list_all (live_row_ok num) items"
    using v(2) items by (simp_all add: all_rows_def listed_def)
  from normalized_chars [OF this(1)] normalized_chars [OF this(2)]
  have "row_chars (normalizedItems num v) = row_chars (all_rows v) \<and> (clean_rows (all_rows v) \<longrightarrow> clean_rows (normalizedItems num v))"
    by (auto simp: normalizedItems_def normalizedList_def all_rows_def listed_def items split: option.split)
  moreover have "row_chars (map (\<lambda>item. if item_phase item = StreamingRow then item\<lparr>item_phase := p, item_completedAt := at_time item\<rparr> else item) rows) = row_chars rows
      \<and> clean_rows (map (\<lambda>item. if item_phase item = StreamingRow then item\<lparr>item_phase := p, item_completedAt := at_time item\<rparr> else item) rows) = clean_rows rows"
    for p at_time rows by (induction rows) (simp_all add: chars_of_def)
  ultimately show ?thesis using Some by (simp add: itemsForTurn_def turn_chars_def clean_turn_def turn_rows_def)
qed (simp add: itemsForTurn_def turn_chars_def clean_turn_def turn_rows_def)

text \<open>A change of the rows that touches no prose.\<close>

definition same_prose :: "live_item list \<Rightarrow> live_item list \<Rightarrow> bool" where
  "same_prose rows rows' \<longleftrightarrow> row_chars rows' = row_chars rows \<and> (clean_rows rows \<longrightarrow> clean_rows rows')"

lemma same_prose_update:
  assumes "\<And>item. item_text (f item) = item_text item" "\<And>item. item_omittedChars (f item) = item_omittedChars item"
  shows "same_prose rows (update_first P f rows)"
  using assms by (induction rows) (auto simp: same_prose_def chars_of_def)

lemma same_prose_append: "item_text item = [] \<Longrightarrow> item_omittedChars item = None \<Longrightarrow> same_prose rows (rows @ [item])"
  by (simp add: same_prose_def chars_of_def nat_or_zero_def)

lemma tool_activity_prose: "same_prose rows (projectToolActivity num occurredAt rows activity)"
  by (auto simp: projectToolActivity_def update_call_def Let_def new_call_def plain_row_def intro!: same_prose_update same_prose_append)

lemma omitted_calls_prose: "projectOmittedToolCalls rows missing source occurredAt = Some rows' \<Longrightarrow> same_prose rows rows'"
  by (auto simp: projectOmittedToolCalls_def Let_def plain_row_def split: if_split_asm option.split_asm
      intro!: same_prose_update same_prose_append)

lemma settle_prose: "settleOmittedResults parse rows missing settled occurredAt = Some rows' \<Longrightarrow> same_prose rows rows'"
proof -
  have "same_prose items (map (\<lambda>(n, item). if n \<in> chosen then settle_unknown occurredAt item else item) (enumerate k items))" for items k chosen
    by (induction items arbitrary: k) (auto simp: same_prose_def settle_unknown_def chars_of_def)
  then show "settleOmittedResults parse rows missing settled occurredAt = Some rows' \<Longrightarrow> same_prose rows rows'"
    by (auto simp: settleOmittedResults_def Let_def split: if_split_asm)
qed

lemma changed_by_prose:
  "same_prose before (fst s) \<Longrightarrow> (\<And>rows rows'. f rows = Some rows' \<Longrightarrow> same_prose rows rows') \<Longrightarrow> same_prose before (fst (changed_by f s))"
  by (fastforce simp: changed_by_def same_prose_def split: option.split)

lemma activities_prose:
  "same_prose before (fst s) \<Longrightarrow>
   same_prose before (fst (fold (\<lambda>activity. changed_by (\<lambda>rows. Some (projectToolActivity num occurredAt rows activity))) activities s))"
proof (induction activities arbitrary: s)
  case (Cons activity activities)
  have "same_prose before (fst (changed_by (\<lambda>rows. Some (projectToolActivity num occurredAt rows activity)) s))"
    using Cons.prems by (rule changed_by_prose) (auto simp: tool_activity_prose)
  from Cons.IH [OF this] show ?case by simp
qed simp

lemma projected_prose:
  assumes "completed \<longrightarrow> itemIdentity item = None"
  shows "same_prose before (fst (projected_rows num parse item completed occurredAt before))"
proof -
  have "(if completed then itemIdentity item else None) = None" using assms by simp
  then show ?thesis unfolding projected_rows_def Let_def
    by (intro changed_by_prose activities_prose) (auto simp: same_prose_def dest: settle_prose omitted_calls_prose)
qed

text \<open>An event that streams whole characters or reports on tools; the mark a decoder drops is not one.\<close>

fun stream_event :: "live_event \<Rightarrow> bool" where
  "stream_event (LiveDelta turnId fragment occurredAt) \<longleftrightarrow> clean_text fragment"
| "stream_event (LiveItem turnId item completed occurredAt) \<longleftrightarrow> (completed \<longrightarrow> itemIdentity item = None)"

fun streamed_chars :: "live_event \<Rightarrow> nat" where
  "streamed_chars (LiveDelta turnId fragment occurredAt) = char_count fragment"
| "streamed_chars (LiveItem turnId item completed occurredAt) = 0"

lemma delta_chars:
  fixes occurredAt :: "utext option"
  assumes "clean_rows current" "clean_text fragment"
  defines "rows \<equiv> append_fragment fragment occurredAt current"
  shows "row_chars rows = row_chars current + char_count fragment \<and> clean_rows rows"
proof -
  have plain: "chars_of (plain_row None fragment StreamingRow occurredAt None) = char_count fragment"
    "item_text (plain_row None fragment StreamingRow occurredAt None) = fragment"
    by (simp_all add: plain_row_def chars_of_def nat_or_zero_def)
  show ?thesis
  proof (cases "at_last current")
    case (Some latest)
    from at_last_Some [OF this] have sums: "row_chars current = row_chars (butlast current @ [latest])"
      "clean_rows current = clean_rows (butlast current @ [latest])" by (auto intro: arg_cong)
    show ?thesis
    proof (cases "streams latest")
      case True
      have "clean_text (item_text latest)" "clean_rows (butlast current)" using assms(1) unfolding sums by simp_all
      with clean_append [of "item_text latest" fragment] assms(2) True Some sums(1)
      show ?thesis by (simp add: rows_def append_fragment_def chars_of_def)
    qed (simp add: rows_def append_fragment_def Some plain assms)
  qed (simp add: rows_def append_fragment_def plain assms)
qed

lemma stream_step:
  assumes "live_ok num turn" "clean_turn turn" "stream_event event"
  shows "turn_chars (live_step num parse event turn) = turn_chars turn + streamed_chars event
    \<and> clean_turn (live_step num parse event turn)"
proof (cases event)
  case (LiveDelta turnId fragment at_time)
  let ?current = "itemsForTurn num turn turnId at_time"
  have "clean_rows ?current" "row_chars ?current = turn_chars turn" using current_chars [OF assms(1)] assms(2) by auto
  moreover have "clean_text fragment" using assms(3) LiveDelta by simp
  ultimately show ?thesis using LiveDelta assms(2) delta_chars [of ?current fragment] bounded_turn_chars
    by (simp add: appendRuntimeLiveTurnDelta_def Let_def)
next
  case (LiveItem turnId item completed at_time)
  let ?current = "itemsForTurn num turn turnId at_time"
  have "clean_rows ?current" "row_chars ?current = turn_chars turn" using current_chars [OF assms(1)] assms(2) by auto
  moreover have "same_prose ?current (fst (projected_rows num parse item completed at_time ?current))"
    using assms(3) LiveItem by (intro projected_prose) simp
  moreover obtain rows changed where "projected_rows num parse item completed at_time ?current = (rows, changed)" by force
  ultimately show ?thesis using LiveItem assms(2) bounded_turn_chars [of rows num turnId]
    by (cases changed) (simp_all add: projectRuntimeLiveTurnItem_def same_prose_def)
qed

text \<open>C36. No streamed character goes uncounted, in streams of two kinds of events: deltas whose text has
  no byte order mark and no half of a surrogate pair, and reports that complete no prose (a report
  of prose replaces what was streamed of it). Whatever such events arrive, in whatever turns, the
  characters the live turn shows and the characters its rows say were omitted add up to the
  characters streamed, although the window cuts the oldest text to its byte bound and folds its
  oldest rows. A byte order mark may go uncounted (lemma leading_mark_uncounted).\<close>

theorem live_prose_accounted:
  assumes "\<forall>event \<in> set events. stream_event event"
  shows "turn_chars (fold (live_step num parse) events None) = sum_list (map streamed_chars events)"
proof -
  have "turn_chars (fold (live_step num parse) events turn) = turn_chars turn + sum_list (map streamed_chars events)"
    if "live_ok num turn" "clean_turn turn" for turn
    using assms that
  proof (induction events arbitrary: turn)
    case (Cons event events)
    then show ?case using stream_step [of num turn event parse] live_step_ok [of num turn parse event] by simp
  qed simp
  from this [of None] show ?thesis by (simp add: live_ok_def clean_turn_def turn_chars_def turn_rows_def)
qed

text \<open>C37. A live turn stays within its bounds: after any events of a host it has at most 32 rows in
  the window and 512 behind it, 64 KiB of text and 32 KiB of tool arguments, two KiB and twelve keys
  for one call; a call has one row, which carries no prose, and the text of the turn is that of its
  latest prose.\<close>

theorem live_turn_bounded:
  "live_ok num (fold (live_step num parse) events None)"
  by (rule live.run_ok) (simp add: live_ok_def)

section \<open>Witnesses\<close>

definition demo_digits :: "rat \<Rightarrow> utext" where "demo_digits r = [48]"
definition demo_dateless :: "utext \<Rightarrow> int option" where "demo_dateless t = None"

definition demo_search :: "js_fields \<Rightarrow> bool \<Rightarrow> live_event" where
  "demo_search status completed = LiveItem (units ''t'')
     (VObj ([(units ''type'', VText (units ''webSearch'')), (units ''id'', VText (units ''c''))] @ status)) completed None"

definition demo_events :: "live_event list" where
  "demo_events = [LiveDelta (units ''t'') (units ''ab'') None, demo_search [] False, LiveDelta (units ''t'') (units ''cd'') None]"

theorem live_prose_accounted_witness:
  "turn_chars (fold (live_step demo_digits demo_dateless) demo_events None) = 4"
proof -
  have "\<forall>event \<in> set demo_events. stream_event event"
    by (simp add: demo_events_def demo_search_def clean_text_def scalar_def high_unit_def units_def)
  from live_prose_accounted [OF this, of demo_digits demo_dateless]
  have "turn_chars (fold (live_step demo_digits demo_dateless) demo_events None) = sum_list (map streamed_chars demo_events)" .
  moreover have "sum_list (map streamed_chars demo_events) = 4"
    by (simp add: demo_events_def demo_search_def char_count_def high_unit_def units_def)
  ultimately show ?thesis by simp
qed

lemma one_call_turn:
  assumes "item_tool row = Some tool" "tool_args tool = []" "item_text row = []"
  shows "bounded_turn num turnId [row] = Some \<lparr>live_turnId = turnId, live_text = [], live_items = Some [row], live_overflow = None\<rparr>"
  using assms
  by (simp add: bounded_turn_def kept_rows_def fold_oldest_def latest_text_def argsBytes_def
      LIVE_TURN_ITEM_LIMIT_def LIVE_TURN_OVERFLOW_LIMIT_def LIVE_TURN_TEXT_LIMIT_def)

lemma no_args [simp]: "bounded_fields num [] = []"
  by (simp add: bounded_fields_def shed_args.simps)

definition demo_call_row :: "tool_status \<Rightarrow> live_item" where
  "demo_call_row status = (plain_row (Some (units ''c'')) [] AwaitingEcho None None)
     \<lparr>item_tool := Some \<lparr>tool_name = units ''WebSearch'', tool_engine = CodexEngine, tool_status = status, tool_args = [], tool_argsOmitted = False\<rparr>\<rparr>"

definition demo_call_turn :: "tool_status \<Rightarrow> live_turn" where
  "demo_call_turn status = \<lparr>live_turnId = units ''t'', live_text = [], live_items = Some [demo_call_row status], live_overflow = None\<rparr>"

lemma demo_call_row_turn: "bounded_turn num (units ''t'') [demo_call_row status] = Some (demo_call_turn status)"
  by (simp add: one_call_turn demo_call_row_def demo_call_turn_def plain_row_def)

lemma demo_reports:
  "toolActivities (VObj ([(units ''type'', VText (units ''webSearch'')), (units ''id'', VText (units ''c''))] @ status)) completed
     = [\<lparr>act_call = units ''c'', act_name = Some (units ''WebSearch''), act_engine = CodexEngine,
         act_status = (if completed then codexToolStatus ([(units ''type'', VText (units ''webSearch'')), (units ''id'', VText (units ''c''))] @ status)
           (units ''webSearch'') else ToolRun),
         act_args = Some [], act_argsOmitted = False, act_finished = completed\<rparr>]"
  if "js_get status (units ''role'') = None" "js_get status (units ''message'') = None" "js_get status (units ''query'') = None"
  using that
  by (simp add: toolActivities_def codexToolActivity_def codex_call_def CODEX_TOOL_ITEM_TYPES_def named_text_def
      or_text_def units_def js_get_def field_at_def Let_def)

definition demo_failed :: js_fields where "demo_failed = [(units ''status'', VText (units ''failed''))]"

lemma demo_failed_gets [simp]: "js_get demo_failed (units ''role'') = None" "js_get demo_failed (units ''message'') = None"
  "js_get demo_failed (units ''query'') = None"
  by (simp_all add: demo_failed_def js_get_def units_def)

lemma demo_failed_status [simp]:
  "codexToolStatus ((units ''type'', VText (units ''webSearch'')) # (units ''id'', VText (units ''c'')) # demo_failed) (units ''webSearch'') = ToolErr"
  by (simp add: codexToolStatus_def demo_failed_def js_get_def units_def text_lower_def Let_def)

lemma demo_name [simp]: "clipChars (units ''WebSearch'') TOOL_NAME_LIMIT = units ''WebSearch''"
  by (simp add: clipChars_def units_def TOOL_NAME_LIMIT_def high_unit_def)

lemma demo_silent: "itemIdentity (VObj ([(units ''type'', VText (units ''webSearch'')), (units ''id'', VText (units ''c''))] @ status)) = None"
  "omittedCount (VObj ([(units ''type'', VText (units ''webSearch'')), (units ''id'', VText (units ''c''))] @ status)) key = 0"
  if "js_get status (units ''role'') = None" "js_get status (units ''message'') = None"
  using that by (simp_all add: itemIdentity_def omittedCount_def field_at_def js_get_def units_def or_text_def Let_def)

lemma no_changes: "projectOmittedToolCalls rows 0 source occurredAt = None" "settleOmittedResults parse rows 0 settled occurredAt = None"
  by (simp_all add: projectOmittedToolCalls_def settleOmittedResults_def Let_def)

lemma demo_search_rows:
  assumes "js_get status (units ''role'') = None" "js_get status (units ''message'') = None" "js_get status (units ''query'') = None"
  shows "live_step num parse (demo_search status completed) turn
    = bounded_turn num (units ''t'') (projectToolActivity num None (itemsForTurn num turn (units ''t'') None)
        \<lparr>act_call = units ''c'', act_name = Some (units ''WebSearch''), act_engine = CodexEngine,
         act_status = (if completed then codexToolStatus ([(units ''type'', VText (units ''webSearch'')), (units ''id'', VText (units ''c''))] @ status)
           (units ''webSearch'') else ToolRun),
         act_args = Some [], act_argsOmitted = False, act_finished = completed\<rparr>)"
  unfolding demo_search_def live_step.simps projectRuntimeLiveTurnItem_def projected_rows_def Let_def demo_reports [OF assms]
    demo_silent [OF assms(1,2)]
  by (simp add: changed_by_def no_changes)

lemma demo_words [simp]: "or_text (units ''WebSearch'') t = units ''WebSearch''" "units ''WebSearch'' \<noteq> []"
  by (simp_all add: or_text_def units_def)

lemma demo_started: "live_step num parse (demo_search [] False) None = Some (demo_call_turn ToolRun)"
  by (subst demo_search_rows)
    (simp_all add: js_get_def itemsForTurn_def projectToolActivity_def new_call_def demo_call_row_turn [unfolded demo_call_row_def])

lemma demo_current: "itemsForTurn num (Some (demo_call_turn status)) (units ''t'') at_time = [demo_call_row status]"
  by (simp add: itemsForTurn_def demo_call_turn_def normalizedItems_def normalizedList_def shows_something_def demo_call_row_def
      normalizedItem_def normalizedTool_def plain_row_def)

lemma demo_finished: "live_step num parse (demo_search demo_failed True) (Some (demo_call_turn ToolRun)) = Some (demo_call_turn ToolErr)"
proof -
  have "update_call num \<lparr>act_call = units ''c'', act_name = Some (units ''WebSearch''), act_engine = CodexEngine, act_status = ToolErr,
      act_args = Some [], act_argsOmitted = False, act_finished = True\<rparr> None (demo_call_row ToolRun) = demo_call_row ToolErr"
    by (simp add: update_call_def demo_call_row_def plain_row_def)
  moreover have "is_call (units ''c'') (demo_call_row ToolRun)" by (simp add: is_call_def demo_call_row_def plain_row_def)
  ultimately show ?thesis
    by (subst demo_search_rows) (simp_all add: demo_current projectToolActivity_def demo_call_row_turn)
qed

theorem live_call_status_witness:
  "shown_status (turn_rows (live_step demo_digits demo_dateless (demo_search demo_failed True)
     (fold (live_step demo_digits demo_dateless) [demo_search [] False] None))) (units ''c'') = Some ToolErr"
proof -
  let ?event = "demo_search demo_failed True"
  let ?before = "fold (live_step demo_digits demo_dateless) [demo_search [] False] None"
  have before: "?before = Some (demo_call_turn ToolRun)" by (simp add: demo_started)
  have rows: "turn_rows (Some (demo_call_turn status)) = [demo_call_row status]" for status
    by (simp add: turn_rows_def all_rows_def demo_call_turn_def listed_def)
  have call: "is_call (units ''c'') (demo_call_row status)" "map_option tool_status (item_tool (demo_call_row status)) = Some status" for status
    by (simp_all add: is_call_def demo_call_row_def plain_row_def)
  have "shown_status (turn_rows (live_step demo_digits demo_dateless ?event ?before)) (units ''c'') \<noteq> None"
    unfolding before demo_finished rows by (simp add: call)
  note status = live_call_status [OF this]
  have "event_reports ?event = toolActivities (VObj ([(units ''type'', VText (units ''webSearch'')), (units ''id'', VText (units ''c''))] @ demo_failed)) True"
    by (simp add: demo_search_def)
  then have "fold (call_report (units ''c'')) (event_reports ?event) (shown_status (turn_rows ?before) (units ''c'')) = Some ToolErr"
    unfolding before rows by (simp only: demo_reports [OF demo_failed_gets]) (simp add: call_report_def)
  with status show ?thesis by (simp add: settled_like_def)
qed

end
