(* ===== verification/Spec2Isabelle.thy ===== *)
theory Spec2Isabelle
  imports Handoff_Safety Handoff_Collect Attention_Properties Board_Properties Board_Delta_Roundtrip
    Files_Delta_Roundtrip Linked_Apply_Properties Turn_Properties Verdict_Properties
    Legacy_Review_Properties Voice_Properties Linked_Convergence Live_Prose
begin

text \<open>
  A verification library of the Delegatus server core.

  Delegatus runs coding agents as conversations, shows them on a board, drives them through
  pipelines of stages and keeps linked installs in step. Most of the repository is I/O: processes,
  terminals, git, SQLite, HTTP, React. This library models the parts of \<open>src/lib\<close> that decide,
  as functions of the state they are given, and proves what makes each of them correct. Paths below
  are under \<open>src/lib\<close>.

  Parts, and how they meet.

  The blue-green handoff queue (\<open>runtime/handoffQueue.ts\<close>): when the server is replaced, each
  conversation is a row that passes from the outgoing generation to its successor with the
  deliveries still to be replayed. \<open>Handoff_Queue\<close> has every operation over the store's rows and
  history, \<open>Handoff_Rows\<close> the row algebra, \<open>Handoff_Safety\<close> the invariant and the safety of
  runs; \<open>Handoff_Collect\<close> builds the rows from a snapshot of the registry.

  Attention requests (\<open>attention/types.ts\<close>, \<open>machine.ts\<close>, \<open>store.ts\<close>, \<open>targets.ts\<close>): an
  agent asks the operator to look somewhere. \<open>Attention_Machine\<close> is the life cycle of one
  request with its abstract specification, \<open>Attention_Store\<close> the record of all of them,
  \<open>Attention_Safety\<close> and \<open>Attention_Properties\<close> what every history keeps.

  The board (\<open>board/mutations.ts\<close>, \<open>board/keys.ts\<close>, \<open>boardDelta.ts\<close>): \<open>Board_Mutations\<close>
  reduces operator mutations to a normal board, \<open>Board_Keys\<close> keeps the revision clock of every
  key, \<open>Board_Delta\<close> sends one revision as the patch of the one before. The files the board
  lists go through \<open>filesDelta.ts\<close>, \<open>Files_Delta\<close>. Both codecs read \<open>Json\<close> documents and
  share the run encoding of \<open>Order_Runs\<close>.

  Linked installs (\<open>links/stamp.ts\<close>, \<open>tombstones.ts\<close>, \<open>taskStamp.ts\<close>, \<open>taskApply.ts\<close>):
  \<open>Linked_Stamp\<close> is the hybrid clock and the tombstones over the decimals of \<open>Decimal\<close>,
  \<open>Linked_Task\<close> the stamp every local write of a task passes, \<open>Linked_Apply\<close> the merge of a
  peer's page; \<open>Linked_Stamping\<close>, \<open>Linked_Merge\<close> and \<open>Linked_Burial\<close> hold their lemmas,
  \<open>Linked_Properties\<close> and \<open>Linked_Apply_Properties\<close> the results; \<open>Linked_Convergence\<close> puts the
  merge and the wire form of two installs together.

  Transcripts (\<open>accounts/migration/turnState.ts\<close>): whether the turn of a conversation is over,
  read from the records its provider wrote. \<open>Turn_State\<close> has every projection,
  \<open>Turn_Properties\<close> the equivalence with what the records say.

  The live turn (\<open>runtime/liveTurn.ts\<close>): the prose and the tool calls of a running turn, shown from
  the events of its host until the transcript has them. \<open>Live_Text\<close> has text as code points and as
  UTF-8 bytes with the cuts and \<open>JSON.stringify\<close>, \<open>Live_Turn\<close> the reading of an event, the rows
  and the bounded window, \<open>Live_Turn_Bounds\<close> what the cuts keep, \<open>Live_Turn_Events\<close> the
  invariant under every event, \<open>Live_Turn_Properties\<close> and \<open>Live_Prose\<close> the results.

  Pipelines (\<open>pipelines/verdict.ts\<close>, \<open>attemptSelection.ts\<close>, \<open>failEdgeBudget.ts\<close>,
  \<open>legacyReviewDefinition.ts\<close>, parts of \<open>store.ts\<close> and \<open>engine.ts\<close>, \<open>tasks/summary.ts\<close>): \<open>Verdict\<close> reads the verdict of a stage from its turn or
  its completion call, \<open>Verdict_Fences\<close> and \<open>Verdict_Properties\<close> are about it;
  \<open>Pipeline_Lineage\<close> has the attempts of a lane and the walk back along their activations,
  \<open>Fail_Edge\<close> the budget of a review loop and the route of a failed attempt, which asks
  \<open>Verdict\<close> whether a verdict routes as a fail, \<open>Pass_Edge\<close> the advance of a passed attempt with
  the gate a final fix returns to and the relay it hands on, cut with \<open>Live_Text\<close>;
  \<open>Fail_Edge_Properties\<close> bounds the loop, \<open>Pass_Edge_Properties\<close> says what a completed lane has
  behind it and that every route is decided. \<open>Stage_Graph\<close> is the check every write of the stages
  passes, \<open>Stage_Graph_Properties\<close> what it decides of the graph, and \<open>Pass_Path\<close> puts it together
  with the advance and the new attempt: a lane that passes completes. \<open>Legacy_Review\<close> turns a
  stored review-loop into a reviewer and a fix stage, and back; \<open>Legacy_Review_Properties\<close> holds
  what that keeps.

  The voice companion (\<open>voiceCompanion/contract.ts\<close>, \<open>reducer.ts\<close>, the gates of \<open>gate.ts\<close>
  and \<open>liveGate.ts\<close>): the state drawn from the events of a spoken conversation and of the work it
  delegates. \<open>Voice_State\<close> is the contract and the state, \<open>Voice_Reducer\<close> every branch of the
  reducer; \<open>Voice_Delegation\<close> what one event does to one request, \<open>Voice_Lines\<close> the transcript,
  the calls and the mouth, \<open>Voice_Properties\<close> the results over any stream of events.

  Shared theories. \<open>Prelude\<close> has the JavaScript containers (a \<open>Map\<close> as the association list of
  its insertion order, a \<open>Set\<close> read back as a list, the stable sort) and the order of strings;
  \<open>Contracts\<close> the interfaces: a keyed store, a machine with an invariant, a machine that takes
  nothing back, a step relation, a delta codec. \<open>Js_Text\<close> and \<open>Unit_Text\<close> are text as
  characters and as UTF-16 code units. Every locale is interpreted on the code's own model:
  \<open>keyed_store\<close> on the map of the prelude, the machines on the handoff queue, the companion and the
  live turn, the step relation on the attention store, the codec on board and file deltas; smaller
  locales with the walk of a lineage, the graph of a pipeline's pass edges and the fold of a turn are
  interpreted where they are used.

  What the lemmas show.

  State and steps: the queue, the attention record, the board and the companion keep their
  invariants under every operation, in any order (\<open>handoff_reachable_ok\<close>,
  \<open>attention_reachable_ok\<close>, \<open>board_reduction_normal\<close>, \<open>companion_state_ok\<close>,
  \<open>live_turn_bounded\<close>). Nothing is lost or undone: deliveries in a handoff, an ended request, an
  archived conversation, a deleted linked task, a delivered voice request, a streamed character
  (\<open>live_prose_accounted\<close>), the check a terminal reviewer is owed (\<open>completed_lane_was_reviewed\<close>). Stale
  or repeated input does nothing: a second claim, a stale writer, a replayed row, a counted event
  seen before, the record of a call that finished (\<open>live_call_status\<close>).

  Values: codecs return what was sent (\<open>board_delta_follows\<close>, \<open>files_delta_follows\<close>,
  \<open>verdict_reload\<close>); stamps compare as the times they stand for and never run backwards
  (\<open>stamp_order\<close>, \<open>next_stamp_above\<close>); accepted verdicts have the declared form
  (\<open>verdict_accepted\<close>); the fence scanner and the turn readings agree with a reading by lines
  and by records; two installs that exchange a task read the same (\<open>linked_installs_converge\<close>).

  Endings: a drained generation is retirable, a sweep ends every request, the walks over attempts
  end whatever is recorded (\<open>pipeline_routes_decided\<close>), a stop-after-fix review lane spends at most
  the rounds it was given, one more where failures without a verdict were routed (\<open>review_lane_budget\<close>), and a lane on an accepted graph whose stages pass completes
  (\<open>passing_lane_completes\<close>).

  Definitions of a pipeline: the check of its graph accepts exactly the graphs without a cycle of
  pass edges (\<open>stage_graph_accepted\<close>); a conversion keeps an accepted graph and every other stage
  (\<open>legacy_conversion_sound\<close>), is undone exactly (\<open>legacy_conversion_reverts\<close>), and reaches every
  review-loop a request adds or says why not (\<open>added_reviews_settled\<close>).

  Exceptions the code makes, each a condition of the result and a lemma that shows a run: a remap may
  move a board clock back (\<open>realias_moves_clock_back\<close>, \<open>remap_below_floor_moves_clock_back\<close>); a row
  that comes again may recover the title of an untitled task (\<open>replay_restores_title\<close>); a no-op after
  a Claude turn that ended by its stop reason keeps the session busy (\<open>recovery_after_stop_stays_busy\<close>);
  a failure without a verdict may take a round past the maximum (\<open>lost_failure_takes_extra_round\<close>); a
  reviewer with a pass edge is owed no check of its last fix; a byte order mark may go uncounted
  (\<open>leading_mark_uncounted\<close>); usage, context and level observations are applied however often they
  come (\<open>usage_repeat_applied\<close>).

  Bounds and fuel. No definition takes fuel. Recursion is structural, or descends on a measure:
  the aliases not seen yet in \<open>Board_Mutations\<close> and \<open>Board_Keys\<close>, where a cycle is the reducer's
  own error, the ancestors left in \<open>Handoff_Collect\<close>, the requests left in \<open>Attention_Store\<close>, the
  lines left in \<open>Verdict_Fences\<close>, the keys left in \<open>Live_Turn\<close>, the hops left in \<open>Stage_Graph\<close>,
  whose walks stop after as many as there are stages. \<open>walk_lineage\<close> alone is a
  partial function, whose value \<open>None\<close> is a loop that does not end; \<open>pipeline_routes_decided\<close>
  shows it is never reached. Stamps are the declared thirteen and three digits; \<open>nextStamp\<close> is
  shown to leave them only after the last stamp. The limits of lists and texts are the constants of
  the code.

  Conventions. A field absent in JavaScript is \<open>None\<close>; a throw is \<open>None\<close> or a constructor; a
  number that may not be finite is an optional rational, a count a natural. Objects are compared by
  value where the code compares references and the two agree. Dates are the numbers \<open>Date.parse\<close>
  gives; it, \<open>JSON.parse\<close>, the number form of \<open>JSON.stringify\<close>, \<open>localeCompare\<close>, the
  fingerprint of a task, the role registry, the digest of a graph and the regular expressions of the
  voice gate are parameters. A snapshot of a
  live turn is read at its declared type. A store's transaction is one step.

  Not modelled, and why. Provisioning, spawning, settlement and delivery of the pipeline engine, the
  runtime hosts, the agent registry and the monitor act through processes, git, the forge and
  timers; the deciding parts of the monitor's seat tick, of the registry's census and of the
  attention routing are the next candidates. The workflow and flow engines are retired:
  \<open>flows/retirement.ts\<close> refuses every execution. The stores under
  \<open>state\<close> are SQLite and locks. Team access, the external relay, Telegram, audio and the voice
  adapters are protocols with services outside the repository. The interface, the MCP bindings, the
  route handlers, the message tables, the launchers and the scripts hold no logic of their own that
  a state could be proved about. Of the linked boards, the byte bounds of the wire, the pairing, the
  exchange and the repair are left out; of the tasks, the commands other than those a peer's page
  uses.
\<close>

end
